(* ===== verification/Prelude.thy ===== *)
theory Prelude
  imports Main "HOL-Library.Char_ord" "HOL-Library.List_Lexorder" "HOL-Library.Monad_Syntax"
begin

text \<open>
  Shared ground of the development: the collections the component proofs use, decimal
  numerals as text (what Redis and the Lua scripts keep of a number), and the Python
  string operations the sources call, with their laws.
\<close>

named_theorems redis_simps \<open>laws of the Redis commands on a well-typed keyspace\<close>
named_theorems view_simps \<open>what each typed view shows after a write\<close>
named_theorems script_defs \<open>definitions of the scripts\<close>

subsection \<open>Options and maps\<close>

lemma bind_eq_Some_conv: "Option.bind x f = Some y \<longleftrightarrow> (\<exists>a. x = Some a \<and> f a = Some y)"
  by (cases x) auto

definition or_else :: "'a option \<Rightarrow> 'a \<Rightarrow> 'a" where
  "or_else x d = (case x of None \<Rightarrow> d | Some y \<Rightarrow> y)"

lemma or_else_simps [simp]: "or_else None d = d" "or_else (Some y) d = y"
  by (simp_all add: or_else_def)

lemma or_else_neq_default: "or_else x d \<noteq> d \<Longrightarrow> x = Some (or_else x d)"
  by (cases x) auto

fun those_map :: "('a \<Rightarrow> 'b option) \<Rightarrow> 'a list \<Rightarrow> 'b list option" where
  "those_map f [] = Some []"
| "those_map f (x # xs) = do { y \<leftarrow> f x; ys \<leftarrow> those_map f xs; Some (y # ys) }"

lemma those_map_map:
  "(\<And>x. x \<in> set xs \<Longrightarrow> f (g x) = Some (h x)) \<Longrightarrow> those_map f (map g xs) = Some (map h xs)"
  by (induction xs) auto

lemma map_filter_Some: "(\<And>x. x \<in> set xs \<Longrightarrow> f x = Some (g x)) \<Longrightarrow> List.map_filter f xs = map g xs"
  by (induction xs) (auto simp: List.map_filter_def)

subsection \<open>Decimal numerals\<close>

definition digit_char :: "nat \<Rightarrow> char" where
  "digit_char d = char_of (48 + d)"

definition is_digit :: "char \<Rightarrow> bool" where
  "is_digit c \<longleftrightarrow> (48::nat) \<le> of_char c \<and> (of_char c::nat) \<le> 57"

definition digit_value :: "char \<Rightarrow> nat" where
  "digit_value c = of_char c - 48"

fun show_nat :: "nat \<Rightarrow> string" where
  "show_nat n = (if n < 10 then [digit_char n] else show_nat (n div 10) @ [digit_char (n mod 10)])"

declare show_nat.simps [simp del]

definition parse_nat :: "string \<Rightarrow> nat option" where
  "parse_nat s = (if s \<noteq> [] \<and> list_all is_digit s
                  then Some (foldl (\<lambda>n c. 10 * n + digit_value c) 0 s) else None)"

definition show_int :: "int \<Rightarrow> string" where
  "show_int i = (if i < 0 then CHR ''-'' # show_nat (nat (- i)) else show_nat (nat i))"

fun parse_int :: "string \<Rightarrow> int option" where
  "parse_int [] = None"
| "parse_int (c # s) =
     (if c = CHR ''-'' then map_option (\<lambda>n. - int n) (parse_nat s)
      else map_option int (parse_nat (c # s)))"

lemma of_char_digit: "d < 10 \<Longrightarrow> (of_char (digit_char d) :: nat) = 48 + d"
  by (simp add: digit_char_def)

lemma digit_char_digit [simp]: "d < 10 \<Longrightarrow> is_digit (digit_char d)"
  by (simp add: is_digit_def of_char_digit)

lemma digit_value_digit_char [simp]: "d < 10 \<Longrightarrow> digit_value (digit_char d) = d"
  by (simp add: digit_value_def of_char_digit)

lemma show_nat_nonempty [simp]: "show_nat n \<noteq> []"
  by (subst show_nat.simps) simp

lemma show_nat_digits [simp]: "list_all is_digit (show_nat n)"
proof (induction n rule: show_nat.induct)
  case (1 n)
  then show ?case by (subst show_nat.simps) simp
qed

lemma foldl_show_nat: "foldl (\<lambda>n c. 10 * n + digit_value c) 0 (show_nat n) = n"
proof (induction n rule: show_nat.induct)
  case (1 n)
  then show ?case by (subst show_nat.simps) simp
qed

lemma parse_show_nat [simp]: "parse_nat (show_nat n) = Some n"
  by (simp add: parse_nat_def foldl_show_nat)

lemma show_nat_inject [simp]: "show_nat m = show_nat n \<longleftrightarrow> m = n"
  by (metis option.inject parse_show_nat)

lemma is_digit_facts [simp]:
  "\<not> is_digit (CHR ''-'')" "\<not> is_digit (CHR '':'')" "\<not> is_digit (CHR '','')"
  "\<not> is_digit (CHR 0x22)" "\<not> is_digit (CHR ''{'')" "\<not> is_digit (CHR ''}'')"
  "\<not> is_digit (CHR ''['')" "\<not> is_digit (CHR '']'')" "\<not> is_digit (CHR ''t'')"
  "\<not> is_digit (CHR ''f'')" "\<not> is_digit (CHR ''n'')" "\<not> is_digit (CHR '' '')"
  by (simp_all add: is_digit_def)

lemma not_in_show_nat: "\<not> is_digit c \<Longrightarrow> c \<notin> set (show_nat n)"
  using show_nat_digits [of n] by (auto simp: list_all_iff)

lemma show_int_nonempty [simp]: "show_int i \<noteq> []"
  by (simp add: show_int_def)

lemma parse_show_int [simp]: "parse_int (show_int i) = Some i"
proof (cases "i < 0")
  case True
  then show ?thesis by (simp add: show_int_def)
next
  case False
  obtain c s where cs: "show_nat (nat i) = c # s"
    by (cases "show_nat (nat i)") auto
  then have "is_digit c" using show_nat_digits [of "nat i"] by simp
  then have "c \<noteq> CHR ''-''" by auto
  moreover have "parse_nat (c # s) = Some (nat i)"
    using parse_show_nat [of "nat i"] cs by simp
  ultimately show ?thesis using False cs by (simp add: show_int_def)
qed

lemma show_int_inject [simp]: "show_int i = show_int j \<longleftrightarrow> i = j"
  by (metis option.inject parse_show_int)

lemma not_in_show_int: "\<not> is_digit c \<Longrightarrow> c \<noteq> CHR ''-'' \<Longrightarrow> c \<notin> set (show_int i)"
  by (simp add: show_int_def not_in_show_nat)

subsection \<open>Python string operations\<close>

definition startswith :: "string \<Rightarrow> string \<Rightarrow> bool" where
  "startswith s p \<longleftrightarrow> take (length p) s = p"

definition endswith :: "string \<Rightarrow> string \<Rightarrow> bool" where
  "endswith s p \<longleftrightarrow> length p \<le> length s \<and> drop (length s - length p) s = p"

lemma startswith_append: "startswith (p @ s) p"
  by (simp add: startswith_def)

lemma endswith_append: "endswith (s @ p) p"
  by (simp add: endswith_def)

fun contains :: "string \<Rightarrow> string \<Rightarrow> bool" where
  "contains [] p \<longleftrightarrow> p = []"
| "contains (c # s) p \<longleftrightarrow> startswith (c # s) p \<or> contains s p"

definition to_lower :: "char \<Rightarrow> char" where
  "to_lower c = (if (65::nat) \<le> of_char c \<and> (of_char c::nat) \<le> 90 then char_of ((of_char c::nat) + 32) else c)"

definition lower :: "string \<Rightarrow> string" where
  "lower s = map to_lower s"

text \<open>ASCII white space, as \<open>str.split()\<close> and \<open>str.strip()\<close> treat it.\<close>

definition is_space :: "char \<Rightarrow> bool" where
  "is_space c \<longleftrightarrow> (let n = (of_char c :: nat) in (9 \<le> n \<and> n \<le> 13) \<or> (28 \<le> n \<and> n \<le> 32))"

definition lstrip :: "string \<Rightarrow> string" where
  "lstrip s = dropWhile is_space s"

definition strip :: "string \<Rightarrow> string" where
  "strip s = rev (dropWhile is_space (rev (lstrip s)))"

text \<open>The first word of \<open>s.strip().split(maxsplit=1)\<close>, or \<open>None\<close> where the list is empty.\<close>

definition first_word :: "string \<Rightarrow> string option" where
  "first_word s = (let t = lstrip s in if t = [] then None else Some (takeWhile (\<lambda>c. \<not> is_space c) t))"

fun split_on :: "char \<Rightarrow> string \<Rightarrow> string list" where
  "split_on d [] = [[]]"
| "split_on d (c # s) =
     (if c = d then [] # split_on d s
      else (case split_on d s of [] \<Rightarrow> [[c]] | w # ws \<Rightarrow> (c # w) # ws))"

lemma split_on_nonempty [simp]: "split_on d s \<noteq> []"
  by (induction s) (auto split: list.splits)

lemma split_on_atom: "d \<notin> set w \<Longrightarrow> split_on d w = [w]"
  by (induction w) auto

lemma split_on_append: "d \<notin> set w \<Longrightarrow> split_on d (w @ d # s) = w # split_on d s"
  by (induction w) auto

text \<open>\<open>s.split(':', 1)[0]\<close>: everything before the first occurrence of the separator.\<close>

definition before_first :: "char \<Rightarrow> string \<Rightarrow> string" where
  "before_first d s = takeWhile (\<lambda>c. c \<noteq> d) s"

lemma before_first_append [simp]: "d \<notin> set w \<Longrightarrow> before_first d (w @ d # s) = w"
  by (induction w) (auto simp: before_first_def)

text \<open>\<open>s.rsplit(':', 1)\<close> with two parts, \<open>None\<close> where the separator does not occur.\<close>

definition rsplit_once :: "char \<Rightarrow> string \<Rightarrow> (string \<times> string) option" where
  "rsplit_once d s =
     (let r = rev s; post = takeWhile (\<lambda>c. c \<noteq> d) r; rest = dropWhile (\<lambda>c. c \<noteq> d) r
      in case rest of [] \<Rightarrow> None | _ # pre \<Rightarrow> Some (rev pre, rev post))"

lemma rsplit_once_append: "d \<notin> set w \<Longrightarrow> rsplit_once d (s @ d # w) = Some (s, w)"
proof -
  assume "d \<notin> set w"
  then have *: "\<forall>c\<in>set (rev w). c \<noteq> d" by auto
  have "takeWhile (\<lambda>c. c \<noteq> d) (rev w @ d # rev s) = rev w"
    using * by (subst takeWhile_append2) auto
  moreover have "dropWhile (\<lambda>c. c \<noteq> d) (rev w @ d # rev s) = d # rev s"
    using * by (subst dropWhile_append2) auto
  ultimately show ?thesis by (simp add: rsplit_once_def Let_def)
qed

text \<open>Two texts that end in a separator and a separator-free tag agree only part by part.\<close>

lemma tagged_inject:
  assumes "(d::char) \<notin> set u" "d \<notin> set v"
  shows "x @ d # u = y @ d # v \<longleftrightarrow> x = y \<and> u = v"
proof
  assume "x @ d # u = y @ d # v"
  then have "rsplit_once d (x @ d # u) = rsplit_once d (y @ d # v)" by simp
  then show "x = y \<and> u = v" using assms by (simp add: rsplit_once_append)
qed simp

lemma headed_inject:
  assumes "(d::char) \<notin> set u" "d \<notin> set v"
  shows "u @ d # x = v @ d # y \<longleftrightarrow> u = v \<and> x = y"
proof
  assume eq: "u @ d # x = v @ d # y"
  then have "before_first d (u @ d # x) = before_first d (v @ d # y)" by simp
  then have "u = v" using assms by simp
  with eq show "u = v \<and> x = y" by simp
qed simp

text \<open>\<open>','.join(...)\<close> and the membership test the scripts make with \<open>string.find(..., 1, true)\<close>.\<close>

fun join :: "string \<Rightarrow> string list \<Rightarrow> string" where
  "join sep [] = []"
| "join sep [x] = x"
| "join sep (x # y # xs) = x @ sep @ join sep (y # xs)"

text \<open>
  Texts are kept as UTF-8. A byte starts a character unless it is a continuation byte; \<open>len(s)\<close>
  is the number of such bytes and \<open>s[:n]\<close> cuts before the one that starts character \<open>n\<close>.
\<close>

definition starts_character :: "char \<Rightarrow> bool" where
  "starts_character c \<longleftrightarrow> \<not> (128 \<le> (of_char c :: nat) \<and> (of_char c :: nat) < 192)"

definition char_len :: "string \<Rightarrow> nat" where
  "char_len s = length (filter starts_character s)"

fun take_chars :: "nat \<Rightarrow> string \<Rightarrow> string" where
  "take_chars n [] = []"
| "take_chars n (c # s) =
     (if starts_character c then (case n of 0 \<Rightarrow> [] | Suc m \<Rightarrow> c # take_chars m s) else c # take_chars n s)"

lemma char_len_append [simp]: "char_len (s @ t) = char_len s + char_len t"
  by (simp add: char_len_def)

lemma char_len_simps [simp]: "char_len [] = 0" "char_len (c # s) = (if starts_character c then Suc (char_len s) else char_len s)"
  by (simp_all add: char_len_def)

lemma char_len_take_chars: "char_len (take_chars n s) = min n (char_len s)"
  by (induction n s rule: take_chars.induct) (auto split: nat.split)

lemma take_chars_prefix: "\<exists>t. s = take_chars n s @ t"
  by (induction n s rule: take_chars.induct) (auto split: nat.split)

end
