(* ===== verification/Json_Text.thy ===== *)
theory Json_Text
  imports Prelude "HOL-Library.AList"
begin

text \<open>
  JSON documents as the runtime stores them in Redis fields: the compact text that
  \<open>json.dumps(..., ensure_ascii=False, separators=(",", ":"), sort_keys=True)\<close> and
  \<open>cjson.encode\<close> write, and the reader behind \<open>json.loads\<close> and \<open>cjson.decode\<close>.
  Texts are byte strings (UTF-8). A float is carried as its lexeme: Python prints the
  shortest text that reads back to the same float, so the lexeme identifies it.
\<close>

datatype json =
    JNull
  | JBool bool
  | JInt int
  | JFloat string
  | JStr string
  | JArr "json list"
  | JObj "(string \<times> json) list"

type_synonym dict = "(string \<times> json) list"

subsection \<open>Writing\<close>

definition hex_char :: "nat \<Rightarrow> char" where
  "hex_char d = (if d < 10 then char_of (48 + d) else char_of (87 + d))"

definition unicode_escape :: "char \<Rightarrow> string" where
  "unicode_escape c = CHR 0x5C # ''u00'' @ [hex_char (of_char c div 16), hex_char (of_char c mod 16)]"

text \<open>Python's escapes under \<open>ensure_ascii=False\<close>: quotes, backslashes and control characters.\<close>

definition py_escape :: "char \<Rightarrow> string" where
  "py_escape c =
     (if c = CHR 0x22 \<or> c = CHR 0x5C then [CHR 0x5C, c]
      else if c = CHR 0x0A then [CHR 0x5C, CHR ''n''] else if c = CHR 0x0D then [CHR 0x5C, CHR ''r'']
      else if c = CHR 0x09 then [CHR 0x5C, CHR ''t''] else if c = CHR 0x08 then [CHR 0x5C, CHR ''b'']
      else if c = CHR 0x0C then [CHR 0x5C, CHR ''f'']
      else if (of_char c :: nat) < 32 then unicode_escape c else [c])"

text \<open>lua-cjson also escapes the slash and the delete character.\<close>

definition cjson_escape :: "char \<Rightarrow> string" where
  "cjson_escape c =
     (if c = CHR ''/'' then [CHR 0x5C, CHR ''/''] else if c = CHR 0x7F then unicode_escape c else py_escape c)"

definition quoted :: "(char \<Rightarrow> string) \<Rightarrow> string \<Rightarrow> string" where
  "quoted esc s = CHR 0x22 # concat (map esc s) @ [CHR 0x22]"

fun print_json :: "(char \<Rightarrow> string) \<Rightarrow> json \<Rightarrow> string" where
  "print_json esc JNull = ''null''"
| "print_json esc (JBool b) = (if b then ''true'' else ''false'')"
| "print_json esc (JInt i) = show_int i"
| "print_json esc (JFloat l) = l"
| "print_json esc (JStr s) = quoted esc s"
| "print_json esc (JArr xs) = CHR ''['' # join '','' (map (print_json esc) xs) @ [CHR '']'']"
| "print_json esc (JObj kvs) =
     CHR ''{'' # join '','' (map (\<lambda>(k, v). quoted esc k @ CHR '':'' # print_json esc v) kvs) @ [CHR ''}'']"

text \<open>\<open>sort_keys=True\<close>.\<close>

fun sort_keys :: "json \<Rightarrow> json" where
  "sort_keys (JArr xs) = JArr (map sort_keys xs)"
| "sort_keys (JObj kvs) = JObj (sort_key fst (map (\<lambda>(k, v). (k, sort_keys v)) kvs))"
| "sort_keys j = j"

definition dumps :: "json \<Rightarrow> string" where
  "dumps j = print_json py_escape (sort_keys j)"

text \<open>A decoded array with no element is an empty Lua table, which cjson writes as an object.\<close>

fun lua_table :: "json \<Rightarrow> json" where
  "lua_table (JArr []) = JObj []"
| "lua_table (JArr (x # xs)) = JArr (lua_table x # map lua_table xs)"
| "lua_table (JObj kvs) = JObj (map (\<lambda>(k, v). (k, lua_table v)) kvs)"
| "lua_table j = j"

definition cjson_encode :: "json \<Rightarrow> string" where
  "cjson_encode j = print_json cjson_escape (lua_table j)"

subsection \<open>Reading\<close>

definition json_space :: "char \<Rightarrow> bool" where
  "json_space c \<longleftrightarrow> (of_char c :: nat) \<in> {9, 10, 13, 32}"

definition ws :: "string \<Rightarrow> string" where
  "ws s = dropWhile json_space s"

definition hex_value :: "char \<Rightarrow> nat option" where
  "hex_value c = (let n = (of_char c :: nat) in
     if 48 \<le> n \<and> n \<le> 57 then Some (n - 48)
     else if 97 \<le> n \<and> n \<le> 102 then Some (n - 87)
     else if 65 \<le> n \<and> n \<le> 70 then Some (n - 55) else None)"

text \<open>
  \<open>\u\<close> escapes are read up to code point 127, all that the two writers produce.
\<close>

fun parse_str :: "string \<Rightarrow> (string \<times> string) option" where
  "parse_str [] = None"
| "parse_str (c # r) =
     (if c = CHR 0x22 then Some ([], r)
      else if c = CHR 0x5C then
        (case r of
           [] \<Rightarrow> None
         | e # r1 \<Rightarrow>
             (if e = CHR ''u'' then
                (case r1 of
                   h1 # h2 # h3 # h4 # r2 \<Rightarrow>
                     (case (hex_value h1, hex_value h2, hex_value h3, hex_value h4) of
                        (Some 0, Some 0, Some a, Some b) \<Rightarrow>
                          (if a < 8 then map_option (\<lambda>(t, r'). (char_of (16 * a + b) # t, r')) (parse_str r2)
                           else None)
                      | _ \<Rightarrow> None)
                 | _ \<Rightarrow> None)
              else
                (case map_of [(CHR 0x22, CHR 0x22), (CHR 0x5C, CHR 0x5C), (CHR ''/'', CHR ''/''),
                              (CHR ''b'', CHR 0x08), (CHR ''f'', CHR 0x0C), (CHR ''n'', CHR 0x0A),
                              (CHR ''r'', CHR 0x0D), (CHR ''t'', CHR 0x09)] e of
                   None \<Rightarrow> None
                 | Some d \<Rightarrow> map_option (\<lambda>(t, r'). (d # t, r')) (parse_str r1))))
      else if (of_char c :: nat) < 32 then None
      else map_option (\<lambda>(t, r'). (c # t, r')) (parse_str r))"

definition num_char :: "char \<Rightarrow> bool" where
  "num_char c \<longleftrightarrow> is_digit c \<or> c \<in> {CHR ''-'', CHR ''+'', CHR ''.'', CHR ''e'', CHR ''E''}"

definition int_lexeme :: "string \<Rightarrow> int option" where
  "int_lexeme t = (if t = ''-0'' then Some 0
     else case parse_int t of Some i \<Rightarrow> if show_int i = t then Some i else None | None \<Rightarrow> None)"

definition exp_lexeme :: "string \<Rightarrow> bool" where
  "exp_lexeme t = (case t of
      [] \<Rightarrow> True
    | c # s \<Rightarrow> c \<in> {CHR ''e'', CHR ''E''} \<and>
        (let d = (case s of x # y \<Rightarrow> if x \<in> {CHR ''+'', CHR ''-''} then y else s | [] \<Rightarrow> [])
         in d \<noteq> [] \<and> list_all is_digit d))"

definition float_lexeme :: "string \<Rightarrow> bool" where
  "float_lexeme t =
     (let neg = (case t of c # _ \<Rightarrow> c = CHR ''-'' | [] \<Rightarrow> False);
          u = (if neg then tl t else t);
          i = takeWhile is_digit u; r = dropWhile is_digit u
      in (i = ''0'' \<or> (i \<noteq> [] \<and> hd i \<noteq> CHR ''0'')) \<and> r \<noteq> [] \<and>
         (case r of
            CHR ''.'' # f \<Rightarrow> takeWhile is_digit f \<noteq> [] \<and> exp_lexeme (dropWhile is_digit f)
          | _ \<Rightarrow> exp_lexeme r))"

definition parse_num :: "string \<Rightarrow> (json \<times> string) option" where
  "parse_num s =
     (let t = takeWhile num_char s; r = dropWhile num_char s
      in case int_lexeme t of
           Some i \<Rightarrow> Some (JInt i, r)
         | None \<Rightarrow> if float_lexeme t then Some (JFloat t, r) else None)"

text \<open>A Python dictionary built key by key: a repeated key keeps its place and its last value.\<close>

definition dict_of :: "dict \<Rightarrow> dict" where
  "dict_of kvs = foldl (\<lambda>d (k, v). AList.update k v d) [] kvs"

text \<open>The rest of the text after white space and the given character, if it is next.\<close>

definition accept :: "char \<Rightarrow> string \<Rightarrow> string option" where
  "accept d s = (case ws s of [] \<Rightarrow> None | c # r \<Rightarrow> if c = d then Some r else None)"

fun parse_value :: "nat \<Rightarrow> string \<Rightarrow> (json \<times> string) option"
  and parse_elems :: "nat \<Rightarrow> string \<Rightarrow> (json list \<times> string) option"
  and parse_members :: "nat \<Rightarrow> string \<Rightarrow> (dict \<times> string) option"
where
  "parse_value 0 s = None"
| "parse_value (Suc n) s =
     (case ws s of
        [] \<Rightarrow> None
      | c # r \<Rightarrow>
          if c = CHR 0x22 then map_option (\<lambda>(t, r'). (JStr t, r')) (parse_str r)
          else if c = CHR ''['' then
            (case accept (CHR '']'') r of
               Some r' \<Rightarrow> Some (JArr [], r')
             | None \<Rightarrow> map_option (\<lambda>(xs, r'). (JArr xs, r')) (parse_elems n r))
          else if c = CHR ''{'' then
            (case accept (CHR ''}'') r of
               Some r' \<Rightarrow> Some (JObj [], r')
             | None \<Rightarrow> map_option (\<lambda>(kvs, r'). (JObj (dict_of kvs), r')) (parse_members n r))
          else if startswith (c # r) ''null'' then Some (JNull, drop 4 (c # r))
          else if startswith (c # r) ''true'' then Some (JBool True, drop 4 (c # r))
          else if startswith (c # r) ''false'' then Some (JBool False, drop 5 (c # r))
          else parse_num (c # r))"
| "parse_elems 0 s = None"
| "parse_elems (Suc n) s =
     do { (x, r) \<leftarrow> parse_value n s;
          case accept (CHR '','') r of
            Some r' \<Rightarrow> map_option (\<lambda>(xs, r''). (x # xs, r'')) (parse_elems n r')
          | None \<Rightarrow> map_option (\<lambda>r'. ([x], r')) (accept (CHR '']'') r) }"
| "parse_members 0 s = None"
| "parse_members (Suc n) s =
     do { r \<leftarrow> accept (CHR 0x22) s;
          (k, r1) \<leftarrow> parse_str r;
          r2 \<leftarrow> accept (CHR '':'') r1;
          (v, r3) \<leftarrow> parse_value n r2;
          case accept (CHR '','') r3 of
            Some r4 \<Rightarrow> map_option (\<lambda>(kvs, r5). ((k, v) # kvs, r5)) (parse_members n r4)
          | None \<Rightarrow> map_option (\<lambda>r4. ([(k, v)], r4)) (accept (CHR ''}'') r3) }"

text \<open>Every recursive call consumes a character first, so the text's length is fuel enough.\<close>

definition loads :: "string \<Rightarrow> json option" where
  "loads s = do { (j, r) \<leftarrow> parse_value (2 * length s + 2) s; if ws r = [] then Some j else None }"

subsection \<open>What is read is what was written\<close>

text \<open>Documents a Python program can hold: no key twice in an object, floats in JSON syntax.\<close>

fun wf_json :: "json \<Rightarrow> bool" where
  "wf_json (JFloat l) \<longleftrightarrow> float_lexeme l \<and> list_all num_char l \<and> int_lexeme l = None"
| "wf_json (JArr xs) \<longleftrightarrow> list_all wf_json xs"
| "wf_json (JObj kvs) \<longleftrightarrow> distinct (map fst kvs) \<and> list_all (\<lambda>(k, v). wf_json v) kvs"
| "wf_json j \<longleftrightarrow> True"

definition ends :: "string \<Rightarrow> bool" where
  "ends r \<longleftrightarrow> (case r of [] \<Rightarrow> True | c # _ \<Rightarrow> c \<in> {CHR '','', CHR '']'', CHR ''}''})"

definition value_start :: "char \<Rightarrow> bool" where
  "value_start c \<longleftrightarrow> is_digit c \<or> c \<in> {CHR ''-'', CHR 0x22, CHR ''['', CHR ''{'', CHR ''n'', CHR ''t'', CHR ''f''}"

lemma value_start_facts [simp]:
  "value_start c \<Longrightarrow> \<not> json_space c" "value_start c \<Longrightarrow> c \<noteq> CHR '']''" "value_start c \<Longrightarrow> c \<noteq> CHR ''}''"
  by (auto simp: value_start_def json_space_def is_digit_def)

lemma ws_start [simp]: "value_start c \<Longrightarrow> ws (c # r) = c # r"
  by (simp add: ws_def)

lemma ws_punct [simp]: "c \<in> {CHR '','', CHR '']'', CHR ''}'', CHR '':'', CHR 0x22} \<Longrightarrow> ws (c # r) = c # r"
  by (auto simp: ws_def json_space_def)

lemma accept_punct [simp]:
  "c \<in> {CHR '','', CHR '']'', CHR ''}'', CHR '':'', CHR 0x22} \<Longrightarrow> accept d (c # r) = (if c = d then Some r else None)"
  by (simp add: accept_def)

lemma accept_start [simp]: "value_start c \<Longrightarrow> accept d (c # r) = (if c = d then Some r else None)"
  by (simp add: accept_def)

lemma ws_Nil [simp]: "ws [] = []"
  by (simp add: ws_def)

lemma ends_num: "ends r \<Longrightarrow> dropWhile num_char r = r \<and> takeWhile num_char r = []"
  by (auto simp: ends_def num_char_def split: list.splits)

lemma show_int_num_chars: "list_all num_char (show_int i)"
  using show_nat_digits by (auto simp: show_int_def num_char_def list_all_iff)

lemma show_int_start: "\<exists>c cs. show_int i = c # cs \<and> (is_digit c \<or> c = CHR ''-'')"
proof (cases "i < 0")
  case True
  then show ?thesis by (simp add: show_int_def)
next
  case False
  obtain c cs where "show_nat (nat i) = c # cs" by (cases "show_nat (nat i)") auto
  with show_nat_digits [of "nat i"] False show ?thesis by (auto simp: show_int_def)
qed

lemma float_start: "float_lexeme l \<Longrightarrow> \<exists>c cs. l = c # cs \<and> (is_digit c \<or> c = CHR ''-'')"
  by (cases l) (auto simp: float_lexeme_def Let_def split: if_splits)

lemma takeWhile_all_append: "list_all P xs \<Longrightarrow> takeWhile P (xs @ ys) = xs @ takeWhile P ys"
  by (induction xs) auto

lemma dropWhile_all_append: "list_all P xs \<Longrightarrow> dropWhile P (xs @ ys) = dropWhile P ys"
  by (induction xs) auto

lemma int_lexeme_show_int [simp]: "int_lexeme (show_int i) = Some i"
proof (cases "show_int i = ''-0''")
  case True
  have "parse_int ''-0'' = Some 0"
    by (simp add: parse_nat_def is_digit_def digit_value_def)
  with True parse_show_int [of i] show ?thesis by (simp add: int_lexeme_def)
qed (simp add: int_lexeme_def)

lemma parse_num_int: "ends r \<Longrightarrow> parse_num (show_int i @ r) = Some (JInt i, r)"
  using ends_num [of r] show_int_num_chars [of i]
  by (simp add: parse_num_def takeWhile_all_append dropWhile_all_append)

lemma parse_num_float: "ends r \<Longrightarrow> wf_json (JFloat l) \<Longrightarrow> parse_num (l @ r) = Some (JFloat l, r)"
  using ends_num [of r] by (simp add: parse_num_def takeWhile_all_append dropWhile_all_append)

lemma number_start_not_word:
  assumes "is_digit c \<or> c = CHR ''-''"
  shows "c \<noteq> CHR 0x22 \<and> c \<noteq> CHR ''['' \<and> c \<noteq> CHR ''{'' \<and> \<not> startswith (c # r) ''null''
    \<and> \<not> startswith (c # r) ''true'' \<and> \<not> startswith (c # r) ''false'' \<and> value_start c"
  using assms by (auto simp: startswith_def value_start_def)

lemma dict_of_distinct: "distinct (map fst kvs) \<Longrightarrow> dict_of kvs = kvs"
proof -
  have "distinct (map fst (acc @ kvs)) \<Longrightarrow> foldl (\<lambda>d (k, v). AList.update k v d) acc kvs = acc @ kvs" for acc
  proof (induction kvs arbitrary: acc)
    case Nil
    then show ?case by simp
  next
    case (Cons m kvs)
    obtain k v where m: "m = (k, v)" by (cases m)
    have "k \<notin> set (map fst acc)" using Cons.prems m by auto
    then have "AList.update k v acc = acc @ [(k, v)]" by (induction acc) auto
    with Cons m show ?case by auto
  qed
  from this [of "[]"] show "distinct (map fst kvs) \<Longrightarrow> dict_of kvs = kvs" by (simp add: dict_of_def)
qed

text \<open>
  What the reader needs of a writer's escapes. Both writers satisfy it, and the round
  trip is proved once for any that does.
\<close>

locale string_escape =
  fixes esc :: "char \<Rightarrow> string"
  assumes parse_esc: "parse_str (esc c @ r) = map_option (\<lambda>(t, r'). (c # t, r')) (parse_str r)"
begin

lemma parse_quoted: "parse_str (concat (map esc s) @ CHR 0x22 # r) = Some (s, r)"
  by (induction s) (auto simp: parse_esc)

lemma print_json_start: "wf_json j \<Longrightarrow> \<exists>c cs. print_json esc j = c # cs \<and> value_start c"
  using show_int_start float_start
  by (cases j) (fastforce simp: value_start_def quoted_def)+

lemma parse_number:
  assumes "t = c # cs" "is_digit c \<or> c = CHR ''-''" "parse_num (t @ r) = Some (j, r)"
  shows "parse_value (Suc n) (t @ r) = Some (j, r)"
  using assms number_start_not_word [of c "cs @ r"] by simp

text \<open>The texts between the brackets of an array and between the braces of an object.\<close>

abbreviation elems :: "json list \<Rightarrow> string" where
  "elems xs \<equiv> join '','' (map (print_json esc) xs)"

abbreviation members :: "dict \<Rightarrow> string" where
  "members kvs \<equiv> join '','' (map (\<lambda>(k, v). quoted esc k @ CHR '':'' # print_json esc v) kvs)"

definition reads_back :: "json \<Rightarrow> bool" where
  "reads_back j \<longleftrightarrow> (\<forall>r n. ends r \<longrightarrow> length (print_json esc j) < n \<longrightarrow>
     parse_value n (print_json esc j @ r) = Some (j, r))"

lemma reads_backD:
  "reads_back j \<Longrightarrow> ends r \<Longrightarrow> length (print_json esc j) < n \<Longrightarrow> parse_value n (print_json esc j @ r) = Some (j, r)"
  by (simp add: reads_back_def)

lemma ends_simps [simp]: "ends []" "ends (CHR '','' # r)" "ends (CHR '']'' # r)" "ends (CHR ''}'' # r)"
  by (simp_all add: ends_def)

lemma parse_elems_print:
  "(\<And>x. x \<in> set xs \<Longrightarrow> reads_back x) \<Longrightarrow> xs \<noteq> [] \<Longrightarrow> length (elems xs) + 1 < n \<Longrightarrow>
     parse_elems n (elems xs @ CHR '']'' # r) = Some (xs, r)"
proof (induction xs arbitrary: n)
  case Nil
  then show ?case by simp
next
  case (Cons x xs)
  obtain m where n: "n = Suc m" using Cons.prems by (cases n) auto
  have x: "reads_back x" using Cons.prems by simp
  show ?case
  proof (cases xs)
    case Nil
    then show ?thesis using Cons.prems n by (simp add: reads_backD [OF x])
  next
    case (Cons y ys)
    then have "parse_elems m (elems xs @ CHR '']'' # r) = Some (xs, r)"
      using Cons.prems n by (intro Cons.IH) auto
    then show ?thesis using Cons Cons.prems n by (simp add: reads_backD [OF x])
  qed
qed

lemma parse_members_print:
  "(\<And>k v. (k, v) \<in> set kvs \<Longrightarrow> reads_back v) \<Longrightarrow> kvs \<noteq> [] \<Longrightarrow> length (members kvs) + 1 < n \<Longrightarrow>
     parse_members n (members kvs @ CHR ''}'' # r) = Some (kvs, r)"
proof (induction kvs arbitrary: n)
  case Nil
  then show ?case by simp
next
  case (Cons m kvs)
  obtain n' where n: "n = Suc n'" using Cons.prems by (cases n) auto
  obtain k v where m: "m = (k, v)" by (cases m)
  have v: "reads_back v" using Cons.prems(1) [of k v] m by simp
  show ?case
  proof (cases kvs)
    case Nil
    then show ?thesis
      using Cons.prems n m by (simp add: reads_backD [OF v] quoted_def parse_quoted)
  next
    case (Cons y ys)
    then have "parse_members n' (members kvs @ CHR ''}'' # r) = Some (kvs, r)"
      using Cons.prems n m by (intro Cons.IH) (auto simp: quoted_def)
    then show ?thesis
      using Cons Cons.prems n m by (simp add: reads_backD [OF v] quoted_def parse_quoted)
  qed
qed

lemma reads_back_Suc:
  "(\<And>r m. ends r \<Longrightarrow> length (print_json esc j) \<le> m \<Longrightarrow> parse_value (Suc m) (print_json esc j @ r) = Some (j, r))
   \<Longrightarrow> reads_back j"
  unfolding reads_back_def
proof (intro allI impI)
  fix r n
  assume *: "\<And>r m. ends r \<Longrightarrow> length (print_json esc j) \<le> m \<Longrightarrow>
      parse_value (Suc m) (print_json esc j @ r) = Some (j, r)"
    and r: "ends r" and n: "length (print_json esc j) < n"
  from n obtain m where "n = Suc m" "length (print_json esc j) \<le> m" by (cases n) auto
  with * [OF r] show "parse_value n (print_json esc j @ r) = Some (j, r)" by simp
qed

lemma value_start_open [simp]: "value_start (CHR ''['')" "value_start (CHR ''{'')" "value_start (CHR 0x22)"
  "value_start (CHR ''n'')" "value_start (CHR ''t'')" "value_start (CHR ''f'')"
  by (simp_all add: value_start_def)

lemma parse_array:
  assumes "list_all wf_json xs" "\<And>x. x \<in> set xs \<Longrightarrow> reads_back x"
  shows "reads_back (JArr xs)"
proof (cases xs)
  case Nil
  then show ?thesis by (intro reads_back_Suc) simp
next
  case (Cons x ys)
  obtain c cs where c: "elems xs = c # cs" "value_start c"
    using assms(1) Cons print_json_start [of x] by (cases ys) auto
  show ?thesis
  proof (rule reads_back_Suc)
    fix r m assume "length (print_json esc (JArr xs)) \<le> m"
    then have "parse_elems m (elems xs @ CHR '']'' # r) = Some (xs, r)"
      using assms(2) Cons by (intro parse_elems_print) auto
    then show "parse_value (Suc m) (print_json esc (JArr xs) @ r) = Some (JArr xs, r)"
      using c by simp
  qed
qed

lemma parse_object:
  assumes "distinct (map fst kvs)" "\<And>k v. (k, v) \<in> set kvs \<Longrightarrow> reads_back v"
  shows "reads_back (JObj kvs)"
proof (cases kvs)
  case Nil
  then show ?thesis by (intro reads_back_Suc) simp
next
  case (Cons p ps)
  then obtain cs where c: "members kvs = CHR 0x22 # cs"
    by (cases p; cases ps) (auto simp: quoted_def)
  show ?thesis
  proof (rule reads_back_Suc)
    fix r m assume "length (print_json esc (JObj kvs)) \<le> m"
    then have "parse_members m (members kvs @ CHR ''}'' # r) = Some (kvs, r)"
      using assms(2) Cons by (intro parse_members_print) auto
    then show "parse_value (Suc m) (print_json esc (JObj kvs) @ r) = Some (JObj kvs, r)"
      using c assms(1) by (simp add: dict_of_distinct)
  qed
qed

lemma reads_back_wf: "wf_json j \<Longrightarrow> reads_back j"
proof (induction j)
  case (JInt i)
  obtain c cs where c: "show_int i = c # cs" "is_digit c \<or> c = CHR ''-''"
    using show_int_start [of i] by blast
  show ?case
    by (rule reads_back_Suc, unfold print_json.simps, rule parse_number [OF c parse_num_int])
next
  case (JFloat l)
  then obtain c cs where c: "l = c # cs" "is_digit c \<or> c = CHR ''-''"
    using float_start [of l] by auto
  show ?case
    by (rule reads_back_Suc, unfold print_json.simps, rule parse_number [OF c parse_num_float [OF _ JFloat]])
next
  case (JArr xs)
  then show ?case by (intro parse_array) (auto simp: list_all_iff)
next
  case (JObj kvs)
  then show ?case by (intro parse_object) (force simp: list_all_iff)+
qed (auto intro!: reads_back_Suc simp: startswith_def quoted_def parse_quoted)

text \<open>A document written with these escapes is read back as it was.\<close>

lemma loads_print: "wf_json j \<Longrightarrow> loads (print_json esc j) = Some j"
  using reads_backD [OF reads_back_wf, of j "[]" "2 * length (print_json esc j) + 2"]
  by (simp add: loads_def)

end

lemma hex_value_hex_char [simp]: "d < 16 \<Longrightarrow> hex_value (hex_char d) = Some d"
  by (auto simp: hex_value_def hex_char_def Let_def)

lemma hex_value_0 [simp]: "hex_value (CHR ''0'') = Some 0"
  by (simp add: hex_value_def)

lemma parse_unicode_escape:
  assumes "(of_char c :: nat) < 128"
  shows "parse_str (unicode_escape c @ r) = map_option (\<lambda>(t, r'). (c # t, r')) (parse_str r)"
proof -
  have "(of_char c :: nat) div 16 < 8" using assms by linarith
  moreover have "char_of (16 * ((of_char c :: nat) div 16) + of_char c mod 16) = c"
    by (simp only: mult_div_mod_eq char_of_char)
  ultimately show ?thesis by (simp add: unicode_escape_def)
qed

lemma parse_py_escape: "parse_str (py_escape c @ r) = map_option (\<lambda>(t, r'). (c # t, r')) (parse_str r)"
  using parse_unicode_escape [of c r] by (simp add: py_escape_def)

lemma parse_cjson_escape: "parse_str (cjson_escape c @ r) = map_option (\<lambda>(t, r'). (c # t, r')) (parse_str r)"
  using parse_unicode_escape [of "CHR 0x7F" r] parse_py_escape [of c r] by (simp add: cjson_escape_def)

interpretation py_text: string_escape py_escape
  by unfold_locales (rule parse_py_escape)

interpretation cjson_text: string_escape cjson_escape
  by unfold_locales (rule parse_cjson_escape)

lemma distinct_map_fst_sort_key [simp]: "distinct (map fst (sort_key fst kvs)) = distinct (map fst kvs)"
  by (simp add: distinct_map)

lemma wf_sort_keys: "wf_json j \<Longrightarrow> wf_json (sort_keys j)"
proof (induction j rule: sort_keys.induct)
  case (2 kvs)
  then show ?case by (force simp: list_all_iff comp_def split_beta)
qed (auto simp: list_all_iff)

lemma wf_lua_table: "wf_json j \<Longrightarrow> wf_json (lua_table j)"
proof (induction j rule: lua_table.induct)
  case (3 kvs)
  then show ?case by (force simp: list_all_iff comp_def split_beta)
qed (auto simp: list_all_iff)

lemma map_of_sort_key: "distinct (map fst kvs) \<Longrightarrow> map_of (sort_key fst kvs) = map_of kvs"
proof
  fix k assume "distinct (map fst kvs)"
  then have "map_of (sort_key fst kvs) k = Some v \<longleftrightarrow> map_of kvs k = Some v" for v by simp
  then show "map_of (sort_key fst kvs) k = map_of kvs k" by (metis not_None_eq)
qed

lemma loads_dumps: "wf_json j \<Longrightarrow> loads (dumps j) = Some (sort_keys j)"
  by (simp add: dumps_def py_text.loads_print wf_sort_keys)

lemma loads_cjson_encode: "wf_json j \<Longrightarrow> loads (cjson_encode j) = Some (lua_table j)"
  by (simp add: cjson_encode_def cjson_text.loads_print wf_lua_table)

end
