(* ===== verification/Models.thy ===== *)
theory Models
  imports Json_Text
begin

text \<open>
  The wire records of the runtime (\<open>pr_agent/distributed/models.py\<close>): the string
  enumerations, the MR key, the task envelope, pipeline events and wait identities and
  notification envelopes, each with its \<open>to_dict\<close>/\<open>from_dict\<close> pair. A constructor or
  reader that raises in Python is \<open>None\<close> here. What the process environment supplies
  (\<open>uuid4().hex\<close>, \<open>_utc_now()\<close>) is an argument.
\<close>

subsection \<open>Python values read from a dictionary\<close>

definition dget :: "dict \<Rightarrow> string \<Rightarrow> json option" where
  "dget d k = map_of d k"

fun truthy :: "json \<Rightarrow> bool" where
  "truthy JNull = False"
| "truthy (JBool b) = b"
| "truthy (JInt i) = (i \<noteq> 0)"
| "truthy (JFloat l) = list_ex (\<lambda>c. is_digit c \<and> c \<noteq> CHR ''0'') (takeWhile (\<lambda>c. c \<notin> {CHR ''e'', CHR ''E''}) l)"
| "truthy (JStr s) = (s \<noteq> [])"
| "truthy (JArr xs) = (xs \<noteq> [])"
| "truthy (JObj kvs) = (kvs \<noteq> [])"

text \<open>\<open>str(v)\<close>; the \<open>repr\<close> of a list or dictionary is outside the model.\<close>

fun py_str :: "json \<Rightarrow> string option" where
  "py_str JNull = Some ''None''"
| "py_str (JBool b) = Some (if b then ''True'' else ''False'')"
| "py_str (JInt i) = Some (show_int i)"
| "py_str (JFloat l) = Some l"
| "py_str (JStr s) = Some s"
| "py_str _ = None"

definition py_int_text :: "string \<Rightarrow> int option" where
  "py_int_text s = (case strip s of
      [] \<Rightarrow> None
    | c # t \<Rightarrow> if c = CHR ''+'' then map_option int (parse_nat t) else parse_int (c # t))"

text \<open>
  \<open>int(v)\<close>: integers, booleans, decimal text, and floats, which are truncated. The lexeme of a float with
  an exponent is outside the model.
\<close>

fun py_int :: "json \<Rightarrow> int option" where
  "py_int (JBool b) = Some (if b then 1 else 0)"
| "py_int (JInt i) = Some i"
| "py_int (JFloat l) = (if CHR ''e'' \<in> set l \<or> CHR ''E'' \<in> set l then None else parse_int (takeWhile (\<lambda>c. c \<noteq> CHR ''.'') l))"
| "py_int (JStr s) = py_int_text s"
| "py_int _ = None"

text \<open>\<open>str(value[k])\<close>, \<open>str(value.get(k, d))\<close>, \<open>str(value.get(k) or d)\<close> and their integer counterparts.\<close>

definition req_str :: "dict \<Rightarrow> string \<Rightarrow> string option" where
  "req_str d k = do { v \<leftarrow> dget d k; py_str v }"

definition opt_str :: "dict \<Rightarrow> string \<Rightarrow> string \<Rightarrow> string option" where
  "opt_str d k def = (case dget d k of None \<Rightarrow> Some def | Some v \<Rightarrow> py_str v)"

definition get_str :: "dict \<Rightarrow> string \<Rightarrow> string \<Rightarrow> string option" where
  "get_str d k def = (case dget d k of None \<Rightarrow> Some def | Some v \<Rightarrow> if truthy v then py_str v else Some def)"

definition req_int :: "dict \<Rightarrow> string \<Rightarrow> int option" where
  "req_int d k = do { v \<leftarrow> dget d k; py_int v }"

definition get_int :: "dict \<Rightarrow> string \<Rightarrow> int \<Rightarrow> int option" where
  "get_int d k def = (case dget d k of None \<Rightarrow> Some def | Some v \<Rightarrow> if truthy v then py_int v else Some def)"

text \<open>\<open>bool(value.get(k, False))\<close>.\<close>

definition get_bool :: "dict \<Rightarrow> string \<Rightarrow> bool" where
  "get_bool d k = (case dget d k of None \<Rightarrow> False | Some v \<Rightarrow> truthy v)"

text \<open>\<open>tuple(str(x) for x in value.get(k) or ())\<close>; iterating a string or a dictionary is outside the model.\<close>

definition get_strs :: "dict \<Rightarrow> string \<Rightarrow> string list option" where
  "get_strs d k = (case dget d k of
      None \<Rightarrow> Some []
    | Some (JArr xs) \<Rightarrow> those_map py_str xs
    | Some v \<Rightarrow> if truthy v then None else Some [])"

lemmas read_defs = req_str_def opt_str_def get_str_def req_int_def get_int_def get_bool_def get_strs_def

lemma those_map_strs [simp]: "those_map py_str (map (sort_keys \<circ> JStr) xs) = Some xs"
  by (induction xs) auto

text \<open>A dictionary that went through \<open>dumps\<close> and \<open>loads\<close> answers every lookup as before.\<close>

definition stored_dict :: "dict \<Rightarrow> dict" where
  "stored_dict d = sort_key fst (map (\<lambda>(k, v). (k, sort_keys v)) d)"

lemma dget_stored: "distinct (map fst d) \<Longrightarrow> dget (stored_dict d) k = map_option sort_keys (dget d k)"
proof -
  assume "distinct (map fst d)"
  then have "distinct (map fst (map (\<lambda>(k, v). (k, sort_keys v)) d))"
    by (simp add: comp_def split_beta)
  then show ?thesis
    by (simp add: stored_dict_def dget_def map_of_sort_key map_of_map)
qed

lemma loads_dumps_obj: "wf_json (JObj d) \<Longrightarrow> loads (dumps (JObj d)) = Some (JObj (stored_dict d))"
  by (simp only: loads_dumps sort_keys.simps stored_dict_def)

lemma sort_keys_obj [simp]: "sort_keys (JObj d) = JObj (stored_dict d)"
  by (simp add: stored_dict_def)

declare sort_keys.simps(2) [simp del]

subsection \<open>String enumerations\<close>

text \<open>\<open>Enum(value)\<close>: the member with this value, or a \<open>ValueError\<close>.\<close>

definition str_enum_of :: "('a \<Rightarrow> string) \<Rightarrow> 'a list \<Rightarrow> string \<Rightarrow> 'a option" where
  "str_enum_of value members s = find (\<lambda>x. value x = s) members"

locale str_enum =
  fixes enum_value :: "'a \<Rightarrow> string" and members :: "'a list"
  assumes complete: "x \<in> set members"
    and values_distinct: "distinct (map enum_value members)"
begin

lemma value_inject: "enum_value x = enum_value y \<longleftrightarrow> x = y"
  using values_distinct complete by (auto simp: distinct_map inj_on_def)

lemma of_value: "str_enum_of enum_value members (enum_value x) = Some x"
proof -
  have "str_enum_of enum_value members (enum_value x) = Some y \<Longrightarrow> y = x" for y
    using value_inject by (auto simp: str_enum_of_def find_Some_iff)
  moreover have "str_enum_of enum_value members (enum_value x) \<noteq> None"
    using complete by (auto simp: str_enum_of_def find_None_iff)
  ultimately show ?thesis by blast
qed

lemma of_value_iff: "str_enum_of enum_value members s = Some x \<longleftrightarrow> enum_value x = s"
  using of_value by (auto simp: str_enum_of_def find_Some_iff)

end

text \<open>\<open>Enum(v)\<close> on a decoded value: only a string can be a member's value.\<close>

definition enum_json :: "(string \<Rightarrow> 'a option) \<Rightarrow> json \<Rightarrow> 'a option" where
  "enum_json f v = (case v of JStr s \<Rightarrow> f s | _ \<Rightarrow> None)"

datatype task_status =
  TS_QUEUED | TS_ASSIGNED | TS_RUNNING | TS_WAITING_PIPELINE | TS_PAUSED_BY_TRIAGE
  | TS_PUBLISHING | TS_COMPLETED | TS_FAILED | TS_CANCELED

fun task_status_value :: "task_status \<Rightarrow> string" where
  "task_status_value TS_QUEUED = ''queued''"
| "task_status_value TS_ASSIGNED = ''assigned''"
| "task_status_value TS_RUNNING = ''running''"
| "task_status_value TS_WAITING_PIPELINE = ''waiting_pipeline''"
| "task_status_value TS_PAUSED_BY_TRIAGE = ''paused_by_triage''"
| "task_status_value TS_PUBLISHING = ''publishing''"
| "task_status_value TS_COMPLETED = ''completed''"
| "task_status_value TS_FAILED = ''failed''"
| "task_status_value TS_CANCELED = ''canceled''"

definition TaskStatus_members :: "task_status list" where
  "TaskStatus_members = [TS_QUEUED, TS_ASSIGNED, TS_RUNNING, TS_WAITING_PIPELINE, TS_PAUSED_BY_TRIAGE,
     TS_PUBLISHING, TS_COMPLETED, TS_FAILED, TS_CANCELED]"

definition TaskStatus :: "string \<Rightarrow> task_status option" where
  "TaskStatus = str_enum_of task_status_value TaskStatus_members"

definition TERMINAL_TASK_STATUSES :: "task_status list" where
  "TERMINAL_TASK_STATUSES = [TS_COMPLETED, TS_FAILED, TS_CANCELED]"

datatype task_kind =
  TK_PR_COMMAND | TK_AUTO_WORKFLOW | TK_GITLAB_EVENT | TK_REPAIR_ROLLBACK | TK_REPAIR_REPORT | TK_POST_REPAIR_UT

fun task_kind_value :: "task_kind \<Rightarrow> string" where
  "task_kind_value TK_PR_COMMAND = ''pr_command''"
| "task_kind_value TK_AUTO_WORKFLOW = ''auto_workflow''"
| "task_kind_value TK_GITLAB_EVENT = ''gitlab_event''"
| "task_kind_value TK_REPAIR_ROLLBACK = ''repair_rollback''"
| "task_kind_value TK_REPAIR_REPORT = ''repair_report''"
| "task_kind_value TK_POST_REPAIR_UT = ''post_repair_ut''"

definition TaskKind_members :: "task_kind list" where
  "TaskKind_members = [TK_PR_COMMAND, TK_AUTO_WORKFLOW, TK_GITLAB_EVENT, TK_REPAIR_ROLLBACK,
     TK_REPAIR_REPORT, TK_POST_REPAIR_UT]"

definition TaskKind :: "string \<Rightarrow> task_kind option" where
  "TaskKind = str_enum_of task_kind_value TaskKind_members"

datatype delivery_kind = DK_EXECUTE | DK_RESUME_PIPELINE | DK_RESUME_AUTO

fun delivery_kind_value :: "delivery_kind \<Rightarrow> string" where
  "delivery_kind_value DK_EXECUTE = ''execute''"
| "delivery_kind_value DK_RESUME_PIPELINE = ''resume_pipeline''"
| "delivery_kind_value DK_RESUME_AUTO = ''resume_auto''"

definition DeliveryKind_members :: "delivery_kind list" where
  "DeliveryKind_members = [DK_EXECUTE, DK_RESUME_PIPELINE, DK_RESUME_AUTO]"

definition DeliveryKind :: "string \<Rightarrow> delivery_kind option" where
  "DeliveryKind = str_enum_of delivery_kind_value DeliveryKind_members"

datatype pipeline_resume_claim = PRC_CLAIMED | PRC_DUPLICATE | PRC_STALE | PRC_LOST_LEASE

fun pipeline_resume_claim_value :: "pipeline_resume_claim \<Rightarrow> string" where
  "pipeline_resume_claim_value PRC_CLAIMED = ''claimed''"
| "pipeline_resume_claim_value PRC_DUPLICATE = ''duplicate''"
| "pipeline_resume_claim_value PRC_STALE = ''stale''"
| "pipeline_resume_claim_value PRC_LOST_LEASE = ''lost_lease''"

datatype repair_category = RC_PIPELINE | RC_FORMAT | RC_CLANG | RC_BUILD | RC_UNKNOWN

fun repair_category_value :: "repair_category \<Rightarrow> string" where
  "repair_category_value RC_PIPELINE = ''pipeline''"
| "repair_category_value RC_FORMAT = ''format''"
| "repair_category_value RC_CLANG = ''clang''"
| "repair_category_value RC_BUILD = ''build''"
| "repair_category_value RC_UNKNOWN = ''unknown''"

definition RepairCategory_members :: "repair_category list" where
  "RepairCategory_members = [RC_PIPELINE, RC_FORMAT, RC_CLANG, RC_BUILD, RC_UNKNOWN]"

definition RepairCategory :: "string \<Rightarrow> repair_category option" where
  "RepairCategory = str_enum_of repair_category_value RepairCategory_members"

interpretation task_status_enum: str_enum task_status_value TaskStatus_members
proof
  fix x show "x \<in> set TaskStatus_members" by (cases x) (simp_all add: TaskStatus_members_def)
qed (simp add: TaskStatus_members_def)

interpretation task_kind_enum: str_enum task_kind_value TaskKind_members
proof
  fix x show "x \<in> set TaskKind_members" by (cases x) (simp_all add: TaskKind_members_def)
qed (simp add: TaskKind_members_def)

interpretation delivery_kind_enum: str_enum delivery_kind_value DeliveryKind_members
proof
  fix x show "x \<in> set DeliveryKind_members" by (cases x) (simp_all add: DeliveryKind_members_def)
qed (simp add: DeliveryKind_members_def)

interpretation repair_category_enum: str_enum repair_category_value RepairCategory_members
proof
  fix x show "x \<in> set RepairCategory_members" by (cases x) (simp_all add: RepairCategory_members_def)
qed (simp add: RepairCategory_members_def)

lemma enum_readers [simp]:
  "TaskStatus (task_status_value s) = Some s" "TaskKind (task_kind_value k) = Some k"
  "DeliveryKind (delivery_kind_value dk) = Some dk" "RepairCategory (repair_category_value c) = Some c"
  by (simp_all add: TaskStatus_def TaskKind_def DeliveryKind_def RepairCategory_def
      task_status_enum.of_value task_kind_enum.of_value delivery_kind_enum.of_value repair_category_enum.of_value)

subsection \<open>The MR key\<close>

record mr_key =
  project_id :: string
  iid :: int

text \<open>The constructor, with the checks of \<open>__post_init__\<close>.\<close>

definition MrKey :: "string \<Rightarrow> int \<Rightarrow> mr_key option" where
  "MrKey p i = (if p = [] then None else if i \<le> 0 then None else Some \<lparr>project_id = p, iid = i\<rparr>)"

definition wf_mr :: "mr_key \<Rightarrow> bool" where
  "wf_mr mr \<longleftrightarrow> project_id mr \<noteq> [] \<and> 0 < iid mr"

definition mr_key_to_dict :: "mr_key \<Rightarrow> dict" where
  "mr_key_to_dict mr = [(''project_id'', JStr (project_id mr)), (''iid'', JInt (iid mr))]"

definition mr_key_from_dict :: "dict \<Rightarrow> mr_key option" where
  "mr_key_from_dict d = do { p \<leftarrow> req_str d ''project_id''; i \<leftarrow> req_int d ''iid''; MrKey p i }"

lemma MrKey_wf: "MrKey p i = Some mr \<Longrightarrow> wf_mr mr"
  by (auto simp: MrKey_def wf_mr_def split: if_splits)

lemma mr_key_to_dict_distinct: "distinct (map fst (mr_key_to_dict mr))"
  by (simp add: mr_key_to_dict_def)

lemma mr_key_look:
  "dget (stored_dict (mr_key_to_dict mr)) ''project_id'' = Some (JStr (project_id mr))"
  "dget (stored_dict (mr_key_to_dict mr)) ''iid'' = Some (JInt (iid mr))"
  by (simp_all only: dget_stored [OF mr_key_to_dict_distinct]) (simp_all add: mr_key_to_dict_def dget_def)

lemma mr_key_from_to_dict [simp]: "wf_mr mr \<Longrightarrow> mr_key_from_dict (stored_dict (mr_key_to_dict mr)) = Some mr"
  by (simp add: mr_key_from_dict_def read_defs mr_key_look MrKey_def wf_mr_def)

subsection \<open>Task envelopes\<close>

definition SCHEMA_VERSION :: int where
  "SCHEMA_VERSION = 1"

text \<open>
  \<open>_validate_schema_version\<close>: Python compares with \<open>!=\<close>, so \<open>True\<close> and \<open>1.0\<close> pass as well.
\<close>

definition schema_version_ok :: "dict \<Rightarrow> bool" where
  "schema_version_ok d = (case dget d ''schema_version'' of
      Some (JInt i) \<Rightarrow> i = SCHEMA_VERSION
    | Some (JBool b) \<Rightarrow> b
    | Some (JFloat l) \<Rightarrow> l = ''1.0''
    | _ \<Rightarrow> False)"

record task_envelope =
  schema_version :: int
  task_id :: string
  kind :: task_kind
  source :: string
  mr :: "mr_key option"
  pr_url :: string
  command :: string
  payload :: dict
  idempotency_key :: string
  created_at :: string

definition task_envelope_new ::
  "string \<Rightarrow> string \<Rightarrow> task_kind \<Rightarrow> string \<Rightarrow> mr_key option \<Rightarrow> string \<Rightarrow> string \<Rightarrow> dict \<Rightarrow> string \<Rightarrow> task_envelope"
where
  "task_envelope_new uuid_hex utc_now knd src m url cmd pl ikey =
     \<lparr>schema_version = SCHEMA_VERSION, task_id = uuid_hex, kind = knd, source = src, mr = m, pr_url = url,
      command = cmd, payload = pl, idempotency_key = ikey, created_at = utc_now\<rparr>"

definition task_envelope_to_dict :: "task_envelope \<Rightarrow> dict" where
  "task_envelope_to_dict t =
     [(''schema_version'', JInt (schema_version t)), (''task_id'', JStr (task_id t)),
      (''kind'', JStr (task_kind_value (kind t))), (''source'', JStr (source t)),
      (''mr'', case mr t of None \<Rightarrow> JNull | Some m \<Rightarrow> JObj (mr_key_to_dict m)),
      (''pr_url'', JStr (pr_url t)), (''command'', JStr (command t)), (''payload'', JObj (payload t)),
      (''idempotency_key'', JStr (idempotency_key t)), (''created_at'', JStr (created_at t))]"

definition task_envelope_to_json :: "task_envelope \<Rightarrow> string" where
  "task_envelope_to_json t = dumps (JObj (task_envelope_to_dict t))"

definition task_envelope_from_dict :: "dict \<Rightarrow> task_envelope option" where
  "task_envelope_from_dict d =
     (if \<not> schema_version_ok d then None else
      case dget d ''payload'' of
        Some (JObj pl) \<Rightarrow>
          do { tid \<leftarrow> req_str d ''task_id'';
               kv \<leftarrow> dget d ''kind''; k \<leftarrow> enum_json TaskKind kv;
               src \<leftarrow> req_str d ''source'';
               m \<leftarrow> (case dget d ''mr'' of Some (JObj md) \<Rightarrow> map_option Some (mr_key_from_dict md) | _ \<Rightarrow> Some None);
               url \<leftarrow> req_str d ''pr_url'';
               cmd \<leftarrow> req_str d ''command'';
               ik \<leftarrow> req_str d ''idempotency_key'';
               ca \<leftarrow> req_str d ''created_at'';
               Some \<lparr>schema_version = SCHEMA_VERSION, task_id = tid, kind = k, source = src, mr = m, pr_url = url,
                     command = cmd, payload = pl, idempotency_key = ik, created_at = ca\<rparr> }
      | _ \<Rightarrow> None)"

text \<open>\<open>_from_json\<close>: the text must decode to an object.\<close>

definition from_json :: "string \<Rightarrow> dict option" where
  "from_json s = (case loads s of Some (JObj d) \<Rightarrow> Some d | _ \<Rightarrow> None)"

definition task_envelope_from_json :: "string \<Rightarrow> task_envelope option" where
  "task_envelope_from_json s = do { d \<leftarrow> from_json s; task_envelope_from_dict d }"

definition wf_task :: "task_envelope \<Rightarrow> bool" where
  "wf_task t \<longleftrightarrow> schema_version t = SCHEMA_VERSION \<and> (case mr t of None \<Rightarrow> True | Some m \<Rightarrow> wf_mr m)
     \<and> wf_json (JObj (payload t))"

lemma from_json_dumps: "wf_json (JObj d) \<Longrightarrow> from_json (dumps (JObj d)) = Some (stored_dict d)"
  by (simp add: from_json_def loads_dumps_obj)

lemma wf_mr_key_to_dict [simp]: "wf_json (JObj (mr_key_to_dict m))"
  by (simp add: mr_key_to_dict_def)

lemma task_envelope_to_dict_distinct: "distinct (map fst (task_envelope_to_dict t))"
  by (simp add: task_envelope_to_dict_def)

lemma task_envelope_to_dict_wf: "wf_task t \<Longrightarrow> wf_json (JObj (task_envelope_to_dict t))"
  by (auto simp: task_envelope_to_dict_def wf_task_def mr_key_to_dict_def split: option.splits)

lemma task_envelope_look:
  "dget (stored_dict (task_envelope_to_dict t)) ''schema_version'' = Some (JInt (schema_version t))"
  "dget (stored_dict (task_envelope_to_dict t)) ''task_id'' = Some (JStr (task_id t))"
  "dget (stored_dict (task_envelope_to_dict t)) ''kind'' = Some (JStr (task_kind_value (kind t)))"
  "dget (stored_dict (task_envelope_to_dict t)) ''source'' = Some (JStr (source t))"
  "dget (stored_dict (task_envelope_to_dict t)) ''mr'' =
     Some (case mr t of None \<Rightarrow> JNull | Some m \<Rightarrow> JObj (stored_dict (mr_key_to_dict m)))"
  "dget (stored_dict (task_envelope_to_dict t)) ''pr_url'' = Some (JStr (pr_url t))"
  "dget (stored_dict (task_envelope_to_dict t)) ''command'' = Some (JStr (command t))"
  "dget (stored_dict (task_envelope_to_dict t)) ''payload'' = Some (JObj (stored_dict (payload t)))"
  "dget (stored_dict (task_envelope_to_dict t)) ''idempotency_key'' = Some (JStr (idempotency_key t))"
  "dget (stored_dict (task_envelope_to_dict t)) ''created_at'' = Some (JStr (created_at t))"
  by (simp_all only: dget_stored [OF task_envelope_to_dict_distinct])
     (simp_all add: task_envelope_to_dict_def dget_def split: option.splits)

lemma task_envelope_from_stored:
  "wf_task t \<Longrightarrow>
   task_envelope_from_dict (stored_dict (task_envelope_to_dict t)) = Some (t\<lparr>payload := stored_dict (payload t)\<rparr>)"
  by (cases "mr t")
     (simp_all add: task_envelope_from_dict_def schema_version_ok_def read_defs task_envelope_look
        enum_json_def wf_task_def)

lemma task_envelope_from_to_json:
  "wf_task t \<Longrightarrow> task_envelope_from_json (task_envelope_to_json t) = Some (t\<lparr>payload := stored_dict (payload t)\<rparr>)"
  by (simp add: task_envelope_from_json_def task_envelope_to_json_def
      from_json_dumps [OF task_envelope_to_dict_wf] task_envelope_from_stored)

subsection \<open>Pipeline events and wait identities\<close>

definition TERMINAL_PIPELINE_STATUSES :: "string list" where
  "TERMINAL_PIPELINE_STATUSES = [''canceled'', ''failed'', ''skipped'', ''success'']"

record pipeline_event =
  pe_project_id :: string
  pe_pipeline_id :: int
  pe_sha :: string
  pe_status :: string
  pe_ref :: string
  pe_occurred_at :: string
  pe_source :: string

definition pipeline_event_new ::
  "string \<Rightarrow> string \<Rightarrow> int \<Rightarrow> string \<Rightarrow> string \<Rightarrow> string \<Rightarrow> string option \<Rightarrow> string \<Rightarrow> pipeline_event"
where
  "pipeline_event_new utc_now p i sha st ref occ src =
     \<lparr>pe_project_id = p, pe_pipeline_id = i, pe_sha = sha, pe_status = st, pe_ref = ref,
      pe_occurred_at = (case occ of None \<Rightarrow> utc_now | Some t \<Rightarrow> if t = [] then utc_now else t), pe_source = src\<rparr>"

text \<open>\<open>x or y or d\<close> over optional dictionary entries.\<close>

fun first_truthy :: "json option list \<Rightarrow> json \<Rightarrow> json" where
  "first_truthy [] d = d"
| "first_truthy (v # vs) d = (case v of Some j \<Rightarrow> if truthy j then j else first_truthy vs d | None \<Rightarrow> first_truthy vs d)"

text \<open>\<open>payload.get(k) or {}\<close>, which the code then treats as a dictionary.\<close>

definition sub_dict :: "dict \<Rightarrow> string \<Rightarrow> dict option" where
  "sub_dict d k = (case dget d k of
      Some (JObj e) \<Rightarrow> Some e
    | Some v \<Rightarrow> if truthy v then None else Some []
    | None \<Rightarrow> Some [])"

definition pipeline_event_from_gitlab_payload :: "string \<Rightarrow> dict \<Rightarrow> pipeline_event option" where
  "pipeline_event_from_gitlab_payload utc_now pl =
     do { attrs \<leftarrow> sub_dict pl ''object_attributes'';
          project \<leftarrow> sub_dict pl ''project'';
          pid \<leftarrow> py_str (first_truthy [dget project ''path_with_namespace'', dget project ''id'',
                   dget pl ''project_id'', dget attrs ''project_id''] (JStr []));
          i \<leftarrow> py_int (first_truthy [dget attrs ''id'', dget pl ''id''] (JInt 0));
          sha \<leftarrow> py_str (first_truthy [dget attrs ''sha'', dget pl ''sha''] (JStr []));
          st \<leftarrow> py_str (first_truthy [dget attrs ''status'', dget pl ''status''] (JStr []));
          ref \<leftarrow> py_str (first_truthy [dget attrs ''ref'', dget pl ''ref''] (JStr []));
          src \<leftarrow> py_str (first_truthy [dget attrs ''source'', dget pl ''source''] (JStr []));
          Some (pipeline_event_new utc_now pid i sha st ref None src) }"

definition pipeline_event_terminal :: "pipeline_event \<Rightarrow> bool" where
  "pipeline_event_terminal e \<longleftrightarrow> lower (pe_status e) \<in> set TERMINAL_PIPELINE_STATUSES"

definition pipeline_event_to_dict :: "pipeline_event \<Rightarrow> dict" where
  "pipeline_event_to_dict e =
     [(''schema_version'', JInt SCHEMA_VERSION), (''project_id'', JStr (pe_project_id e)),
      (''pipeline_id'', JInt (pe_pipeline_id e)), (''sha'', JStr (pe_sha e)), (''status'', JStr (pe_status e)),
      (''ref'', JStr (pe_ref e)), (''occurred_at'', JStr (pe_occurred_at e)), (''source'', JStr (pe_source e))]"

definition pipeline_event_to_json :: "pipeline_event \<Rightarrow> string" where
  "pipeline_event_to_json e = dumps (JObj (pipeline_event_to_dict e))"

definition pipeline_event_from_dict :: "dict \<Rightarrow> pipeline_event option" where
  "pipeline_event_from_dict d =
     (if \<not> schema_version_ok d then None else
      do { p \<leftarrow> req_str d ''project_id''; i \<leftarrow> req_int d ''pipeline_id''; sha \<leftarrow> req_str d ''sha'';
           st \<leftarrow> req_str d ''status''; ref \<leftarrow> req_str d ''ref''; occ \<leftarrow> req_str d ''occurred_at'';
           src \<leftarrow> opt_str d ''source'' [];
           Some \<lparr>pe_project_id = p, pe_pipeline_id = i, pe_sha = sha, pe_status = st, pe_ref = ref,
                 pe_occurred_at = occ, pe_source = src\<rparr> })"

definition pipeline_event_from_json :: "string \<Rightarrow> pipeline_event option" where
  "pipeline_event_from_json s = do { d \<leftarrow> from_json s; pipeline_event_from_dict d }"

lemma pipeline_event_to_dict_distinct: "distinct (map fst (pipeline_event_to_dict e))"
  by (simp add: pipeline_event_to_dict_def)

lemma pipeline_event_to_dict_wf: "wf_json (JObj (pipeline_event_to_dict e))"
  by (simp add: pipeline_event_to_dict_def)

lemma pipeline_event_look:
  "dget (stored_dict (pipeline_event_to_dict e)) ''schema_version'' = Some (JInt SCHEMA_VERSION)"
  "dget (stored_dict (pipeline_event_to_dict e)) ''project_id'' = Some (JStr (pe_project_id e))"
  "dget (stored_dict (pipeline_event_to_dict e)) ''pipeline_id'' = Some (JInt (pe_pipeline_id e))"
  "dget (stored_dict (pipeline_event_to_dict e)) ''sha'' = Some (JStr (pe_sha e))"
  "dget (stored_dict (pipeline_event_to_dict e)) ''status'' = Some (JStr (pe_status e))"
  "dget (stored_dict (pipeline_event_to_dict e)) ''ref'' = Some (JStr (pe_ref e))"
  "dget (stored_dict (pipeline_event_to_dict e)) ''occurred_at'' = Some (JStr (pe_occurred_at e))"
  "dget (stored_dict (pipeline_event_to_dict e)) ''source'' = Some (JStr (pe_source e))"
  by (simp_all only: dget_stored [OF pipeline_event_to_dict_distinct])
     (simp_all add: pipeline_event_to_dict_def dget_def)

lemma pipeline_event_loads [simp]:
  "loads (pipeline_event_to_json e) = Some (JObj (stored_dict (pipeline_event_to_dict e)))"
  by (simp add: pipeline_event_to_json_def loads_dumps_obj [OF pipeline_event_to_dict_wf])

lemma pipeline_event_from_to_json [simp]: "pipeline_event_from_json (pipeline_event_to_json e) = Some e"
  by (simp add: pipeline_event_from_json_def from_json_def pipeline_event_from_dict_def
      schema_version_ok_def read_defs pipeline_event_look)

record pipeline_wait_identity =
  pw_project_id :: string
  pw_sha :: string
  pw_attempt_id :: string
  pw_pipeline_id :: "int option"

definition pipeline_wait_identity_to_dict :: "pipeline_wait_identity \<Rightarrow> dict" where
  "pipeline_wait_identity_to_dict w =
     [(''project_id'', JStr (pw_project_id w)), (''sha'', JStr (pw_sha w)), (''attempt_id'', JStr (pw_attempt_id w)),
      (''pipeline_id'', case pw_pipeline_id w of None \<Rightarrow> JNull | Some i \<Rightarrow> JInt i)]"

definition pipeline_wait_identity_to_json :: "pipeline_wait_identity \<Rightarrow> string" where
  "pipeline_wait_identity_to_json w = dumps (JObj (pipeline_wait_identity_to_dict w))"

definition pipeline_wait_identity_from_dict :: "dict \<Rightarrow> pipeline_wait_identity option" where
  "pipeline_wait_identity_from_dict d =
     do { p \<leftarrow> opt_str d ''project_id'' []; sha \<leftarrow> opt_str d ''sha'' []; a \<leftarrow> opt_str d ''attempt_id'' [];
          i \<leftarrow> (case dget d ''pipeline_id'' of
                  None \<Rightarrow> Some None
                | Some JNull \<Rightarrow> Some None
                | Some (JStr []) \<Rightarrow> Some None
                | Some v \<Rightarrow> map_option Some (py_int v));
          Some \<lparr>pw_project_id = p, pw_sha = sha, pw_attempt_id = a, pw_pipeline_id = i\<rparr> }"

definition pipeline_wait_identity_from_json :: "string \<Rightarrow> pipeline_wait_identity option" where
  "pipeline_wait_identity_from_json s = do { d \<leftarrow> from_json s; pipeline_wait_identity_from_dict d }"

lemma pipeline_wait_identity_to_dict_facts:
  "distinct (map fst (pipeline_wait_identity_to_dict w))" "wf_json (JObj (pipeline_wait_identity_to_dict w))"
  by (auto simp: pipeline_wait_identity_to_dict_def split: option.splits)

lemma pipeline_wait_identity_look:
  "dget (stored_dict (pipeline_wait_identity_to_dict w)) ''project_id'' = Some (JStr (pw_project_id w))"
  "dget (stored_dict (pipeline_wait_identity_to_dict w)) ''sha'' = Some (JStr (pw_sha w))"
  "dget (stored_dict (pipeline_wait_identity_to_dict w)) ''attempt_id'' = Some (JStr (pw_attempt_id w))"
  "dget (stored_dict (pipeline_wait_identity_to_dict w)) ''pipeline_id'' =
     Some (case pw_pipeline_id w of None \<Rightarrow> JNull | Some i \<Rightarrow> JInt i)"
  by (simp_all only: dget_stored [OF pipeline_wait_identity_to_dict_facts(1)])
     (simp_all add: pipeline_wait_identity_to_dict_def dget_def split: option.splits)

lemma pipeline_wait_identity_from_to_json [simp]:
  "pipeline_wait_identity_from_json (pipeline_wait_identity_to_json w) = Some w"
  by (cases "pw_pipeline_id w")
     (simp_all add: pipeline_wait_identity_from_json_def pipeline_wait_identity_to_json_def
       from_json_dumps [OF pipeline_wait_identity_to_dict_facts(2)] pipeline_wait_identity_from_dict_def
       read_defs pipeline_wait_identity_look)

subsection \<open>Notification envelopes\<close>

record notification_envelope =
  ne_notification_id :: string
  ne_task_id :: string
  ne_receive_id :: string
  ne_recipient_email :: string
  ne_recipient_username :: string
  ne_kind :: string
  ne_content :: string
  ne_title :: string
  ne_header_template :: string
  ne_mr_url :: string
  ne_created_at :: string
  ne_card_id :: string
  ne_message_id :: string
  ne_fallback_content :: string
  ne_card_state :: string

text \<open>\<open>__post_init__\<close>: some recipient identity is required.\<close>

definition check_recipient :: "notification_envelope \<Rightarrow> notification_envelope option" where
  "check_recipient n =
     (if ne_receive_id n = [] \<and> ne_recipient_email n = [] \<and> ne_recipient_username n = [] then None else Some n)"

definition notification_envelope_to_dict :: "notification_envelope \<Rightarrow> dict" where
  "notification_envelope_to_dict n =
     [(''schema_version'', JInt SCHEMA_VERSION), (''notification_id'', JStr (ne_notification_id n)),
      (''task_id'', JStr (ne_task_id n)), (''receive_id'', JStr (ne_receive_id n)),
      (''recipient_email'', JStr (ne_recipient_email n)), (''recipient_username'', JStr (ne_recipient_username n)),
      (''kind'', JStr (ne_kind n)), (''content'', JStr (ne_content n)), (''title'', JStr (ne_title n)),
      (''header_template'', JStr (ne_header_template n)), (''mr_url'', JStr (ne_mr_url n)),
      (''created_at'', JStr (ne_created_at n)), (''card_id'', JStr (ne_card_id n)),
      (''message_id'', JStr (ne_message_id n)), (''fallback_content'', JStr (ne_fallback_content n)),
      (''card_state'', JStr (ne_card_state n))]"

definition notification_envelope_to_json :: "notification_envelope \<Rightarrow> string" where
  "notification_envelope_to_json n = dumps (JObj (notification_envelope_to_dict n))"

definition notification_envelope_from_dict :: "dict \<Rightarrow> notification_envelope option" where
  "notification_envelope_from_dict d =
     (if \<not> schema_version_ok d then None else
      do { nid \<leftarrow> req_str d ''notification_id''; tid \<leftarrow> req_str d ''task_id'';
           rid \<leftarrow> opt_str d ''receive_id'' []; em \<leftarrow> opt_str d ''recipient_email'' [];
           un \<leftarrow> opt_str d ''recipient_username'' []; k \<leftarrow> req_str d ''kind''; c \<leftarrow> req_str d ''content'';
           t \<leftarrow> req_str d ''title''; h \<leftarrow> req_str d ''header_template''; u \<leftarrow> req_str d ''mr_url'';
           ca \<leftarrow> req_str d ''created_at''; cid \<leftarrow> opt_str d ''card_id'' []; mid \<leftarrow> opt_str d ''message_id'' [];
           fc \<leftarrow> opt_str d ''fallback_content'' []; cs \<leftarrow> opt_str d ''card_state'' [];
           check_recipient
             \<lparr>ne_notification_id = nid, ne_task_id = tid, ne_receive_id = rid, ne_recipient_email = em,
              ne_recipient_username = un, ne_kind = k, ne_content = c, ne_title = t, ne_header_template = h,
              ne_mr_url = u, ne_created_at = ca, ne_card_id = cid, ne_message_id = mid,
              ne_fallback_content = fc, ne_card_state = cs\<rparr> })"

definition notification_envelope_from_json :: "string \<Rightarrow> notification_envelope option" where
  "notification_envelope_from_json s = do { d \<leftarrow> from_json s; notification_envelope_from_dict d }"

end
