(* ===== verification/Redis_Keys.thy ===== *)
theory Redis_Keys
  imports Models
begin

text \<open>
  The names of the Redis keys (\<open>RedisKeys\<close> of \<open>pr_agent/distributed/broker.py\<close>). The
  keyspace of the model is indexed by the constructors of \<open>rkey\<close>, one per method of
  \<open>RedisKeys\<close>; \<open>redis_key\<close> renders a constructor as the name the code uses, and
  \<open>resolve_key\<close> reads a name back. That the rendering loses nothing is what allows the
  model to index the keyspace by constructors.
\<close>

subsection \<open>Percent-encoding\<close>

definition unreserved :: "char \<Rightarrow> bool" where
  "unreserved c \<longleftrightarrow> (let n = (of_char c :: nat) in
     (48 \<le> n \<and> n \<le> 57) \<or> (65 \<le> n \<and> n \<le> 90) \<or> (97 \<le> n \<and> n \<le> 122) \<or> c \<in> {CHR ''_'', CHR ''.'', CHR ''-'', CHR ''~''})"

definition hex_upper :: "nat \<Rightarrow> char" where
  "hex_upper d = (if d < 10 then char_of (48 + d) else char_of (55 + d))"

text \<open>\<open>urllib.parse.quote(s, safe='')\<close> on the UTF-8 bytes.\<close>

definition quote_char :: "char \<Rightarrow> string" where
  "quote_char c = (if unreserved c then [c]
     else [CHR ''%'', hex_upper (of_char c div 16), hex_upper (of_char c mod 16)])"

definition quote :: "string \<Rightarrow> string" where
  "quote s = concat (map quote_char s)"

text \<open>\<open>urllib.parse.unquote\<close>: a percent sign not followed by two hex digits stays.\<close>

fun unquote :: "string \<Rightarrow> string" where
  "unquote [] = []"
| "unquote (c # s) =
     (if c = CHR ''%'' then
        (case s of
           a # b # r \<Rightarrow>
             (case (hex_value a, hex_value b) of
                (Some x, Some y) \<Rightarrow> char_of (16 * x + y) # unquote r
              | _ \<Rightarrow> c # unquote s)
         | _ \<Rightarrow> c # unquote s)
      else c # unquote s)"

lemma hex_value_hex_upper [simp]: "d < 16 \<Longrightarrow> hex_value (hex_upper d) = Some d"
  by (auto simp: hex_value_def hex_upper_def Let_def)

lemma of_char_div_16: "(of_char c :: nat) div 16 < 16"
proof -
  have "(of_char c :: nat) < 256" by simp
  then show ?thesis by linarith
qed

lemma unquote_quote_char: "unquote (quote_char c @ s) = c # unquote s"
proof (cases "unreserved c")
  case True
  then have "c \<noteq> CHR ''%''" by (auto simp: unreserved_def)
  with True show ?thesis by (simp add: quote_char_def)
next
  case False
  have "char_of (16 * ((of_char c :: nat) div 16) + of_char c mod 16) = c"
    by (simp only: mult_div_mod_eq char_of_char)
  then show ?thesis using False of_char_div_16 [of c] by (simp add: quote_char_def)
qed

lemma unquote_quote [simp]: "unquote (quote s) = s"
  by (induction s) (auto simp: quote_def unquote_quote_char)

lemma quote_inject [simp]: "quote s = quote t \<longleftrightarrow> s = t"
  by (metis unquote_quote)

lemma colon_notin_quote_char: "CHR '':'' \<notin> set (quote_char c)"
proof (cases "unreserved c")
  case True
  then have "c \<noteq> CHR '':''" by (auto simp: unreserved_def)
  with True show ?thesis by (auto simp: quote_char_def)
next
  case False
  have "hex_upper d \<noteq> CHR '':''" if "d < 16" for d
    using that hex_value_hex_upper [OF that] by (auto simp: hex_value_def)
  from this [of "of_char c div 16"] this [of "of_char c mod 16"] show ?thesis
    using False of_char_div_16 [of c] by (simp add: quote_char_def)
qed

lemma colon_notin_quote [simp]: "CHR '':'' \<notin> set (quote s)"
  using colon_notin_quote_char by (auto simp: quote_def)

lemma colon_notin_show_int [simp]: "CHR '':'' \<notin> set (show_int i)"
  by (rule not_in_show_int) auto

subsection \<open>Keys\<close>

datatype rkey =
    K_ingress_stream
  | K_report_ingress_stream
  | K_notification_stream
  | K_worker_registry
  | K_task string
  | K_dedup string
  | K_mr_lease mr_key
  | K_mr_fence mr_key
  | K_worker string
  | K_worker_inbox string
  | K_pipeline_event string string "int option"
  | K_pipeline_waiters string string "int option"
  | K_effect string
  | K_pipeline_waiting
  | K_active_repairs
  | K_active_report_tasks
  | K_final_repair_report_input string
  | K_notification_dedup string
  | K_notification string
  | K_triage_card string
  | K_task_triage_card string
  | K_feishu_user_name string
  | K_mr_tasks mr_key
  | K_mr_triage_active mr_key
  | K_mr_paused_auto mr_key
  | K_mr_latest_repair_card mr_key
  | K_mr_latest_repair_pipeline_id mr_key
  | K_fixing_notice mr_key
  | K_scheduler_leader
  | K_worker_tasks string
  | K_service_heartbeat string
  | K_repair_reconciliation_metrics
  | K_repair_sha_tasks string string
  | K_triage_persistence_health
  | K_lifecycle string
  | K_lifecycle_events string
  | K_repair_progress string
  | K_no_lease
  | K_no_mr_tasks
  | K_no_mr_triage_active
  | K_no_mr_paused_auto

text \<open>\<open>MrKey.redis_id\<close>.\<close>

definition redis_id :: "mr_key \<Rightarrow> string" where
  "redis_id m = quote (project_id m) @ CHR '':'' # show_int (iid m)"

text \<open>The colon-separated parts of a name, after the prefix.\<close>

definition mr_parts :: "mr_key \<Rightarrow> string \<Rightarrow> string list" where
  "mr_parts m tag = [''mr'', quote (project_id m), show_int (iid m), tag]"

definition pipeline_parts :: "string \<Rightarrow> string \<Rightarrow> string \<Rightarrow> int option \<Rightarrow> string list" where
  "pipeline_parts p sha tag i =
     [''pipeline'', quote p, quote sha, tag] @ (case i of None \<Rightarrow> [] | Some n \<Rightarrow> [show_int n])"

fun key_parts :: "rkey \<Rightarrow> string list" where
  "key_parts K_ingress_stream = [''ingress'']"
| "key_parts K_report_ingress_stream = [''repair-reports'', ''ingress'']"
| "key_parts K_notification_stream = [''notifications'']"
| "key_parts K_worker_registry = [''workers'']"
| "key_parts (K_task t) = [''task'', t]"
| "key_parts (K_dedup i) = [''dedup'', quote i]"
| "key_parts (K_mr_lease m) = mr_parts m ''lease''"
| "key_parts (K_mr_fence m) = mr_parts m ''fence''"
| "key_parts (K_worker w) = [''worker'', w]"
| "key_parts (K_worker_inbox w) = [''worker'', w, ''inbox'']"
| "key_parts (K_pipeline_event p s i) = pipeline_parts p s ''event'' i"
| "key_parts (K_pipeline_waiters p s i) = pipeline_parts p s ''waiters'' i"
| "key_parts (K_effect e) = [''effect'', quote e]"
| "key_parts K_pipeline_waiting = [''pipeline'', ''waiting'']"
| "key_parts K_active_repairs = [''repairs'', ''active'']"
| "key_parts K_active_report_tasks = [''repair-reports'', ''active'']"
| "key_parts (K_final_repair_report_input t) = [''task'', quote t, ''final-repair-report-input'']"
| "key_parts (K_notification_dedup n) = [''notification'', n, ''queued'']"
| "key_parts (K_notification n) = [''notification'', n]"
| "key_parts (K_triage_card c) = [''feishu'', ''card'', c]"
| "key_parts (K_task_triage_card t) = [''feishu'', ''task-card'', t]"
| "key_parts (K_feishu_user_name u) = [''feishu'', ''user-name'', quote u]"
| "key_parts (K_mr_tasks m) = mr_parts m ''tasks''"
| "key_parts (K_mr_triage_active m) = mr_parts m ''triage-active''"
| "key_parts (K_mr_paused_auto m) = mr_parts m ''paused-auto''"
| "key_parts (K_mr_latest_repair_card m) = mr_parts m ''latest-repair-card''"
| "key_parts (K_mr_latest_repair_pipeline_id m) = mr_parts m ''latest-repair-pipeline-id''"
| "key_parts (K_fixing_notice m) = mr_parts m ''fixing-notice''"
| "key_parts K_scheduler_leader = [''scheduler'', ''leader'']"
| "key_parts (K_worker_tasks w) = [''worker'', w, ''tasks'']"
| "key_parts (K_service_heartbeat s) = [''service'', s, ''heartbeat'']"
| "key_parts K_repair_reconciliation_metrics = [''repairs'', ''reconciliation'']"
| "key_parts (K_repair_sha_tasks p s) = [''repair-sha'', quote p, quote s, ''tasks'']"
| "key_parts K_triage_persistence_health = [''triage'', ''persistence-health'']"
| "key_parts (K_lifecycle t) = [''task'', quote t, ''lifecycle'']"
| "key_parts (K_lifecycle_events t) = [''task'', quote t, ''lifecycle-events'']"
| "key_parts (K_repair_progress t) = [''task'', quote t, ''repair-progress'']"
| "key_parts K_no_lease = [''no-lease'']"
| "key_parts K_no_mr_tasks = [''no-mr'', ''tasks'']"
| "key_parts K_no_mr_triage_active = [''no-mr'', ''triage-active'']"
| "key_parts K_no_mr_paused_auto = [''no-mr'', ''paused-auto'']"

definition redis_key :: "string \<Rightarrow> rkey \<Rightarrow> string" where
  "redis_key prefix k = prefix @ CHR '':'' # join '':'' (key_parts k)"

definition default_prefix :: string where
  "default_prefix = ''pr-agent''"

subsection \<open>Reading a name back\<close>

definition mr_key_of_parts :: "string \<Rightarrow> string \<Rightarrow> mr_key option" where
  "mr_key_of_parts q i = do { n \<leftarrow> parse_int i; MrKey (unquote q) n }"

definition key_of_parts :: "string list \<Rightarrow> rkey option" where
  "key_of_parts ps = (case ps of
      [a] \<Rightarrow> map_of [(''ingress'', K_ingress_stream), (''notifications'', K_notification_stream),
                (''workers'', K_worker_registry), (''no-lease'', K_no_lease)] a
    | [a, b] \<Rightarrow>
        (if a = ''task'' then Some (K_task b)
         else if a = ''dedup'' then Some (K_dedup (unquote b))
         else if a = ''worker'' then Some (K_worker b)
         else if a = ''effect'' then Some (K_effect (unquote b))
         else if a = ''notification'' then Some (K_notification b)
         else map_of [((''repair-reports'', ''ingress''), K_report_ingress_stream),
                ((''pipeline'', ''waiting''), K_pipeline_waiting), ((''repairs'', ''active''), K_active_repairs),
                ((''repair-reports'', ''active''), K_active_report_tasks),
                ((''scheduler'', ''leader''), K_scheduler_leader),
                ((''repairs'', ''reconciliation''), K_repair_reconciliation_metrics),
                ((''triage'', ''persistence-health''), K_triage_persistence_health),
                ((''no-mr'', ''tasks''), K_no_mr_tasks), ((''no-mr'', ''triage-active''), K_no_mr_triage_active),
                ((''no-mr'', ''paused-auto''), K_no_mr_paused_auto)] (a, b))
    | [a, b, c] \<Rightarrow>
        (if a = ''worker'' then map_of [(''inbox'', K_worker_inbox b), (''tasks'', K_worker_tasks b)] c
         else if a = ''notification'' then map_of [(''queued'', K_notification_dedup b)] c
         else if a = ''service'' then map_of [(''heartbeat'', K_service_heartbeat b)] c
         else if a = ''feishu'' then
           map_of [(''card'', K_triage_card c), (''task-card'', K_task_triage_card c),
                   (''user-name'', K_feishu_user_name (unquote c))] b
         else if a = ''task'' then
           map_of [(''final-repair-report-input'', K_final_repair_report_input (unquote b)),
                   (''lifecycle'', K_lifecycle (unquote b)), (''lifecycle-events'', K_lifecycle_events (unquote b)),
                   (''repair-progress'', K_repair_progress (unquote b))] c
         else None)
    | [a, b, c, d] \<Rightarrow>
        (if a = ''mr'' then
           do { m \<leftarrow> mr_key_of_parts b c;
                map_of [(''lease'', K_mr_lease m), (''fence'', K_mr_fence m), (''tasks'', K_mr_tasks m),
                  (''triage-active'', K_mr_triage_active m), (''paused-auto'', K_mr_paused_auto m),
                  (''latest-repair-card'', K_mr_latest_repair_card m),
                  (''latest-repair-pipeline-id'', K_mr_latest_repair_pipeline_id m),
                  (''fixing-notice'', K_fixing_notice m)] d }
         else if a = ''pipeline'' then
           map_of [(''event'', K_pipeline_event (unquote b) (unquote c) None),
                   (''waiters'', K_pipeline_waiters (unquote b) (unquote c) None)] d
         else if a = ''repair-sha'' then map_of [(''tasks'', K_repair_sha_tasks (unquote b) (unquote c))] d
         else None)
    | [a, b, c, d, e] \<Rightarrow>
        (if a = ''pipeline'' then
           do { n \<leftarrow> parse_int e;
                map_of [(''event'', K_pipeline_event (unquote b) (unquote c) (Some n)),
                        (''waiters'', K_pipeline_waiters (unquote b) (unquote c) (Some n))] d }
         else None)
    | _ \<Rightarrow> None)"

definition resolve_key :: "string \<Rightarrow> string \<Rightarrow> rkey option" where
  "resolve_key prefix s =
     (if startswith s (prefix @ '':'') then key_of_parts (split_on (CHR '':'') (drop (length prefix + 1) s)) else None)"

text \<open>
  Identifiers that appear unquoted in a name hold no colon: task, notification and card
  ids are hexadecimal UUIDs, worker and service ids come from the deployment.
\<close>

fun wf_key :: "rkey \<Rightarrow> bool" where
  "wf_key (K_task t) \<longleftrightarrow> CHR '':'' \<notin> set t"
| "wf_key (K_worker w) \<longleftrightarrow> CHR '':'' \<notin> set w"
| "wf_key (K_worker_inbox w) \<longleftrightarrow> CHR '':'' \<notin> set w"
| "wf_key (K_worker_tasks w) \<longleftrightarrow> CHR '':'' \<notin> set w"
| "wf_key (K_notification n) \<longleftrightarrow> CHR '':'' \<notin> set n"
| "wf_key (K_notification_dedup n) \<longleftrightarrow> CHR '':'' \<notin> set n"
| "wf_key (K_triage_card c) \<longleftrightarrow> CHR '':'' \<notin> set c"
| "wf_key (K_task_triage_card t) \<longleftrightarrow> CHR '':'' \<notin> set t"
| "wf_key (K_service_heartbeat s) \<longleftrightarrow> CHR '':'' \<notin> set s"
| "wf_key (K_mr_lease m) \<longleftrightarrow> wf_mr m"
| "wf_key (K_mr_fence m) \<longleftrightarrow> wf_mr m"
| "wf_key (K_mr_tasks m) \<longleftrightarrow> wf_mr m"
| "wf_key (K_mr_triage_active m) \<longleftrightarrow> wf_mr m"
| "wf_key (K_mr_paused_auto m) \<longleftrightarrow> wf_mr m"
| "wf_key (K_mr_latest_repair_card m) \<longleftrightarrow> wf_mr m"
| "wf_key (K_mr_latest_repair_pipeline_id m) \<longleftrightarrow> wf_mr m"
| "wf_key (K_fixing_notice m) \<longleftrightarrow> wf_mr m"
| "wf_key _ \<longleftrightarrow> True"

lemma split_on_join: "xs \<noteq> [] \<Longrightarrow> (\<And>x. x \<in> set xs \<Longrightarrow> d \<notin> set x) \<Longrightarrow> split_on d (join [d] xs) = xs"
  by (induction "[d]" xs rule: join.induct) (auto simp: split_on_atom split_on_append)

lemma mr_key_of_parts_render [simp]: "wf_mr m \<Longrightarrow> mr_key_of_parts (quote (project_id m)) (show_int (iid m)) = Some m"
  by (cases m) (simp add: mr_key_of_parts_def MrKey_def wf_mr_def)

lemma key_of_key_parts: "wf_key k \<Longrightarrow> key_of_parts (key_parts k) = Some k"
  by (cases k) (simp_all add: key_of_parts_def mr_parts_def pipeline_parts_def split: option.splits)

lemma key_parts_colon_free: "wf_key k \<Longrightarrow> x \<in> set (key_parts k) \<Longrightarrow> CHR '':'' \<notin> set x"
  by (cases k) (auto simp: mr_parts_def pipeline_parts_def split: option.splits)

lemma key_parts_nonempty: "key_parts k \<noteq> []"
  by (cases k) (auto simp: mr_parts_def pipeline_parts_def)

lemma resolve_redis_key: "wf_key k \<Longrightarrow> resolve_key prefix (redis_key prefix k) = Some k"
  by (simp add: resolve_key_def redis_key_def startswith_def split_on_join key_parts_colon_free
      key_parts_nonempty key_of_key_parts)

subsection \<open>The triage gate scan\<close>

text \<open>
  \<open>parse_triage_gate\<close>. \<open>int(raw_iid)\<close> and the \<open>MrKey\<close> checks raise \<open>ValueError\<close>, which
  the method turns into \<open>None\<close>.
\<close>

definition parse_triage_gate :: "string \<Rightarrow> string \<Rightarrow> mr_key option" where
  "parse_triage_gate prefix key =
     (let pre = prefix @ '':mr:''; suf = '':triage-active'' in
      if \<not> startswith key pre \<or> \<not> endswith key suf then None
      else
        let identity = take (length key - length suf - length pre) (drop (length pre) key)
        in case rsplit_once (CHR '':'') identity of
             None \<Rightarrow> None
           | Some (encoded_project, raw_iid) \<Rightarrow>
               do { n \<leftarrow> py_int_text raw_iid; MrKey (unquote encoded_project) n })"

lemma space_notin_show_int: "is_space c \<Longrightarrow> c \<notin> set (show_int i)"
  by (rule not_in_show_int) (auto simp: is_space_def is_digit_def Let_def)

lemma strip_no_space: "(\<And>c. c \<in> set s \<Longrightarrow> \<not> is_space c) \<Longrightarrow> strip s = s"
proof -
  have id: "(\<And>c. c \<in> set t \<Longrightarrow> \<not> is_space c) \<Longrightarrow> dropWhile is_space t = t" for t
    by (cases t) auto
  assume *: "\<And>c. c \<in> set s \<Longrightarrow> \<not> is_space c"
  show ?thesis using id [of s] id [of "rev s"] * by (simp add: strip_def lstrip_def)
qed

lemma py_int_text_show_int [simp]: "py_int_text (show_int i) = Some i"
proof -
  have "strip (show_int i) = show_int i"
    using space_notin_show_int by (intro strip_no_space) blast
  moreover obtain c cs where "show_int i = c # cs" "is_digit c \<or> c = CHR ''-''"
    using show_int_start by blast
  moreover have "\<not> is_digit (CHR ''+'')" by (simp add: is_digit_def)
  ultimately show ?thesis
    using parse_show_int [of i] by (auto simp: py_int_text_def simp del: parse_int.simps)
qed

lemma parse_triage_gate_render:
  assumes "wf_mr m"
  shows "parse_triage_gate prefix (redis_key prefix (K_mr_triage_active m)) = Some m"
proof -
  let ?id = "quote (project_id m) @ CHR '':'' # show_int (iid m)"
  have key: "redis_key prefix (K_mr_triage_active m) = (prefix @ '':mr:'') @ ?id @ '':triage-active''"
    by (simp add: redis_key_def mr_parts_def)
  have "rsplit_once (CHR '':'') ?id = Some (quote (project_id m), show_int (iid m))"
    by (simp add: rsplit_once_append)
  moreover have "startswith (redis_key prefix (K_mr_triage_active m)) (prefix @ '':mr:'')"
    unfolding key by (rule startswith_append)
  moreover have "endswith (redis_key prefix (K_mr_triage_active m)) '':triage-active''"
    unfolding key append_assoc [symmetric] by (rule endswith_append)
  moreover have "take (length (redis_key prefix (K_mr_triage_active m)) - length '':triage-active'' - length (prefix @ '':mr:''))
      (drop (length (prefix @ '':mr:'')) (redis_key prefix (K_mr_triage_active m))) = ?id"
    unfolding key by simp
  ultimately show ?thesis
    using assms by (cases m) (simp add: parse_triage_gate_def Let_def MrKey_def wf_mr_def)
qed

end
