(* ===== verification/Redis_Store.thy ===== *)
theory Redis_Store
  imports Redis_Keys
begin

text \<open>
  The Redis keyspace the broker works on and the commands its scripts call. A Lua script
  runs atomically at one instant, so a script is a function on this state; a command on a
  key that holds another type of value raises \<open>WRONGTYPE\<close>, which aborts the script: that
  is \<open>None\<close>. Time is counted in milliseconds for key expiry; \<open>redis_tick\<close> is the passing
  of time, at which Redis drops the keys whose deadline has come.
\<close>

subsection \<open>Values\<close>

record group =
  last_delivered :: nat
  pending :: "(nat \<times> string \<times> int) list"  \<comment> \<open>message, consumer, time of delivery\<close>

record stream =
  entries :: "(nat \<times> (string \<times> string) list) list"
  last_id :: nat
  groups :: "(string \<times> group) list"

datatype rkind = KStr | KHash | KSet | KZset | KStream

datatype rvalue =
    RStr string
  | RHash "(string \<times> string) list"
  | RSet "string list"
  | RZset "(string \<times> int) list"
  | RStream stream

fun kind_of :: "rvalue \<Rightarrow> rkind" where
  "kind_of (RStr _) = KStr"
| "kind_of (RHash _) = KHash"
| "kind_of (RSet _) = KSet"
| "kind_of (RZset _) = KZset"
| "kind_of (RStream _) = KStream"

record redis =
  data :: "rkey \<Rightarrow> rvalue option"
  deadline :: "rkey \<Rightarrow> int option"
  clock :: int

text \<open>The type of value the runtime keeps under each key.\<close>

fun key_kind :: "rkey \<Rightarrow> rkind" where
  "key_kind (K_task _) = KHash"
| "key_kind (K_mr_lease _) = KHash"
| "key_kind K_no_lease = KHash"
| "key_kind (K_worker _) = KHash"
| "key_kind (K_effect _) = KHash"
| "key_kind (K_notification _) = KHash"
| "key_kind (K_triage_card _) = KHash"
| "key_kind (K_service_heartbeat _) = KHash"
| "key_kind K_repair_reconciliation_metrics = KHash"
| "key_kind K_triage_persistence_health = KHash"
| "key_kind (K_lifecycle_events _) = KHash"
| "key_kind K_worker_registry = KSet"
| "key_kind (K_pipeline_waiters _ _ _) = KSet"
| "key_kind (K_mr_tasks _) = KSet"
| "key_kind K_no_mr_tasks = KSet"
| "key_kind (K_worker_tasks _) = KSet"
| "key_kind K_pipeline_waiting = KZset"
| "key_kind K_active_repairs = KZset"
| "key_kind K_active_report_tasks = KZset"
| "key_kind (K_repair_sha_tasks _ _) = KSet"
| "key_kind (K_lifecycle _) = KZset"
| "key_kind K_ingress_stream = KStream"
| "key_kind K_report_ingress_stream = KStream"
| "key_kind K_notification_stream = KStream"
| "key_kind (K_worker_inbox _) = KStream"
| "key_kind (K_repair_progress _) = KStream"
| "key_kind _ = KStr"

definition type_ok :: "redis \<Rightarrow> rkey \<Rightarrow> rkind \<Rightarrow> bool" where
  "type_ok db k kd = (case data db k of None \<Rightarrow> True | Some v \<Rightarrow> kind_of v = kd)"

definition well_typed :: "redis \<Rightarrow> bool" where
  "well_typed db \<longleftrightarrow> (\<forall>k. type_ok db k (key_kind k))"

lemma type_okI [simp]: "well_typed db \<Longrightarrow> key_kind k = kd \<Longrightarrow> type_ok db k kd"
  by (auto simp: well_typed_def)

subsection \<open>Views\<close>

definition exists_key :: "redis \<Rightarrow> rkey \<Rightarrow> bool" where
  "exists_key db k \<longleftrightarrow> data db k \<noteq> None"

definition str_at :: "redis \<Rightarrow> rkey \<Rightarrow> string option" where
  "str_at db k = (case data db k of Some (RStr s) \<Rightarrow> Some s | _ \<Rightarrow> None)"

definition hash_list :: "redis \<Rightarrow> rkey \<Rightarrow> (string \<times> string) list" where
  "hash_list db k = (case data db k of Some (RHash h) \<Rightarrow> h | _ \<Rightarrow> [])"

definition hash_at :: "redis \<Rightarrow> rkey \<Rightarrow> string \<Rightarrow> string option" where
  "hash_at db k = map_of (hash_list db k)"

definition set_at :: "redis \<Rightarrow> rkey \<Rightarrow> string list" where
  "set_at db k = (case data db k of Some (RSet s) \<Rightarrow> s | _ \<Rightarrow> [])"

definition zset_at :: "redis \<Rightarrow> rkey \<Rightarrow> (string \<times> int) list" where
  "zset_at db k = (case data db k of Some (RZset z) \<Rightarrow> z | _ \<Rightarrow> [])"

definition empty_stream :: stream where
  "empty_stream = \<lparr>entries = [], last_id = 0, groups = []\<rparr>"

definition stream_at :: "redis \<Rightarrow> rkey \<Rightarrow> stream" where
  "stream_at db k = (case data db k of Some (RStream s) \<Rightarrow> s | _ \<Rightarrow> empty_stream)"

subsection \<open>Writes\<close>

definition put :: "redis \<Rightarrow> rkey \<Rightarrow> rvalue \<Rightarrow> redis" where
  "put db k v = db\<lparr>data := (data db)(k \<mapsto> v)\<rparr>"

definition del :: "redis \<Rightarrow> rkey \<Rightarrow> redis" where
  "del db k = db\<lparr>data := (data db)(k := None), deadline := (deadline db)(k := None)\<rparr>"

text \<open>\<open>SET\<close> drops an old deadline; \<open>EX\<close> gives a new one, in seconds.\<close>

definition set_w :: "redis \<Rightarrow> rkey \<Rightarrow> string \<Rightarrow> redis" where
  "set_w db k v = (put db k (RStr v))\<lparr>deadline := (deadline db)(k := None)\<rparr>"

definition set_ex_w :: "redis \<Rightarrow> rkey \<Rightarrow> string \<Rightarrow> int \<Rightarrow> redis" where
  "set_ex_w db k v secs = (put db k (RStr v))\<lparr>deadline := (deadline db)(k \<mapsto> clock db + 1000 * secs)\<rparr>"

definition hset_w :: "redis \<Rightarrow> rkey \<Rightarrow> (string \<times> string) list \<Rightarrow> redis" where
  "hset_w db k kvs = put db k (RHash (fold (\<lambda>(f, v) h. AList.update f v h) kvs (hash_list db k)))"

definition hdel_w :: "redis \<Rightarrow> rkey \<Rightarrow> string list \<Rightarrow> redis" where
  "hdel_w db k fs =
     (let h = fold AList.delete fs (hash_list db k) in
      if h = [] then del db k else put db k (RHash h))"

definition sadd_w :: "redis \<Rightarrow> rkey \<Rightarrow> string \<Rightarrow> redis" where
  "sadd_w db k x = put db k (RSet (List.insert x (set_at db k)))"

definition srem_w :: "redis \<Rightarrow> rkey \<Rightarrow> string \<Rightarrow> redis" where
  "srem_w db k x = (let s = removeAll x (set_at db k) in if s = [] then del db k else put db k (RSet s))"

definition zadd_w :: "redis \<Rightarrow> rkey \<Rightarrow> int \<Rightarrow> string \<Rightarrow> redis" where
  "zadd_w db k score x = put db k (RZset (AList.update x score (zset_at db k)))"

definition zrem_w :: "redis \<Rightarrow> rkey \<Rightarrow> string \<Rightarrow> redis" where
  "zrem_w db k x = (let z = AList.delete x (zset_at db k) in if z = [] then del db k else put db k (RZset z))"

definition next_id :: "redis \<Rightarrow> rkey \<Rightarrow> nat" where
  "next_id db k = Suc (last_id (stream_at db k))"

text \<open>\<open>XADD k * ...\<close>: message ids grow; the model numbers them.\<close>

definition xadd_w :: "redis \<Rightarrow> rkey \<Rightarrow> (string \<times> string) list \<Rightarrow> redis" where
  "xadd_w db k fs =
     (let s = stream_at db k; n = next_id db k
      in put db k (RStream (s\<lparr>entries := entries s @ [(n, fs)], last_id := n\<rparr>)))"

definition pexpire_w :: "redis \<Rightarrow> rkey \<Rightarrow> int \<Rightarrow> redis" where
  "pexpire_w db k ms =
     (if \<not> exists_key db k then db
      else if ms \<le> 0 then del db k
      else db\<lparr>deadline := (deadline db)(k \<mapsto> clock db + ms)\<rparr>)"

definition expire_w :: "redis \<Rightarrow> rkey \<Rightarrow> int \<Rightarrow> redis" where
  "expire_w db k secs = pexpire_w db k (1000 * secs)"

subsection \<open>Commands\<close>

definition get :: "redis \<Rightarrow> rkey \<Rightarrow> string option option" where
  "get db k = (if type_ok db k KStr then Some (str_at db k) else None)"

definition hget :: "redis \<Rightarrow> rkey \<Rightarrow> string \<Rightarrow> string option option" where
  "hget db k f = (if type_ok db k KHash then Some (hash_at db k f) else None)"

definition hset :: "redis \<Rightarrow> rkey \<Rightarrow> (string \<times> string) list \<Rightarrow> redis option" where
  "hset db k kvs = (if type_ok db k KHash then Some (hset_w db k kvs) else None)"

definition hdel :: "redis \<Rightarrow> rkey \<Rightarrow> string list \<Rightarrow> redis option" where
  "hdel db k fs = (if type_ok db k KHash then Some (hdel_w db k fs) else None)"

definition sadd :: "redis \<Rightarrow> rkey \<Rightarrow> string \<Rightarrow> redis option" where
  "sadd db k x = (if type_ok db k KSet then Some (sadd_w db k x) else None)"

definition srem :: "redis \<Rightarrow> rkey \<Rightarrow> string \<Rightarrow> redis option" where
  "srem db k x = (if type_ok db k KSet then Some (srem_w db k x) else None)"

definition smembers :: "redis \<Rightarrow> rkey \<Rightarrow> string list option" where
  "smembers db k = (if type_ok db k KSet then Some (set_at db k) else None)"

definition sismember :: "redis \<Rightarrow> rkey \<Rightarrow> string \<Rightarrow> bool option" where
  "sismember db k x = (if type_ok db k KSet then Some (x \<in> set (set_at db k)) else None)"

definition zadd :: "redis \<Rightarrow> rkey \<Rightarrow> int \<Rightarrow> string \<Rightarrow> redis option" where
  "zadd db k score x = (if type_ok db k KZset then Some (zadd_w db k score x) else None)"

definition zrem :: "redis \<Rightarrow> rkey \<Rightarrow> string \<Rightarrow> redis option" where
  "zrem db k x = (if type_ok db k KZset then Some (zrem_w db k x) else None)"

definition zscore :: "redis \<Rightarrow> rkey \<Rightarrow> string \<Rightarrow> int option option" where
  "zscore db k x = (if type_ok db k KZset then Some (map_of (zset_at db k) x) else None)"

definition xadd :: "redis \<Rightarrow> rkey \<Rightarrow> (string \<times> string) list \<Rightarrow> (string \<times> redis) option" where
  "xadd db k fs =
     (if type_ok db k KStream then Some (show_nat (next_id db k), xadd_w db k fs) else None)"

text \<open>\<open>INCR\<close>: a missing key counts from zero, a value that is no integer is an error.\<close>

definition incr :: "redis \<Rightarrow> rkey \<Rightarrow> (int \<times> redis) option" where
  "incr db k =
     (if \<not> type_ok db k KStr then None else
      case (case str_at db k of None \<Rightarrow> Some 0 | Some s \<Rightarrow> parse_int s) of
        None \<Rightarrow> None
      | Some n \<Rightarrow> Some (n + 1, put db k (RStr (show_int (n + 1)))))"

text \<open>\<open>SET k v EX secs NX\<close>.\<close>

definition set_nx_ex :: "redis \<Rightarrow> rkey \<Rightarrow> string \<Rightarrow> int \<Rightarrow> bool \<times> redis" where
  "set_nx_ex db k v secs = (if exists_key db k then (False, db) else (True, set_ex_w db k v secs))"

definition redis_tick :: "int \<Rightarrow> redis \<Rightarrow> redis" where
  "redis_tick ms db =
     (let now = clock db + max 0 ms;
          expired = (\<lambda>k. case deadline db k of None \<Rightarrow> False | Some d \<Rightarrow> d \<le> now)
      in db\<lparr>data := (\<lambda>k. if expired k then None else data db k),
            deadline := (\<lambda>k. if expired k then None else deadline db k), clock := now\<rparr>)"

definition empty_redis :: redis where
  "empty_redis = \<lparr>data = (\<lambda>_. None), deadline = (\<lambda>_. None), clock = 0\<rparr>"

subsection \<open>On a well-typed keyspace no command is refused\<close>

lemmas command_defs = get_def hget_def hset_def hdel_def sadd_def srem_def smembers_def sismember_def
  zadd_def zrem_def zscore_def xadd_def

lemma well_typed_commands [redis_simps]:
  "well_typed db \<Longrightarrow> key_kind k = KStr \<Longrightarrow> get db k = Some (str_at db k)"
  "well_typed db \<Longrightarrow> key_kind k = KHash \<Longrightarrow> hget db k f = Some (hash_at db k f)"
  "well_typed db \<Longrightarrow> key_kind k = KHash \<Longrightarrow> hset db k kvs = Some (hset_w db k kvs)"
  "well_typed db \<Longrightarrow> key_kind k = KHash \<Longrightarrow> hdel db k fs = Some (hdel_w db k fs)"
  "well_typed db \<Longrightarrow> key_kind k = KSet \<Longrightarrow> sadd db k x = Some (sadd_w db k x)"
  "well_typed db \<Longrightarrow> key_kind k = KSet \<Longrightarrow> srem db k x = Some (srem_w db k x)"
  "well_typed db \<Longrightarrow> key_kind k = KSet \<Longrightarrow> smembers db k = Some (set_at db k)"
  "well_typed db \<Longrightarrow> key_kind k = KSet \<Longrightarrow> sismember db k x = Some (x \<in> set (set_at db k))"
  "well_typed db \<Longrightarrow> key_kind k = KZset \<Longrightarrow> zadd db k sc x = Some (zadd_w db k sc x)"
  "well_typed db \<Longrightarrow> key_kind k = KZset \<Longrightarrow> zrem db k x = Some (zrem_w db k x)"
  "well_typed db \<Longrightarrow> key_kind k = KZset \<Longrightarrow> zscore db k x = Some (map_of (zset_at db k) x)"
  "well_typed db \<Longrightarrow> key_kind k = KStream \<Longrightarrow> xadd db k kvs = Some (show_nat (next_id db k), xadd_w db k kvs)"
  by (simp_all add: command_defs)

lemma well_typed_put: "well_typed db \<Longrightarrow> kind_of v = key_kind k \<Longrightarrow> well_typed (put db k v)"
  by (auto simp: well_typed_def type_ok_def put_def)

lemma well_typed_del [redis_simps]: "well_typed db \<Longrightarrow> well_typed (del db k)"
  by (auto simp: well_typed_def type_ok_def del_def)

lemma well_typed_deadline [redis_simps]: "well_typed (db\<lparr>deadline := d\<rparr>) = well_typed db"
  by (simp add: well_typed_def type_ok_def)

lemma well_typed_writes [redis_simps]:
  "well_typed db \<Longrightarrow> key_kind k = KStr \<Longrightarrow> well_typed (set_w db k s)"
  "well_typed db \<Longrightarrow> key_kind k = KStr \<Longrightarrow> well_typed (set_ex_w db k s n)"
  "well_typed db \<Longrightarrow> key_kind k = KHash \<Longrightarrow> well_typed (hset_w db k kvs)"
  "well_typed db \<Longrightarrow> key_kind k = KHash \<Longrightarrow> well_typed (hdel_w db k fs)"
  "well_typed db \<Longrightarrow> key_kind k = KSet \<Longrightarrow> well_typed (sadd_w db k x)"
  "well_typed db \<Longrightarrow> key_kind k = KSet \<Longrightarrow> well_typed (srem_w db k x)"
  "well_typed db \<Longrightarrow> key_kind k = KZset \<Longrightarrow> well_typed (zadd_w db k sc x)"
  "well_typed db \<Longrightarrow> key_kind k = KZset \<Longrightarrow> well_typed (zrem_w db k x)"
  "well_typed db \<Longrightarrow> key_kind k = KStream \<Longrightarrow> well_typed (xadd_w db k kvs)"
  "well_typed db \<Longrightarrow> well_typed (pexpire_w db k ms)"
  "well_typed db \<Longrightarrow> well_typed (expire_w db k n)"
  by (simp_all add: set_w_def set_ex_w_def hset_w_def hdel_w_def sadd_w_def srem_w_def zadd_w_def zrem_w_def
      xadd_w_def pexpire_w_def expire_w_def Let_def well_typed_put well_typed_del well_typed_deadline)

lemma well_typed_empty [simp]: "well_typed empty_redis"
  by (simp add: well_typed_def type_ok_def empty_redis_def)

lemma well_typed_tick [redis_simps]: "well_typed db \<Longrightarrow> well_typed (redis_tick ms db)"
  by (auto simp: well_typed_def type_ok_def redis_tick_def Let_def)

lemma set_nx_ex_simps [redis_simps]:
  "exists_key db k \<Longrightarrow> set_nx_ex db k v n = (False, db)"
  "\<not> exists_key db k \<Longrightarrow> set_nx_ex db k v n = (True, set_ex_w db k v n)"
  by (simp_all add: set_nx_ex_def)

subsection \<open>What a view shows after a write\<close>

lemmas view_defs = exists_key_def str_at_def hash_at_def hash_list_def set_at_def zset_at_def stream_at_def
lemmas write_defs = put_def del_def set_w_def set_ex_w_def hset_w_def hdel_w_def sadd_w_def srem_w_def
  zadd_w_def zrem_w_def xadd_w_def pexpire_w_def expire_w_def

lemma map_of_fold_update: "map_of (fold (\<lambda>(f, v) h. AList.update f v h) kvs h) = fold (\<lambda>(f, v) m. m(f \<mapsto> v)) kvs (map_of h)"
  by (induction kvs arbitrary: h) (auto simp: update_conv')

lemma map_of_fold_delete: "map_of (fold AList.delete fs h) = fold (\<lambda>f m. m(f := None)) fs (map_of h)"
  by (induction fs arbitrary: h) (auto simp: delete_conv')

lemma hash_at_hset [view_simps]:
  "hash_at (hset_w db k kvs) k' = (if k' = k then fold (\<lambda>(f, v) m. m(f \<mapsto> v)) kvs (hash_at db k) else hash_at db k')"
  by (simp add: hset_w_def put_def hash_at_def hash_list_def map_of_fold_update)

lemma hash_at_hdel [view_simps]:
  "hash_at (hdel_w db k fs) k' = (if k' = k then fold (\<lambda>f m. m(f := None)) fs (hash_at db k) else hash_at db k')"
proof -
  have "fold AList.delete fs h = [] \<Longrightarrow> fold (\<lambda>f m. m(f := None)) fs (map_of h) = Map.empty" for h :: "(string \<times> string) list"
    using map_of_fold_delete [of fs h] by simp
  then show ?thesis
    by (simp add: hdel_w_def Let_def put_def del_def hash_at_def hash_list_def map_of_fold_delete)
qed

lemma hash_at_other [view_simps]:
  "hash_at (del db k) k' = (if k' = k then Map.empty else hash_at db k')"
  "hash_at (set_w db k s) k' = (if k' = k then Map.empty else hash_at db k')"
  "hash_at (set_ex_w db k s n) k' = (if k' = k then Map.empty else hash_at db k')"
  "hash_at (sadd_w db k x) k' = (if k' = k then Map.empty else hash_at db k')"
  "hash_at (srem_w db k x) k' = (if k' = k then Map.empty else hash_at db k')"
  "hash_at (zadd_w db k sc x) k' = (if k' = k then Map.empty else hash_at db k')"
  "hash_at (zrem_w db k x) k' = (if k' = k then Map.empty else hash_at db k')"
  "hash_at (xadd_w db k kvs) k' = (if k' = k then Map.empty else hash_at db k')"
  "hash_at (pexpire_w db k ms) k' = (if k' = k \<and> ms \<le> 0 then Map.empty else hash_at db k')"
  "hash_at (expire_w db k n) k' = (if k' = k \<and> n \<le> 0 then Map.empty else hash_at db k')"
  by (auto simp: write_defs hash_at_def hash_list_def exists_key_def Let_def)

lemma str_at_simps [view_simps]:
  "str_at (set_w db k s) k' = (if k' = k then Some s else str_at db k')"
  "str_at (set_ex_w db k s n) k' = (if k' = k then Some s else str_at db k')"
  "str_at (del db k) k' = (if k' = k then None else str_at db k')"
  "str_at (hset_w db k kvs) k' = (if k' = k then None else str_at db k')"
  "str_at (hdel_w db k fs) k' = (if k' = k then None else str_at db k')"
  "str_at (sadd_w db k x) k' = (if k' = k then None else str_at db k')"
  "str_at (srem_w db k x) k' = (if k' = k then None else str_at db k')"
  "str_at (zadd_w db k sc x) k' = (if k' = k then None else str_at db k')"
  "str_at (zrem_w db k x) k' = (if k' = k then None else str_at db k')"
  "str_at (xadd_w db k kvs) k' = (if k' = k then None else str_at db k')"
  "str_at (pexpire_w db k ms) k' = (if k' = k \<and> ms \<le> 0 then None else str_at db k')"
  "str_at (expire_w db k n) k' = (if k' = k \<and> n \<le> 0 then None else str_at db k')"
  by (auto simp: write_defs str_at_def exists_key_def Let_def)

lemma set_at_simps [view_simps]:
  "set_at (sadd_w db k x) k' = (if k' = k then List.insert x (set_at db k) else set_at db k')"
  "set_at (srem_w db k x) k' = (if k' = k then removeAll x (set_at db k) else set_at db k')"
  "set_at (del db k) k' = (if k' = k then [] else set_at db k')"
  "set_at (set_w db k s) k' = (if k' = k then [] else set_at db k')"
  "set_at (set_ex_w db k s n) k' = (if k' = k then [] else set_at db k')"
  "set_at (hset_w db k kvs) k' = (if k' = k then [] else set_at db k')"
  "set_at (hdel_w db k fs) k' = (if k' = k then [] else set_at db k')"
  "set_at (zadd_w db k sc x) k' = (if k' = k then [] else set_at db k')"
  "set_at (zrem_w db k x) k' = (if k' = k then [] else set_at db k')"
  "set_at (xadd_w db k kvs) k' = (if k' = k then [] else set_at db k')"
  "set_at (pexpire_w db k ms) k' = (if k' = k \<and> ms \<le> 0 then [] else set_at db k')"
  "set_at (expire_w db k n) k' = (if k' = k \<and> n \<le> 0 then [] else set_at db k')"
  by (auto simp: write_defs set_at_def exists_key_def Let_def)

lemma zset_at_simps [view_simps]:
  "zset_at (zadd_w db k sc x) k' = (if k' = k then AList.update x sc (zset_at db k) else zset_at db k')"
  "zset_at (zrem_w db k x) k' = (if k' = k then AList.delete x (zset_at db k) else zset_at db k')"
  "zset_at (del db k) k' = (if k' = k then [] else zset_at db k')"
  "zset_at (set_w db k s) k' = (if k' = k then [] else zset_at db k')"
  "zset_at (set_ex_w db k s n) k' = (if k' = k then [] else zset_at db k')"
  "zset_at (hset_w db k kvs) k' = (if k' = k then [] else zset_at db k')"
  "zset_at (hdel_w db k fs) k' = (if k' = k then [] else zset_at db k')"
  "zset_at (sadd_w db k x) k' = (if k' = k then [] else zset_at db k')"
  "zset_at (srem_w db k x) k' = (if k' = k then [] else zset_at db k')"
  "zset_at (xadd_w db k kvs) k' = (if k' = k then [] else zset_at db k')"
  "zset_at (pexpire_w db k ms) k' = (if k' = k \<and> ms \<le> 0 then [] else zset_at db k')"
  "zset_at (expire_w db k n) k' = (if k' = k \<and> n \<le> 0 then [] else zset_at db k')"
  by (auto simp: write_defs zset_at_def exists_key_def Let_def)

lemma stream_at_simps [view_simps]:
  "stream_at (xadd_w db k kvs) k' =
     (if k' = k then (stream_at db k)\<lparr>entries := entries (stream_at db k) @ [(next_id db k, kvs)], last_id := next_id db k\<rparr>
      else stream_at db k')"
  "stream_at (del db k) k' = (if k' = k then empty_stream else stream_at db k')"
  "stream_at (set_w db k s) k' = (if k' = k then empty_stream else stream_at db k')"
  "stream_at (set_ex_w db k s n) k' = (if k' = k then empty_stream else stream_at db k')"
  "stream_at (hset_w db k kvs) k' = (if k' = k then empty_stream else stream_at db k')"
  "stream_at (hdel_w db k fs) k' = (if k' = k then empty_stream else stream_at db k')"
  "stream_at (sadd_w db k x) k' = (if k' = k then empty_stream else stream_at db k')"
  "stream_at (srem_w db k x) k' = (if k' = k then empty_stream else stream_at db k')"
  "stream_at (zadd_w db k sc x) k' = (if k' = k then empty_stream else stream_at db k')"
  "stream_at (zrem_w db k x) k' = (if k' = k then empty_stream else stream_at db k')"
  "stream_at (pexpire_w db k ms) k' = (if k' = k \<and> ms \<le> 0 then empty_stream else stream_at db k')"
  "stream_at (expire_w db k n) k' = (if k' = k \<and> n \<le> 0 then empty_stream else stream_at db k')"
  by (auto simp: write_defs stream_at_def exists_key_def Let_def)

lemma exists_key_simps [view_simps]:
  "exists_key (set_w db k s) k' \<longleftrightarrow> k' = k \<or> exists_key db k'"
  "exists_key (set_ex_w db k s n) k' \<longleftrightarrow> k' = k \<or> exists_key db k'"
  "exists_key (hset_w db k kvs) k' \<longleftrightarrow> k' = k \<or> exists_key db k'"
  "exists_key (sadd_w db k x) k' \<longleftrightarrow> k' = k \<or> exists_key db k'"
  "exists_key (zadd_w db k sc x) k' \<longleftrightarrow> k' = k \<or> exists_key db k'"
  "exists_key (xadd_w db k kvs) k' \<longleftrightarrow> k' = k \<or> exists_key db k'"
  "exists_key (del db k) k' \<longleftrightarrow> k' \<noteq> k \<and> exists_key db k'"
  "k' \<noteq> k \<Longrightarrow> exists_key (hdel_w db k fs) k' = exists_key db k'"
  "k' \<noteq> k \<Longrightarrow> exists_key (srem_w db k x) k' = exists_key db k'"
  "k' \<noteq> k \<Longrightarrow> exists_key (zrem_w db k x) k' = exists_key db k'"
  by (auto simp: write_defs exists_key_def Let_def)

lemma hash_absent: "\<not> exists_key db k \<Longrightarrow> hash_at db k = Map.empty"
  by (simp add: exists_key_def hash_at_def hash_list_def)

lemma empty_views [simp]:
  "str_at empty_redis k = None" "hash_at empty_redis k = Map.empty" "set_at empty_redis k = []"
  "zset_at empty_redis k = []" "stream_at empty_redis k = empty_stream" "\<not> exists_key empty_redis k"
  "deadline empty_redis k = None" "clock empty_redis = 0" "data empty_redis k = None"
  by (simp_all add: empty_redis_def view_defs fun_eq_iff)

text \<open>A counter step: the value is rewritten in place and its deadline stays.\<close>

lemma incr_wt:
  assumes "well_typed db" "key_kind k = KStr"
    and "str_at db k = None \<and> n = 0 \<or> str_at db k = Some (show_int n)"
  shows "incr db k = Some (n + 1, put db k (RStr (show_int (n + 1))))"
  using assms by (auto simp: incr_def)

lemma put_str_views [view_simps]:
  "str_at (put db k (RStr s)) k' = (if k' = k then Some s else str_at db k')"
  "hash_at (put db k (RStr s)) k' = (if k' = k then Map.empty else hash_at db k')"
  "set_at (put db k (RStr s)) k' = (if k' = k then [] else set_at db k')"
  "zset_at (put db k (RStr s)) k' = (if k' = k then [] else zset_at db k')"
  "stream_at (put db k (RStr s)) k' = (if k' = k then empty_stream else stream_at db k')"
  "exists_key (put db k v) k' \<longleftrightarrow> k' = k \<or> exists_key db k'"
  by (auto simp: put_def view_defs)

lemma deadline_simps [view_simps]:
  "deadline (put db k v) = deadline db"
  "deadline (hset_w db k kvs) = deadline db"
  "deadline (sadd_w db k x) = deadline db"
  "deadline (zadd_w db k sc x) = deadline db"
  "deadline (xadd_w db k kvs) = deadline db"
  "k' \<noteq> k \<Longrightarrow> deadline (del db k) k' = deadline db k'"
  "k' \<noteq> k \<Longrightarrow> deadline (set_w db k s) k' = deadline db k'"
  "k' \<noteq> k \<Longrightarrow> deadline (set_ex_w db k s n) k' = deadline db k'"
  "k' \<noteq> k \<Longrightarrow> deadline (hdel_w db k fs) k' = deadline db k'"
  "k' \<noteq> k \<Longrightarrow> deadline (srem_w db k x) k' = deadline db k'"
  "k' \<noteq> k \<Longrightarrow> deadline (zrem_w db k x) k' = deadline db k'"
  "k' \<noteq> k \<Longrightarrow> deadline (pexpire_w db k ms) k' = deadline db k'"
  "k' \<noteq> k \<Longrightarrow> deadline (expire_w db k n) k' = deadline db k'"
  by (auto simp: write_defs Let_def)

lemma exists_key_expire [view_simps]:
  "exists_key (pexpire_w db k ms) k' \<longleftrightarrow> exists_key db k' \<and> \<not> (k' = k \<and> ms \<le> 0)"
  "exists_key (expire_w db k n) k' \<longleftrightarrow> exists_key db k' \<and> \<not> (k' = k \<and> n \<le> 0)"
  by (auto simp: write_defs exists_key_def)

text \<open>
  A write leaves a key alone when data and deadline there are as before. Operations that
  leave a key alone compose.
\<close>

definition untouched :: "rkey \<Rightarrow> redis \<Rightarrow> redis \<Rightarrow> bool" where
  "untouched k db db' \<longleftrightarrow> data db' k = data db k \<and> deadline db' k = deadline db k \<and> clock db' = clock db"

lemma untouched_refl [simp]: "untouched k db db"
  by (simp add: untouched_def)

lemma untouched_writes [view_simps]:
  "k \<noteq> k' \<Longrightarrow> untouched k db (put db' k' v) = untouched k db db'"
  "k \<noteq> k' \<Longrightarrow> untouched k db (del db' k') = untouched k db db'"
  "k \<noteq> k' \<Longrightarrow> untouched k db (set_w db' k' s) = untouched k db db'"
  "k \<noteq> k' \<Longrightarrow> untouched k db (set_ex_w db' k' s n) = untouched k db db'"
  "k \<noteq> k' \<Longrightarrow> untouched k db (hset_w db' k' kvs) = untouched k db db'"
  "k \<noteq> k' \<Longrightarrow> untouched k db (hdel_w db' k' fs) = untouched k db db'"
  "k \<noteq> k' \<Longrightarrow> untouched k db (sadd_w db' k' x) = untouched k db db'"
  "k \<noteq> k' \<Longrightarrow> untouched k db (srem_w db' k' x) = untouched k db db'"
  "k \<noteq> k' \<Longrightarrow> untouched k db (zadd_w db' k' sc x) = untouched k db db'"
  "k \<noteq> k' \<Longrightarrow> untouched k db (zrem_w db' k' x) = untouched k db db'"
  "k \<noteq> k' \<Longrightarrow> untouched k db (xadd_w db' k' kvs) = untouched k db db'"
  "k \<noteq> k' \<Longrightarrow> untouched k db (pexpire_w db' k' ms) = untouched k db db'"
  "k \<noteq> k' \<Longrightarrow> untouched k db (expire_w db' k' n) = untouched k db db'"
  by (auto simp: untouched_def write_defs Let_def)

lemma untouched_views:
  assumes "untouched k db db'"
  shows "str_at db' k = str_at db k" "hash_at db' k = hash_at db k" "set_at db' k = set_at db k"
    "zset_at db' k = zset_at db k" "stream_at db' k = stream_at db k" "exists_key db' k = exists_key db k"
  using assms by (simp_all add: untouched_def view_defs)

end
