(* ===== verification/Lease.thy ===== *)
theory Lease
  imports Redis_Store
begin

text \<open>
  MR leases and fencing tokens: the scripts \<open>CLAIM_MR_LUA\<close>, \<open>RENEW_MR_LUA\<close>,
  \<open>RELEASE_MR_LUA\<close>, \<open>ASSERT_FENCE_LUA\<close> and \<open>REVOKE_MR_LUA\<close> of
  \<open>pr_agent/distributed/broker.py\<close> and the broker methods that call them. A script
  returns its reply and the new keyspace; a broker method returns its value or the
  exception it raises, and the new keyspace.
\<close>

datatype broker_error =
    LostLeaseError string
  | RedisError                 \<comment> \<open>a \<open>WRONGTYPE\<close> or script error reported by Redis\<close>
  | ValueError string
  | KeyErr string
  | RuntimeErr string
  | RepairManifestConflict string

type_synonym lua_arg = string  \<comment> \<open>an \<open>ARGV\<close> of a script\<close>
type_synonym 'a reply = "('a \<times> redis) option"
type_synonym 'a answer = "(broker_error + 'a) \<times> redis"

text \<open>A broker method turns the script's reply into its own result; a script error leaves it.\<close>

definition on_reply :: "redis \<Rightarrow> 'r reply \<Rightarrow> ('r \<Rightarrow> broker_error + 'a) \<Rightarrow> 'a answer" where
  "on_reply db r f = (case r of None \<Rightarrow> (Inl RedisError, db) | Some (v, db') \<Rightarrow> (f v, db'))"

lemma on_reply_Some [simp]: "on_reply db (Some (v, db')) f = (f v, db')"
  by (simp add: on_reply_def)

record mr_lease =
  lease_mr :: mr_key
  lease_worker_id :: string
  lease_fencing_token :: int

text \<open>The owner and token test that opens every fenced script.\<close>

definition lease_matches :: "redis \<Rightarrow> rkey \<Rightarrow> string \<Rightarrow> string \<Rightarrow> bool option" where
  "lease_matches db lease_key w tok =
     do { owner \<leftarrow> hget db lease_key ''worker_id'';
          token \<leftarrow> hget db lease_key ''fencing_token'';
          Some (owner = Some w \<and> token = Some tok) }"

definition holds_lease :: "redis \<Rightarrow> rkey \<Rightarrow> string \<Rightarrow> string \<Rightarrow> bool" where
  "holds_lease db lease_key w tok \<longleftrightarrow>
     hash_at db lease_key ''worker_id'' = Some w \<and> hash_at db lease_key ''fencing_token'' = Some tok"

lemma lease_matches_wt [redis_simps]:
  "well_typed db \<Longrightarrow> key_kind k = KHash \<Longrightarrow> lease_matches db k w tok = Some (holds_lease db k w tok)"
  by (simp add: lease_matches_def holds_lease_def redis_simps)

subsection \<open>Scripts\<close>

definition CLAIM_MR_LUA :: "redis \<Rightarrow> rkey \<Rightarrow> rkey \<Rightarrow> lua_arg \<Rightarrow> int \<Rightarrow> (string option \<times> string option) reply" where
  "CLAIM_MR_LUA db lease_key fence_key w ms =
     (if exists_key db lease_key then
        do { owner \<leftarrow> hget db lease_key ''worker_id'';
             token \<leftarrow> hget db lease_key ''fencing_token'';
             Some ((owner, token), if owner = Some w then pexpire_w db lease_key ms else db) }
      else
        do { (token, db1) \<leftarrow> incr db fence_key;
             db2 \<leftarrow> hset db1 lease_key [(''worker_id'', w), (''fencing_token'', show_int token)];
             Some ((Some w, Some (show_int token)), pexpire_w db2 lease_key ms) })"

definition RENEW_MR_LUA :: "redis \<Rightarrow> rkey \<Rightarrow> lua_arg \<Rightarrow> lua_arg \<Rightarrow> int \<Rightarrow> int reply" where
  "RENEW_MR_LUA db lease_key w tok ms =
     do { ok \<leftarrow> lease_matches db lease_key w tok;
          if \<not> ok then Some (0, db) else Some (1, pexpire_w db lease_key ms) }"

definition RELEASE_MR_LUA :: "redis \<Rightarrow> rkey \<Rightarrow> lua_arg \<Rightarrow> lua_arg \<Rightarrow> int reply" where
  "RELEASE_MR_LUA db lease_key w tok =
     do { ok \<leftarrow> lease_matches db lease_key w tok;
          if \<not> ok then Some (0, db) else Some (1, del db lease_key) }"

definition ASSERT_FENCE_LUA :: "redis \<Rightarrow> rkey \<Rightarrow> lua_arg \<Rightarrow> lua_arg \<Rightarrow> int reply" where
  "ASSERT_FENCE_LUA db lease_key w tok =
     do { ok \<leftarrow> lease_matches db lease_key w tok; Some (if ok then 1 else 0, db) }"

definition REVOKE_MR_LUA :: "redis \<Rightarrow> rkey \<Rightarrow> lua_arg \<Rightarrow> lua_arg \<Rightarrow> int reply" where
  "REVOKE_MR_LUA db lease_key w tok =
     (if \<not> exists_key db lease_key then Some (1, db)
      else do { ok \<leftarrow> lease_matches db lease_key w tok;
                if \<not> ok then Some (0, db) else Some (1, del db lease_key) })"

lemmas lease_scripts = CLAIM_MR_LUA_def RENEW_MR_LUA_def RELEASE_MR_LUA_def ASSERT_FENCE_LUA_def REVOKE_MR_LUA_def

subsection \<open>Broker methods\<close>

definition claim_mr :: "redis \<Rightarrow> mr_key \<Rightarrow> string \<Rightarrow> int \<Rightarrow> mr_lease answer" where
  "claim_mr db m w lease_seconds =
     on_reply db (CLAIM_MR_LUA db (K_mr_lease m) (K_mr_fence m) w (lease_seconds * 1000))
       (\<lambda>(owner, token).
          case (owner, token) of
            (Some ow, Some tk) \<Rightarrow>
              (case py_int_text tk of
                 Some n \<Rightarrow> Inr \<lparr>lease_mr = m, lease_worker_id = ow, lease_fencing_token = n\<rparr>
               | None \<Rightarrow> Inl (ValueError ''invalid literal for int()''))
          | _ \<Rightarrow> Inl (ValueError ''not enough values to unpack''))"

definition renew_mr :: "redis \<Rightarrow> mr_key \<Rightarrow> string \<Rightarrow> int \<Rightarrow> int \<Rightarrow> bool answer" where
  "renew_mr db m w token lease_seconds =
     on_reply db (RENEW_MR_LUA db (K_mr_lease m) w (show_int token) (lease_seconds * 1000)) (\<lambda>r. Inr (r \<noteq> 0))"

definition release_mr :: "redis \<Rightarrow> mr_lease \<Rightarrow> bool answer" where
  "release_mr db l =
     on_reply db (RELEASE_MR_LUA db (K_mr_lease (lease_mr l)) (lease_worker_id l) (show_int (lease_fencing_token l)))
       (\<lambda>r. Inr (r \<noteq> 0))"

definition assert_fence :: "redis \<Rightarrow> mr_lease \<Rightarrow> unit answer" where
  "assert_fence db l =
     on_reply db (ASSERT_FENCE_LUA db (K_mr_lease (lease_mr l)) (lease_worker_id l) (show_int (lease_fencing_token l)))
       (\<lambda>r. if r = 0 then Inl (LostLeaseError (redis_id (lease_mr l))) else Inr ())"

definition revoke_mr_if_owner :: "redis \<Rightarrow> mr_lease \<Rightarrow> bool answer" where
  "revoke_mr_if_owner db l =
     on_reply db (REVOKE_MR_LUA db (K_mr_lease (lease_mr l)) (lease_worker_id l) (show_int (lease_fencing_token l)))
       (\<lambda>r. Inr (r \<noteq> 0))"

definition get_mr_lease :: "redis \<Rightarrow> mr_key \<Rightarrow> broker_error + mr_lease option" where
  "get_mr_lease db m =
     (if \<not> type_ok db (K_mr_lease m) KHash then Inl RedisError
      else if hash_list db (K_mr_lease m) = [] then Inr None
      else case (hash_at db (K_mr_lease m) ''worker_id'', hash_at db (K_mr_lease m) ''fencing_token'') of
             (Some w, Some tk) \<Rightarrow>
               (case py_int_text tk of
                  Some n \<Rightarrow> Inr (Some \<lparr>lease_mr = m, lease_worker_id = w, lease_fencing_token = n\<rparr>)
                | None \<Rightarrow> Inl (ValueError ''invalid literal for int()''))
           | (None, _) \<Rightarrow> Inl (KeyErr ''worker_id'')
           | (_, None) \<Rightarrow> Inl (KeyErr ''fencing_token''))"

text \<open>The lease key and the two arguments a fenced script gets for an optional lease.\<close>

definition lease_key_of :: "mr_lease option \<Rightarrow> rkey" where
  "lease_key_of l = (case l of None \<Rightarrow> K_no_lease | Some l \<Rightarrow> K_mr_lease (lease_mr l))"

definition lease_args :: "mr_lease option \<Rightarrow> string \<times> string" where
  "lease_args l = (case l of None \<Rightarrow> ([], []) | Some l \<Rightarrow> (lease_worker_id l, show_int (lease_fencing_token l)))"

lemma key_kind_lease_key_of [simp]: "key_kind (lease_key_of l) = KHash"
  by (simp add: lease_key_of_def split: option.splits)

subsection \<open>The state of a lease\<close>

text \<open>The highest token issued for an MR, and the current holder.\<close>

definition fence_of :: "redis \<Rightarrow> mr_key \<Rightarrow> int" where
  "fence_of db m = (case str_at db (K_mr_fence m) of None \<Rightarrow> 0 | Some s \<Rightarrow> (case parse_int s of None \<Rightarrow> 0 | Some n \<Rightarrow> n))"

definition holder_of :: "redis \<Rightarrow> mr_key \<Rightarrow> (string \<times> string) option" where
  "holder_of db m =
     (case (hash_at db (K_mr_lease m) ''worker_id'', hash_at db (K_mr_lease m) ''fencing_token'') of
        (Some w, Some t) \<Rightarrow> Some (w, t) | _ \<Rightarrow> None)"

text \<open>
  The lease invariant of an MR: the counter is a number and never expires, and a lease
  that exists carries an owner and a token that was issued.
\<close>

definition lease_inv :: "redis \<Rightarrow> mr_key \<Rightarrow> bool" where
  "lease_inv db m \<longleftrightarrow>
     (str_at db (K_mr_fence m) = None \<or> (\<exists>n \<ge> 0. str_at db (K_mr_fence m) = Some (show_int n))) \<and>
     deadline db (K_mr_fence m) = None \<and>
     (exists_key db (K_mr_lease m) \<longrightarrow>
        (\<exists>w n. holder_of db m = Some (w, show_int n) \<and> 1 \<le> n \<and> n \<le> fence_of db m))"

lemma holder_holds: "holder_of db m = Some (w, t) \<longleftrightarrow> holds_lease db (K_mr_lease m) w t"
  by (auto simp: holder_of_def holds_lease_def split: option.splits)

lemma holder_absent: "\<not> exists_key db (K_mr_lease m) \<Longrightarrow> holder_of db m = None"
  by (simp add: holder_of_def hash_absent)

lemma holder_of_none_exists: "lease_inv db m \<Longrightarrow> holder_of db m = None \<Longrightarrow> \<not> exists_key db (K_mr_lease m)"
  by (auto simp: lease_inv_def)

subsection \<open>Fenced resources\<close>

text \<open>
  What fencing promises to its clients: the token counter only grows, and a step keeps
  the holder, drops it, or grants a token that was never issued before.
\<close>

locale fenced_resource =
  fixes fence :: "'s \<Rightarrow> int"
    and holder :: "'s \<Rightarrow> (string \<times> string) option"
    and ok :: "'s \<Rightarrow> bool"
    and step :: "'s \<Rightarrow> 's \<Rightarrow> bool"
  assumes ok_step: "ok s \<Longrightarrow> step s s' \<Longrightarrow> ok s'"
    and token_issued: "ok s \<Longrightarrow> holder s = Some (w, t) \<Longrightarrow> \<exists>n. t = show_int n \<and> n \<le> fence s"
    and step_effect: "ok s \<Longrightarrow> step s s' \<Longrightarrow>
          fence s' = fence s \<and> (holder s' = holder s \<or> holder s' = None) \<or>
          fence s' = fence s + 1 \<and> holder s = None \<and>
            (holder s' = None \<or> (\<exists>w. holder s' = Some (w, show_int (fence s + 1))))"
begin

lemma ok_run: "step\<^sup>*\<^sup>* s s' \<Longrightarrow> ok s \<Longrightarrow> ok s'"
  by (induction rule: rtranclp_induct) (auto intro: ok_step)

lemma fence_mono: "step\<^sup>*\<^sup>* s s' \<Longrightarrow> ok s \<Longrightarrow> fence s \<le> fence s'"
proof (induction rule: rtranclp_induct)
  case (step y z)
  then show ?case using step_effect [of y z] ok_run [of s y] by auto
qed simp

text \<open>A token that was issued and is not held now is never held again.\<close>

lemma stale_token_stays_stale:
  assumes "step\<^sup>*\<^sup>* s s'" "ok s" "n \<le> fence s" "\<And>w. holder s \<noteq> Some (w, show_int n)"
  shows "holder s' \<noteq> Some (w, show_int n)"
  using assms(1)
proof (induction arbitrary: w rule: rtranclp_induct)
  case base
  show ?case by (rule assms(4))
next
  case (step y z)
  have y: "ok y" "n \<le> fence y"
    using ok_run [OF step.hyps(1) assms(2)] fence_mono [OF step.hyps(1) assms(2)] assms(3) by auto
  show ?case using step_effect [OF y(1) step.hyps(2)] step.IH y(2) by auto
qed

text \<open>A token has one owner for all time.\<close>

lemma token_single_owner:
  assumes "step\<^sup>*\<^sup>* s s'" "ok s" "holder s = Some (w, t)" "holder s' = Some (w', t)"
  shows "w' = w"
proof -
  obtain n where n: "t = show_int n" "n \<le> fence s" using token_issued assms(2,3) by blast
  have "ok s' \<and> fence s \<le> fence s' \<and> (\<forall>v. holder s' = Some (v, show_int n) \<longrightarrow> v = w)"
    using assms(1)
  proof (induction rule: rtranclp_induct)
    case base
    show ?case using assms(2,3) n by auto
  next
    case (step y z)
    then have "ok z" using ok_step by blast
    with step step_effect [of y z] n(2) show ?case by auto
  qed
  then show ?thesis using assms(4) n(1) by simp
qed

end

subsection \<open>The broker's leases are fenced\<close>

text \<open>
  One step of the keyspace as an MR's lease sees it: a lease operation on that MR by any
  worker, the passing of time, or any operation that leaves the lease and its counter alone.
\<close>

inductive lease_step :: "mr_key \<Rightarrow> redis \<Rightarrow> redis \<Rightarrow> bool" for m where
  ls_claim: "CLAIM_MR_LUA db (K_mr_lease m) (K_mr_fence m) w ms = Some (r, db') \<Longrightarrow> lease_step m db db'"
| ls_renew: "RENEW_MR_LUA db (K_mr_lease m) w t ms = Some (r', db') \<Longrightarrow> lease_step m db db'"
| ls_release: "RELEASE_MR_LUA db (K_mr_lease m) w t = Some (r', db') \<Longrightarrow> lease_step m db db'"
| ls_revoke: "REVOKE_MR_LUA db (K_mr_lease m) w t = Some (r', db') \<Longrightarrow> lease_step m db db'"
| ls_tick: "lease_step m db (redis_tick ms db)"
| ls_other: "well_typed db' \<Longrightarrow> untouched (K_mr_lease m) db db' \<Longrightarrow> untouched (K_mr_fence m) db db' \<Longrightarrow>
     lease_step m db db'"

definition lease_ok :: "mr_key \<Rightarrow> redis \<Rightarrow> bool" where
  "lease_ok m db \<longleftrightarrow> well_typed db \<and> lease_inv db m"

text \<open>What a state's lease looks like to the invariant, in the three shapes a step leaves behind.\<close>

lemma lease_inv_cong:
  assumes "str_at db' (K_mr_fence m) = str_at db (K_mr_fence m)"
    "deadline db' (K_mr_fence m) = deadline db (K_mr_fence m)"
    "hash_at db' (K_mr_lease m) = hash_at db (K_mr_lease m)"
    "exists_key db' (K_mr_lease m) = exists_key db (K_mr_lease m)"
  shows "lease_inv db' m = lease_inv db m" "fence_of db' m = fence_of db m" "holder_of db' m = holder_of db m"
  using assms by (simp_all add: lease_inv_def fence_of_def holder_of_def)

lemma lease_inv_dropped:
  assumes "lease_inv db m" "str_at db' (K_mr_fence m) = str_at db (K_mr_fence m)"
    "deadline db' (K_mr_fence m) = deadline db (K_mr_fence m)" "\<not> exists_key db' (K_mr_lease m)"
  shows "lease_inv db' m \<and> fence_of db' m = fence_of db m \<and> holder_of db' m = None"
  using assms holder_absent [OF assms(4)] by (simp add: lease_inv_def fence_of_def)

lemma claim_fresh:
  assumes "lease_ok m db" "\<not> exists_key db (K_mr_lease m)"
  shows "\<exists>db2. CLAIM_MR_LUA db (K_mr_lease m) (K_mr_fence m) w ms =
           Some ((Some w, Some (show_int (fence_of db m + 1))), pexpire_w db2 (K_mr_lease m) ms) \<and>
         lease_ok m db2 \<and> fence_of db2 m = fence_of db m + 1 \<and>
         holder_of db2 m = Some (w, show_int (fence_of db m + 1)) \<and> exists_key db2 (K_mr_lease m)"
proof -
  let ?n = "fence_of db m"
  let ?db1 = "put db (K_mr_fence m) (RStr (show_int (?n + 1)))"
  let ?db2 = "hset_w ?db1 (K_mr_lease m) [(''worker_id'', w), (''fencing_token'', show_int (?n + 1))]"
  have wt: "well_typed db" and inv: "lease_inv db m" using assms(1) by (auto simp: lease_ok_def)
  have n: "str_at db (K_mr_fence m) = None \<and> ?n = 0 \<or> str_at db (K_mr_fence m) = Some (show_int ?n)" "0 \<le> ?n"
    using inv by (auto simp: lease_inv_def fence_of_def)
  have wt1: "well_typed ?db1" using wt by (simp add: well_typed_put)
  have "CLAIM_MR_LUA db (K_mr_lease m) (K_mr_fence m) w ms =
          Some ((Some w, Some (show_int (?n + 1))), pexpire_w ?db2 (K_mr_lease m) ms)"
    using assms(2) wt wt1 incr_wt [OF wt _ n(1)] by (simp add: CLAIM_MR_LUA_def redis_simps)
  moreover have "well_typed ?db2" using wt1 by (simp add: redis_simps)
  moreover have "fence_of ?db2 m = ?n + 1" "holder_of ?db2 m = Some (w, show_int (?n + 1))"
    by (simp_all add: fence_of_def holder_of_def view_simps)
  moreover have "lease_inv ?db2 m"
    using inv n(2) by (simp add: lease_inv_def fence_of_def holder_of_def view_simps exI [of _ "?n + 1"])
  moreover have "exists_key ?db2 (K_mr_lease m)" by (simp add: view_simps)
  ultimately show ?thesis by (auto simp: lease_ok_def)
qed

lemma pexpire_lease:
  assumes "lease_ok m db"
  shows "lease_ok m (pexpire_w db (K_mr_lease m) ms) \<and>
    fence_of (pexpire_w db (K_mr_lease m) ms) m = fence_of db m \<and>
    (holder_of (pexpire_w db (K_mr_lease m) ms) m = holder_of db m \<or> holder_of (pexpire_w db (K_mr_lease m) ms) m = None)"
proof (cases "ms \<le> 0")
  case True
  then show ?thesis
    using assms lease_inv_dropped [of db m "pexpire_w db (K_mr_lease m) ms"]
    by (simp add: lease_ok_def redis_simps view_simps)
next
  case False
  then show ?thesis
    using assms lease_inv_cong [where db = db and db' = "pexpire_w db (K_mr_lease m) ms" and m = m]
    by (simp add: lease_ok_def redis_simps view_simps)
qed

lemma del_lease:
  assumes "lease_ok m db"
  shows "lease_ok m (del db (K_mr_lease m)) \<and> fence_of (del db (K_mr_lease m)) m = fence_of db m \<and>
    holder_of (del db (K_mr_lease m)) m = None"
  using assms lease_inv_dropped [of db m "del db (K_mr_lease m)"] by (simp add: lease_ok_def redis_simps view_simps)

lemma tick_lease:
  assumes "lease_ok m db"
  shows "lease_ok m (redis_tick ms db) \<and> fence_of (redis_tick ms db) m = fence_of db m \<and>
    (holder_of (redis_tick ms db) m = holder_of db m \<or> holder_of (redis_tick ms db) m = None)"
proof (cases "data (redis_tick ms db) (K_mr_lease m) = data db (K_mr_lease m)")
  case True
  have "deadline db (K_mr_fence m) = None" using assms by (simp add: lease_ok_def lease_inv_def)
  with True show ?thesis
    using assms lease_inv_cong [where db = db and db' = "redis_tick ms db" and m = m]
    by (simp add: lease_ok_def redis_simps view_defs) (simp add: redis_tick_def Let_def)
next
  case False
  then have "\<not> exists_key (redis_tick ms db) (K_mr_lease m)"
    by (auto simp: redis_tick_def Let_def exists_key_def)
  moreover have "deadline db (K_mr_fence m) = None" using assms by (simp add: lease_ok_def lease_inv_def)
  ultimately show ?thesis
    using assms lease_inv_dropped [of db m "redis_tick ms db"]
    by (simp add: lease_ok_def redis_simps view_defs) (simp add: redis_tick_def Let_def)
qed

text \<open>The effect of a lease operation as the holder and the counter see it.\<close>

definition lease_effect :: "mr_key \<Rightarrow> redis \<Rightarrow> redis \<Rightarrow> bool" where
  "lease_effect m db db' \<longleftrightarrow> lease_ok m db' \<and>
    (fence_of db' m = fence_of db m \<and> (holder_of db' m = holder_of db m \<or> holder_of db' m = None) \<or>
     fence_of db' m = fence_of db m + 1 \<and> holder_of db m = None \<and>
       (holder_of db' m = None \<or> (\<exists>w. holder_of db' m = Some (w, show_int (fence_of db m + 1)))))"

lemma lease_effect_same: "lease_ok m db \<Longrightarrow> lease_effect m db db"
  by (simp add: lease_effect_def)

lemma lease_effect_pexpire: "lease_ok m db \<Longrightarrow> lease_effect m db (pexpire_w db (K_mr_lease m) ms)"
  using pexpire_lease [of m db ms] by (simp add: lease_effect_def)

lemma lease_effect_del: "lease_ok m db \<Longrightarrow> lease_effect m db (del db (K_mr_lease m))"
  using del_lease [of m db] by (simp add: lease_effect_def)

lemma lease_ok_wt: "lease_ok m db \<Longrightarrow> well_typed db"
  by (simp add: lease_ok_def)

lemma lease_effect_claim:
  assumes ok: "lease_ok m db" and run: "CLAIM_MR_LUA db (K_mr_lease m) (K_mr_fence m) w ms = Some (r, db')"
  shows "lease_effect m db db'"
proof (cases "exists_key db (K_mr_lease m)")
  case True
  have "db' = db \<or> db' = pexpire_w db (K_mr_lease m) ms"
    using run True lease_ok_wt [OF ok] by (auto simp: CLAIM_MR_LUA_def redis_simps)
  then show ?thesis using lease_effect_same [OF ok] lease_effect_pexpire [OF ok] by blast
next
  case False
  obtain db2 where d: "CLAIM_MR_LUA db (K_mr_lease m) (K_mr_fence m) w ms =
         Some ((Some w, Some (show_int (fence_of db m + 1))), pexpire_w db2 (K_mr_lease m) ms)"
      "lease_ok m db2" "fence_of db2 m = fence_of db m + 1"
      "holder_of db2 m = Some (w, show_int (fence_of db m + 1))"
    using claim_fresh [OF ok False, of w ms] by blast
  have "db' = pexpire_w db2 (K_mr_lease m) ms" using run d(1) by simp
  then show ?thesis
    using pexpire_lease [OF d(2), of ms] holder_absent [OF False] d(3,4) unfolding lease_effect_def by metis
qed

lemma lease_step_effect:
  assumes "lease_step m db db'" and ok: "lease_ok m db"
  shows "lease_effect m db db'"
  using assms(1)
proof (cases rule: lease_step.cases)
  case (ls_claim w ms r)
  then show ?thesis by (rule lease_effect_claim [OF ok])
next
  case (ls_renew w t ms r')
  then have "db' = db \<or> db' = pexpire_w db (K_mr_lease m) ms"
    using lease_ok_wt [OF ok] by (simp add: RENEW_MR_LUA_def redis_simps split: if_splits)
  then show ?thesis using lease_effect_same [OF ok] lease_effect_pexpire [OF ok] by blast
next
  case (ls_release w t r')
  then have "db' = db \<or> db' = del db (K_mr_lease m)"
    using lease_ok_wt [OF ok] by (simp add: RELEASE_MR_LUA_def redis_simps split: if_splits)
  then show ?thesis using lease_effect_same [OF ok] lease_effect_del [OF ok] by blast
next
  case (ls_revoke w t r')
  then have "db' = db \<or> db' = del db (K_mr_lease m)"
    using lease_ok_wt [OF ok] by (simp add: REVOKE_MR_LUA_def redis_simps split: if_splits)
  then show ?thesis using lease_effect_same [OF ok] lease_effect_del [OF ok] by blast
next
  case (ls_tick ms)
  then show ?thesis using tick_lease [OF ok, of ms] by (simp add: lease_effect_def)
next
  case ls_other
  then show ?thesis
    using ok untouched_views [of "K_mr_lease m" db db'] untouched_views [of "K_mr_fence m" db db']
      lease_inv_cong [where db = db and db' = db' and m = m]
    by (simp add: lease_ok_def untouched_def lease_effect_def)
qed

interpretation mr_fence: fenced_resource "\<lambda>db. fence_of db m" "\<lambda>db. holder_of db m" "lease_ok m" "lease_step m" for m
proof
  fix s s' assume "lease_ok m s" "lease_step m s s'"
  note effect = lease_step_effect [OF this(2,1), unfolded lease_effect_def]
  show "lease_ok m s'" using effect by simp
  show "fence_of s' m = fence_of s m \<and> (holder_of s' m = holder_of s m \<or> holder_of s' m = None) \<or>
     fence_of s' m = fence_of s m + 1 \<and> holder_of s m = None \<and>
       (holder_of s' m = None \<or> (\<exists>w. holder_of s' m = Some (w, show_int (fence_of s m + 1))))"
    using effect by simp
next
  fix s w t assume *: "lease_ok m s" "holder_of s m = Some (w, t)"
  then have "exists_key s (K_mr_lease m)" using holder_absent by fastforce
  with * show "\<exists>n. t = show_int n \<and> n \<le> fence_of s m" by (auto simp: lease_ok_def lease_inv_def)
qed

end
