(* ===== verification/Effects.thy ===== *)
theory Effects
  imports Lease
begin

text \<open>
  Externally visible effects: the scripts \<open>CLAIM_EFFECT_LUA\<close>, \<open>UPDATE_EFFECT_LUA\<close> and
  \<open>COMPLETE_EFFECT_LUA\<close> with the broker methods around them, and the guards of
  \<open>pr_agent/distributed/effects.py\<close> that make a write to the Git provider happen at most
  once. The provider is a state \<open>'w\<close> with the operations the guard is given; SHA-256 is a
  parameter.
\<close>

subsection \<open>Scripts\<close>

text \<open>The fence test of a script with an optional lease: an empty worker id skips it.\<close>

definition fence_lost :: "redis \<Rightarrow> rkey \<Rightarrow> string \<Rightarrow> string \<Rightarrow> bool option" where
  "fence_lost db lease_key w tok =
     (if w = [] then Some False else do { ok \<leftarrow> lease_matches db lease_key w tok; Some (\<not> ok) })"

lemma fence_lost_wt [redis_simps]:
  "well_typed db \<Longrightarrow> key_kind k = KHash \<Longrightarrow> fence_lost db k w tok = Some (w \<noteq> [] \<and> \<not> holds_lease db k w tok)"
  by (simp add: fence_lost_def redis_simps)

definition CLAIM_EFFECT_LUA ::
  "redis \<Rightarrow> rkey \<Rightarrow> rkey \<Rightarrow> rkey \<Rightarrow> lua_arg \<Rightarrow> lua_arg \<Rightarrow> lua_arg \<Rightarrow> lua_arg \<Rightarrow> lua_arg \<Rightarrow> (string \<times> string \<times> string) reply"
where
  "CLAIM_EFFECT_LUA db effect_k lease_k task_k w tok metadata now effect_key =
     do { lost \<leftarrow> fence_lost db lease_k w tok;
          if lost then Some ((''lost_lease'', [], []), db) else
          do { status \<leftarrow> hget db effect_k ''status'';
               case status of
                 Some st \<Rightarrow>
                   do { db1 \<leftarrow> (if st = ''started'' then hset db task_k [(''active_effect'', effect_key)] else Some db);
                        md \<leftarrow> hget db1 effect_k ''metadata'';
                        r \<leftarrow> hget db1 effect_k ''result'';
                        Some ((st, or_else md ''{}'', or_else r []), db1) }
               | None \<Rightarrow>
                   do { db1 \<leftarrow> hset db effect_k [(''status'', ''started''), (''metadata'', metadata),
                                 (''created_at'', now), (''updated_at'', now)];
                        db2 \<leftarrow> hset db1 task_k [(''active_effect'', effect_key)];
                        Some ((''started'', metadata, []), db2) } } }"

definition UPDATE_EFFECT_LUA ::
  "redis \<Rightarrow> rkey \<Rightarrow> rkey \<Rightarrow> lua_arg \<Rightarrow> lua_arg \<Rightarrow> lua_arg \<Rightarrow> lua_arg \<Rightarrow> int reply"
where
  "UPDATE_EFFECT_LUA db effect_k lease_k w tok metadata now =
     do { lost \<leftarrow> fence_lost db lease_k w tok;
          if lost then Some (-1, db) else
          do { status \<leftarrow> hget db effect_k ''status'';
               if status \<noteq> Some ''started'' then Some (0, db) else
               do { db1 \<leftarrow> hset db effect_k [(''metadata'', metadata), (''updated_at'', now)];
                    Some (1, db1) } } }"

definition COMPLETE_EFFECT_LUA ::
  "redis \<Rightarrow> rkey \<Rightarrow> rkey \<Rightarrow> rkey \<Rightarrow> lua_arg \<Rightarrow> lua_arg \<Rightarrow> lua_arg \<Rightarrow> lua_arg \<Rightarrow> lua_arg \<Rightarrow> int reply"
where
  "COMPLETE_EFFECT_LUA db effect_k lease_k task_k w tok result now effect_key =
     do { lost \<leftarrow> fence_lost db lease_k w tok;
          if lost then Some (-1, db) else
          do { status \<leftarrow> hget db effect_k ''status'';
               if status = None then Some (0, db) else
               do { db1 \<leftarrow> hset db effect_k [(''status'', ''completed''), (''result'', result), (''updated_at'', now)];
                    active \<leftarrow> hget db1 task_k ''active_effect'';
                    if active = Some effect_key
                    then do { db2 \<leftarrow> hdel db1 task_k [''active_effect'']; Some (1, db2) }
                    else Some (1, db1) } } }"

subsection \<open>Broker methods\<close>

record effect_record =
  er_status :: string
  er_metadata :: json
  er_result :: json

definition effect_task :: "string \<Rightarrow> string" where
  "effect_task effect_key = before_first (CHR '':'') effect_key"

definition claim_effect :: "redis \<Rightarrow> string \<Rightarrow> mr_lease option \<Rightarrow> dict \<Rightarrow> int \<Rightarrow> effect_record answer" where
  "claim_effect db effect_key l metadata now =
     on_reply db
       (CLAIM_EFFECT_LUA db (K_effect effect_key) (lease_key_of l) (K_task (effect_task effect_key))
          (fst (lease_args l)) (snd (lease_args l)) (dumps (JObj metadata)) (show_int now) effect_key)
       (\<lambda>(st, md, r).
          if st = ''lost_lease'' then Inl (LostLeaseError effect_key)
          else case (loads (if md = [] then ''{}'' else md), if r = [] then Some JNull else loads r) of
                 (Some m, Some v) \<Rightarrow> Inr \<lparr>er_status = st, er_metadata = m, er_result = v\<rparr>
               | _ \<Rightarrow> Inl (ValueError ''JSONDecodeError''))"

definition update_effect_metadata :: "redis \<Rightarrow> string \<Rightarrow> mr_lease option \<Rightarrow> json \<Rightarrow> int \<Rightarrow> bool answer" where
  "update_effect_metadata db effect_key l metadata now =
     on_reply db
       (UPDATE_EFFECT_LUA db (K_effect effect_key) (lease_key_of l)
          (fst (lease_args l)) (snd (lease_args l)) (dumps metadata) (show_int now))
       (\<lambda>r. if r = -1 then Inl (LostLeaseError effect_key) else Inr (r \<noteq> 0))"

definition complete_effect :: "redis \<Rightarrow> string \<Rightarrow> mr_lease option \<Rightarrow> json \<Rightarrow> int \<Rightarrow> bool answer" where
  "complete_effect db effect_key l result_value now =
     on_reply db
       (COMPLETE_EFFECT_LUA db (K_effect effect_key) (lease_key_of l) (K_task (effect_task effect_key))
          (fst (lease_args l)) (snd (lease_args l)) (dumps result_value) (show_int now) effect_key)
       (\<lambda>r. if r = -1 then Inl (LostLeaseError effect_key) else Inr (r \<noteq> 0))"

definition has_inflight_effect :: "redis \<Rightarrow> string \<Rightarrow> bool option" where
  "has_inflight_effect db tid = do { a \<leftarrow> hget db (K_task tid) ''active_effect''; Some (or_else a [] \<noteq> []) }"

definition is_cancel_requested :: "redis \<Rightarrow> string \<Rightarrow> bool option" where
  "is_cancel_requested db tid = do { c \<leftarrow> hget db (K_task tid) ''cancel_requested''; Some (c = Some ''1'') }"

subsection \<open>The guard\<close>

datatype guard_error =
    Broker broker_error
  | TaskCanceled string
  | Guard_RuntimeError string
  | Provider_error string      \<comment> \<open>an exception of the caller's \<open>reconcile\<close> or \<open>action\<close>\<close>

record execution_runtime =
  rt_task_id :: string
  rt_lease :: "mr_lease option"

definition effect_key_of :: "execution_runtime \<Rightarrow> string \<Rightarrow> string" where
  "effect_key_of rt effect_name = rt_task_id rt @ CHR '':'' # effect_name"

text \<open>\<open>SyncEffectGuard.claim\<close>, \<open>record_metadata\<close>, \<open>record_started\<close> and \<open>complete\<close>.\<close>

definition guard_claim ::
  "execution_runtime \<Rightarrow> redis \<Rightarrow> string \<Rightarrow> dict \<Rightarrow> int \<Rightarrow> (guard_error + effect_record) \<times> redis"
where
  "guard_claim rt db effect_name metadata now =
     (case is_cancel_requested db (rt_task_id rt) of
        None \<Rightarrow> (Inl (Broker RedisError), db)
      | Some True \<Rightarrow> (Inl (TaskCanceled (rt_task_id rt)), db)
      | Some False \<Rightarrow>
          (case claim_effect db (effect_key_of rt effect_name) (rt_lease rt) metadata now of
             (Inl e, db1) \<Rightarrow> (Inl (Broker e), db1)
           | (Inr c, db1) \<Rightarrow> (Inr c, db1)))"

definition guard_record_metadata ::
  "execution_runtime \<Rightarrow> redis \<Rightarrow> string \<Rightarrow> json \<Rightarrow> int \<Rightarrow> (guard_error + unit) \<times> redis"
where
  "guard_record_metadata rt db effect_name metadata now =
     (case is_cancel_requested db (rt_task_id rt) of
        None \<Rightarrow> (Inl (Broker RedisError), db)
      | Some True \<Rightarrow> (Inl (TaskCanceled (rt_task_id rt)), db)
      | Some False \<Rightarrow>
          (case update_effect_metadata db (effect_key_of rt effect_name) (rt_lease rt) metadata now of
             (Inl e, db1) \<Rightarrow> (Inl (Broker e), db1)
           | (Inr True, db1) \<Rightarrow> (Inr (), db1)
           | (Inr False, db1) \<Rightarrow> (Inl (Guard_RuntimeError (''effect is not writable: '' @ effect_name)), db1)))"

definition guard_record_started ::
  "execution_runtime \<Rightarrow> redis \<Rightarrow> string \<Rightarrow> dict \<Rightarrow> int \<Rightarrow> (guard_error + effect_record) \<times> redis"
where
  "guard_record_started rt db effect_name metadata now =
     (case guard_claim rt db effect_name metadata now of
        (Inl e, db1) \<Rightarrow> (Inl e, db1)
      | (Inr c, db1) \<Rightarrow>
          if er_status c = ''started'' \<and> sort_keys (er_metadata c) \<noteq> sort_keys (JObj metadata)
          then (case guard_record_metadata rt db1 effect_name (JObj metadata) now of
                  (Inl e, db2) \<Rightarrow> (Inl e, db2)
                | (Inr _, db2) \<Rightarrow> (Inr \<lparr>er_status = ''started'', er_metadata = JObj metadata, er_result = JNull\<rparr>, db2))
          else (Inr c, db1))"

definition guard_complete ::
  "execution_runtime \<Rightarrow> redis \<Rightarrow> string \<Rightarrow> json \<Rightarrow> int \<Rightarrow> (guard_error + unit) \<times> redis"
where
  "guard_complete rt db effect_name result now =
     (case complete_effect db (effect_key_of rt effect_name) (rt_lease rt) result now of
        (Inl e, db1) \<Rightarrow> (Inl (Broker e), db1)
      | (Inr True, db1) \<Rightarrow> (Inr (), db1)
      | (Inr False, db1) \<Rightarrow> (Inl (Guard_RuntimeError (''effect does not exist: '' @ effect_name)), db1))"

text \<open>
  \<open>SyncEffectGuard.run\<close>: \<open>reconcile\<close> looks at the provider and answers \<open>None\<close> (\<open>JNull\<close>)
  when the effect is not there; \<open>action\<close> performs it.
\<close>

definition guard_run ::
  "execution_runtime \<Rightarrow> string \<Rightarrow> (json \<Rightarrow> 'w \<Rightarrow> string + json) \<Rightarrow> ('w \<Rightarrow> (string + json) \<times> 'w) \<Rightarrow> int \<Rightarrow>
   redis \<times> 'w \<Rightarrow> (guard_error + json) \<times> redis \<times> 'w"
where
  "guard_run rt effect_name reconcile action now = (\<lambda>(db, w).
     case guard_claim rt db effect_name [] now of
       (Inl e, db1) \<Rightarrow> (Inl e, db1, w)
     | (Inr c, db1) \<Rightarrow>
         if er_status c = ''completed'' then (Inr (er_result c), db1, w)
         else (case reconcile (er_metadata c) w of
                 Inl e \<Rightarrow> (Inl (Provider_error e), db1, w)
               | Inr r \<Rightarrow>
                   if r \<noteq> JNull
                   then (case guard_complete rt db1 effect_name r now of
                           (Inl e, db2) \<Rightarrow> (Inl e, db2, w)
                         | (Inr _, db2) \<Rightarrow> (Inr r, db2, w))
                   else (case action w of
                           (Inl e, w1) \<Rightarrow> (Inl (Provider_error e), db1, w1)
                         | (Inr v, w1) \<Rightarrow>
                             (case guard_complete rt db1 effect_name v now of
                                (Inl e, db2) \<Rightarrow> (Inl e, db2, w1)
                              | (Inr _, db2) \<Rightarrow> (Inr v, db2, w1)))))"

text \<open>
  \<open>EffectGuard.run\<close>, the asynchronous guard: it ignores the boolean \<open>complete_effect\<close> answers.
\<close>

definition async_guard_run ::
  "execution_runtime \<Rightarrow> string \<Rightarrow> (json \<Rightarrow> 'w \<Rightarrow> string + json) \<Rightarrow> ('w \<Rightarrow> (string + json) \<times> 'w) \<Rightarrow> int \<Rightarrow>
   redis \<times> 'w \<Rightarrow> (guard_error + json) \<times> redis \<times> 'w"
where
  "async_guard_run rt effect_name reconcile action now = (\<lambda>(db, w).
     let finish = (\<lambda>db v w1. case complete_effect db (effect_key_of rt effect_name) (rt_lease rt) v now of
                               (Inl e, db2) \<Rightarrow> (Inl (Broker e), db2, w1)
                             | (Inr _, db2) \<Rightarrow> (Inr v, db2, w1)) in
     case guard_claim rt db effect_name [] now of
       (Inl e, db1) \<Rightarrow> (Inl e, db1, w)
     | (Inr c, db1) \<Rightarrow>
         if er_status c = ''completed'' then (Inr (er_result c), db1, w)
         else (case reconcile (er_metadata c) w of
                 Inl e \<Rightarrow> (Inl (Provider_error e), db1, w)
               | Inr r \<Rightarrow>
                   if r \<noteq> JNull then finish db1 r w
                   else (case action w of
                           (Inl e, w1) \<Rightarrow> (Inl (Provider_error e), db1, w1)
                         | (Inr v, w1) \<Rightarrow> finish db1 v w1)))"

subsection \<open>The state of an effect\<close>

definition effect_status :: "redis \<Rightarrow> string \<Rightarrow> string option" where
  "effect_status db e = hash_at db (K_effect e) ''status''"

text \<open>The scripts on a well-typed keyspace, as plain writes.\<close>

lemma CLAIM_EFFECT_eval:
  assumes "well_typed db" "key_kind lk = KHash"
  shows "CLAIM_EFFECT_LUA db (K_effect e) lk (K_task t) w tok md now ek =
    Some (if w \<noteq> [] \<and> \<not> holds_lease db lk w tok then ((''lost_lease'', [], []), db)
          else case effect_status db e of
            Some st \<Rightarrow> ((st, or_else (hash_at db (K_effect e) ''metadata'') ''{}'', or_else (hash_at db (K_effect e) ''result'') []),
                        if st = ''started'' then hset_w db (K_task t) [(''active_effect'', ek)] else db)
          | None \<Rightarrow> ((''started'', md, []),
                hset_w (hset_w db (K_effect e) [(''status'', ''started''), (''metadata'', md), (''created_at'', now), (''updated_at'', now)])
                  (K_task t) [(''active_effect'', ek)]))"
  using assms
  by (cases "effect_status db e") (simp_all add: CLAIM_EFFECT_LUA_def effect_status_def redis_simps hash_at_hset)

lemma COMPLETE_EFFECT_eval:
  assumes "well_typed db" "key_kind lk = KHash"
  shows "COMPLETE_EFFECT_LUA db (K_effect e) lk (K_task t) w tok res now ek =
    Some (if w \<noteq> [] \<and> \<not> holds_lease db lk w tok then (-1, db)
          else if effect_status db e = None then (0, db)
          else let db1 = hset_w db (K_effect e) [(''status'', ''completed''), (''result'', res), (''updated_at'', now)]
               in (1, if hash_at db (K_task t) ''active_effect'' = Some ek then hdel_w db1 (K_task t) [''active_effect''] else db1))"
  using assms
  by (simp add: COMPLETE_EFFECT_LUA_def effect_status_def redis_simps hash_at_hset Let_def)

lemma claim_effect_status:
  assumes "well_typed db" "claim_effect db e l md now = (r, db')"
  shows "well_typed db' \<and> deadline db' (K_effect e) = deadline db (K_effect e) \<and>
    (effect_status db' e = effect_status db e \<or> effect_status db e = None \<and> effect_status db' e = Some ''started'') \<and>
    (\<forall>c. r = Inr c \<longrightarrow> effect_status db' e = Some (er_status c))"
  using assms
  by (cases "effect_status db e")
     (auto simp: claim_effect_def CLAIM_EFFECT_eval effect_status_def redis_simps hash_at_hset deadline_simps
       split: if_splits option.splits)

lemma complete_effect_status:
  assumes "well_typed db" "complete_effect db e l v now = (r, db')"
  shows "well_typed db' \<and> deadline db' (K_effect e) = deadline db (K_effect e) \<and>
    (r = Inr True \<and> effect_status db' e = Some ''completed'' \<and> hash_at db' (K_effect e) ''result'' = Some (dumps v) \<or>
     r \<noteq> Inr True \<and> db' = db)"
  using assms
  by (auto simp: complete_effect_def COMPLETE_EFFECT_eval effect_status_def redis_simps hash_at_hset hash_at_hdel
       deadline_simps Let_def split: if_splits)

lemma is_cancel_requested_wt: "well_typed db \<Longrightarrow> is_cancel_requested db t = Some (hash_at db (K_task t) ''cancel_requested'' = Some ''1'')"
  by (simp add: is_cancel_requested_def redis_simps)

lemma guard_claim_status:
  assumes "well_typed db" "guard_claim rt db name md now = (r, db')" "e = effect_key_of rt name"
  shows "well_typed db' \<and> deadline db' (K_effect e) = deadline db (K_effect e) \<and>
    (effect_status db' e = effect_status db e \<or> effect_status db e = None \<and> effect_status db' e = Some ''started'') \<and>
    (\<forall>c. r = Inr c \<longrightarrow> effect_status db' e = Some (er_status c))"
  using assms claim_effect_status [of db e "rt_lease rt" md now]
  by (auto simp: guard_claim_def is_cancel_requested_wt split: bool.splits prod.splits sum.splits)

lemma guard_complete_status:
  assumes "well_typed db" "guard_complete rt db name v now = (r, db')" "e = effect_key_of rt name"
  shows "well_typed db' \<and> deadline db' (K_effect e) = deadline db (K_effect e) \<and>
    (r = Inr () \<and> effect_status db' e = Some ''completed'' \<and> hash_at db' (K_effect e) ''result'' = Some (dumps v) \<or>
     r \<noteq> Inr () \<and> db' = db)"
  using assms complete_effect_status [of db e "rt_lease rt" v now]
  by (auto simp: guard_complete_def split: bool.splits prod.splits sum.splits)

subsection \<open>At most once\<close>

text \<open>
  Everything that can happen to one effect and its provider when attempts are serial: a run of
  either guard to its end (an exception included), a run cut off after the claim or between
  the action and its completion, operations that leave the effect alone, and time.
\<close>

inductive guard_step ::
  "string \<Rightarrow> string \<Rightarrow> (json \<Rightarrow> 'w \<Rightarrow> string + json) \<Rightarrow> ('w \<Rightarrow> (string + json) \<times> 'w) \<Rightarrow> redis \<times> 'w \<Rightarrow> redis \<times> 'w \<Rightarrow> bool"
  for t name reconcile action
where
  gs_run: "rt_task_id rt = t \<Longrightarrow> guard_run rt name reconcile action now s = (r, s') \<Longrightarrow>
     guard_step t name reconcile action s s'"
| gs_async_run: "rt_task_id rt = t \<Longrightarrow> async_guard_run rt name reconcile action now s = (r, s') \<Longrightarrow>
     guard_step t name reconcile action s s'"
| gs_cut_after_claim: "rt_task_id rt = t \<Longrightarrow> guard_claim rt db name [] now = (c, db') \<Longrightarrow>
     guard_step t name reconcile action (db, w) (db', w)"
| gs_cut_after_action: "rt_task_id rt = t \<Longrightarrow> guard_claim rt db name [] now = (Inr c, db') \<Longrightarrow>
     er_status c \<noteq> ''completed'' \<Longrightarrow> reconcile (er_metadata c) w = Inr JNull \<Longrightarrow> action w = (v, w') \<Longrightarrow>
     guard_step t name reconcile action (db, w) (db', w')"
| gs_other: "well_typed db' \<Longrightarrow> untouched (K_effect (t @ CHR '':'' # name)) db db' \<Longrightarrow>
     guard_step t name reconcile action (db, w) (db', w)"
| gs_tick: "guard_step t name reconcile action (db, w) (redis_tick ms db, w)"

definition run_with ::
  "(redis \<Rightarrow> json \<Rightarrow> 'w \<Rightarrow> (guard_error + json) \<times> redis \<times> 'w) \<Rightarrow> execution_runtime \<Rightarrow> string \<Rightarrow>
   (json \<Rightarrow> 'w \<Rightarrow> string + json) \<Rightarrow> ('w \<Rightarrow> (string + json) \<times> 'w) \<Rightarrow> int \<Rightarrow>
   redis \<times> 'w \<Rightarrow> (guard_error + json) \<times> redis \<times> 'w"
where
  "run_with finish rt name reconcile action now = (\<lambda>(db, w).
     case guard_claim rt db name [] now of
       (Inl e, db1) \<Rightarrow> (Inl e, db1, w)
     | (Inr c, db1) \<Rightarrow>
         if er_status c = ''completed'' then (Inr (er_result c), db1, w)
         else (case reconcile (er_metadata c) w of
                 Inl e \<Rightarrow> (Inl (Provider_error e), db1, w)
               | Inr r \<Rightarrow> if r \<noteq> JNull then finish db1 r w
                   else (case action w of
                           (Inl e, w1) \<Rightarrow> (Inl (Provider_error e), db1, w1)
                         | (Inr v, w1) \<Rightarrow> finish db1 v w1)))"

lemma guard_run_with:
  "guard_run rt name reconcile action now =
     run_with (\<lambda>db v w. case guard_complete rt db name v now of
                          (Inl e, db2) \<Rightarrow> (Inl e, db2, w) | (Inr _, db2) \<Rightarrow> (Inr v, db2, w))
       rt name reconcile action now"
  by (simp add: guard_run_def run_with_def)

lemma async_guard_run_with:
  "async_guard_run rt name reconcile action now =
     run_with (\<lambda>db v w. case complete_effect db (effect_key_of rt name) (rt_lease rt) v now of
                          (Inl e, db2) \<Rightarrow> (Inl (Broker e), db2, w) | (Inr _, db2) \<Rightarrow> (Inr v, db2, w))
       rt name reconcile action now"
  by (simp add: async_guard_run_def run_with_def Let_def)

text \<open>What the guard is told about the provider: the reconciler sees whether the effect is there.\<close>

locale observable_effect =
  fixes reconcile :: "json \<Rightarrow> 'w \<Rightarrow> string + json"
    and action :: "'w \<Rightarrow> (string + json) \<times> 'w"
    and before :: 'w
  assumes seen_after: "reconcile m (snd (action before)) \<noteq> Inr JNull"
    and unseen_before: "reconcile m before = Inr JNull \<or> (\<exists>x. reconcile m before = Inl x)"
begin

definition guarded :: "string \<Rightarrow> redis \<times> 'w \<Rightarrow> bool" where
  "guarded e = (\<lambda>(db, w). well_typed db \<and> deadline db (K_effect e) = None \<and>
     (w = snd (action before) \<or> w = before \<and> effect_status db e \<noteq> Some ''completed''))"

lemma guarded_claim:
  assumes "guarded e (db, w)" "guard_claim rt db name md now = (r, db')" "e = effect_key_of rt name"
  shows "guarded e (db', w)" "r = Inr c \<Longrightarrow> effect_status db' e = Some (er_status c)"
  using guard_claim_status [OF _ assms(2,3)] assms(1) by (auto simp: guarded_def)

lemma guarded_complete:
  assumes "guarded e (db, snd (action before))" "guard_complete rt db name v now = (r, db')" "e = effect_key_of rt name"
  shows "guarded e (db', snd (action before))"
  using guard_complete_status [OF _ assms(2,3)] assms(1) by (auto simp: guarded_def)

lemma guarded_complete_effect:
  assumes "guarded e (db, snd (action before))" "complete_effect db e l v now = (r, db')"
  shows "guarded e (db', snd (action before))"
  using complete_effect_status [OF _ assms(2)] assms(1) by (auto simp: guarded_def)

text \<open>Where a reconciler reports nothing the action has not run, and running it leads to the one state after it.\<close>

lemma guarded_action:
  assumes "guarded e (db, w)" "reconcile m w = Inr JNull"
  shows "guarded e (db, snd (action w))" "snd (action w) = snd (action before)"
  using assms seen_after by (auto simp: guarded_def)

lemma guarded_reconciled:
  assumes "guarded e (db, w)" "reconcile m w = Inr r" "r \<noteq> JNull"
  shows "w = snd (action before)"
  using assms unseen_before [of m] by (auto simp: guarded_def)

text \<open>Both guards are one control flow around their way of completing the effect.\<close>

lemma guarded_run_with:
  assumes g: "guarded e s" and e: "e = effect_key_of rt name"
    and finish: "\<And>db v r db' w'. guarded e (db, snd (action before)) \<Longrightarrow>
      finish db v (snd (action before)) = (r, db', w') \<Longrightarrow> guarded e (db', w')"
    and run: "run_with finish rt name reconcile action now s = (r, s')"
  shows "guarded e s'"
proof -
  obtain db w where s: "s = (db, w)" by force
  obtain rc db1 where claim: "guard_claim rt db name [] now = (rc, db1)" by force
  note g1 = guarded_claim(1) [OF g [unfolded s] claim e]
  obtain av w1 where a: "action w = (av, w1)" by force
  consider (failed) x where "rc = Inl x" | (settled) c where "rc = Inr c" "er_status c = ''completed''"
    | (unreadable) c x where "rc = Inr c" "er_status c \<noteq> ''completed''" "reconcile (er_metadata c) w = Inl x"
    | (there) c v where "rc = Inr c" "er_status c \<noteq> ''completed''" "reconcile (er_metadata c) w = Inr v" "v \<noteq> JNull"
    | (absent) c where "rc = Inr c" "er_status c \<noteq> ''completed''" "reconcile (er_metadata c) w = Inr JNull"
    by (metis sum.exhaust)
  then show ?thesis
  proof cases
    case there
    have "w = snd (action before)" by (rule guarded_reconciled [OF g1 there(3,4)])
    moreover obtain q db2 w2 where "finish db1 v w = (q, db2, w2)" using prod_cases3 by blast
    ultimately show ?thesis using finish [of db1 v q db2 w2] there run claim g1 s by (simp add: run_with_def)
  next
    case absent
    note act = guarded_action [OF g1 absent(3), unfolded a snd_conv]
    show ?thesis
    proof (cases av)
      case (Inl x)
      with absent run claim s a act show ?thesis by (simp add: run_with_def)
    next
      case (Inr v)
      moreover obtain q db2 w2 where "finish db1 v w1 = (q, db2, w2)" using prod_cases3 by blast
      ultimately show ?thesis using finish [of db1 v q db2 w2] absent run claim s a act by (simp add: run_with_def)
    qed
  qed (use run claim g1 s in \<open>simp_all add: run_with_def\<close>)
qed

lemma guarded_guard_run:
  assumes "guarded e s" "guard_run rt name reconcile action now s = (r, s')" "e = effect_key_of rt name"
  shows "guarded e s'"
  by (rule guarded_run_with [OF assms(1,3) _ assms(2) [unfolded guard_run_with]])
     (use guarded_complete [OF _ _ assms(3)] in \<open>auto split: prod.splits sum.splits\<close>)

lemma guarded_async_guard_run:
  assumes "guarded e s" "async_guard_run rt name reconcile action now s = (r, s')" "e = effect_key_of rt name"
  shows "guarded e s'"
  by (rule guarded_run_with [OF assms(1,3) _ assms(2) [unfolded async_guard_run_with]])
     (use guarded_complete_effect assms(3) in \<open>auto split: prod.splits sum.splits\<close>)

lemma guarded_step:
  assumes "guard_step t name reconcile action s s'" "guarded (t @ CHR '':'' # name) s"
  shows "guarded (t @ CHR '':'' # name) s'"
  using assms(1)
proof (cases rule: guard_step.cases)
  case (gs_run rt now r)
  show ?thesis using guarded_guard_run [OF assms(2) gs_run(2)] gs_run(1) by (simp add: effect_key_of_def)
next
  case (gs_async_run rt now r)
  show ?thesis using guarded_async_guard_run [OF assms(2) gs_async_run(2)] gs_async_run(1) by (simp add: effect_key_of_def)
next
  case (gs_cut_after_claim rt db now c db' w)
  then show ?thesis using guarded_claim(1) [of _ db w rt name "[]" now c db'] assms(2) by (simp add: effect_key_of_def)
next
  case (gs_cut_after_action rt db now c db' w v w')
  have "guarded (t @ CHR '':'' # name) (db', w)"
    using gs_cut_after_action guarded_claim(1) [of _ db w rt name "[]" now "Inr c" db'] assms(2)
    by (simp add: effect_key_of_def)
  then show ?thesis using guarded_action(1) gs_cut_after_action by fastforce
next
  case (gs_other db' db w)
  then show ?thesis using assms(2) untouched_views(2) [of _ db db']
    by (auto simp: guarded_def effect_status_def untouched_def)
next
  case (gs_tick db w ms)
  then have "data (redis_tick ms db) (K_effect (t @ CHR '':'' # name)) = data db (K_effect (t @ CHR '':'' # name))"
    "deadline (redis_tick ms db) (K_effect (t @ CHR '':'' # name)) = None"
    using assms(2) by (auto simp: guarded_def redis_tick_def Let_def)
  then show ?thesis using gs_tick assms(2) by (auto simp: guarded_def effect_status_def view_defs redis_simps)
qed

lemma at_most_once:
  assumes "(guard_step t name reconcile action)\<^sup>*\<^sup>* s s'" "guarded (t @ CHR '':'' # name) s"
  shows "guarded (t @ CHR '':'' # name) s'"
  using assms by (induction rule: rtranclp_induct) (auto intro: guarded_step)

end

subsection \<open>Replays\<close>

definition fence_ok :: "redis \<Rightarrow> mr_lease option \<Rightarrow> bool" where
  "fence_ok db l \<longleftrightarrow> fst (lease_args l) = [] \<or> holds_lease db (lease_key_of l) (fst (lease_args l)) (snd (lease_args l))"

definition stored_metadata :: "redis \<Rightarrow> string \<Rightarrow> json option" where
  "stored_metadata db e =
     (let s = or_else (hash_at db (K_effect e) ''metadata'') ''{}'' in loads (if s = [] then ''{}'' else s))"

lemma lease_key_of_neq [simp]: "lease_key_of l \<noteq> K_effect e" "lease_key_of l \<noteq> K_task t"
  by (simp_all add: lease_key_of_def split: option.splits)

lemma fence_ok_cong: "hash_at db' (lease_key_of l) = hash_at db (lease_key_of l) \<Longrightarrow> fence_ok db' l = fence_ok db l"
  by (simp add: fence_ok_def holds_lease_def)

lemma claim_effect_readable:
  assumes "well_typed db" "claim_effect db e l md now = (Inr c, db')"
  shows "fence_ok db' l \<and> stored_metadata db' e = Some (er_metadata c) \<and>
    hash_at db' (K_task t) ''cancel_requested'' = hash_at db (K_task t) ''cancel_requested''"
proof -
  have "fence_ok db l" using assms
    by (auto simp: claim_effect_def CLAIM_EFFECT_eval fence_ok_def split: if_splits)
  moreover have "hash_at db' (lease_key_of l) = hash_at db (lease_key_of l)"
    using assms by (auto simp: claim_effect_def CLAIM_EFFECT_eval hash_at_hset split: if_splits option.splits)
  ultimately have "fence_ok db' l" using fence_ok_cong by blast
  moreover have "stored_metadata db' e = Some (er_metadata c)"
    using assms \<open>fence_ok db l\<close>
    by (cases "effect_status db e")
       (auto simp: claim_effect_def CLAIM_EFFECT_eval fence_ok_def stored_metadata_def Let_def hash_at_hset
         split: if_splits option.splits)
  moreover have "hash_at db' (K_task t) ''cancel_requested'' = hash_at db (K_task t) ''cancel_requested''"
    using assms by (auto simp: claim_effect_def CLAIM_EFFECT_eval hash_at_hset split: if_splits option.splits)
  ultimately show ?thesis by blast
qed

lemma complete_effect_writes:
  assumes "well_typed db" "complete_effect db e l v now = (r, db')"
  obtains "db' = db"
  | kvs where "kvs = [(''status'', ''completed''), (''result'', dumps v), (''updated_at'', show_int now)]"
      "db' = hset_w db (K_effect e) kvs \<or> db' = hdel_w (hset_w db (K_effect e) kvs) (K_task (effect_task e)) [''active_effect'']"
  using assms by (simp add: complete_effect_def COMPLETE_EFFECT_eval Let_def split: if_splits)

lemma complete_effect_keeps:
  assumes "well_typed db" "complete_effect db e l v now = (r, db')"
  shows "fence_ok db' l = fence_ok db l" "stored_metadata db' e = stored_metadata db e"
    "hash_at db' (K_task t) ''cancel_requested'' = hash_at db (K_task t) ''cancel_requested''"
proof -
  have *: "hash_at db' (lease_key_of l) = hash_at db (lease_key_of l)"
    "hash_at db' (K_effect e) ''metadata'' = hash_at db (K_effect e) ''metadata''"
    "hash_at db' (K_task t) ''cancel_requested'' = hash_at db (K_task t) ''cancel_requested''"
    using complete_effect_writes [OF assms] by (cases; force simp: hash_at_hset hash_at_hdel)+
  show "fence_ok db' l = fence_ok db l" by (rule fence_ok_cong [OF *(1)])
  show "stored_metadata db' e = stored_metadata db e" using *(2) by (simp add: stored_metadata_def)
  show "hash_at db' (K_task t) ''cancel_requested'' = hash_at db (K_task t) ''cancel_requested''" by (rule *(3))
qed

lemma dumps_nonempty: "wf_json v \<Longrightarrow> dumps v \<noteq> []"
  using loads_dumps [of v] by (auto simp: loads_def)

lemma claim_completed:
  assumes "well_typed db" "fence_ok db l" "stored_metadata db e = Some m" "wf_json v"
    "effect_status db e = Some ''completed''" "hash_at db (K_effect e) ''result'' = Some (dumps v)"
  shows "claim_effect db e l md now = (Inr \<lparr>er_status = ''completed'', er_metadata = m, er_result = sort_keys v\<rparr>, db)"
  using assms dumps_nonempty [OF assms(4)]
  by (simp add: claim_effect_def CLAIM_EFFECT_eval fence_ok_def stored_metadata_def Let_def loads_dumps)

lemma guard_run_replay:
  assumes "well_typed db" "guard_run rt name reconcile action now (db, w) = (Inr v, db', w')"
    "effect_status db (effect_key_of rt name) \<noteq> Some ''completed''" "wf_json v"
  shows "guard_run rt name reconcile' action' now' (db', u) = (Inr (sort_keys v), db', u)"
proof -
  let ?e = "effect_key_of rt name" and ?t = "rt_task_id rt"
  obtain c db1 where claim: "claim_effect db ?e (rt_lease rt) [] now = (Inr c, db1)"
    and cancel: "hash_at db (K_task ?t) ''cancel_requested'' \<noteq> Some ''1''"
    and complete: "complete_effect db1 ?e (rt_lease rt) v now = (Inr True, db')"
  proof -
    obtain rc db1 where gc: "guard_claim rt db name [] now = (rc, db1)" by force
    then obtain c where c: "rc = Inr c" using assms(2) by (cases rc) (auto simp: guard_run_def)
    have "er_status c \<noteq> ''completed''"
      using guard_claim_status [OF assms(1) gc refl] c assms(3) by auto
    then have "guard_complete rt db1 name v now = (Inr (), db')"
      using assms(2) gc c by (auto simp: guard_run_def split: sum.splits if_splits prod.splits)
    then have "complete_effect db1 ?e (rt_lease rt) v now = (Inr True, db')"
      by (auto simp: guard_complete_def split: prod.splits sum.splits bool.splits)
    moreover have "claim_effect db ?e (rt_lease rt) [] now = (Inr c, db1)"
      "hash_at db (K_task ?t) ''cancel_requested'' \<noteq> Some ''1''"
      using gc c by (auto simp: guard_claim_def is_cancel_requested_wt [OF assms(1)] split: bool.splits prod.splits sum.splits)
    ultimately show ?thesis using that by blast
  qed
  have wt1: "well_typed db1" using claim_effect_status [OF assms(1) claim] by blast
  note ended = complete_effect_status [OF wt1 complete]
  note kept = claim_effect_readable [OF assms(1) claim, of ?t] complete_effect_keeps [OF wt1 complete]
  have "claim_effect db' ?e (rt_lease rt) [] now' =
      (Inr \<lparr>er_status = ''completed'', er_metadata = er_metadata c, er_result = sort_keys v\<rparr>, db')"
    using ended kept assms(4) by (intro claim_completed) auto
  moreover have "is_cancel_requested db' ?t = Some False"
    using ended kept cancel by (simp add: is_cancel_requested_wt)
  ultimately show ?thesis by (simp add: guard_run_def guard_claim_def)
qed

end
