(* ===== verification/Git_Effects.thy ===== *)
theory Git_Effects
  imports Effects
begin

text \<open>
  \<open>IdempotentGitProvider\<close> of \<open>pr_agent/distributed/effects.py\<close>: the writes to the Git
  provider that carry a deterministic marker. The provider itself is a record of the
  operations the class calls, over a provider state \<open>'w\<close>; an operation that raises answers
  \<open>Inl\<close>. SHA-256 in hexadecimal is a parameter.
\<close>

record comment =
  comment_id :: json
  comment_discussion_id :: json
  comment_body :: string

datatype notes_result = Notes "comment list" | Notes_TypeError | Notes_Error

record 'w git_provider =
  get_issue_comments :: "'w \<Rightarrow> string + comment list"
  notes_list_get_all :: "'w \<Rightarrow> notes_result"
  notes_list_all :: "'w \<Rightarrow> string + comment list"
  max_comment_chars :: int
  provider_mr :: "'w \<Rightarrow> (string \<times> string) option"   \<comment> \<open>title and description of \<open>mr\<close>\<close>
  get_pr_labels :: "'w \<Rightarrow> string + string list"

definition stable_digest :: "(string \<Rightarrow> string) \<Rightarrow> json \<Rightarrow> string" where
  "stable_digest sha256_hex value = take 20 (sha256_hex (dumps value))"

definition effect_marker :: "(string \<Rightarrow> string) \<Rightarrow> string \<Rightarrow> string \<Rightarrow> string" where
  "effect_marker sha256_hex tid effect_name =
     ''<!-- pr-agent-task:'' @ tid @ '':effect:'' @ stable_digest sha256_hex (JStr effect_name) @ '' -->''"

definition effect_name_of :: "(string \<Rightarrow> string) \<Rightarrow> string \<Rightarrow> json \<Rightarrow> string" where
  "effect_name_of sha256_hex operation value = operation @ '':'' @ stable_digest sha256_hex value"

text \<open>\<open>_marked_body\<close>: the body is cut so that the marker fits; lengths are in characters.\<close>

definition blank_line :: string where
  "blank_line = [CHR 0x0A, CHR 0x0A]"

definition cut_body :: "int \<Rightarrow> string \<Rightarrow> string \<Rightarrow> string" where
  "cut_body max_chars body marker =
     (if max_chars \<noteq> 0 \<and> int (char_len body) + int (char_len marker) + 2 > max_chars
      then take_chars (nat (max 0 (max_chars - int (char_len marker) - 5))) body @ ''...''
      else body)"

definition marked_body ::
  "(string \<Rightarrow> string) \<Rightarrow> execution_runtime \<Rightarrow> 'w git_provider \<Rightarrow> string \<Rightarrow> string \<Rightarrow> string \<times> string"
where
  "marked_body sha256_hex rt prov body effect_name =
     (let marker = effect_marker sha256_hex (rt_task_id rt) effect_name
      in (cut_body (max_comment_chars prov) body marker @ blank_line @ marker, marker))"

text \<open>\<open>_find_comment\<close>: an error of the fallback listing is no comment, but one of the second fallback escapes.\<close>

definition find_comment :: "'w git_provider \<Rightarrow> string \<Rightarrow> 'w \<Rightarrow> string + comment option" where
  "find_comment prov marker w =
     (let look = (\<lambda>cs. find (\<lambda>c. contains (comment_body c) marker) cs) in
      case get_issue_comments prov w of
        Inr cs \<Rightarrow> Inr (look cs)
      | Inl _ \<Rightarrow>
          (case notes_list_get_all prov w of
             Notes cs \<Rightarrow> Inr (look cs)
           | Notes_Error \<Rightarrow> Inr None
           | Notes_TypeError \<Rightarrow>
               (case notes_list_all prov w of Inl e \<Rightarrow> Inl e | Inr cs \<Rightarrow> Inr (look cs))))"

definition str_of :: "json \<Rightarrow> guard_error + string" where
  "str_of j = (case py_str j of Some s \<Rightarrow> Inr s | None \<Rightarrow> Inl (Provider_error ''identifier is not a scalar''))"

definition complete_with_comment ::
  "execution_runtime \<Rightarrow> redis \<Rightarrow> string \<Rightarrow> json \<Rightarrow> int \<Rightarrow> (guard_error + unit) \<times> redis"
where
  "complete_with_comment rt db effect_name cid now =
     (case str_of cid of
        Inl e \<Rightarrow> (Inl e, db)
      | Inr s \<Rightarrow> guard_complete rt db effect_name (JObj [(''comment_id'', JStr s)]) now)"

text \<open>\<open>_publish_comment_effect\<close>.\<close>

definition publish_comment_effect ::
  "(string \<Rightarrow> string) \<Rightarrow> execution_runtime \<Rightarrow> 'w git_provider \<Rightarrow> string \<Rightarrow> string \<Rightarrow>
   (string \<Rightarrow> 'w \<Rightarrow> (string + comment) \<times> 'w) \<Rightarrow> int \<Rightarrow> redis \<times> 'w \<Rightarrow> (guard_error + comment) \<times> redis \<times> 'w"
where
  "publish_comment_effect sha256_hex rt prov effect_name body action now = (\<lambda>(db, w).
     let (mbody, marker) = marked_body sha256_hex rt prov body effect_name in
     case guard_claim rt db effect_name [] now of
       (Inl e, db1) \<Rightarrow> (Inl e, db1, w)
     | (Inr c, db1) \<Rightarrow>
         (case find_comment prov marker w of
            Inl e \<Rightarrow> (Inl (Provider_error e), db1, w)
          | Inr (Some existing) \<Rightarrow>
              if er_status c \<noteq> ''completed''
              then (case complete_with_comment rt db1 effect_name (comment_id existing) now of
                      (Inl e, db2) \<Rightarrow> (Inl e, db2, w)
                    | (Inr _, db2) \<Rightarrow> (Inr existing, db2, w))
              else (Inr existing, db1, w)
          | Inr None \<Rightarrow>
              if er_status c = ''completed''
              then (Inr \<lparr>comment_id = (case er_result c of
                                          JObj d \<Rightarrow> (case dget d ''comment_id'' of None \<Rightarrow> JStr [] | Some v \<Rightarrow> v)
                                        | _ \<Rightarrow> JStr []),
                         comment_discussion_id = JNull, comment_body = mbody\<rparr>, db1, w)
              else (case action mbody w of
                      (Inl e, w1) \<Rightarrow> (Inl (Provider_error e), db1, w1)
                    | (Inr cm, w1) \<Rightarrow>
                        (case complete_with_comment rt db1 effect_name (comment_id cm) now of
                           (Inl e, db2) \<Rightarrow> (Inl e, db2, w1)
                         | (Inr _, db2) \<Rightarrow> (Inr cm, db2, w1)))))"

text \<open>The three public comment operations name their effect by the digest of their arguments.\<close>

definition publish_comment where
  "publish_comment sha256_hex rt prov post pr_comment is_temporary now =
     publish_comment_effect sha256_hex rt prov
       (effect_name_of sha256_hex ''publish_comment''
          (JObj [(''body'', JStr pr_comment), (''temporary'', JBool is_temporary)]))
       pr_comment (\<lambda>b. post b is_temporary) now"

definition publish_persistent_comment where
  "publish_persistent_comment sha256_hex rt prov post pr_comment initial_header update_header name final_update_message now =
     publish_comment_effect sha256_hex rt prov
       (effect_name_of sha256_hex ''publish_persistent_comment''
          (JObj [(''body'', JStr pr_comment), (''initial_header'', JStr initial_header),
             (''update_header'', JBool update_header), (''name'', JStr name),
             (''final_update_message'', JBool final_update_message)]))
       pr_comment (\<lambda>b. post b initial_header update_header name final_update_message) now"

definition publish_inline_comment where
  "publish_inline_comment sha256_hex rt prov post body relevant_file relevant_line original_suggestion now =
     publish_comment_effect sha256_hex rt prov
       (effect_name_of sha256_hex ''publish_inline_comment''
          (JObj [(''body'', JStr body), (''file'', JStr relevant_file), (''line'', relevant_line),
             (''suggestion'', original_suggestion)]))
       body (\<lambda>b. post b relevant_file relevant_line original_suggestion) now"

text \<open>\<open>str(suggestion.get("body") or "")\<close>.\<close>

definition suggestion_body :: "dict \<Rightarrow> guard_error + string" where
  "suggestion_body d = (case get_str d ''body'' [] of Some s \<Rightarrow> Inr s | None \<Rightarrow> Inl (Provider_error ''body is not a scalar''))"

text \<open>\<open>publish_code_suggestions\<close>: the loop, with the results seen so far.\<close>

fun publish_code_suggestions ::
  "(string \<Rightarrow> string) \<Rightarrow> execution_runtime \<Rightarrow> 'w git_provider \<Rightarrow> (dict \<Rightarrow> 'w \<Rightarrow> (string + bool) \<times> 'w) \<Rightarrow> int \<Rightarrow>
   dict list \<Rightarrow> bool \<Rightarrow> redis \<times> 'w \<Rightarrow> (guard_error + bool) \<times> redis \<times> 'w"
where
  "publish_code_suggestions sha256_hex rt prov post now [] all_true s = (Inr all_true, s)"
| "publish_code_suggestions sha256_hex rt prov post now (sg # sgs) all_true (db, w) =
     (let effect_name = effect_name_of sha256_hex ''publish_code_suggestion'' (JObj sg) in
      case suggestion_body sg of Inl e \<Rightarrow> (Inl e, db, w) | Inr b \<Rightarrow>
      (let (mbody, marker) = marked_body sha256_hex rt prov b effect_name in
       case guard_claim rt db effect_name [] now of
         (Inl e, db1) \<Rightarrow> (Inl e, db1, w)
       | (Inr c, db1) \<Rightarrow>
           (case find_comment prov marker w of
              Inl e \<Rightarrow> (Inl (Provider_error e), db1, w)
            | Inr found \<Rightarrow>
                if found \<noteq> None \<or> er_status c = ''completed'' then
                  (if er_status c \<noteq> ''completed'' then
                     (case guard_complete rt db1 effect_name (JBool True) now of
                        (Inl e, db2) \<Rightarrow> (Inl e, db2, w)
                      | (Inr _, db2) \<Rightarrow> publish_code_suggestions sha256_hex rt prov post now sgs all_true (db2, w))
                   else publish_code_suggestions sha256_hex rt prov post now sgs all_true (db1, w))
                else
                  (case post (AList.update ''body'' (JStr mbody) sg) w of
                     (Inl e, w1) \<Rightarrow> (Inl (Provider_error e), db1, w1)
                   | (Inr r, w1) \<Rightarrow>
                       (case guard_complete rt db1 effect_name (JBool r) now of
                          (Inl e, db2) \<Rightarrow> (Inl e, db2, w1)
                        | (Inr _, db2) \<Rightarrow>
                            publish_code_suggestions sha256_hex rt prov post now sgs (all_true \<and> r) (db2, w1))))))"

definition dget_or_null :: "dict \<Rightarrow> string \<Rightarrow> json" where
  "dget_or_null d k = (case dget d k of None \<Rightarrow> JNull | Some v \<Rightarrow> v)"

definition inline_result :: "dict \<Rightarrow> json \<Rightarrow> json \<Rightarrow> string \<Rightarrow> string \<Rightarrow> json" where
  "inline_result sg discussion note status reason =
     JObj [(''suggestion_id'', dget_or_null sg ''suggestion_id''), (''discussion_id'', discussion), (''note_id'', note),
           (''publish_status'', JStr status), (''skip_reason'', JStr reason)]"

text \<open>\<open>publish_inline_suggestions\<close>: the loop, with the results in order.\<close>

fun publish_inline_suggestions ::
  "(string \<Rightarrow> string) \<Rightarrow> execution_runtime \<Rightarrow> 'w git_provider \<Rightarrow> (dict \<Rightarrow> 'w \<Rightarrow> (string + json list) \<times> 'w) \<Rightarrow> int \<Rightarrow>
   dict list \<Rightarrow> json list \<Rightarrow> redis \<times> 'w \<Rightarrow> (guard_error + json list) \<times> redis \<times> 'w"
where
  "publish_inline_suggestions sha256_hex rt prov post now [] results s = (Inr results, s)"
| "publish_inline_suggestions sha256_hex rt prov post now (sg # sgs) results (db, w) =
     (let effect_name = effect_name_of sha256_hex ''publish_inline_suggestion'' (JObj sg) in
      case suggestion_body sg of Inl e \<Rightarrow> (Inl e, db, w) | Inr b \<Rightarrow>
      (let (mbody, marker) = marked_body sha256_hex rt prov b effect_name in
       case guard_claim rt db effect_name [] now of
         (Inl e, db1) \<Rightarrow> (Inl e, db1, w)
       | (Inr c, db1) \<Rightarrow>
           (case find_comment prov marker w of
              Inl e \<Rightarrow> (Inl (Provider_error e), db1, w)
            | Inr (Some existing) \<Rightarrow>
                (let result = inline_result sg (comment_discussion_id existing) (comment_id existing) ''published'' [] in
                 if er_status c \<noteq> ''completed'' then
                   (case guard_complete rt db1 effect_name result now of
                      (Inl e, db2) \<Rightarrow> (Inl e, db2, w)
                    | (Inr _, db2) \<Rightarrow> publish_inline_suggestions sha256_hex rt prov post now sgs (results @ [result]) (db2, w))
                 else publish_inline_suggestions sha256_hex rt prov post now sgs (results @ [result]) (db1, w))
            | Inr None \<Rightarrow>
                if er_status c = ''completed''
                then publish_inline_suggestions sha256_hex rt prov post now sgs (results @ [er_result c]) (db1, w)
                else
                  (case post (AList.update ''body'' (JStr mbody) sg) w of
                     (Inl e, w1) \<Rightarrow> (Inl (Provider_error e), db1, w1)
                   | (Inr published, w1) \<Rightarrow>
                       (let result = (case published of r # _ \<Rightarrow> r | [] \<Rightarrow> inline_result sg JNull JNull ''failed'' ''no_result'') in
                        case guard_complete rt db1 effect_name result now of
                          (Inl e, db2) \<Rightarrow> (Inl e, db2, w1)
                        | (Inr _, db2) \<Rightarrow>
                            publish_inline_suggestions sha256_hex rt prov post now sgs (results @ [result]) (db2, w1))))))"

subsection \<open>Descriptions and labels\<close>

definition reconcile_description :: "'w git_provider \<Rightarrow> string \<Rightarrow> string \<Rightarrow> json \<Rightarrow> 'w \<Rightarrow> string + json" where
  "reconcile_description prov pr_title pr_body md w =
     (if provider_mr prov w = Some (pr_title, pr_body) then Inr (JBool True) else Inr JNull)"

definition publish_description_action ::
  "'w git_provider \<Rightarrow> (string \<Rightarrow> string \<Rightarrow> 'w \<Rightarrow> (string + unit) \<times> 'w) \<Rightarrow> string \<Rightarrow> string \<Rightarrow> 'w \<Rightarrow> (string + json) \<times> 'w"
where
  "publish_description_action prov post pr_title pr_body w =
     (case post pr_title pr_body w of
        (Inl e, w1) \<Rightarrow> (Inl e, w1)
      | (Inr _, w1) \<Rightarrow>
          (if reconcile_description prov pr_title pr_body (JObj []) w1 = Inr JNull
           then Inl ''Git provider did not persist the requested description'' else Inr (JBool True), w1))"

definition publish_description where
  "publish_description sha256_hex rt prov post pr_title pr_body now =
     guard_run rt (effect_name_of sha256_hex ''publish_description''
         (JObj [(''title'', JStr pr_title), (''body'', JStr pr_body)]))
       (reconcile_description prov pr_title pr_body) (publish_description_action prov post pr_title pr_body) now"

definition normalized_labels :: "string list \<Rightarrow> string list" where
  "normalized_labels labels = sort (remdups labels)"

definition reconcile_labels :: "'w git_provider \<Rightarrow> string list \<Rightarrow> json \<Rightarrow> 'w \<Rightarrow> string + json" where
  "reconcile_labels prov normalized md w =
     (case get_pr_labels prov w of
        Inl e \<Rightarrow> Inl e
      | Inr current \<Rightarrow> Inr (if set current = set normalized then JBool True else JNull))"

definition publish_labels_action ::
  "'w git_provider \<Rightarrow> (string list \<Rightarrow> 'w \<Rightarrow> (string + unit) \<times> 'w) \<Rightarrow> string list \<Rightarrow> 'w \<Rightarrow> (string + json) \<times> 'w"
where
  "publish_labels_action prov post normalized w =
     (case post normalized w of
        (Inl e, w1) \<Rightarrow> (Inl e, w1)
      | (Inr _, w1) \<Rightarrow>
          (case reconcile_labels prov normalized (JObj []) w1 of
             Inl e \<Rightarrow> (Inl e, w1)
           | Inr r \<Rightarrow>
               (if r = JNull then Inl ''Git provider did not persist the requested labels'' else Inr (JBool True), w1)))"

definition publish_labels where
  "publish_labels sha256_hex rt prov post labels now =
     guard_run rt (effect_name_of sha256_hex ''publish_labels'' (JArr (map JStr (normalized_labels labels))))
       (reconcile_labels prov (normalized_labels labels)) (publish_labels_action prov post (normalized_labels labels)) now"

subsection \<open>Markers\<close>

lemma contains_append: "contains s p \<Longrightarrow> contains (r @ s) p"
  by (induction r) auto

lemma contains_refl [simp]: "contains p p"
  by (cases p) (simp_all add: startswith_def)

lemma marked_body_contains: "marked_body h rt prov body name = (mb, marker) \<Longrightarrow> contains mb marker"
  by (auto simp: marked_body_def Let_def intro!: contains_append)

text \<open>The provider's comments that carry a marker.\<close>

definition marked :: "('w \<Rightarrow> comment list) \<Rightarrow> string \<Rightarrow> 'w \<Rightarrow> comment list" where
  "marked comments marker w = filter (\<lambda>c. contains (comment_body c) marker) (comments w)"

text \<open>
  A provider whose listings are complete: whichever of the three listings \<open>_find_comment\<close> ends up
  with shows all comments or raises an error that escapes. What is excluded is an error of the
  second listing other than \<open>TypeError\<close>, which \<open>_find_comment\<close> takes for the absence of the comment.
\<close>

definition lists_comments :: "'w git_provider \<Rightarrow> ('w \<Rightarrow> comment list) \<Rightarrow> bool" where
  "lists_comments prov comments \<longleftrightarrow>
     (\<forall>w. case get_issue_comments prov w of
            Inr cs \<Rightarrow> cs = comments w
          | Inl _ \<Rightarrow>
              (case notes_list_get_all prov w of
                 Notes cs \<Rightarrow> cs = comments w
               | Notes_TypeError \<Rightarrow> (case notes_list_all prov w of Inr cs \<Rightarrow> cs = comments w | Inl _ \<Rightarrow> True)
               | Notes_Error \<Rightarrow> False))"

lemma find_comment_None:
  assumes "lists_comments prov comments" "find_comment prov marker w = Inr None"
  shows "marked comments marker w = []"
  using assms(1) [unfolded lists_comments_def, rule_format, of w] assms(2)
  by (auto simp: find_comment_def Let_def marked_def find_None_iff filter_empty_conv split: sum.splits notes_result.splits)

lemma find_comment_Some:
  assumes "lists_comments prov comments" "find_comment prov marker w = Inr (Some c)"
  shows "marked comments marker w \<noteq> []"
  using assms(1) [unfolded lists_comments_def, rule_format, of w] assms(2)
  by (auto simp: find_comment_def Let_def marked_def find_Some_iff filter_empty_conv
      split: sum.splits notes_result.splits intro: nth_mem)

text \<open>
  A call that posts: it appends the comment it returns, and when it raises the comment may have
  been appended all the same.
\<close>

definition posts :: "('w \<Rightarrow> comment list) \<Rightarrow> (string \<Rightarrow> 'w \<Rightarrow> (string + comment) \<times> 'w) \<Rightarrow> bool" where
  "posts comments action \<longleftrightarrow>
     (\<forall>b w. case action b w of
              (Inr c, w') \<Rightarrow> comment_body c = b \<and> comments w' = comments w @ [c]
            | (Inl _, w') \<Rightarrow> comments w' = comments w \<or> (\<exists>c. comment_body c = b \<and> comments w' = comments w @ [c]))"

lemma posts_once:
  assumes "posts comments action"
  shows "length (marked comments marker (snd (action b w))) \<le> Suc (length (marked comments marker w))"
  using assms [unfolded posts_def, THEN spec, of b, THEN spec, of w]
  by (auto simp: marked_def split: prod.splits sum.splits)

lemma posts_marked:
  assumes "posts comments action" "action b w = (Inr c, w')" "contains b marker"
  shows "marked comments marker w' = marked comments marker w @ [c]"
  using assms(1) [unfolded posts_def, THEN spec, of b, THEN spec, of w] assms(2,3) by (simp add: marked_def)

text \<open>
  The provider over time: attempts of a task to publish, by any worker, on whatever the effect
  store holds at the time (after attempts that were cut off, too), and operations of others that
  add no comment with this marker.
\<close>

inductive publish_step ::
  "(string \<Rightarrow> string) \<Rightarrow> 'w git_provider \<Rightarrow> (string \<Rightarrow> 'w \<Rightarrow> (string + comment) \<times> 'w) \<Rightarrow> ('w \<Rightarrow> comment list) \<Rightarrow> string \<Rightarrow> string \<Rightarrow>
   'w \<Rightarrow> 'w \<Rightarrow> bool"
  for h prov action comments t name where
  ps_attempt: "rt_task_id rt = t \<Longrightarrow> publish_comment_effect h rt prov name body action now (db, w) = (r, db', w') \<Longrightarrow>
     publish_step h prov action comments t name w w'"
| ps_other: "length (marked comments (effect_marker h t name) w') \<le> length (marked comments (effect_marker h t name) w) \<Longrightarrow>
     publish_step h prov action comments t name w w'"

text \<open>Whatever happens in the store, the action of an attempt runs only where no comment carries the marker.\<close>

lemma publish_comment_effect_world:
  assumes "publish_comment_effect h rt prov name body action now (db, w) = (r, db', w')"
    and "marked_body h rt prov body name = (mb, marker)"
  shows "w' = w \<or> find_comment prov marker w = Inr None \<and> w' = snd (action mb w)"
proof (cases "find_comment prov marker w = Inr None")
  case True
  with assms show ?thesis
    by (auto simp: publish_comment_effect_def split: prod.splits sum.splits if_splits)
next
  case False
  with assms show ?thesis
    by (auto simp: publish_comment_effect_def split: prod.splits sum.splits option.splits if_splits)
qed

text \<open>An attempt on an effect that is not completed returns the comment it found or the one it posted.\<close>

lemma publish_comment_effect_returns:
  assumes "publish_comment_effect h rt prov name body action now (db, w) = (Inr c, db', w')" "well_typed db"
    and "effect_status db (effect_key_of rt name) \<noteq> Some ''completed''"
  shows "\<exists>mb. contains mb (effect_marker h (rt_task_id rt) name) \<and>
    (find_comment prov (effect_marker h (rt_task_id rt) name) w = Inr (Some c) \<and> w' = w \<or>
     find_comment prov (effect_marker h (rt_task_id rt) name) w = Inr None \<and> action mb w = (Inr c, w'))"
proof -
  let ?m = "effect_marker h (rt_task_id rt) name"
  obtain mb where mb: "marked_body h rt prov body name = (mb, ?m)" by (simp add: marked_body_def Let_def)
  obtain rc db1 where claim: "guard_claim rt db name [] now = (rc, db1)" by force
  have "er_status x \<noteq> ''completed''" if "rc = Inr x" for x
    using guard_claim_status [OF assms(2) claim HOL.refl] that assms(3) by auto
  then have "find_comment prov ?m w = Inr (Some c) \<and> w' = w \<or> find_comment prov ?m w = Inr None \<and> action mb w = (Inr c, w')"
    using assms(1) mb claim
    by (auto simp: publish_comment_effect_def split: prod.splits sum.splits option.splits if_splits)
  with marked_body_contains [OF mb] show ?thesis by blast
qed

subsection \<open>A provider that keeps what it is given\<close>

text \<open>
  The description effect is observable for a provider whose merge request shows the last
  title and description written.
\<close>

definition mr_memory :: "(string \<times> string) option git_provider" where
  "mr_memory = \<lparr>get_issue_comments = (\<lambda>_. Inr []), notes_list_get_all = (\<lambda>_. Notes []), notes_list_all = (\<lambda>_. Inr []),
     max_comment_chars = 0, provider_mr = (\<lambda>w. w), get_pr_labels = (\<lambda>_. Inr [])\<rparr>"

definition store_description :: "string \<Rightarrow> string \<Rightarrow> (string \<times> string) option \<Rightarrow> (string + unit) \<times> (string \<times> string) option" where
  "store_description title descr w = (Inr (), Some (title, descr))"

interpretation mr_description: observable_effect
  "reconcile_description mr_memory title descr" "publish_description_action mr_memory store_description title descr" None
  for title descr
  by unfold_locales
     (simp_all add: reconcile_description_def publish_description_action_def mr_memory_def store_description_def)

section \<open>Properties\<close>

text \<open>
  C2: a guarded effect happens at most once. Take any serial history of one effect: complete runs
  of the synchronous or asynchronous guard by any workers, runs cut off after the claim or
  between the action and its completion, operations that do not touch the effect's record,
  and time. If the reconciler sees the effect exactly when the action has run, the provider
  ends either as it was or as one run of the action leaves it, and an effect recorded as
  completed has been performed.
\<close>

theorem guard_at_most_once:
  assumes "(guard_step t name reconcile action)\<^sup>*\<^sup>* (db, w0) (db', w')"
    and "well_typed db" "effect_status db (t @ CHR '':'' # name) = None" "deadline db (K_effect (t @ CHR '':'' # name)) = None"
    and "\<And>m. reconcile m (snd (action w0)) \<noteq> Inr JNull"
    and "\<And>m. reconcile m w0 = Inr JNull \<or> (\<exists>x. reconcile m w0 = Inl x)"
  shows "(w' = w0 \<or> w' = snd (action w0)) \<and>
    (effect_status db' (t @ CHR '':'' # name) = Some ''completed'' \<longrightarrow> w' = snd (action w0))"
proof -
  have loc: "observable_effect reconcile action w0" using assms(5,6) by unfold_locales
  have "observable_effect.guarded action w0 (t @ CHR '':'' # name) (db, w0)"
    using assms(2-4) by (simp add: observable_effect.guarded_def [OF loc])
  from observable_effect.at_most_once [OF loc assms(1) this] show ?thesis
    by (auto simp: observable_effect.guarded_def [OF loc])
qed

definition example_runtime :: execution_runtime where
  "example_runtime = \<lparr>rt_task_id = ''t1'', rt_lease = None\<rparr>"

theorem guard_at_most_once_witness:
  "snd (snd (guard_run example_runtime ''d'' (reconcile_description mr_memory ''T'' ''B'')
      (publish_description_action mr_memory store_description ''T'' ''B'') 5 (empty_redis, None)))
     \<in> {None, Some (''T'', ''B'')}"
proof -
  let ?rec = "reconcile_description mr_memory ''T'' ''B''"
  let ?act = "publish_description_action mr_memory store_description ''T'' ''B''"
  obtain r db' w' where run: "guard_run example_runtime ''d'' ?rec ?act 5 (empty_redis, None) = (r, db', w')"
    using prod_cases3 by blast
  have "guard_step ''t1'' ''d'' ?rec ?act (empty_redis, None) (db', w')"
    using gs_run [OF _ run] by (simp add: example_runtime_def)
  then have "w' = None \<or> w' = snd (?act None)"
    using guard_at_most_once [of "''t1''" "''d''" ?rec ?act empty_redis None db' w'] mr_description.seen_after
      mr_description.unseen_before
    by (simp add: effect_status_def r_into_rtranclp)
  then show ?thesis
    using run by (auto simp: publish_description_action_def store_description_def)
qed

text \<open>
  C3: a completed effect is replayed, not performed again: after a run that returned a value,
  another run of the same guard returns the recorded value (with the keys of its objects
  sorted), calls neither the reconciler nor the action it is given, and changes nothing.
\<close>

theorem guard_run_replays:
  assumes "well_typed db" "guard_run rt name reconcile action now (db, w) = (Inr v, db', w')"
    "effect_status db (effect_key_of rt name) \<noteq> Some ''completed''" "wf_json v"
  shows "guard_run rt name reconcile' action' now' (db', u) = (Inr (sort_keys v), db', u)"
  using assms by (rule guard_run_replay)

theorem guard_run_replays_witness:
  "\<exists>db'. guard_run example_runtime ''d'' (\<lambda>m w. Inl ''never called'') (\<lambda>w. (Inl ''never called'', w)) 9 (db', 3 :: nat)
     = (Inr (JBool True), db', 3)"
proof -
  let ?run = "guard_run example_runtime ''d'' (\<lambda>m (w::nat). Inr JNull) (\<lambda>w. (Inr (JBool True), Suc w)) 5 (empty_redis, 0)"
  have c: "guard_claim example_runtime empty_redis ''d'' [] 5 =
      (Inr \<lparr>er_status = ''started'', er_metadata = JObj [], er_result = JNull\<rparr>,
       hset_w (hset_w empty_redis (K_effect ''t1:d'') [(''status'', ''started''), (''metadata'', dumps (JObj [])),
           (''created_at'', show_int 5), (''updated_at'', show_int 5)]) (K_task ''t1'') [(''active_effect'', ''t1:d'')])"
    (is "_ = (Inr ?c, ?db1)")
    by (simp add: guard_claim_def is_cancel_requested_wt example_runtime_def claim_effect_def CLAIM_EFFECT_eval
        effect_status_def effect_key_of_def effect_task_def before_first_def lease_key_of_def lease_args_def
        loads_dumps_obj dumps_nonempty stored_dict_def)
  obtain r db2 where q: "guard_complete example_runtime ?db1 ''d'' (JBool True) 5 = (r, db2)" by force
  have r: "r = Inr ()"
    using q by (auto simp: guard_complete_def complete_effect_def COMPLETE_EFFECT_eval example_runtime_def
        effect_key_of_def effect_status_def hash_at_hset redis_simps lease_args_def lease_key_of_def Let_def
        split: bool.splits)
  have run: "?run = (Inr (JBool True), db2, 1)"
    using c q r by (simp add: guard_run_def)
  have "guard_run example_runtime ''d'' (\<lambda>m w. Inl ''never called'') (\<lambda>w. (Inl ''never called'', w)) 9 (db2, 3 :: nat)
     = (Inr (sort_keys (JBool True)), db2, 3)"
    by (rule guard_run_replays [OF _ run]) (simp_all add: effect_status_def)
  then show ?thesis by auto
qed

text \<open>
  C4: a marked comment is posted at most once. Start from a provider that has no comment with the
  marker, and let attempts of the task follow one another, by any workers and on whatever the
  effect store holds, with other operations that add no such comment in between. Two things are
  assumed of the provider: the listing that the lookup ends up with shows all comments or raises an
  error that escapes (the lookup takes other errors of its second listing for the absence of the
  comment), and posting appends the one comment it returns, or when it raises at most one with the
  given body. Then there is never more than one comment with the marker, and an attempt that
  returns a comment for an effect that was not recorded as completed leaves exactly one.
\<close>

theorem publish_comment_single:
  assumes "(publish_step h prov action comments t name)\<^sup>*\<^sup>* w0 w" "marked comments (effect_marker h t name) w0 = []"
    and "lists_comments prov comments" "posts comments action"
  shows "length (marked comments (effect_marker h t name) w) \<le> 1 \<and>
    (\<forall>rt body now db c db' w'. rt_task_id rt = t \<longrightarrow> well_typed db \<longrightarrow>
       effect_status db (effect_key_of rt name) \<noteq> Some ''completed'' \<longrightarrow>
       publish_comment_effect h rt prov name body action now (db, w) = (Inr c, db', w') \<longrightarrow>
       length (marked comments (effect_marker h t name) w') = 1)"
proof -
  let ?m = "effect_marker h t name"
  from assms(1) have one: "length (marked comments ?m w) \<le> 1"
  proof (induction rule: rtranclp_induct)
    case (step w1 w2)
    from step(2) show ?case
    proof cases
      case (ps_attempt rt body now db r db')
      obtain mb where mb: "marked_body h rt prov body name = (mb, ?m)"
        using ps_attempt(1) by (simp add: marked_body_def Let_def)
      from publish_comment_effect_world [OF ps_attempt(2) mb] show ?thesis
        using step.IH find_comment_None [OF assms(3)] posts_once [OF assms(4), of ?m mb w1] by force
    qed (use step.IH in simp)
  qed (simp add: assms(2))
  moreover have "length (marked comments ?m w') = 1"
    if "rt_task_id rt = t" "well_typed db" "effect_status db (effect_key_of rt name) \<noteq> Some ''completed''"
      "publish_comment_effect h rt prov name body action now (db, w) = (Inr c, db', w')" for rt body now db c db' w'
    using publish_comment_effect_returns [OF that(4,2,3)] that(1) one find_comment_None [OF assms(3), of ?m w]
      find_comment_Some [OF assms(3), of ?m w] posts_marked [OF assms(4)]
    by (fastforce simp: le_Suc_eq)
  ultimately show ?thesis by blast
qed

definition comment_memory :: "int \<Rightarrow> comment list git_provider" where
  "comment_memory limit = \<lparr>get_issue_comments = (\<lambda>w. Inr w), notes_list_get_all = (\<lambda>w. Notes w), notes_list_all = (\<lambda>w. Inr w),
     max_comment_chars = limit, provider_mr = (\<lambda>_. None), get_pr_labels = (\<lambda>_. Inr [])\<rparr>"

definition store_comment :: "string \<Rightarrow> comment list \<Rightarrow> (string + comment) \<times> comment list" where
  "store_comment b w =
     (let c = \<lparr>comment_id = JInt 1, comment_discussion_id = JNull, comment_body = b\<rparr> in (Inr c, w @ [c]))"

text \<open>Two attempts, the second of which finds an empty effect store, as if the first had been cut off before its claim was kept.\<close>

theorem publish_comment_single_witness:
  "length (marked (\<lambda>w. w) (effect_marker (\<lambda>s. s) ''t1'' ''d'')
     (snd (snd (publish_comment_effect (\<lambda>s. s) example_runtime (comment_memory 0) ''d'' ''hi'' store_comment 9
       (empty_redis, snd (snd (publish_comment_effect (\<lambda>s. s) example_runtime (comment_memory 0) ''d'' ''hi'' store_comment 5 (empty_redis, [])))))))) \<le> 1"
proof -
  let ?run = "\<lambda>now w. publish_comment_effect (\<lambda>s. s) example_runtime (comment_memory 0) ''d'' ''hi'' store_comment now (empty_redis, w)"
  have step: "publish_step (\<lambda>s. s) (comment_memory 0) store_comment (\<lambda>w. w) ''t1'' ''d'' w (snd (snd (?run now w)))" for now w
    by (rule ps_attempt [where rt = example_runtime and db' = "fst (snd (?run now w))" and r = "fst (?run now w)"]) (simp_all add: example_runtime_def)
  have "(publish_step (\<lambda>s. s) (comment_memory 0) store_comment (\<lambda>w. w) ''t1'' ''d'')\<^sup>*\<^sup>* [] (snd (snd (?run 9 (snd (snd (?run 5 []))))))"
    using step [of "[]" 5] step [of "snd (snd (?run 5 []))" 9] by (meson r_into_rtranclp rtranclp.rtrancl_into_rtrancl)
  moreover have "lists_comments (comment_memory 0) (\<lambda>w. w)" "posts (\<lambda>w. w) store_comment"
    by (simp_all add: lists_comments_def comment_memory_def posts_def store_comment_def Let_def)
  ultimately show ?thesis using publish_comment_single [of "\<lambda>s. s" "comment_memory 0" store_comment "\<lambda>w. w" "''t1''" "''d''" "[]"]
    by (simp add: marked_def)
qed

text \<open>
  The lookup swallows errors of its second listing. When both listings fail in this way, an attempt
  on an effect that is not completed posts, whatever comments are there already.
\<close>

theorem failed_listing_reposts:
  assumes "get_issue_comments prov w = Inl e" "notes_list_get_all prov w = Notes_Error"
    and "guard_claim rt db name [] now = (Inr c, db1)" "er_status c \<noteq> ''completed''"
  shows "snd (snd (publish_comment_effect h rt prov name body action now (db, w))) =
    snd (action (fst (marked_body h rt prov body name)) w)"
  using assms
  by (auto simp: publish_comment_effect_def find_comment_def Let_def split: prod.splits sum.splits)



end
