(* ===== verification/Lifecycle.thy ===== *)
theory Lifecycle
  imports Lease "HOL-Library.Product_Lexorder" "HOL-Library.Multiset"
begin

text \<open>
  Task lifecycle telemetry: \<open>pr_agent/distributed/lifecycle.py\<close> and the broker methods
  \<open>record_lifecycle_event\<close> and \<open>get_lifecycle_events\<close>. Times are whole seconds; SHA-256 in
  hexadecimal is a parameter.
\<close>

subsection \<open>Events\<close>

datatype lifecycle_phase =
    LP_CREATED | LP_QUEUE | LP_SAME_MR_WAIT | LP_CONTEXT | LP_HERMES | LP_GIT_PUBLISH | LP_PIPELINE_WAIT
  | LP_POST_PIPELINE | LP_TERMINAL | LP_NOTIFICATION

fun lifecycle_phase_value :: "lifecycle_phase \<Rightarrow> string" where
  "lifecycle_phase_value LP_CREATED = ''created''"
| "lifecycle_phase_value LP_QUEUE = ''queue''"
| "lifecycle_phase_value LP_SAME_MR_WAIT = ''same_mr_wait''"
| "lifecycle_phase_value LP_CONTEXT = ''context''"
| "lifecycle_phase_value LP_HERMES = ''hermes''"
| "lifecycle_phase_value LP_GIT_PUBLISH = ''git_publish''"
| "lifecycle_phase_value LP_PIPELINE_WAIT = ''pipeline_wait''"
| "lifecycle_phase_value LP_POST_PIPELINE = ''post_pipeline''"
| "lifecycle_phase_value LP_TERMINAL = ''terminal''"
| "lifecycle_phase_value LP_NOTIFICATION = ''notification''"

definition LifecyclePhase_members :: "lifecycle_phase list" where
  "LifecyclePhase_members = [LP_CREATED, LP_QUEUE, LP_SAME_MR_WAIT, LP_CONTEXT, LP_HERMES, LP_GIT_PUBLISH,
     LP_PIPELINE_WAIT, LP_POST_PIPELINE, LP_TERMINAL, LP_NOTIFICATION]"

definition LifecyclePhase :: "string \<Rightarrow> lifecycle_phase option" where
  "LifecyclePhase = str_enum_of lifecycle_phase_value LifecyclePhase_members"

datatype lifecycle_kind = LK_POINT | LK_START | LK_END

fun lifecycle_kind_value :: "lifecycle_kind \<Rightarrow> string" where
  "lifecycle_kind_value LK_POINT = ''point''"
| "lifecycle_kind_value LK_START = ''start''"
| "lifecycle_kind_value LK_END = ''end''"

definition LifecycleKind_members :: "lifecycle_kind list" where
  "LifecycleKind_members = [LK_POINT, LK_START, LK_END]"

definition LifecycleKind :: "string \<Rightarrow> lifecycle_kind option" where
  "LifecycleKind = str_enum_of lifecycle_kind_value LifecycleKind_members"

interpretation lifecycle_phase_enum: str_enum lifecycle_phase_value LifecyclePhase_members
proof
  fix x show "x \<in> set LifecyclePhase_members" by (cases x) (simp_all add: LifecyclePhase_members_def)
qed (simp add: LifecyclePhase_members_def)

interpretation lifecycle_kind_enum: str_enum lifecycle_kind_value LifecycleKind_members
proof
  fix x show "x \<in> set LifecycleKind_members" by (cases x) (simp_all add: LifecycleKind_members_def)
qed (simp add: LifecycleKind_members_def)

lemma lifecycle_readers [simp]:
  "LifecyclePhase (lifecycle_phase_value p) = Some p" "LifecycleKind (lifecycle_kind_value k) = Some k"
  by (simp_all add: LifecyclePhase_def LifecycleKind_def lifecycle_phase_enum.of_value lifecycle_kind_enum.of_value)

record lifecycle_event =
  le_task_id :: string
  le_phase :: lifecycle_phase
  le_kind :: lifecycle_kind
  le_occurred_at :: int
  le_segment_id :: string
  le_event_id :: string
  le_metadata :: dict

definition unit_separator :: string where
  "unit_separator = [CHR 0x1F]"

definition lifecycle_event_id ::
  "(string \<Rightarrow> string) \<Rightarrow> string \<Rightarrow> lifecycle_phase \<Rightarrow> string \<Rightarrow> lifecycle_kind \<Rightarrow> string"
where
  "lifecycle_event_id sha256_hex t p seg k =
     take 24 (sha256_hex (join unit_separator [t, lifecycle_phase_value p, seg, lifecycle_kind_value k]))"

definition lifecycle_event_new ::
  "(string \<Rightarrow> string) \<Rightarrow> int \<Rightarrow> string \<Rightarrow> string \<Rightarrow> string \<Rightarrow> string \<Rightarrow> int option \<Rightarrow> dict \<Rightarrow> lifecycle_event option"
where
  "lifecycle_event_new sha256_hex time_now t phase knd segment_id occurred_at md =
     do { p \<leftarrow> LifecyclePhase phase;
          k \<leftarrow> LifecycleKind knd;
          let seg = (if segment_id = [] then ''default'' else segment_id) in
          Some \<lparr>le_task_id = t, le_phase = p, le_kind = k, le_occurred_at = or_else occurred_at time_now,
                le_segment_id = seg, le_event_id = lifecycle_event_id sha256_hex t p seg k, le_metadata = md\<rparr> }"

definition lifecycle_event_to_dict :: "lifecycle_event \<Rightarrow> dict" where
  "lifecycle_event_to_dict e =
     [(''task_id'', JStr (le_task_id e)), (''phase'', JStr (lifecycle_phase_value (le_phase e))),
      (''kind'', JStr (lifecycle_kind_value (le_kind e))), (''occurred_at'', JInt (le_occurred_at e)),
      (''segment_id'', JStr (le_segment_id e)), (''event_id'', JStr (le_event_id e)),
      (''metadata'', JObj (le_metadata e))]"

definition lifecycle_event_to_json :: "lifecycle_event \<Rightarrow> string" where
  "lifecycle_event_to_json e = dumps (JObj (lifecycle_event_to_dict e))"

definition lifecycle_event_from_json :: "string \<Rightarrow> lifecycle_event option" where
  "lifecycle_event_from_json s =
     do { d \<leftarrow> from_json s;
          t \<leftarrow> req_str d ''task_id'';
          pv \<leftarrow> dget d ''phase''; p \<leftarrow> enum_json LifecyclePhase pv;
          kv \<leftarrow> dget d ''kind''; k \<leftarrow> enum_json LifecycleKind kv;
          oc \<leftarrow> req_int d ''occurred_at'';
          seg \<leftarrow> req_str d ''segment_id'';
          eid \<leftarrow> req_str d ''event_id'';
          md \<leftarrow> (case dget d ''metadata'' of
                   None \<Rightarrow> Some []
                 | Some (JObj m) \<Rightarrow> Some m
                 | Some v \<Rightarrow> if truthy v then None else Some []);
          Some \<lparr>le_task_id = t, le_phase = p, le_kind = k, le_occurred_at = oc, le_segment_id = seg,
                le_event_id = eid, le_metadata = md\<rparr> }"

lemma lifecycle_event_look:
  "distinct (map fst (lifecycle_event_to_dict e))"
  "dget (stored_dict (lifecycle_event_to_dict e)) ''task_id'' = Some (JStr (le_task_id e))"
  "dget (stored_dict (lifecycle_event_to_dict e)) ''phase'' = Some (JStr (lifecycle_phase_value (le_phase e)))"
  "dget (stored_dict (lifecycle_event_to_dict e)) ''kind'' = Some (JStr (lifecycle_kind_value (le_kind e)))"
  "dget (stored_dict (lifecycle_event_to_dict e)) ''occurred_at'' = Some (JInt (le_occurred_at e))"
  "dget (stored_dict (lifecycle_event_to_dict e)) ''segment_id'' = Some (JStr (le_segment_id e))"
  "dget (stored_dict (lifecycle_event_to_dict e)) ''event_id'' = Some (JStr (le_event_id e))"
  "dget (stored_dict (lifecycle_event_to_dict e)) ''metadata'' = Some (JObj (stored_dict (le_metadata e)))"
proof -
  show d: "distinct (map fst (lifecycle_event_to_dict e))" by (simp add: lifecycle_event_to_dict_def)
  note look = dget_stored [OF d]
  show "dget (stored_dict (lifecycle_event_to_dict e)) ''task_id'' = Some (JStr (le_task_id e))"
    "dget (stored_dict (lifecycle_event_to_dict e)) ''phase'' = Some (JStr (lifecycle_phase_value (le_phase e)))"
    "dget (stored_dict (lifecycle_event_to_dict e)) ''kind'' = Some (JStr (lifecycle_kind_value (le_kind e)))"
    "dget (stored_dict (lifecycle_event_to_dict e)) ''occurred_at'' = Some (JInt (le_occurred_at e))"
    "dget (stored_dict (lifecycle_event_to_dict e)) ''segment_id'' = Some (JStr (le_segment_id e))"
    "dget (stored_dict (lifecycle_event_to_dict e)) ''event_id'' = Some (JStr (le_event_id e))"
    "dget (stored_dict (lifecycle_event_to_dict e)) ''metadata'' = Some (JObj (stored_dict (le_metadata e)))"
    by (simp_all only: look) (simp_all add: lifecycle_event_to_dict_def dget_def)
qed

lemma lifecycle_event_from_to_json:
  assumes "wf_json (JObj (le_metadata e))"
  shows "lifecycle_event_from_json (lifecycle_event_to_json e) = Some (e\<lparr>le_metadata := stored_dict (le_metadata e)\<rparr>)"
proof -
  have "wf_json (JObj (lifecycle_event_to_dict e))" using assms by (simp add: lifecycle_event_to_dict_def)
  then show ?thesis
    by (simp add: lifecycle_event_from_json_def lifecycle_event_to_json_def from_json_dumps read_defs
        lifecycle_event_look enum_json_def)
qed

subsection \<open>The event log of a task\<close>

text \<open>\<open>ZADD key NX\<close> and \<open>HSETNX\<close> keep an entry that is there.\<close>

definition zadd_nx :: "redis \<Rightarrow> rkey \<Rightarrow> int \<Rightarrow> string \<Rightarrow> (bool \<times> redis) option" where
  "zadd_nx db k score x =
     do { s \<leftarrow> zscore db k x;
          if s \<noteq> None then Some (False, db) else do { db1 \<leftarrow> zadd db k score x; Some (True, db1) } }"

definition hsetnx :: "redis \<Rightarrow> rkey \<Rightarrow> string \<Rightarrow> string \<Rightarrow> redis option" where
  "hsetnx db k f v = do { old \<leftarrow> hget db k f; if old \<noteq> None then Some db else hset db k [(f, v)] }"

definition record_lifecycle_event :: "redis \<Rightarrow> int \<Rightarrow> lifecycle_event \<Rightarrow> bool reply" where
  "record_lifecycle_event db ttl_seconds e =
     (let key = K_lifecycle (le_task_id e); events_key = K_lifecycle_events (le_task_id e) in
      do { (added, db1) \<leftarrow> zadd_nx db key (le_occurred_at e) (le_event_id e);
           db2 \<leftarrow> hsetnx db1 events_key (le_event_id e) (lifecycle_event_to_json e);
           Some (added, expire_w (expire_w db2 key ttl_seconds) events_key ttl_seconds) })"

text \<open>\<open>ZRANGE key 0 -1\<close>: by score, ties by member.\<close>

definition zrange_all :: "redis \<Rightarrow> rkey \<Rightarrow> string list" where
  "zrange_all db k = map fst (sort_key (\<lambda>(x, sc). (sc, x)) (zset_at db k))"

definition get_lifecycle_events :: "redis \<Rightarrow> string \<Rightarrow> lifecycle_event list option" where
  "get_lifecycle_events db t =
     (if \<not> type_ok db (K_lifecycle t) KZset then None else
      let ids = zrange_all db (K_lifecycle t) in
      if ids = [] then Some []
      else if \<not> type_ok db (K_lifecycle_events t) KHash then None
      else those_map lifecycle_event_from_json
             (filter (\<lambda>v. v \<noteq> []) (List.map_filter (hash_at db (K_lifecycle_events t)) ids)))"

subsection \<open>Summaries\<close>

record lifecycle_summary =
  processing_total_ms :: "int option"
  delivery_total_ms :: "int option"
  queue_duration_ms :: int
  same_mr_wait_ms :: int
  context_duration_ms :: int
  hermes_duration_ms :: int
  git_publish_duration_ms :: int
  pipeline_wait_duration_ms :: int
  post_pipeline_duration_ms :: int
  notification_duration_ms :: int
  incomplete_segments :: "string list"

definition pipeline_wait_segment :: "string \<Rightarrow> string \<Rightarrow> int option \<Rightarrow> string" where
  "pipeline_wait_segment attempt_id sha pipeline_id =
     (let identity = (if attempt_id \<noteq> [] then attempt_id else if sha \<noteq> [] then sha else ''unknown'')
      in identity @ CHR '':'' # (case pipeline_id of Some n \<Rightarrow> show_int n | None \<Rightarrow> ''discovery''))"

definition point_time :: "lifecycle_event list \<Rightarrow> lifecycle_phase \<Rightarrow> lifecycle_kind \<Rightarrow> int option" where
  "point_time events p k =
     (let matches = map le_occurred_at (filter (\<lambda>e. le_phase e = p \<and> le_kind e = k) events)
      in if matches = [] then None else Some (Max (set matches)))"

text \<open>One event of the loop: the open segments and the time spent per phase.\<close>

type_synonym open_segments = "((lifecycle_phase \<times> string) \<times> lifecycle_event) list"

definition lifecycle_scan ::
  "open_segments \<times> (lifecycle_phase \<Rightarrow> int) \<Rightarrow> lifecycle_event \<Rightarrow> open_segments \<times> (lifecycle_phase \<Rightarrow> int)"
where
  "lifecycle_scan = (\<lambda>(starts, durations) e.
     let key = (le_phase e, le_segment_id e) in
     case le_kind e of
       LK_START \<Rightarrow> (if map_of starts key = None then starts @ [(key, e)] else starts, durations)
     | LK_END \<Rightarrow>
         (AList.delete key starts,
          case map_of starts key of
            Some st \<Rightarrow> if le_occurred_at e \<ge> le_occurred_at st
                       then durations(le_phase e := durations (le_phase e) + (le_occurred_at e - le_occurred_at st))
                       else durations
          | None \<Rightarrow> durations)
     | LK_POINT \<Rightarrow> (starts, durations))"

definition event_order :: "lifecycle_event \<Rightarrow> int \<times> string" where
  "event_order e = (le_occurred_at e, le_event_id e)"

definition elapsed_ms :: "int option \<Rightarrow> int option \<Rightarrow> int option" where
  "elapsed_ms a b = (case (a, b) of (Some x, Some y) \<Rightarrow> Some (max 0 ((y - x) * 1000)) | _ \<Rightarrow> None)"

definition summarize_lifecycle :: "lifecycle_event list \<Rightarrow> lifecycle_summary" where
  "summarize_lifecycle events =
     (let ordered = sort_key event_order events;
          (starts, durations) = foldl lifecycle_scan ([], \<lambda>_. 0) ordered;
          incomplete = map (\<lambda>((p, seg), _). lifecycle_phase_value p @ CHR '':'' # seg) starts;
          created = point_time ordered LP_CREATED LK_POINT;
          terminal = point_time ordered LP_TERMINAL LK_POINT;
          notification_end = point_time ordered LP_NOTIFICATION LK_END;
          milliseconds = (\<lambda>p. max 0 (durations p * 1000))
      in \<lparr>processing_total_ms = elapsed_ms created terminal, delivery_total_ms = elapsed_ms created notification_end,
          queue_duration_ms = milliseconds LP_QUEUE, same_mr_wait_ms = milliseconds LP_SAME_MR_WAIT,
          context_duration_ms = milliseconds LP_CONTEXT, hermes_duration_ms = milliseconds LP_HERMES,
          git_publish_duration_ms = milliseconds LP_GIT_PUBLISH,
          pipeline_wait_duration_ms = milliseconds LP_PIPELINE_WAIT,
          post_pipeline_duration_ms = milliseconds LP_POST_PIPELINE,
          notification_duration_ms = milliseconds LP_NOTIFICATION,
          incomplete_segments = sort incomplete\<rparr>)"

subsection \<open>What the scan computes\<close>

text \<open>
  The time an end event closes: since its start event, if there is one at or before it. A log
  holds one event per phase, segment and kind, because the event id is their digest.
\<close>

definition is_start :: "lifecycle_phase \<Rightarrow> string \<Rightarrow> lifecycle_event \<Rightarrow> bool" where
  "is_start p seg e \<longleftrightarrow> le_kind e = LK_START \<and> le_phase e = p \<and> le_segment_id e = seg"

definition closed_time :: "lifecycle_event list \<Rightarrow> lifecycle_event \<Rightarrow> int" where
  "closed_time events en =
     (case find (is_start (le_phase en) (le_segment_id en)) events of
        Some st \<Rightarrow> max 0 (le_occurred_at en - le_occurred_at st)
      | None \<Rightarrow> 0)"

definition phase_time :: "lifecycle_event list \<Rightarrow> lifecycle_phase \<Rightarrow> int" where
  "phase_time events p =
     sum_list (map (closed_time events) (filter (\<lambda>e. le_kind e = LK_END \<and> le_phase e = p) events))"

definition slot :: "lifecycle_event \<Rightarrow> lifecycle_phase \<times> string \<times> lifecycle_kind" where
  "slot e = (le_phase e, le_segment_id e, le_kind e)"

definition scan_inv :: "lifecycle_event list \<Rightarrow> open_segments \<times> (lifecycle_phase \<Rightarrow> int) \<Rightarrow> bool" where
  "scan_inv xs = (\<lambda>(starts, durations).
     (\<forall>k st. map_of starts k = Some st \<longrightarrow> st \<in> set xs \<and> is_start (fst k) (snd k) st) \<and>
     (\<forall>st\<in>set xs. le_kind st = LK_START \<longrightarrow>
        (\<forall>en\<in>set xs. slot en \<noteq> (le_phase st, le_segment_id st, LK_END)) \<longrightarrow>
        map_of starts (le_phase st, le_segment_id st) \<noteq> None) \<and>
     (\<forall>p. durations p = phase_time xs p))"

lemma find_append:
  "find p (l1 @ l2) = (if find p l1 = None then find p l2 else find p l1)"
  by (induction l1) simp_all

lemma find_start_unique:
  assumes "distinct (map slot xs)" "st \<in> set xs" "is_start p seg st"
  shows "find (is_start p seg) xs = Some st"
proof -
  obtain y where "find (is_start p seg) xs = Some y"
    using assms(2,3) by (cases "find (is_start p seg) xs") (auto simp: find_None_iff)
  moreover then have "y \<in> set xs" "is_start p seg y" by (auto simp: find_Some_iff)
  then have "slot y = slot st" using assms(3) by (simp add: is_start_def slot_def)
  then have "y = st" using assms(1,2) \<open>y \<in> set xs\<close> by (auto simp: distinct_map inj_on_def)
  ultimately show ?thesis by simp
qed

text \<open>A start at or after an end event adds nothing to the time that event closes.\<close>

lemma closed_time_snoc:
  assumes "le_occurred_at en \<le> le_occurred_at e"
  shows "closed_time (xs @ [e]) en = closed_time xs en"
  using assms by (auto simp: closed_time_def find_append split: option.splits)

lemma phase_time_snoc:
  assumes "\<And>x. x \<in> set xs \<Longrightarrow> le_occurred_at x \<le> le_occurred_at e"
  shows "phase_time (xs @ [e]) p = phase_time xs p + (if le_kind e = LK_END \<and> le_phase e = p then closed_time xs e else 0)"
proof -
  have "sum_list (map (closed_time (xs @ [e])) (filter Q xs)) = sum_list (map (closed_time xs) (filter Q xs))" for Q
    using assms closed_time_snoc by (intro arg_cong [where f = sum_list]) auto
  then show ?thesis by (simp only: phase_time_def closed_time_snoc filter_append map_append sum_list_append) (simp add: closed_time_snoc)
qed

lemma scan_inv_step:
  assumes inv: "scan_inv xs s" and d: "distinct (map slot (xs @ [e]))"
    and srt: "\<And>x. x \<in> set xs \<Longrightarrow> le_occurred_at x \<le> le_occurred_at e"
  shows "scan_inv (xs @ [e]) (lifecycle_scan s e)"
proof -
  obtain starts durations where s: "s = (starts, durations)" by force
  let ?k = "(le_phase e, le_segment_id e)"
  have a: "map_of starts k = Some st \<Longrightarrow> st \<in> set xs \<and> is_start (fst k) (snd k) st" for k st
    using inv by (cases k) (auto simp: scan_inv_def s)
  have b: "st \<in> set xs \<Longrightarrow> le_kind st = LK_START \<Longrightarrow> \<forall>en\<in>set xs. slot en \<noteq> (le_phase st, le_segment_id st, LK_END) \<Longrightarrow>
        map_of starts (le_phase st, le_segment_id st) \<noteq> None" for st
    using inv by (auto simp: scan_inv_def s)
  have c: "durations p = phase_time xs p" for p
    using inv by (auto simp: scan_inv_def s)
  have fresh: "x \<in> set xs \<Longrightarrow> slot x \<noteq> slot e" for x using d by (auto simp: image_iff)
  note pt = phase_time_snoc [of xs e, OF srt]
  show ?thesis
  proof (cases "le_kind e")
    case LK_POINT
    then show ?thesis using a b c pt by (fastforce simp: scan_inv_def s lifecycle_scan_def Let_def slot_def)
  next
    case LK_START
    then show ?thesis using a b c pt
      by (fastforce simp: scan_inv_def s lifecycle_scan_def Let_def slot_def is_start_def map_add_def split: option.splits)
  next
    case LK_END
    have ct: "closed_time xs e = (case map_of starts ?k of Some st \<Rightarrow> max 0 (le_occurred_at e - le_occurred_at st) | None \<Rightarrow> 0)"
    proof (cases "map_of starts ?k")
      case None
      have "find (is_start (le_phase e) (le_segment_id e)) xs = None"
        unfolding find_None_iff
      proof
        assume "\<exists>x. x \<in> set xs \<and> is_start (le_phase e) (le_segment_id e) x"
        then obtain x where x: "x \<in> set xs" "is_start (le_phase e) (le_segment_id e) x" by blast
        have "\<forall>en\<in>set xs. slot en \<noteq> (le_phase x, le_segment_id x, LK_END)"
          using fresh x(2) LK_END by (auto simp: slot_def is_start_def)
        from b [OF x(1) _ this] x(2) None show False by (simp add: is_start_def)
      qed
      with None show ?thesis by (simp add: closed_time_def)
    next
      case (Some st)
      have "find (is_start (le_phase e) (le_segment_id e)) xs = Some st"
        using find_start_unique [of xs st] a [OF Some] d by simp
      with Some show ?thesis by (simp add: closed_time_def)
    qed
    have "snd (lifecycle_scan s e) p = phase_time (xs @ [e]) p" for p
      using LK_END c pt ct by (auto simp: s lifecycle_scan_def Let_def split: option.splits)
    moreover have "fst (lifecycle_scan s e) = AList.delete ?k starts"
      using LK_END by (simp add: s lifecycle_scan_def Let_def)
    ultimately show ?thesis
      using a b LK_END by (cases "lifecycle_scan s e") (fastforce simp: scan_inv_def delete_conv' slot_def split: if_splits)
  qed
qed

lemma scan_inv_foldl:
  assumes "distinct (map slot xs)" "sorted (map le_occurred_at xs)"
  shows "scan_inv xs (foldl lifecycle_scan ([], \<lambda>_. 0) xs)"
  using assms
proof (induction xs rule: rev_induct)
  case Nil
  then show ?case by (simp add: scan_inv_def phase_time_def)
next
  case (snoc e xs)
  then show ?case using scan_inv_step [of xs _ e] by (auto simp: sorted_append)
qed

lemma closed_time_perm:
  assumes "distinct (map slot xs)" "mset ys = mset xs"
  shows "closed_time ys en = closed_time xs en"
proof -
  have "mset (map slot ys) = mset (map slot xs)" using assms(2) by simp
  then have d: "distinct (map slot ys)" using assms(1) mset_eq_imp_distinct_iff by blast
  have st: "set ys = set xs" using assms(2) by (metis set_mset_mset)
  show ?thesis
  proof (cases "find (is_start (le_phase en) (le_segment_id en)) xs")
    case None
    then have "find (is_start (le_phase en) (le_segment_id en)) ys = None" using st by (simp add: find_None_iff)
    with None show ?thesis by (simp add: closed_time_def)
  next
    case (Some x)
    then have "find (is_start (le_phase en) (le_segment_id en)) ys = Some x"
      using find_start_unique [OF d, of x] st by (auto simp: find_Some_iff)
    with Some show ?thesis by (simp add: closed_time_def)
  qed
qed

lemma phase_time_perm:
  assumes "distinct (map slot xs)" "mset ys = mset xs"
  shows "phase_time ys p = phase_time xs p"
proof -
  let ?f = "filter (\<lambda>e. le_kind e = LK_END \<and> le_phase e = p)"
  have ct: "closed_time ys = closed_time xs" by (rule ext) (rule closed_time_perm [OF assms])
  have "sum_list (map f (?f ys)) = sum_list (map f (?f xs))" for f :: "lifecycle_event \<Rightarrow> int"
  proof -
    have "mset (map f (?f ys)) = mset (map f (?f xs))" using assms(2) by simp
    then have "sum_mset (mset (map f (?f ys))) = sum_mset (mset (map f (?f xs)))" by (rule arg_cong)
    then show ?thesis by (simp only: sum_mset_sum_list)
  qed
  then show ?thesis unfolding phase_time_def ct .
qed

lemma phase_time_nonneg: "0 \<le> phase_time xs p"
  by (auto simp: phase_time_def closed_time_def intro!: sum_list_nonneg split: option.splits)

lemma sorted_occurred_at: "sorted (map le_occurred_at (sort_key event_order xs))"
proof -
  have "sorted_wrt (\<lambda>x y. event_order x \<le> event_order y) (sort_key event_order xs)"
    using sorted_sort_key [of event_order xs] by (simp add: sorted_wrt_map)
  then have "sorted_wrt (\<lambda>x y. le_occurred_at x \<le> le_occurred_at y) (sort_key event_order xs)"
    by (rule sorted_wrt_mono_rel [rotated]) (auto simp: event_order_def less_eq_prod_def)
  then show ?thesis by (simp add: sorted_wrt_map)
qed

lemma scan_durations:
  assumes "distinct (map slot xs)"
  shows "snd (foldl lifecycle_scan ([], \<lambda>_. 0) (sort_key event_order xs)) p = phase_time xs p"
proof -
  have "mset (map slot (sort_key event_order xs)) = mset (map slot xs)" by simp
  then have "distinct (map slot (sort_key event_order xs))" using assms mset_eq_imp_distinct_iff by blast
  from scan_inv_foldl [OF this sorted_occurred_at]
  have "snd (foldl lifecycle_scan ([], \<lambda>_. 0) (sort_key event_order xs)) p = phase_time (sort_key event_order xs) p"
    by (auto simp: scan_inv_def split: prod.splits)
  then show ?thesis using phase_time_perm [OF assms, of "sort_key event_order xs"] by simp
qed

section \<open>Properties\<close>

text \<open>
  The durations of a lifecycle summary. For a log with at most one event per phase, segment
  and kind, in whatever order the events are given, each reported duration is the sum over the
  segments of that phase of the time from the start to the end event (nothing for a segment
  whose end is missing or precedes its start), in milliseconds.
\<close>

theorem lifecycle_durations:
  assumes "distinct (map slot events)"
  shows "queue_duration_ms (summarize_lifecycle events) = 1000 * phase_time events LP_QUEUE \<and>
    same_mr_wait_ms (summarize_lifecycle events) = 1000 * phase_time events LP_SAME_MR_WAIT \<and>
    context_duration_ms (summarize_lifecycle events) = 1000 * phase_time events LP_CONTEXT \<and>
    hermes_duration_ms (summarize_lifecycle events) = 1000 * phase_time events LP_HERMES \<and>
    git_publish_duration_ms (summarize_lifecycle events) = 1000 * phase_time events LP_GIT_PUBLISH \<and>
    pipeline_wait_duration_ms (summarize_lifecycle events) = 1000 * phase_time events LP_PIPELINE_WAIT \<and>
    post_pipeline_duration_ms (summarize_lifecycle events) = 1000 * phase_time events LP_POST_PIPELINE \<and>
    notification_duration_ms (summarize_lifecycle events) = 1000 * phase_time events LP_NOTIFICATION"
proof -
  obtain starts durations where s: "foldl lifecycle_scan ([], \<lambda>_. 0) (sort_key event_order events) = (starts, durations)"
    by force
  have "durations p = phase_time events p" for p using scan_durations [OF assms, of p] s by simp
  then show ?thesis
    using phase_time_nonneg [of events] by (simp add: summarize_lifecycle_def Let_def s)
qed

definition example_event :: "lifecycle_kind \<Rightarrow> int \<Rightarrow> lifecycle_event" where
  "example_event k at = \<lparr>le_task_id = ''t'', le_phase = LP_QUEUE, le_kind = k, le_occurred_at = at,
     le_segment_id = ''s'', le_event_id = lifecycle_kind_value k, le_metadata = []\<rparr>"

theorem lifecycle_durations_witness:
  "queue_duration_ms (summarize_lifecycle [example_event LK_END 9, example_event LK_START 5]) = 4000"
proof -
  have "distinct (map slot [example_event LK_END 9, example_event LK_START 5])"
    by (simp add: slot_def example_event_def)
  from lifecycle_durations [OF this] show ?thesis
    by (simp add: phase_time_def closed_time_def is_start_def example_event_def)
qed

text \<open>
  Recording is safe to repeat. An event that is already in the log (a resumed worker
  records the same phase, segment and kind again, perhaps with a later time) is reported as
  not added, and the scores and bodies of the log stay what they were.
\<close>

theorem record_lifecycle_event_idempotent:
  assumes "well_typed db" "0 < ttl_seconds"
    and "map_of (zset_at db (K_lifecycle (le_task_id e))) (le_event_id e) \<noteq> None"
    and "hash_at db (K_lifecycle_events (le_task_id e)) (le_event_id e) \<noteq> None"
  shows "\<exists>db'. record_lifecycle_event db ttl_seconds e = Some (False, db') \<and> well_typed db' \<and>
    zset_at db' = zset_at db \<and> hash_at db' = hash_at db"
  using assms
  by (auto simp: record_lifecycle_event_def zadd_nx_def hsetnx_def redis_simps Let_def fun_eq_iff view_simps)

lemma record_lifecycle_event_eval:
  assumes "well_typed db"
  shows "record_lifecycle_event db ttl e =
    (let z = K_lifecycle (le_task_id e); h = K_lifecycle_events (le_task_id e);
         new = map_of (zset_at db z) (le_event_id e) = None;
         db1 = (if new then zadd_w db z (le_occurred_at e) (le_event_id e) else db);
         db2 = (if hash_at db h (le_event_id e) = None then hset_w db1 h [(le_event_id e, lifecycle_event_to_json e)] else db1)
     in Some (new, expire_w (expire_w db2 z ttl) h ttl))"
  using assms by (auto simp: record_lifecycle_event_def zadd_nx_def hsetnx_def redis_simps Let_def view_simps)

definition logged_db :: redis where
  "logged_db = hset_w (zadd_w empty_redis (K_lifecycle ''t'') 5 ''start'') (K_lifecycle_events ''t'') [(''start'', ''{}'')]"

theorem record_lifecycle_event_idempotent_witness:
  "\<exists>db'. record_lifecycle_event logged_db 60 (example_event LK_START 9) = Some (False, db')"
proof -
  have "well_typed logged_db" by (simp add: logged_db_def redis_simps)
  moreover have "map_of (zset_at logged_db (K_lifecycle (le_task_id (example_event LK_START 9)))) (le_event_id (example_event LK_START 9)) \<noteq> None"
    "hash_at logged_db (K_lifecycle_events (le_task_id (example_event LK_START 9))) (le_event_id (example_event LK_START 9)) \<noteq> None"
    by (simp_all add: logged_db_def example_event_def view_simps)
  ultimately show ?thesis using record_lifecycle_event_idempotent [of logged_db 60 "example_event LK_START 9"] by auto
qed

end
