(* ===== verification/Tasks.thy ===== *)
theory Tasks
  imports Effects Lifecycle
begin

text \<open>
  The life of a stored task: the scripts that assign, run, suspend, fail, requeue, recover and
  hand over tasks, with the broker methods that call them, worker registration and the
  scheduler's leadership. A task is a hash; its status is the string a script compares.
  Times are whole seconds.
\<close>

text \<open>Lua's \<open>tonumber\<close> on decimal text; comparing \<open>nil\<close> with a number is a script error.\<close>

definition tonumber :: "string \<Rightarrow> int option" where
  "tonumber = py_int_text"

lemma tonumber_show_int [simp]: "tonumber (show_int i) = Some i"
  by (simp add: tonumber_def)

lemma tonumber_zero [simp]: "tonumber ''0'' = Some 0"
  by (simp add: tonumber_def py_int_text_def strip_def lstrip_def is_space_def Let_def parse_nat_def is_digit_def digit_value_def)

text \<open>
  \<open>value.field\<close> in Lua: \<open>None\<close> is the error of indexing a number, a boolean or \<open>null\<close>;
  an absent member is \<open>nil\<close>, \<open>Some None\<close>.
\<close>

fun lua_field :: "json \<Rightarrow> string \<Rightarrow> json option option" where
  "lua_field (JObj d) k = Some (dget d k)"
| "lua_field (JArr xs) k = Some None"
| "lua_field (JStr s) k = Some None"
| "lua_field _ k = None"

subsection \<open>Scripts\<close>

definition status_listed :: "string \<Rightarrow> string \<Rightarrow> bool" where
  "status_listed statuses current = contains (CHR '','' # statuses @ '','') (CHR '','' # current @ '','')"

definition TRANSITION_TASK_LUA ::
  "redis \<Rightarrow> rkey \<Rightarrow> rkey \<Rightarrow> rkey \<Rightarrow> lua_arg \<Rightarrow> lua_arg \<Rightarrow> lua_arg \<Rightarrow> lua_arg \<Rightarrow> lua_arg \<Rightarrow> lua_arg \<Rightarrow> (string \<times> string) list \<Rightarrow> int reply"
where
  "TRANSITION_TASK_LUA db task_k lease_k active_k expected target w tok now tid extra =
     do { current \<leftarrow> hget db task_k ''status'';
          if (case current of None \<Rightarrow> True | Some c \<Rightarrow> \<not> status_listed expected c) then Some (0, db) else
          do { lost \<leftarrow> fence_lost db lease_k w tok;
               if lost then Some (-1, db) else
               do { db1 \<leftarrow> hset db task_k [(''status'', target), (''updated_at'', now)];
                    db2 \<leftarrow> (if target \<in> {''completed'', ''failed'', ''canceled''} then zrem db1 active_k tid else Some db1);
                    db3 \<leftarrow> (if extra = [] then Some db2 else hset db2 task_k extra);
                    Some (1, db3) } } }"

definition HEARTBEAT_TASK_LUA :: "redis \<Rightarrow> rkey \<Rightarrow> lua_arg \<Rightarrow> lua_arg \<Rightarrow> lua_arg \<Rightarrow> int reply" where
  "HEARTBEAT_TASK_LUA db task_k w tok now =
     do { status \<leftarrow> hget db task_k ''status'';
          worker_id \<leftarrow> hget db task_k ''worker_id'';
          fencing_token \<leftarrow> hget db task_k ''fencing_token'';
          if (or_else status [] \<noteq> ''running'' \<and> or_else status [] \<noteq> ''publishing'')
             \<or> or_else worker_id [] \<noteq> w \<or> or_else fencing_token [] \<noteq> tok
          then Some (0, db)
          else do { db1 \<leftarrow> hset db task_k [(''heartbeat_at'', now)]; Some (1, db1) } }"

definition FAIL_STALE_RUNNING_TASK_LUA ::
  "redis \<Rightarrow> rkey \<Rightarrow> rkey \<Rightarrow> rkey \<Rightarrow> lua_arg \<Rightarrow> lua_arg \<Rightarrow> lua_arg \<Rightarrow> lua_arg \<Rightarrow> lua_arg \<Rightarrow> lua_arg \<Rightarrow> int reply"
where
  "FAIL_STALE_RUNNING_TASK_LUA db task_k lease_k active_k tid w tok cutoff error now =
     do { status \<leftarrow> hget db task_k ''status'';
          if or_else status [] \<noteq> ''running'' \<and> or_else status [] \<noteq> ''publishing'' then Some (0, db) else
          do { task_owner \<leftarrow> hget db task_k ''worker_id'';
               task_fence \<leftarrow> hget db task_k ''fencing_token'';
               lease_owner \<leftarrow> hget db lease_k ''worker_id'';
               lease_fence \<leftarrow> hget db lease_k ''fencing_token'';
               if or_else task_owner [] \<noteq> w \<or> or_else task_fence [] \<noteq> tok
                  \<or> or_else lease_owner [] \<noteq> w \<or> or_else lease_fence [] \<noteq> tok
               then Some (-1, db) else
               do { cancel \<leftarrow> hget db task_k ''cancel_requested'';
                    if cancel = Some ''1'' then Some (0, db) else
                    do { beat \<leftarrow> hget db task_k ''heartbeat_at'';
                         upd \<leftarrow> hget db task_k ''updated_at'';
                         heartbeat \<leftarrow> tonumber (or_else beat (or_else upd ''0''));
                         limit \<leftarrow> tonumber cutoff;
                         if heartbeat > limit then Some (0, db) else
                         do { db1 \<leftarrow> hset db task_k [(''status'', ''failed''), (''error'', error), (''updated_at'', now)];
                              db2 \<leftarrow> zrem db1 active_k tid;
                              Some (1, db2) } } } } }"

definition REQUEUE_STALE_REPAIR_LUA ::
  "redis \<Rightarrow> rkey \<Rightarrow> rkey \<Rightarrow> lua_arg \<Rightarrow> lua_arg \<Rightarrow> lua_arg \<Rightarrow> lua_arg \<Rightarrow> int reply"
where
  "REQUEUE_STALE_REPAIR_LUA db task_k ingress_k expected cutoff tid now =
     do { st \<leftarrow> hget db task_k ''status'';
          upd \<leftarrow> hget db task_k ''updated_at'';
          if or_else st [] \<noteq> expected then Some (0, db) else
          do { updated_at \<leftarrow> tonumber (or_else upd ''0'');
               limit \<leftarrow> tonumber cutoff;
               if updated_at > limit then Some (0, db) else
               do { db3 \<leftarrow>
                      (if or_else st [] = ''assigned'' then
                         do { wid \<leftarrow> hget db task_k ''worker_id'';
                              db1 \<leftarrow> (if or_else wid [] \<noteq> [] then srem db (K_worker_tasks (or_else wid [])) tid else Some db);
                              db2 \<leftarrow> hset db1 task_k [(''status'', ''queued''), (''updated_at'', now)];
                              hdel db2 task_k [''worker_id'', ''fencing_token''] }
                       else Some db);
                    (_, db4) \<leftarrow> xadd db3 ingress_k [(''task_id'', tid)];
                    db5 \<leftarrow> hset db4 task_k [(''updated_at'', now)];
                    Some (1, db5) } } }"

definition REQUEUE_STALE_AUTO_WORKFLOW_LUA ::
  "redis \<Rightarrow> rkey \<Rightarrow> rkey \<Rightarrow> lua_arg \<Rightarrow> lua_arg \<Rightarrow> lua_arg \<Rightarrow> lua_arg \<Rightarrow> (int \<times> int) reply"
where
  "REQUEUE_STALE_AUTO_WORKFLOW_LUA db task_k ingress_k cutoff tid retry_limit now =
     do { st \<leftarrow> hget db task_k ''status'';
          upd \<leftarrow> hget db task_k ''updated_at'';
          att \<leftarrow> hget db task_k ''attempt'';
          attempt \<leftarrow> tonumber (or_else att ''0'');
          if or_else st [] \<noteq> ''queued'' then Some ((0, attempt), db) else
          do { updated_at \<leftarrow> tonumber (or_else upd ''0'');
               limit \<leftarrow> tonumber cutoff;
               if updated_at > limit then Some ((0, attempt), db) else
               do { raw \<leftarrow> hget db task_k ''payload'';
                    case loads (or_else raw []) of
                      None \<Rightarrow> Some ((0, attempt), db)
                    | Some pl \<Rightarrow>
                        do { k \<leftarrow> lua_field pl ''kind'';
                             if k \<noteq> Some (JStr ''auto_workflow'') then Some ((0, attempt), db) else
                             do { rl \<leftarrow> tonumber retry_limit;
                                  if attempt \<ge> rl then
                                    do { db1 \<leftarrow> hset db task_k [(''status'', ''failed''), (''error'', ''QueueStartupTimeout''),
                                                  (''updated_at'', now)];
                                         Some ((2, attempt), db1) }
                                  else
                                    do { (mid, db1) \<leftarrow> xadd db ingress_k [(''task_id'', tid)];
                                         db2 \<leftarrow> hset db1 task_k [(''attempt'', show_int (attempt + 1)), (''updated_at'', now),
                                                  (''admission_state'', ''enqueued''), (''ingress_message_id'', mid)];
                                         Some ((1, attempt + 1), db2) } } } } } }"

definition ACQUIRE_LEADER_LUA :: "redis \<Rightarrow> rkey \<Rightarrow> lua_arg \<Rightarrow> int \<Rightarrow> int reply" where
  "ACQUIRE_LEADER_LUA db leader_k who ttl =
     do { current \<leftarrow> get db leader_k;
          if current = Some who then Some (1, expire_w db leader_k ttl)
          else let (taken, db1) = set_nx_ex db leader_k who ttl in Some (if taken then 1 else 0, db1) }"

definition ASSIGN_TASK_LUA ::
  "redis \<Rightarrow> rkey \<Rightarrow> rkey \<Rightarrow> rkey \<Rightarrow> rkey \<Rightarrow> lua_arg \<Rightarrow> lua_arg \<Rightarrow> lua_arg \<Rightarrow> lua_arg \<Rightarrow> int reply"
where
  "ASSIGN_TASK_LUA db task_k lease_k worker_tasks_k inbox_k w tok now tid =
     do { status \<leftarrow> hget db task_k ''status'';
          if status \<noteq> Some ''queued'' then Some (0, db) else
          do { lost \<leftarrow> (if tok = [] then Some False else do { ok \<leftarrow> lease_matches db lease_k w tok; Some (\<not> ok) });
               if lost then Some (-1, db) else
               do { db1 \<leftarrow> hset db task_k [(''status'', ''assigned''), (''worker_id'', w), (''fencing_token'', tok),
                             (''updated_at'', now)];
                    db2 \<leftarrow> sadd db1 worker_tasks_k tid;
                    (_, db3) \<leftarrow> xadd db2 inbox_k [(''task_id'', tid), (''delivery_kind'', ''execute''), (''payload'', ''{}'')];
                    Some (1, db3) } } }"

definition RECOVER_DEAD_TASK_LUA ::
  "redis \<Rightarrow> rkey \<Rightarrow> rkey \<Rightarrow> rkey \<Rightarrow> lua_arg \<Rightarrow> lua_arg \<Rightarrow> lua_arg \<Rightarrow> lua_arg \<Rightarrow> int reply"
where
  "RECOVER_DEAD_TASK_LUA db task_k worker_tasks_k ingress_k w tid retry_limit now =
     do { owner \<leftarrow> hget db task_k ''worker_id'';
          status \<leftarrow> hget db task_k ''status'';
          if owner \<noteq> Some w then do { db1 \<leftarrow> srem db worker_tasks_k tid; Some (0, db1) }
          else if status = Some ''completed'' \<or> status = Some ''failed'' then
            do { db1 \<leftarrow> srem db worker_tasks_k tid; Some (0, db1) }
          else if status = Some ''assigned'' \<or> status = Some ''running'' then
            do { att \<leftarrow> hget db task_k ''attempt'';
                 n \<leftarrow> tonumber (or_else att ''0'');
                 rl \<leftarrow> tonumber retry_limit;
                 if n + 1 > rl then
                   do { db1 \<leftarrow> hset db task_k [(''status'', ''failed''), (''attempt'', show_int (n + 1)),
                                 (''error'', ''worker lost and retry limit exceeded''), (''updated_at'', now)];
                        db2 \<leftarrow> srem db1 worker_tasks_k tid;
                        Some (2, db2) }
                 else
                   do { db1 \<leftarrow> hset db task_k [(''status'', ''queued''), (''attempt'', show_int (n + 1)), (''updated_at'', now)];
                        db2 \<leftarrow> hdel db1 task_k [''worker_id'', ''fencing_token''];
                        (_, db3) \<leftarrow> xadd db2 ingress_k [(''task_id'', tid)];
                        db4 \<leftarrow> srem db3 worker_tasks_k tid;
                        Some (1, db4) } }
          else if status = Some ''waiting_pipeline'' then Some (3, db)
          else if status = Some ''publishing'' then Some (4, db)
          else if status = Some ''paused_by_triage'' then do { db1 \<leftarrow> srem db worker_tasks_k tid; Some (5, db1) }
          else Some (0, db) }"

definition TRANSFER_ORPHANED_TASK_LUA ::
  "redis \<Rightarrow> rkey \<Rightarrow> rkey \<Rightarrow> rkey \<Rightarrow> rkey \<Rightarrow> rkey \<Rightarrow> lua_arg \<Rightarrow> lua_arg \<Rightarrow> lua_arg \<Rightarrow> lua_arg \<Rightarrow> lua_arg \<Rightarrow> lua_arg \<Rightarrow> int reply"
where
  "TRANSFER_ORPHANED_TASK_LUA db task_k lease_k old_tasks_k new_tasks_k inbox_k old_w w tok now tid event =
     do { owner \<leftarrow> hget db task_k ''worker_id'';
          status \<leftarrow> hget db task_k ''status'';
          if owner \<noteq> Some old_w \<or> (status \<noteq> Some ''waiting_pipeline'' \<and> status \<noteq> Some ''publishing'') then Some (0, db) else
          do { ok \<leftarrow> lease_matches db lease_k w tok;
               if \<not> ok then Some (-1, db) else
               do { db1 \<leftarrow> hset db task_k [(''worker_id'', w), (''fencing_token'', tok), (''updated_at'', now)];
                    db2 \<leftarrow> srem db1 old_tasks_k tid;
                    db3 \<leftarrow> sadd db2 new_tasks_k tid;
                    if status = Some ''waiting_pipeline'' \<and> event \<noteq> [] then
                      do { (_, db4) \<leftarrow> xadd db3 inbox_k [(''task_id'', tid), (''delivery_kind'', ''resume_pipeline''),
                                          (''payload'', event)];
                           Some (1, db4) }
                    else Some (1, db3) } } }"

lemmas task_scripts = TRANSITION_TASK_LUA_def HEARTBEAT_TASK_LUA_def FAIL_STALE_RUNNING_TASK_LUA_def
  REQUEUE_STALE_REPAIR_LUA_def REQUEUE_STALE_AUTO_WORKFLOW_LUA_def ACQUIRE_LEADER_LUA_def ASSIGN_TASK_LUA_def
  RECOVER_DEAD_TASK_LUA_def TRANSFER_ORPHANED_TASK_LUA_def

text \<open>The worker's task set, whose name \<open>REQUEUE_STALE_REPAIR_LUA\<close> builds by concatenation.\<close>

lemma worker_tasks_name: "redis_key p (K_worker_tasks w) = (p @ '':worker:'') @ w @ '':tasks''"
  by (simp add: redis_key_def)

subsection \<open>Broker methods\<close>

definition sorted_statuses :: "task_status list \<Rightarrow> string" where
  "sorted_statuses expected = join '','' (sort (remdups (map task_status_value expected)))"

definition transition_task ::
  "redis \<Rightarrow> string \<Rightarrow> task_status list \<Rightarrow> task_status \<Rightarrow> mr_lease option \<Rightarrow> (string \<times> string) list \<Rightarrow> int \<Rightarrow> bool answer"
where
  "transition_task db tid expected target l extra now =
     on_reply db
       (TRANSITION_TASK_LUA db (K_task tid) (lease_key_of l) K_active_repairs (sorted_statuses expected)
          (task_status_value target) (fst (lease_args l)) (snd (lease_args l)) (show_int now) tid extra)
       (\<lambda>r. if r = -1 then Inl (LostLeaseError tid) else Inr (r = 1))"

definition record_task_result :: "redis \<Rightarrow> string \<Rightarrow> json \<Rightarrow> mr_lease option \<Rightarrow> int \<Rightarrow> bool answer" where
  "record_task_result db tid result l now =
     transition_task db tid [TS_PUBLISHING] TS_PUBLISHING l [(''result'', dumps result)] now"

definition heartbeat_task :: "redis \<Rightarrow> string \<Rightarrow> string \<Rightarrow> int option \<Rightarrow> int \<Rightarrow> bool answer" where
  "heartbeat_task db tid w token now =
     on_reply db (HEARTBEAT_TASK_LUA db (K_task tid) w (case token of Some n \<Rightarrow> show_int n | None \<Rightarrow> []) (show_int now))
       (\<lambda>r. Inr (r \<noteq> 0))"

definition fail_stale_running_task :: "redis \<Rightarrow> string \<Rightarrow> mr_lease \<Rightarrow> int \<Rightarrow> string \<Rightarrow> int \<Rightarrow> bool answer" where
  "fail_stale_running_task db tid l heartbeat_cutoff error now =
     on_reply db
       (FAIL_STALE_RUNNING_TASK_LUA db (K_task tid) (K_mr_lease (lease_mr l)) K_active_repairs tid (lease_worker_id l)
          (show_int (lease_fencing_token l)) (show_int heartbeat_cutoff) error (show_int now))
       (\<lambda>r. if r = -1 then Inl (LostLeaseError tid) else Inr (r = 1))"

definition requeue_stale_repair :: "redis \<Rightarrow> string \<Rightarrow> task_status \<Rightarrow> int \<Rightarrow> int \<Rightarrow> bool answer" where
  "requeue_stale_repair db tid status age_seconds now =
     on_reply db
       (REQUEUE_STALE_REPAIR_LUA db (K_task tid) K_ingress_stream (task_status_value status)
          (show_int (now - age_seconds)) tid (show_int now))
       (\<lambda>r. Inr (r \<noteq> 0))"

definition outcome_of :: "(int \<times> string) list \<Rightarrow> int \<Rightarrow> broker_error + string" where
  "outcome_of table code = (case map_of table code of Some s \<Rightarrow> Inr s | None \<Rightarrow> Inl (KeyErr (show_int code)))"

definition requeue_stale_auto_workflow :: "redis \<Rightarrow> string \<Rightarrow> int \<Rightarrow> int \<Rightarrow> int \<Rightarrow> (string \<times> int) answer" where
  "requeue_stale_auto_workflow db tid age_seconds retry_limit now =
     on_reply db
       (REQUEUE_STALE_AUTO_WORKFLOW_LUA db (K_task tid) K_ingress_stream (show_int (now - age_seconds)) tid
          (show_int retry_limit) (show_int now))
       (\<lambda>(code, attempt).
          case outcome_of [(0, ''ignored''), (1, ''requeued''), (2, ''failed'')] code of
            Inl e \<Rightarrow> Inl e
          | Inr s \<Rightarrow> Inr (s, attempt))"

definition acquire_scheduler_leader :: "redis \<Rightarrow> string \<Rightarrow> int \<Rightarrow> bool answer" where
  "acquire_scheduler_leader db scheduler_id ttl_seconds =
     on_reply db (ACQUIRE_LEADER_LUA db K_scheduler_leader scheduler_id ttl_seconds) (\<lambda>r. Inr (r \<noteq> 0))"

definition assign_to_worker ::
  "(string \<Rightarrow> string) \<Rightarrow> int \<Rightarrow> redis \<Rightarrow> string \<Rightarrow> mr_lease option \<Rightarrow> string \<Rightarrow> int \<Rightarrow> bool answer"
where
  "assign_to_worker sha256_hex event_ttl db tid l w now =
     (if (case l of None \<Rightarrow> False | Some l \<Rightarrow> lease_worker_id l \<noteq> w) then (Inl (LostLeaseError tid), db) else
      case ASSIGN_TASK_LUA db (K_task tid) (lease_key_of l) (K_worker_tasks w) (K_worker_inbox w)
             w (snd (lease_args l)) (show_int now) tid of
        None \<Rightarrow> (Inl RedisError, db)
      | Some (r, db1) \<Rightarrow>
          if r = -1 then (Inl (LostLeaseError tid), db1)
          else if r = 1 then
            (case lifecycle_event_new sha256_hex now tid ''queue'' ''end'' ''initial'' None [] of
               None \<Rightarrow> (Inl (ValueError ''lifecycle event''), db1)
             | Some ev \<Rightarrow> on_reply db1 (record_lifecycle_event db1 event_ttl ev) (\<lambda>_. Inr True))
          else (Inr False, db1))"

text \<open>The envelope \<open>get_task\<close> decodes; a stored task without a payload is a \<open>KeyError\<close>.\<close>

definition stored_envelope :: "redis \<Rightarrow> string \<Rightarrow> broker_error + task_envelope option" where
  "stored_envelope db tid =
     (if \<not> type_ok db (K_task tid) KHash then Inl RedisError
      else if hash_list db (K_task tid) = [] then Inr None
      else case hash_at db (K_task tid) ''payload'' of
             None \<Rightarrow> Inl (KeyErr ''payload'')
           | Some s \<Rightarrow> (case task_envelope_from_json s of
                          None \<Rightarrow> Inl (ValueError ''task envelope'')
                        | Some e \<Rightarrow> Inr (Some e)))"

record retry_settings =
  task_retry_limit :: int
  auto_workflow_retry_limit :: int

definition recover_dead_worker_task :: "retry_settings \<Rightarrow> redis \<Rightarrow> string \<Rightarrow> string \<Rightarrow> int \<Rightarrow> string answer" where
  "recover_dead_worker_task cfg db w tid now =
     (case stored_envelope db tid of
        Inl e \<Rightarrow> (Inl e, db)
      | Inr stored \<Rightarrow>
          let knd = map_option kind stored;
              retry_limit = (if knd = Some TK_AUTO_WORKFLOW then auto_workflow_retry_limit cfg else task_retry_limit cfg);
              ingress = (if knd = Some TK_REPAIR_REPORT then K_report_ingress_stream else K_ingress_stream)
          in on_reply db
               (RECOVER_DEAD_TASK_LUA db (K_task tid) (K_worker_tasks w) ingress w tid (show_int retry_limit) (show_int now))
               (outcome_of [(0, ''ignored''), (1, ''requeued''), (2, ''failed''), (3, ''waiting_pipeline''),
                  (4, ''publishing''), (5, ''paused_by_triage'')]))"

definition transfer_orphaned_task ::
  "redis \<Rightarrow> string \<Rightarrow> string \<Rightarrow> mr_lease \<Rightarrow> pipeline_event option \<Rightarrow> int \<Rightarrow> bool answer"
where
  "transfer_orphaned_task db tid old_w l event now =
     on_reply db
       (TRANSFER_ORPHANED_TASK_LUA db (K_task tid) (K_mr_lease (lease_mr l)) (K_worker_tasks old_w)
          (K_worker_tasks (lease_worker_id l)) (K_worker_inbox (lease_worker_id l)) old_w (lease_worker_id l)
          (show_int (lease_fencing_token l)) (show_int now) tid
          (case event of None \<Rightarrow> [] | Some e \<Rightarrow> pipeline_event_to_json e))
       (\<lambda>r. if r = -1 then Inl (LostLeaseError tid) else Inr (r = 1))"

subsection \<open>Workers\<close>

record worker_state =
  ws_worker_id :: string
  ws_last_seen :: int
  ws_active_tasks :: int
  ws_owned_mrs :: int
  ws_degraded :: bool
  ws_active_report_tasks :: int

definition heartbeat_worker :: "int \<Rightarrow> redis \<Rightarrow> worker_state \<Rightarrow> redis option" where
  "heartbeat_worker worker_dead_seconds db wk =
     do { db1 \<leftarrow> hset db (K_worker (ws_worker_id wk))
            [(''worker_id'', ws_worker_id wk), (''last_seen'', show_int (ws_last_seen wk)),
             (''active_tasks'', show_int (ws_active_tasks wk)), (''owned_mrs'', show_int (ws_owned_mrs wk)),
             (''degraded'', if ws_degraded wk then ''1'' else ''0''),
             (''active_report_tasks'', show_int (ws_active_report_tasks wk))];
          sadd (expire_w db1 (K_worker (ws_worker_id wk)) (worker_dead_seconds * 2)) K_worker_registry (ws_worker_id wk) }"

text \<open>\<open>int(value.get(field, 0))\<close> on a hash.\<close>

definition hash_int :: "redis \<Rightarrow> rkey \<Rightarrow> string \<Rightarrow> int option" where
  "hash_int db k f = (case hash_at db k f of None \<Rightarrow> Some 0 | Some s \<Rightarrow> py_int_text s)"

definition read_worker :: "redis \<Rightarrow> string \<Rightarrow> worker_state option" where
  "read_worker db w =
     do { raw \<leftarrow> hash_at db (K_worker w) ''last_seen'';
          seen \<leftarrow> py_int_text raw;
          a \<leftarrow> hash_int db (K_worker w) ''active_tasks'';
          o_mrs \<leftarrow> hash_int db (K_worker w) ''owned_mrs'';
          r \<leftarrow> hash_int db (K_worker w) ''active_report_tasks'';
          Some \<lparr>ws_worker_id = w, ws_last_seen = seen, ws_active_tasks = a, ws_owned_mrs = o_mrs,
                ws_degraded = (or_else (hash_at db (K_worker w) ''degraded'') ''0'' = ''1''),
                ws_active_report_tasks = r\<rparr> }"

text \<open>\<open>list_live_workers\<close>: the loop over the registry; a worker without a record is dropped from it.\<close>

fun live_workers_loop :: "int \<Rightarrow> int \<Rightarrow> string list \<Rightarrow> redis \<Rightarrow> worker_state list reply" where
  "live_workers_loop dead now [] db = Some ([], db)"
| "live_workers_loop dead now (w # others) db =
     (if \<not> type_ok db (K_worker w) KHash then None
      else if hash_list db (K_worker w) = [] then
        do { db1 \<leftarrow> srem db K_worker_registry w; live_workers_loop dead now others db1 }
      else
        do { st \<leftarrow> read_worker db w;
             (rest, db1) \<leftarrow> live_workers_loop dead now others db;
             Some (if now - ws_last_seen st > dead then rest else st # rest, db1) })"

definition list_live_workers :: "int \<Rightarrow> int \<Rightarrow> redis \<Rightarrow> worker_state list reply" where
  "list_live_workers worker_dead_seconds now db =
     do { ids \<leftarrow> smembers db K_worker_registry; live_workers_loop worker_dead_seconds now ids db }"

definition worker_dead :: "int \<Rightarrow> int \<Rightarrow> redis \<Rightarrow> string \<Rightarrow> bool option" where
  "worker_dead dead now db w =
     do { seen \<leftarrow> hget db (K_worker w) ''last_seen'';
          case seen of None \<Rightarrow> Some True | Some s \<Rightarrow> do { n \<leftarrow> py_int_text s; Some (now - n > dead) } }"

definition list_dead_worker_ids :: "int \<Rightarrow> int \<Rightarrow> redis \<Rightarrow> string list option" where
  "list_dead_worker_ids worker_dead_seconds now db =
     do { ids \<leftarrow> smembers db K_worker_registry;
          flags \<leftarrow> those_map (worker_dead worker_dead_seconds now db) ids;
          Some (map fst (filter snd (zip ids flags))) }"

definition get_worker_task_ids :: "redis \<Rightarrow> string \<Rightarrow> string list option" where
  "get_worker_task_ids db w = smembers db (K_worker_tasks w)"

definition heartbeat_service :: "redis \<Rightarrow> string \<Rightarrow> int \<Rightarrow> int \<Rightarrow> redis option" where
  "heartbeat_service db service ttl_seconds now =
     do { db1 \<leftarrow> hset db (K_service_heartbeat service) [(''service'', service), (''last_seen'', show_int now)];
          Some (expire_w db1 (K_service_heartbeat service) ttl_seconds) }"

text \<open>The failure counter of a delivery; forgetting the message locally is \<open>discard\<close> on each worker's set.\<close>

definition record_delivery_failure ::
  "redis \<Rightarrow> (string \<times> string list) list \<Rightarrow> string \<Rightarrow> string \<Rightarrow> string \<Rightarrow> int \<Rightarrow> (int reply) \<times> (string \<times> string list) list"
where
  "record_delivery_failure db local tid message_id error now =
     (do { old \<leftarrow> hget db (K_task tid) ''delivery_attempt'';
           n \<leftarrow> parse_int (or_else old ''0'');
           db1 \<leftarrow> hset db (K_task tid) [(''delivery_attempt'', show_int (n + 1))];
           db2 \<leftarrow> hset db1 (K_task tid) [(''delivery_error'', error), (''delivery_message_id'', message_id),
                     (''delivery_failed_at'', show_int now)];
           Some (n + 1, db2) },
      map (\<lambda>(w, ms). (w, removeAll message_id ms)) local)"

subsection \<open>Status lists\<close>

lemma startswith_sep: "d \<notin> set x \<Longrightarrow> d \<notin> set c \<Longrightarrow> startswith (x @ d # s) (c @ [d]) \<longleftrightarrow> x = c"
proof (induction c arbitrary: x)
  case Nil
  then show ?case by (cases x) (auto simp: startswith_def)
next
  case (Cons a c)
  then show ?case by (cases x) (auto simp: startswith_def)
qed

lemma contains_skip: "d \<notin> set w \<Longrightarrow> contains (w @ s) (d # p) \<longleftrightarrow> contains s (d # p)"
  by (induction w) (auto simp: startswith_def)

lemma contains_sep:
  assumes "d \<notin> set c" "\<forall>x\<in>set xs. d \<notin> set x"
  shows "contains (concat (map (\<lambda>x. d # x) xs) @ [d]) (d # c @ [d]) \<longleftrightarrow> c \<in> set xs"
  using assms(2)
proof (induction xs)
  case Nil
  then show ?case by (simp add: startswith_def)
next
  case (Cons x xs)
  let ?s = "concat (map (\<lambda>x. d # x) xs) @ [d]"
  obtain s where s: "?s = d # s" by (cases xs) auto
  have "contains (d # x @ ?s) (d # c @ [d]) \<longleftrightarrow> startswith (x @ d # s) (c @ [d]) \<or> contains (x @ ?s) (d # c @ [d])"
    by (simp add: s startswith_def)
  also have "\<dots> \<longleftrightarrow> x = c \<or> contains ?s (d # c @ [d])"
    using Cons.prems assms(1) startswith_sep [of d x c s] contains_skip [of d x ?s "c @ [d]"] by auto
  finally show ?case using Cons by auto
qed

lemma join_comma: "xs \<noteq> [] \<Longrightarrow> d # join [d] xs @ [d] = concat (map (\<lambda>x. d # x) xs) @ [d]"
  by (induction "[d]" xs rule: join.induct) auto

lemma comma_notin_status [simp]: "CHR '','' \<notin> set (task_status_value s)"
  by (cases s) simp_all

text \<open>The substring test of the script is membership in the expected set.\<close>

lemma status_listed_iff:
  assumes "expected \<noteq> []"
  shows "status_listed (sorted_statuses expected) (task_status_value s) \<longleftrightarrow> s \<in> set expected"
proof -
  let ?xs = "sort (remdups (map task_status_value expected))"
  have ne: "?xs \<noteq> []" using assms by (metis map_is_Nil_conv remdups_eq_nil_iff set_empty set_sort)
  have "status_listed (sorted_statuses expected) (task_status_value s) \<longleftrightarrow> task_status_value s \<in> set ?xs"
    unfolding status_listed_def sorted_statuses_def join_comma [OF ne]
    by (rule contains_sep) auto
  then show ?thesis by (auto simp: task_status_enum.value_inject)
qed

lemma status_listed_unknown:
  assumes "expected \<noteq> []" "CHR '','' \<notin> set c" "status_listed (sorted_statuses expected) c"
  shows "\<exists>s\<in>set expected. c = task_status_value s"
proof -
  let ?xs = "sort (remdups (map task_status_value expected))"
  have ne: "?xs \<noteq> []" using assms(1) by (metis map_is_Nil_conv remdups_eq_nil_iff set_empty set_sort)
  have "c \<in> set ?xs"
    using assms(3) unfolding status_listed_def sorted_statuses_def join_comma [OF ne]
    by (subst (asm) contains_sep) (use assms(2) in auto)
  then show ?thesis by auto
qed

subsection \<open>The task state machine\<close>

abbreviation task_status_of :: "redis \<Rightarrow> string \<Rightarrow> string option" where
  "task_status_of db t \<equiv> hash_at db (K_task t) ''status''"

definition tracked :: "redis \<Rightarrow> string \<Rightarrow> string \<Rightarrow> bool" where
  "tracked db t w \<longleftrightarrow> t \<in> set (set_at db (K_worker_tasks w))"

definition terminal_status :: "string option \<Rightarrow> bool" where
  "terminal_status st \<longleftrightarrow> st \<in> {Some ''completed'', Some ''failed'', Some ''canceled''}"

definition settled_status :: "string option \<Rightarrow> bool" where
  "settled_status st \<longleftrightarrow> terminal_status st \<or> st = Some ''paused_by_triage''"

definition attempt_of :: "redis \<Rightarrow> string \<Rightarrow> int option" where
  "attempt_of db t = tonumber (or_else (hash_at db (K_task t) ''attempt'') ''0'')"

lemma TaskStatus_literals [simp]:
  "TaskStatus ''queued'' = Some TS_QUEUED" "TaskStatus ''assigned'' = Some TS_ASSIGNED"
  "TaskStatus ''failed'' = Some TS_FAILED"
  using enum_readers(1) [of TS_QUEUED] enum_readers(1) [of TS_ASSIGNED] enum_readers(1) [of TS_FAILED] by simp_all

text \<open>
  A stored status is one of the enumeration, and a task that a worker owns and has not settled
  is among the worker's tasks.
\<close>

definition task_ok :: "string \<Rightarrow> redis \<Rightarrow> bool" where
  "task_ok t db \<longleftrightarrow> well_typed db \<and> (\<forall>c. task_status_of db t = Some c \<longrightarrow> TaskStatus c \<noteq> None) \<and>
     (\<forall>w. hash_at db (K_task t) ''worker_id'' = Some w \<longrightarrow> \<not> settled_status (task_status_of db t) \<longrightarrow> tracked db t w)"

definition task_effect :: "string \<Rightarrow> redis \<Rightarrow> redis \<Rightarrow> bool" where
  "task_effect t db db' \<longleftrightarrow> task_ok t db' \<and>
     (terminal_status (task_status_of db t) \<longrightarrow> task_status_of db' t = task_status_of db t)"

lemmas task_effect_defs = task_effect_def task_ok_def tracked_def settled_status_def terminal_status_def

lemma ASSIGN_effect:
  assumes "task_ok t db" "key_kind lk = KHash"
    "ASSIGN_TASK_LUA db (K_task t) lk (K_worker_tasks w) (K_worker_inbox w) w tok now t = Some (r, db')"
  shows "task_effect t db db' \<and> attempt_of db' t = attempt_of db t"
  using assms
  by (auto simp: ASSIGN_TASK_LUA_def task_effect_defs attempt_of_def redis_simps view_simps split: if_splits)

lemma HEARTBEAT_effect:
  assumes "task_ok t db" "HEARTBEAT_TASK_LUA db (K_task t) w tok now = Some (r, db')"
  shows "task_effect t db db' \<and> attempt_of db' t = attempt_of db t"
  using assms
  by (auto simp: HEARTBEAT_TASK_LUA_def task_effect_defs attempt_of_def redis_simps view_simps split: if_splits)

lemma FAIL_STALE_effect:
  assumes "task_ok t db" "key_kind lk = KHash"
    "FAIL_STALE_RUNNING_TASK_LUA db (K_task t) lk K_active_repairs t w tok cutoff err now = Some (r, db')"
  shows "task_effect t db db' \<and> attempt_of db' t = attempt_of db t"
  using assms
  by (auto simp: FAIL_STALE_RUNNING_TASK_LUA_def task_effect_defs attempt_of_def redis_simps view_simps bind_eq_Some_conv
      split: if_splits)

lemma REQUEUE_REPAIR_effect:
  assumes "task_ok t db" "REQUEUE_STALE_REPAIR_LUA db (K_task t) K_ingress_stream st cutoff t now = Some (r, db')"
  shows "task_effect t db db' \<and> attempt_of db' t = attempt_of db t"
  using assms
  by (auto simp: REQUEUE_STALE_REPAIR_LUA_def task_effect_defs attempt_of_def redis_simps view_simps bind_eq_Some_conv
      split: if_splits)

lemma REQUEUE_AUTO_effect:
  assumes "task_ok t db" "REQUEUE_STALE_AUTO_WORKFLOW_LUA db (K_task t) K_ingress_stream cutoff t lim now = Some ((r, n), db')"
  shows "task_effect t db db' \<and> attempt_of db' t = Some n \<and> (attempt_of db t = Some n \<or> attempt_of db t = Some (n - 1))"
  using assms
  by (auto simp: REQUEUE_STALE_AUTO_WORKFLOW_LUA_def task_effect_defs attempt_of_def redis_simps view_simps bind_eq_Some_conv
      split: if_splits option.splits)

lemma TRANSFER_effect:
  assumes "task_ok t db" "key_kind lk = KHash"
    "TRANSFER_ORPHANED_TASK_LUA db (K_task t) lk (K_worker_tasks old_w) (K_worker_tasks w) (K_worker_inbox w) old_w w tok now t ev
       = Some (r, db')"
  shows "task_effect t db db' \<and> attempt_of db' t = attempt_of db t"
  using assms
  by (auto simp: TRANSFER_ORPHANED_TASK_LUA_def task_effect_defs attempt_of_def redis_simps view_simps split: if_splits)

lemma RECOVER_eval:
  assumes "well_typed db" "key_kind ik = KStream"
  shows "RECOVER_DEAD_TASK_LUA db (K_task t) (K_worker_tasks w) ik w t lim now =
    (let st = task_status_of db t; dropped = srem_w db (K_worker_tasks w) t in
     if hash_at db (K_task t) ''worker_id'' \<noteq> Some w \<or> st = Some ''completed'' \<or> st = Some ''failed'' then Some (0, dropped)
     else if st = Some ''assigned'' \<or> st = Some ''running'' then
       (case (attempt_of db t, tonumber lim) of
          (Some n, Some rl) \<Rightarrow>
            if n + 1 > rl then
              Some (2, srem_w (hset_w db (K_task t) [(''status'', ''failed''), (''attempt'', show_int (n + 1)),
                     (''error'', ''worker lost and retry limit exceeded''), (''updated_at'', now)]) (K_worker_tasks w) t)
            else
              Some (1, srem_w (xadd_w (hdel_w (hset_w db (K_task t) [(''status'', ''queued''), (''attempt'', show_int (n + 1)),
                     (''updated_at'', now)]) (K_task t) [''worker_id'', ''fencing_token'']) ik [(''task_id'', t)]) (K_worker_tasks w) t)
        | _ \<Rightarrow> None)
     else if st = Some ''waiting_pipeline'' then Some (3, db)
     else if st = Some ''publishing'' then Some (4, db)
     else if st = Some ''paused_by_triage'' then Some (5, dropped)
     else Some (0, db))"
  using assms
  by (simp add: RECOVER_DEAD_TASK_LUA_def attempt_of_def redis_simps Let_def split: option.split)

text \<open>What recovering a dead worker's task does, by its reply.\<close>

lemma RECOVER_reply:
  assumes "well_typed db" "key_kind ik = KStream"
    "RECOVER_DEAD_TASK_LUA db (K_task t) (K_worker_tasks w) ik w t (show_int limit) now = Some (r, db')"
  shows "(r = 1 \<longrightarrow> (\<exists>n. attempt_of db t = Some n \<and> n < limit \<and> attempt_of db' t = Some (n + 1))
            \<and> task_status_of db' t = Some ''queued'' \<and> hash_at db' (K_task t) ''worker_id'' = None \<and> \<not> tracked db' t w) \<and>
    (r = 2 \<longrightarrow> (\<exists>n. attempt_of db t = Some n \<and> limit \<le> n \<and> attempt_of db' t = Some (n + 1))
            \<and> task_status_of db' t = Some ''failed'' \<and> \<not> tracked db' t w) \<and>
    (r \<noteq> 1 \<and> r \<noteq> 2 \<longrightarrow> hash_at db' (K_task t) = hash_at db (K_task t))"
proof -
  have ik: "K_task t \<noteq> ik" "K_worker_tasks w \<noteq> ik" using assms(2) by auto
  show ?thesis
    using assms(3) ik unfolding RECOVER_eval [OF assms(1,2)] Let_def
    by (simp split: if_splits option.splits)
       (auto simp: tracked_def attempt_of_def hash_at_hset hash_at_hdel hash_at_other set_at_simps)
qed

lemma RECOVER_effect:
  assumes "task_ok t db" "key_kind ik = KStream"
    "RECOVER_DEAD_TASK_LUA db (K_task t) (K_worker_tasks w) ik w t lim now = Some (r, db')"
  shows "task_effect t db db'"
proof -
  have wt: "well_typed db" using assms(1) by (simp add: task_ok_def)
  have ik: "K_task t \<noteq> ik" "\<And>u. K_worker_tasks u \<noteq> ik" using assms(2) by auto
  show ?thesis
    using assms(3) ik wt assms(1,2) unfolding RECOVER_eval [OF wt assms(2)] Let_def
    by (simp split: if_splits option.splits)
       (auto simp: task_effect_defs redis_simps hash_at_hset hash_at_hdel hash_at_other set_at_simps)
qed

lemma TaskStatus_value: "TaskStatus c = Some s \<longleftrightarrow> task_status_value s = c"
  by (simp add: TaskStatus_def task_status_enum.of_value_iff)

text \<open>The three outcomes of a transition.\<close>

lemma transition_task_eval:
  assumes "well_typed db" "expected \<noteq> []" "\<And>c. task_status_of db t = Some c \<Longrightarrow> TaskStatus c \<noteq> None"
  shows "transition_task db t expected target l extra now =
    (if \<not> (\<exists>s\<in>set expected. task_status_of db t = Some (task_status_value s)) then (Inr False, db)
     else if \<not> fence_ok db l then (Inl (LostLeaseError t), db)
     else (Inr True,
       let db1 = hset_w db (K_task t) [(''status'', task_status_value target), (''updated_at'', show_int now)];
           db2 = (if target \<in> set TERMINAL_TASK_STATUSES then zrem_w db1 K_active_repairs t else db1)
       in if extra = [] then db2 else hset_w db2 (K_task t) extra))"
proof -
  have listed: "(case task_status_of db t of None \<Rightarrow> True | Some c \<Rightarrow> \<not> status_listed (sorted_statuses expected) c) \<longleftrightarrow>
      \<not> (\<exists>s\<in>set expected. task_status_of db t = Some (task_status_value s))"
  proof (cases "task_status_of db t")
    case (Some c)
    then obtain s where "c = task_status_value s" using assms(3) by (metis TaskStatus_value option.exhaust)
    with Some assms(2) show ?thesis
      by (auto simp: status_listed_iff task_status_enum.value_inject)
  qed simp
  have target: "task_status_value target \<in> {''completed'', ''failed'', ''canceled''} \<longleftrightarrow> target \<in> set TERMINAL_TASK_STATUSES"
    by (cases target) (simp_all add: TERMINAL_TASK_STATUSES_def)
  show ?thesis
    using assms(1) unfolding transition_task_def TRANSITION_TASK_LUA_def target
    by (simp add: redis_simps listed fence_ok_def Let_def)
qed

definition plain_fields :: "(string \<times> string) list \<Rightarrow> bool" where
  "plain_fields extra \<longleftrightarrow> list_all (\<lambda>(f, _). f \<notin> {''status'', ''worker_id'', ''attempt''}) extra"

lemma fold_plain: "plain_fields extra \<Longrightarrow> f \<in> {''status'', ''worker_id'', ''attempt''} \<Longrightarrow>
  fold (\<lambda>(f, v) m. m(f \<mapsto> v)) extra m f = m f"
  by (induction extra arbitrary: m) (auto simp: plain_fields_def)

lemma transition_effect:
  assumes "task_ok t db" "expected \<noteq> []" "plain_fields extra"
    "set expected \<inter> {TS_COMPLETED, TS_FAILED, TS_CANCELED, TS_PAUSED_BY_TRIAGE} = {}"
    "transition_task db t expected target l extra now = (r, db')"
  shows "task_effect t db db' \<and> attempt_of db' t = attempt_of db t"
proof (cases "r = Inr True")
  case False
  then have "db' = db" using assms by (auto simp: transition_task_eval task_ok_def split: if_splits)
  then show ?thesis using assms(1) by (simp add: task_effect_def)
next
  case True
  have wt: "well_typed db" using assms(1) by (simp add: task_ok_def)
  have listed: "\<exists>s\<in>set expected. task_status_of db t = Some (task_status_value s)"
    using True assms by (auto simp: transition_task_eval task_ok_def split: if_splits)
  then have unsettled: "\<not> settled_status (task_status_of db t)"
  proof -
    from listed obtain s where s: "s \<in> set expected" "task_status_of db t = Some (task_status_value s)" by blast
    then have "s \<notin> {TS_COMPLETED, TS_FAILED, TS_CANCELED, TS_PAUSED_BY_TRIAGE}" using assms(4) by blast
    then show ?thesis using s(2) by (cases s) (simp_all add: settled_status_def terminal_status_def)
  qed
  have "hash_at db' (K_task t) f = (if f = ''status'' then Some (task_status_value target) else hash_at db (K_task t) f)"
    if "f \<in> {''status'', ''worker_id'', ''attempt''}" for f
    using assms(1,2,5) True that fold_plain [OF assms(3) that]
    by (auto simp: transition_task_eval task_ok_def Let_def view_simps split: if_splits)
  moreover have "tracked db' t w = tracked db t w" for w
    using assms(1,2,5) True by (auto simp: transition_task_eval task_ok_def tracked_def Let_def view_simps split: if_splits)
  moreover have "well_typed db'"
    using assms(1,2,5) True by (auto simp: transition_task_eval task_ok_def Let_def redis_simps split: if_splits)
  ultimately show ?thesis
    using assms(1) unsettled by (auto simp: task_effect_def task_ok_def settled_status_def attempt_of_def)
qed

text \<open>
  One step of a task. The label tells whether the step returned the task to the queue after
  its worker died. A transition never expects a settled status and its extra fields are never
  the status, owner or attempt: so do all its callers. Other operations keep the task's hash
  and its membership in the workers' sets.
\<close>

inductive task_step :: "string \<Rightarrow> int \<Rightarrow> bool \<Rightarrow> redis \<Rightarrow> redis \<Rightarrow> bool" for t limit where
  ts_assign: "ASSIGN_TASK_LUA db (K_task t) (lease_key_of l) (K_worker_tasks w) (K_worker_inbox w) w tok now t = Some (r, db') \<Longrightarrow>
     task_step t limit False db db'"
| ts_transition: "transition_task db t expected target l extra at = (a, db') \<Longrightarrow> expected \<noteq> [] \<Longrightarrow> plain_fields extra \<Longrightarrow>
     set expected \<inter> {TS_COMPLETED, TS_FAILED, TS_CANCELED, TS_PAUSED_BY_TRIAGE} = {} \<Longrightarrow> task_step t limit False db db'"
| ts_heartbeat: "HEARTBEAT_TASK_LUA db (K_task t) w tok now = Some (r, db') \<Longrightarrow> task_step t limit False db db'"
| ts_fail_stale: "FAIL_STALE_RUNNING_TASK_LUA db (K_task t) (K_mr_lease m) K_active_repairs t w tok cutoff err now = Some (r, db') \<Longrightarrow>
     task_step t limit False db db'"
| ts_requeue_repair: "REQUEUE_STALE_REPAIR_LUA db (K_task t) K_ingress_stream st cutoff t now = Some (r, db') \<Longrightarrow>
     task_step t limit False db db'"
| ts_requeue_auto: "REQUEUE_STALE_AUTO_WORKFLOW_LUA db (K_task t) K_ingress_stream cutoff t lim now = Some ((r, n), db') \<Longrightarrow>
     task_step t limit False db db'"
| ts_recover: "RECOVER_DEAD_TASK_LUA db (K_task t) (K_worker_tasks w) ik w t (show_int limit) now = Some (r, db') \<Longrightarrow>
     key_kind ik = KStream \<Longrightarrow> task_step t limit (r = 1) db db'"
| ts_transfer: "TRANSFER_ORPHANED_TASK_LUA db (K_task t) (K_mr_lease m) (K_worker_tasks old_w) (K_worker_tasks w) (K_worker_inbox w)
       old_w w tok now t ev = Some (r, db') \<Longrightarrow> task_step t limit False db db'"
| ts_other: "well_typed db' \<Longrightarrow> hash_at db' (K_task t) = hash_at db (K_task t) \<Longrightarrow>
     (\<And>w. tracked db' t w = tracked db t w) \<Longrightarrow> task_step t limit False db db'"

text \<open>
  A step keeps the invariant and a terminal status; the attempt counter never falls, and grows
  with every requeue after a worker's death.
\<close>

lemma task_step_effect:
  "task_step t limit b db db' \<Longrightarrow> task_ok t db \<Longrightarrow>
   task_effect t db db' \<and>
   (\<forall>n. attempt_of db t = Some n \<longrightarrow> (\<exists>n'. attempt_of db' t = Some n' \<and> n \<le> n' \<and> (b \<longrightarrow> n < limit \<and> n' = n + 1)))"
proof (induction rule: task_step.induct)
  case (ts_recover db w ik now r db')
  then have "well_typed db" by (simp add: task_ok_def)
  note reply = RECOVER_reply [OF this ts_recover.hyps(2,1)]
  have "task_effect t db db'" using RECOVER_effect ts_recover by blast
  moreover have "r \<noteq> 1 \<and> r \<noteq> 2 \<Longrightarrow> attempt_of db' t = attempt_of db t" using reply by (simp add: attempt_of_def)
  ultimately show ?case using reply by force
next
  case (ts_requeue_auto db cutoff lim now r m db')
  then show ?case using REQUEUE_AUTO_effect [OF ts_requeue_auto.prems ts_requeue_auto.hyps] by auto
next
  case (ts_other db' db)
  then show ?case by (simp add: attempt_of_def task_effect_def task_ok_def)
next
  case (ts_assign db l w tok now r db')
  then show ?case using ASSIGN_effect [OF ts_assign.prems _ ts_assign.hyps] by simp
next
  case (ts_transition db expected target l extra at a db')
  then show ?case
    using transition_effect [OF ts_transition.prems ts_transition.hyps(2,3,4,1)] by simp
next
  case (ts_heartbeat db w tok now r db')
  then show ?case using HEARTBEAT_effect [OF ts_heartbeat.prems ts_heartbeat.hyps] by simp
next
  case (ts_fail_stale db m w tok cutoff err now r db')
  then show ?case using FAIL_STALE_effect [OF ts_fail_stale.prems _ ts_fail_stale.hyps] by simp
next
  case (ts_requeue_repair db st cutoff now r db')
  then show ?case using REQUEUE_REPAIR_effect [OF ts_requeue_repair.prems ts_requeue_repair.hyps] by simp
next
  case (ts_transfer db m old_w w tok now ev r db')
  then show ?case using TRANSFER_effect [OF ts_transfer.prems _ ts_transfer.hyps] by simp
qed

text \<open>Histories of a task, with the number of requeues after a worker's death.\<close>

inductive task_history :: "string \<Rightarrow> int \<Rightarrow> redis \<Rightarrow> nat \<Rightarrow> redis \<Rightarrow> bool" for t limit db where
  th_start: "task_history t limit db 0 db"
| th_step: "task_history t limit db k db1 \<Longrightarrow> task_step t limit b db1 db2 \<Longrightarrow>
     task_history t limit db (if b then Suc k else k) db2"

lemma task_history_ok:
  assumes "task_history t limit db k db'" "task_ok t db"
  shows "task_ok t db' \<and> (terminal_status (task_status_of db t) \<longrightarrow> task_status_of db' t = task_status_of db t)"
  using assms(1)
proof (induction rule: task_history.induct)
  case th_start
  then show ?case using assms(2) by simp
next
  case (th_step k db1 b db2)
  then show ?case using task_step_effect [of t limit b db1 db2] by (auto simp: task_effect_def)
qed

lemma task_history_attempt:
  assumes "task_history t limit db k db'" "task_ok t db" "attempt_of db t = Some n"
  shows "\<exists>n'. attempt_of db' t = Some n' \<and> n + int k \<le> n' \<and> (0 < k \<longrightarrow> n + int k \<le> limit)"
  using assms(1)
proof (induction rule: task_history.induct)
  case th_start
  then show ?case using assms(3) by simp
next
  case (th_step k db1 b db2)
  then obtain n1 where n1: "attempt_of db1 t = Some n1" "n + int k \<le> n1" "0 < k \<longrightarrow> n + int k \<le> limit" by blast
  have "task_ok t db1" using task_history_ok [OF th_step.hyps(1) assms(2)] by blast
  from task_step_effect [OF th_step.hyps(2) this] n1 show ?case by auto
qed

section \<open>Properties\<close>

text \<open>
  C9: terminal statuses are final and no owned task is lost. Over every history of assignments,
  transitions, heartbeats, stale-task failures, requeues, recoveries of dead workers, hand-overs
  and operations on other tasks, a completed, failed or canceled task keeps its status, stored
  statuses stay members of the enumeration, and a task owned by a worker that is not finished or
  paused is in that worker's task set, where the recovery of the worker finds it.
\<close>

theorem task_history_safe:
  assumes "task_history t limit db k db'" "task_ok t db"
  shows "(terminal_status (task_status_of db t) \<longrightarrow> task_status_of db' t = task_status_of db t) \<and>
    (\<forall>c. task_status_of db' t = Some c \<longrightarrow> TaskStatus c \<noteq> None) \<and>
    (\<forall>w. hash_at db' (K_task t) ''worker_id'' = Some w \<longrightarrow> \<not> settled_status (task_status_of db' t) \<longrightarrow> tracked db' t w)"
  using task_history_ok [OF assms] by (simp add: task_ok_def)

definition queued_db :: redis where
  "queued_db = hset_w empty_redis (K_task ''t'') [(''status'', ''queued'')]"

lemma queued_db_ok: "task_ok ''t'' queued_db" "attempt_of queued_db ''t'' = Some 0"
  by (simp_all add: task_ok_def attempt_of_def queued_db_def redis_simps view_simps)

theorem task_history_safe_witness:
  "\<exists>db'. task_status_of db' ''t'' = Some ''assigned'' \<and> hash_at db' (K_task ''t'') ''worker_id'' = Some ''w'' \<and> tracked db' ''t'' ''w''"
proof -
  have wt: "well_typed queued_db" using queued_db_ok by (simp add: task_ok_def)
  define db' where "db' = xadd_w (sadd_w (hset_w queued_db (K_task ''t'') [(''status'', ''assigned''), (''worker_id'', ''w''),
      (''fencing_token'', []), (''updated_at'', ''9'')]) (K_worker_tasks ''w'') ''t'') (K_worker_inbox ''w'')
      [(''task_id'', ''t''), (''delivery_kind'', ''execute''), (''payload'', ''{}'')]"
  have "ASSIGN_TASK_LUA queued_db (K_task ''t'') (lease_key_of None) (K_worker_tasks ''w'') (K_worker_inbox ''w'') ''w'' [] ''9'' ''t''
      = Some (1, db')"
    using wt by (simp add: ASSIGN_TASK_LUA_def redis_simps db'_def) (simp add: queued_db_def view_simps)
  from th_step [OF th_start ts_assign [OF this]] have "task_history ''t'' 3 queued_db 0 db'" by simp
  from task_history_safe [OF this queued_db_ok(1)] show ?thesis
    by (intro exI [of _ db']) (simp add: db'_def queued_db_def view_simps settled_status_def terminal_status_def)
qed

text \<open>
  C10: retries are bounded. In any history of a task, the number of times the recovery of a dead
  worker put it back into the queue is at most the retry limit less the attempts it started with.
\<close>

theorem recovery_requeues_bounded:
  assumes "task_history t limit db k db'" "task_ok t db" "attempt_of db t = Some n" "n \<le> limit"
  shows "int k \<le> limit - n"
  using task_history_attempt [OF assms(1-3)] assms(4) by (cases "k = 0") auto

definition running_db :: redis where
  "running_db = sadd_w (hset_w empty_redis (K_task ''t'') [(''status'', ''running''), (''worker_id'', ''w'')]) (K_worker_tasks ''w'') ''t''"

lemma running_db_ok:
  "task_ok ''t'' running_db" "attempt_of running_db ''t'' = Some 0"
  "hash_at running_db (K_task ''t'') ''worker_id'' = Some ''w''" "task_status_of running_db ''t'' = Some ''running''"
  using enum_readers(1) [of TS_RUNNING]
  by (simp_all add: task_ok_def attempt_of_def running_db_def tracked_def redis_simps view_simps)

theorem recovery_requeues_bounded_witness: "\<exists>db'. task_history ''t'' 3 running_db 1 db' \<and> int 1 \<le> (3::int) - 0"
proof -
  have wt: "well_typed running_db" using running_db_ok(1) by (simp add: task_ok_def)
  obtain db' where "RECOVER_DEAD_TASK_LUA running_db (K_task ''t'') (K_worker_tasks ''w'') K_ingress_stream ''w'' ''t'' (show_int 3) ''9''
      = Some (1, db')"
    using RECOVER_eval [OF wt, of K_ingress_stream "''t''" "''w''" "show_int 3" "''9''"] running_db_ok(2-4) by (simp add: Let_def)
  from th_step [OF th_start ts_recover [OF this]] have h: "task_history ''t'' 3 running_db 1 db'" by simp
  from recovery_requeues_bounded [OF h running_db_ok(1,2)] h show ?thesis by auto
qed

text \<open>
  C11: a transition has three outcomes. A task whose status is not expected is left alone and
  \<open>False\<close> is returned; a lost lease raises \<open>LostLeaseError\<close> and nothing is written; otherwise
  the status is set, the extra fields are stored after it, and a finished task leaves the index
  of active repairs.
\<close>

theorem transition_task_outcomes:
  assumes "well_typed db" "expected \<noteq> []" "\<And>c. task_status_of db t = Some c \<Longrightarrow> TaskStatus c \<noteq> None"
  shows "transition_task db t expected target l extra now =
    (if \<not> (\<exists>s\<in>set expected. task_status_of db t = Some (task_status_value s)) then (Inr False, db)
     else if \<not> fence_ok db l then (Inl (LostLeaseError t), db)
     else (Inr True,
       let db1 = hset_w db (K_task t) [(''status'', task_status_value target), (''updated_at'', show_int now)];
           db2 = (if target \<in> set TERMINAL_TASK_STATUSES then zrem_w db1 K_active_repairs t else db1)
       in if extra = [] then db2 else hset_w db2 (K_task t) extra))"
  using assms by (rule transition_task_eval)

theorem transition_task_outcomes_witness:
  "transition_task queued_db ''t'' [TS_RUNNING] TS_COMPLETED None [] 9 = (Inr False, queued_db)"
proof -
  have "well_typed queued_db" "\<And>c. task_status_of queued_db ''t'' = Some c \<Longrightarrow> TaskStatus c \<noteq> None"
    using queued_db_ok by (auto simp: task_ok_def)
  from transition_task_outcomes [where t = "''t''" and expected = "[TS_RUNNING]" and target = TS_COMPLETED and l = None
      and extra = "[]" and now = 9, OF this(1) _ this(2)]
  have "transition_task queued_db ''t'' [TS_RUNNING] TS_COMPLETED None [] 9 =
    (if task_status_of queued_db ''t'' \<noteq> Some ''running'' then (Inr False, queued_db)
     else transition_task queued_db ''t'' [TS_RUNNING] TS_COMPLETED None [] 9)" by simp
  moreover have "task_status_of queued_db ''t'' \<noteq> Some ''running''" by (simp add: queued_db_def view_simps)
  ultimately show ?thesis by simp
qed

text \<open>
  Recovering a dead worker leaves a canceled task in the worker's set. Completed and failed
  tasks are removed from it, a canceled one (the third terminal status) is not, and the reply is
  the same: every later sweep of the dead worker meets the task again.
\<close>

theorem recover_keeps_canceled:
  assumes "well_typed db" "key_kind ik = KStream" "hash_at db (K_task t) ''worker_id'' = Some w" "tracked db t w"
  shows "(task_status_of db t = Some ''canceled'' \<longrightarrow>
      RECOVER_DEAD_TASK_LUA db (K_task t) (K_worker_tasks w) ik w t lim now = Some (0, db)) \<and>
    (task_status_of db t \<in> {Some ''completed'', Some ''failed''} \<longrightarrow>
      (\<exists>db'. RECOVER_DEAD_TASK_LUA db (K_task t) (K_worker_tasks w) ik w t lim now = Some (0, db') \<and> \<not> tracked db' t w))"
  using assms by (auto simp: RECOVER_eval [OF assms(1,2)] Let_def tracked_def view_simps)

definition canceled_db :: redis where
  "canceled_db = sadd_w (hset_w empty_redis (K_task ''t'') [(''status'', ''canceled''), (''worker_id'', ''w'')]) (K_worker_tasks ''w'') ''t''"

theorem recover_keeps_canceled_witness:
  "RECOVER_DEAD_TASK_LUA canceled_db (K_task ''t'') (K_worker_tasks ''w'') K_ingress_stream ''w'' ''t'' ''3'' ''9'' = Some (0, canceled_db)
   \<and> tracked canceled_db ''t'' ''w''"
proof -
  have *: "well_typed canceled_db" "hash_at canceled_db (K_task ''t'') ''worker_id'' = Some ''w''" "tracked canceled_db ''t'' ''w''"
    "task_status_of canceled_db ''t'' = Some ''canceled''"
    by (simp_all add: canceled_db_def tracked_def redis_simps view_simps)
  from recover_keeps_canceled [OF *(1) _ *(2,3), of K_ingress_stream] *(3,4) show ?thesis by simp
qed

end
