(* ===== verification/Admission.thy ===== *)
theory Admission
  imports Tasks
begin

text \<open>
  Admission of tasks: \<open>ENQUEUE_TASK_LUA\<close> and \<open>enqueue_task\<close>. The dedup key maps an
  idempotency key to the task that holds it, the triage gate of an MR names its active
  triage task. The ISO timestamp of a task is read by a parameter.
\<close>

record enqueue_result =
  enq_created :: bool
  enq_task_id :: string
  enq_recovered :: bool

text \<open>What \<open>inspect_or_recover\<close> finds of a task that is named by a dedup key or a gate.\<close>

datatype inspected = Stale string | Invalid | Recovered string | Healthy string

definition inspect_or_recover ::
  "redis \<Rightarrow> rkey \<Rightarrow> rkey \<Rightarrow> rkey \<Rightarrow> rkey \<Rightarrow> string \<Rightarrow> int \<Rightarrow> bool \<Rightarrow> inspected reply"
where
  "inspect_or_recover db ingress_k mr_tasks_k gate_k active_k tid now priority =
     (if \<not> exists_key db (K_task tid) then Some (Stale [], db)
      else if \<not> type_ok db (K_task tid) KHash then Some (Invalid, db)
      else
        do { st \<leftarrow> hget db (K_task tid) ''status'';
             let status = or_else st [] in
             if status = ''completed'' \<or> status = ''failed'' \<or> status = ''canceled'' then Some (Stale status, db) else
             do { adm \<leftarrow> hget db (K_task tid) ''admission_state'';
                  msg \<leftarrow> hget db (K_task tid) ''ingress_message_id'';
                  if status = ''queued'' \<and> (or_else adm [] \<noteq> ''enqueued'' \<or> or_else msg [] = []) then
                    do { raw \<leftarrow> hget db (K_task tid) ''payload'';
                         if loads (or_else raw []) = None then
                           do { db1 \<leftarrow> hset db (K_task tid) [(''status'', ''failed''), (''error'', ''admission_incomplete''),
                                         (''updated_at'', show_int now)];
                                db2 \<leftarrow> zrem db1 active_k tid;
                                Some (Stale ''failed'', db2) }
                         else
                           do { db1 \<leftarrow> sadd db mr_tasks_k tid;
                                db2 \<leftarrow> (if priority then zadd (set_w db1 gate_k tid) active_k now tid else Some db1);
                                (mid, db3) \<leftarrow> xadd db2 ingress_k [(''task_id'', tid)];
                                db4 \<leftarrow> hset db3 (K_task tid) [(''admission_state'', ''enqueued''), (''ingress_message_id'', mid),
                                         (''updated_at'', show_int now)];
                                Some (Recovered mid, db4) } }
                  else Some (Healthy (or_else msg []), db) } })"

text \<open>The creation branch, after dedup key and gate have been looked at.\<close>

definition admit_new ::
  "redis \<Rightarrow> rkey \<Rightarrow> rkey \<Rightarrow> rkey \<Rightarrow> rkey \<Rightarrow> rkey \<Rightarrow> string \<Rightarrow> int \<Rightarrow> string \<Rightarrow> int \<Rightarrow> bool \<Rightarrow> bool \<Rightarrow> string \<Rightarrow>
   (int \<times> string \<times> int \<times> string) reply"
where
  "admit_new db dedup_k ingress_k mr_tasks_k gate_k active_k tid ttl pl now has_mr priority context =
     do { db1 \<leftarrow> hset (set_ex_w db dedup_k tid ttl) (K_task tid)
            [(''payload'', pl), (''status'', ''queued''), (''attempt'', ''0''), (''created_at'', show_int now),
             (''updated_at'', show_int now), (''admission_state'', ''preparing''), (''admission_context'', context)];
          db2 \<leftarrow> (if has_mr then sadd db1 mr_tasks_k tid else Some db1);
          db3 \<leftarrow> (if priority then zadd (set_w db2 gate_k tid) active_k now tid else Some db2);
          (mid, db4) \<leftarrow> xadd db3 ingress_k [(''task_id'', tid)];
          db5 \<leftarrow> hset db4 (K_task tid) [(''admission_state'', ''enqueued''), (''ingress_message_id'', mid)];
          Some ((1, tid, 0, mid), db5) }"

text \<open>
  The priority gate of an MR: a triage task goes through when no other one is active; a stale
  gate without a paused workflow is dropped.
\<close>

definition pass_gate ::
  "redis \<Rightarrow> rkey \<Rightarrow> rkey \<Rightarrow> rkey \<Rightarrow> rkey \<Rightarrow> rkey \<Rightarrow> rkey \<Rightarrow> string \<Rightarrow> int \<Rightarrow> string \<Rightarrow> int \<Rightarrow> bool \<Rightarrow> bool \<Rightarrow> string \<Rightarrow>
   (int \<times> string \<times> int \<times> string) reply"
where
  "pass_gate db dedup_k ingress_k mr_tasks_k gate_k paused_k active_k tid ttl pl now has_mr priority context =
     (let create = (\<lambda>db. admit_new db dedup_k ingress_k mr_tasks_k gate_k active_k tid ttl pl now has_mr priority context) in
      if \<not> priority then create db else
      do { active \<leftarrow> get db gate_k;
           case active of
             None \<Rightarrow> create db
           | Some a \<Rightarrow>
               do { (found, db1) \<leftarrow> inspect_or_recover db ingress_k mr_tasks_k gate_k active_k a now priority;
                    case found of
                      Recovered mid \<Rightarrow> Some ((0, a, 1, mid), set_ex_w db1 dedup_k a ttl)
                    | Invalid \<Rightarrow> Some ((-9, ''active task key type mismatch'', 0, []), db1)
                    | Stale _ \<Rightarrow>
                        if \<not> exists_key db1 paused_k then
                          do { again \<leftarrow> get db1 gate_k; create (if again = Some a then del db1 gate_k else db1) }
                        else Some ((0, a, 0, []), set_ex_w db1 dedup_k a ttl)
                    | Healthy _ \<Rightarrow> Some ((0, a, 0, []), set_ex_w db1 dedup_k a ttl) } })"

text \<open>
  \<open>ENQUEUE_TASK_LUA\<close>. The reply is the code, the task id (or the message of a refusal), the
  recovery flag and the ingress message id.
\<close>

definition ENQUEUE_TASK_LUA ::
  "redis \<Rightarrow> rkey \<Rightarrow> rkey \<Rightarrow> rkey \<Rightarrow> rkey \<Rightarrow> rkey \<Rightarrow> rkey \<Rightarrow> lua_arg \<Rightarrow> int \<Rightarrow> lua_arg \<Rightarrow> int \<Rightarrow> bool \<Rightarrow> bool \<Rightarrow> lua_arg \<Rightarrow>
   (int \<times> string \<times> int \<times> string) reply"
where
  "ENQUEUE_TASK_LUA db dedup_k ingress_k mr_tasks_k gate_k paused_k active_k tid ttl pl now has_mr priority context =
     (if ttl \<le> 0 \<or> loads pl = None \<or> loads context = None then Some ((-8, ''invalid admission arguments'', 0, []), db)
      else if \<not> (type_ok db dedup_k KStr \<and> type_ok db (K_task tid) KHash \<and> type_ok db ingress_k KStream \<and>
                 type_ok db mr_tasks_k KSet \<and> type_ok db gate_k KStr \<and> type_ok db paused_k KStr \<and> type_ok db active_k KZset)
      then Some ((-9, ''redis key type mismatch'', 0, []), db)
      else
        let on_gate = (\<lambda>db. pass_gate db dedup_k ingress_k mr_tasks_k gate_k paused_k active_k tid ttl pl now has_mr priority context)
        in do { existing \<leftarrow> get db dedup_k;
                case existing of
                  None \<Rightarrow> on_gate db
                | Some x \<Rightarrow>
                    do { (found, db1) \<leftarrow> inspect_or_recover db ingress_k mr_tasks_k gate_k active_k x now priority;
                         case found of
                           Recovered mid \<Rightarrow> Some ((0, x, 1, mid), db1)
                         | Healthy mid \<Rightarrow> Some ((0, x, 0, mid), db1)
                         | Invalid \<Rightarrow> Some ((-9, ''existing task key type mismatch'', 0, []), db1)
                         | Stale _ \<Rightarrow> on_gate (del db1 dedup_k) } })"

subsection \<open>Broker method\<close>

definition is_triage_task :: "task_envelope \<Rightarrow> bool" where
  "is_triage_task task \<longleftrightarrow> mr task \<noteq> None \<and>
     (case first_word (strip (command task)) of
        None \<Rightarrow> False
      | Some w \<Rightarrow> lower w \<in> {''/triage'', ''/fix-format'', ''/fix_format'', ''/repair-pipeline''})"

definition mr_tasks_key :: "task_envelope \<Rightarrow> rkey" where
  "mr_tasks_key task = (case mr task of None \<Rightarrow> K_no_mr_tasks | Some m \<Rightarrow> K_mr_tasks m)"

definition gate_key :: "task_envelope \<Rightarrow> rkey" where
  "gate_key task = (case mr task of None \<Rightarrow> K_no_mr_triage_active | Some m \<Rightarrow> K_mr_triage_active m)"

definition paused_key :: "task_envelope \<Rightarrow> rkey" where
  "paused_key task = (case mr task of None \<Rightarrow> K_no_mr_paused_auto | Some m \<Rightarrow> K_mr_paused_auto m)"

definition admission_context :: "task_envelope \<Rightarrow> json" where
  "admission_context task =
     JObj [(''task_id'', JStr (task_id task)),
           (''mr'', case mr task of None \<Rightarrow> JNull | Some m \<Rightarrow> JObj (mr_key_to_dict m)), (''card_id'', JStr [])]"

record admission_settings =
  triage_priority_over_auto :: bool
  dedup_ttl_seconds :: int
  event_ttl_seconds :: int

definition record_created ::
  "(string \<Rightarrow> string) \<Rightarrow> admission_settings \<Rightarrow> redis \<Rightarrow> string \<Rightarrow> int \<Rightarrow> redis option"
where
  "record_created sha256_hex cfg db tid occurred_at =
     do { e1 \<leftarrow> lifecycle_event_new sha256_hex occurred_at tid ''created'' ''point'' ''default'' (Some occurred_at) [];
          (_, db1) \<leftarrow> record_lifecycle_event db (event_ttl_seconds cfg) e1;
          e2 \<leftarrow> lifecycle_event_new sha256_hex occurred_at tid ''queue'' ''start'' ''initial'' (Some occurred_at) [];
          (_, db2) \<leftarrow> record_lifecycle_event db1 (event_ttl_seconds cfg) e2;
          Some db2 }"

definition enqueue_task ::
  "(string \<Rightarrow> string) \<Rightarrow> (string \<Rightarrow> int) \<Rightarrow> admission_settings \<Rightarrow> redis \<Rightarrow> task_envelope \<Rightarrow> enqueue_result answer"
where
  "enqueue_task sha256_hex stored_timestamp cfg db task =
     (let priority = (triage_priority_over_auto cfg \<and> is_triage_task task); occurred_at = stored_timestamp (created_at task) in
      if occurred_at \<le> 0 then (Inl (ValueError ''task created_at must be a finite timestamp''), db) else
      case ENQUEUE_TASK_LUA db (K_dedup (idempotency_key task)) K_ingress_stream (mr_tasks_key task) (gate_key task)
             (paused_key task) K_active_repairs (task_id task) (dedup_ttl_seconds cfg) (dumps (JObj (task_envelope_to_dict task)))
             occurred_at (mr task \<noteq> None) priority (dumps (admission_context task)) of
        None \<Rightarrow> (Inl RedisError, db)
      | Some ((code, tid, recovered, _), db1) \<Rightarrow>
          if code < 0 then (Inl (ValueError (''task admission validation failed: '' @ tid)), db1)
          else (case record_created sha256_hex cfg db1 tid occurred_at of
                  None \<Rightarrow> (Inl RedisError, db1)
                | Some db2 \<Rightarrow>
                    (Inr \<lparr>enq_created = (code \<noteq> 0), enq_task_id = tid, enq_recovered = (recovered \<noteq> 0)\<rparr>, db2)))"

text \<open>\<open>StoredTask.admission_complete\<close>.\<close>

definition admission_complete :: "redis \<Rightarrow> string \<Rightarrow> bool" where
  "admission_complete db tid \<longleftrightarrow> or_else (hash_at db (K_task tid) ''admission_state'') [] = ''enqueued'' \<and>
     or_else (hash_at db (K_task tid) ''ingress_message_id'') [] \<noteq> []"

subsection \<open>Keys of an admission\<close>

lemma admission_keys [simp]:
  "key_kind (mr_tasks_key task) = KSet" "key_kind (gate_key task) = KStr" "key_kind (paused_key task) = KStr"
  "gate_key task \<noteq> K_dedup i" "gate_key task \<noteq> paused_key task'" "paused_key task \<noteq> K_dedup i"
  "mr_tasks_key task \<noteq> K_task t" "mr_tasks_key task \<noteq> K_ingress_stream" "mr_tasks_key task \<noteq> K_dedup i"
  "gate_key task \<noteq> K_task t" "gate_key task \<noteq> K_ingress_stream" "gate_key task \<noteq> K_active_repairs"
  "gate_key task \<noteq> mr_tasks_key task'" "paused_key task \<noteq> mr_tasks_key task'" "paused_key task \<noteq> K_task t"
  "paused_key task \<noteq> K_ingress_stream" "paused_key task \<noteq> K_active_repairs" "mr_tasks_key task \<noteq> K_active_repairs"
  by (simp_all add: mr_tasks_key_def gate_key_def paused_key_def split: option.splits)

lemma admission_keys' [simp]:
  "K_dedup i \<noteq> gate_key task" "paused_key task' \<noteq> gate_key task" "K_dedup i \<noteq> paused_key task" "K_task t \<noteq> mr_tasks_key task"
  "K_ingress_stream \<noteq> mr_tasks_key task" "K_dedup i \<noteq> mr_tasks_key task" "K_task t \<noteq> gate_key task"
  "K_ingress_stream \<noteq> gate_key task" "K_active_repairs \<noteq> gate_key task" "mr_tasks_key task' \<noteq> gate_key task"
  "mr_tasks_key task' \<noteq> paused_key task" "K_task t \<noteq> paused_key task" "K_ingress_stream \<noteq> paused_key task"
  using admission_keys [symmetric] by metis+

lemma loads_task [simp]: "wf_task task \<Longrightarrow> loads (dumps (JObj (task_envelope_to_dict task))) \<noteq> None"
  using loads_dumps [OF task_envelope_to_dict_wf] by simp

lemma loads_context [simp]: "loads (dumps (admission_context task)) \<noteq> None"
proof -
  have "wf_json (admission_context task)" by (auto simp: admission_context_def mr_key_to_dict_def split: option.splits)
  then show ?thesis using loads_dumps by simp
qed

subsection \<open>Lifecycle marks\<close>

lemma record_lifecycle_event_wt:
  assumes "well_typed db"
  shows "\<exists>b db'. record_lifecycle_event db ttl e = Some (b, db') \<and> well_typed db' \<and>
    (\<forall>k. k \<noteq> K_lifecycle (le_task_id e) \<longrightarrow> k \<noteq> K_lifecycle_events (le_task_id e) \<longrightarrow> untouched k db db')"
  using assms by (auto simp: record_lifecycle_event_eval Let_def redis_simps view_simps)

lemma lifecycle_event_new_task:
  "lifecycle_event_new h now t ''created'' ''point'' seg occ md \<noteq> None"
  "lifecycle_event_new h now t ''queue'' ''start'' seg occ md \<noteq> None"
  "lifecycle_event_new h now t p k seg occ md = Some e \<Longrightarrow> le_task_id e = t"
  using lifecycle_readers(1) [of LP_CREATED] lifecycle_readers(1) [of LP_QUEUE] lifecycle_readers(2) [of LK_POINT]
    lifecycle_readers(2) [of LK_START]
  by (auto simp: lifecycle_event_new_def Let_def bind_eq_Some_conv)

lemma record_created_wt:
  assumes "well_typed db"
  shows "\<exists>db'. record_created h cfg db t occ = Some db' \<and> well_typed db' \<and>
    (\<forall>k. k \<noteq> K_lifecycle t \<longrightarrow> k \<noteq> K_lifecycle_events t \<longrightarrow> untouched k db db')"
proof -
  obtain e1 where e1: "lifecycle_event_new h occ t ''created'' ''point'' ''default'' (Some occ) [] = Some e1"
    using lifecycle_event_new_task(1) [of h occ t] by blast
  obtain e2 where e2: "lifecycle_event_new h occ t ''queue'' ''start'' ''initial'' (Some occ) [] = Some e2"
    using lifecycle_event_new_task(2) [of h occ t] by blast
  have t: "le_task_id e1 = t" "le_task_id e2 = t" using lifecycle_event_new_task(3) e1 e2 by blast+
  obtain b1 db1 where d1: "record_lifecycle_event db (event_ttl_seconds cfg) e1 = Some (b1, db1)" "well_typed db1"
    "\<forall>k. k \<noteq> K_lifecycle t \<longrightarrow> k \<noteq> K_lifecycle_events t \<longrightarrow> untouched k db db1"
    using record_lifecycle_event_wt [OF assms, of "event_ttl_seconds cfg" e1] t(1) by auto
  obtain b2 db2 where d2: "record_lifecycle_event db1 (event_ttl_seconds cfg) e2 = Some (b2, db2)" "well_typed db2"
    "\<forall>k. k \<noteq> K_lifecycle t \<longrightarrow> k \<noteq> K_lifecycle_events t \<longrightarrow> untouched k db1 db2"
    using record_lifecycle_event_wt [OF d1(2), of "event_ttl_seconds cfg" e2] t(2) by auto
  show ?thesis using e1 e2 d1 d2 by (auto simp: record_created_def untouched_def)
qed

subsection \<open>The creation branch\<close>

definition admitted_w ::
  "redis \<Rightarrow> task_envelope \<Rightarrow> string \<Rightarrow> int \<Rightarrow> string \<Rightarrow> int \<Rightarrow> bool \<Rightarrow> bool \<Rightarrow> string \<Rightarrow> redis"
where
  "admitted_w db task tid ttl pl now has_mr priority context =
     (let db1 = hset_w (set_ex_w db (K_dedup (idempotency_key task)) tid ttl) (K_task tid)
            [(''payload'', pl), (''status'', ''queued''), (''attempt'', ''0''), (''created_at'', show_int now),
             (''updated_at'', show_int now), (''admission_state'', ''preparing''), (''admission_context'', context)];
          db2 = (if has_mr then sadd_w db1 (mr_tasks_key task) tid else db1);
          db3 = (if priority then zadd_w (set_w db2 (gate_key task) tid) K_active_repairs now tid else db2)
      in hset_w (xadd_w db3 K_ingress_stream [(''task_id'', tid)]) (K_task tid)
           [(''admission_state'', ''enqueued''), (''ingress_message_id'', show_nat (next_id db K_ingress_stream))])"

lemma admit_new_wt:
  assumes "well_typed db"
  shows "admit_new db (K_dedup (idempotency_key task)) K_ingress_stream (mr_tasks_key task) (gate_key task) K_active_repairs
      tid ttl pl now has_mr priority context =
    Some ((1, tid, 0, show_nat (next_id db K_ingress_stream)), admitted_w db task tid ttl pl now has_mr priority context)"
  using assms
  by (simp add: admit_new_def admitted_w_def Let_def redis_simps) (simp add: next_id_def view_simps)

lemma admitted_w_facts:
  assumes "well_typed db"
  shows "well_typed (admitted_w db task tid ttl pl now has_mr priority ctx)"
    "str_at (admitted_w db task tid ttl pl now has_mr priority ctx) (K_dedup (idempotency_key task)) = Some tid"
    "priority \<Longrightarrow> str_at (admitted_w db task tid ttl pl now has_mr priority ctx) (gate_key task) = Some tid"
    "hash_at (admitted_w db task tid ttl pl now has_mr priority ctx) (K_task tid) ''status'' = Some ''queued''"
    "hash_at (admitted_w db task tid ttl pl now has_mr priority ctx) (K_task tid) ''payload'' = Some pl"
    "admission_complete (admitted_w db task tid ttl pl now has_mr priority ctx) tid"
    "entries (stream_at (admitted_w db task tid ttl pl now has_mr priority ctx) K_ingress_stream) =
       entries (stream_at db K_ingress_stream) @ [(next_id db K_ingress_stream, [(''task_id'', tid)])]"
    "exists_key (admitted_w db task tid ttl pl now has_mr priority ctx) (K_task tid)"
proof -
  show "well_typed (admitted_w db task tid ttl pl now has_mr priority ctx)"
    using assms by (simp add: admitted_w_def Let_def redis_simps)
qed (simp_all add: admitted_w_def Let_def view_simps admission_complete_def next_id_def)

subsection \<open>Looking at an earlier task\<close>

definition live_task :: "redis \<Rightarrow> string \<Rightarrow> bool" where
  "live_task db x \<longleftrightarrow> exists_key db (K_task x) \<and> \<not> terminal_status (hash_at db (K_task x) ''status'') \<and>
     (hash_at db (K_task x) ''status'' = Some ''queued'' \<longrightarrow> admission_complete db x)"

lemma inspect_wt:
  assumes "well_typed db"
  shows "\<exists>found db1. inspect_or_recover db K_ingress_stream (mr_tasks_key task) (gate_key task) K_active_repairs x now priority
      = Some (found, db1) \<and> well_typed db1"
  using assms by (simp add: inspect_or_recover_def Let_def redis_simps)

lemma inspect_stale:
  assumes "well_typed db"
    "inspect_or_recover db K_ingress_stream (mr_tasks_key task) (gate_key task) K_active_repairs x now priority = Some (Stale st, db1)"
  shows "stream_at db1 K_ingress_stream = stream_at db K_ingress_stream"
  using assms
  by (auto simp: inspect_or_recover_def Let_def redis_simps view_simps split: if_splits)

lemma inspect_live:
  assumes "well_typed db" "live_task db x"
  shows "inspect_or_recover db K_ingress_stream mk gk ak x now priority =
    Some (Healthy (or_else (hash_at db (K_task x) ''ingress_message_id'') []), db)"
proof (cases "hash_at db (K_task x) ''status''")
  case None
  then show ?thesis using assms by (simp add: inspect_or_recover_def Let_def redis_simps live_task_def)
next
  case (Some st)
  then show ?thesis
    using assms by (auto simp: inspect_or_recover_def Let_def redis_simps live_task_def terminal_status_def admission_complete_def)
qed

abbreviation enqueue_script ::
  "admission_settings \<Rightarrow> redis \<Rightarrow> task_envelope \<Rightarrow> int \<Rightarrow> bool \<Rightarrow> (int \<times> string \<times> int \<times> string) reply"
where
  "enqueue_script cfg db task now priority \<equiv>
     ENQUEUE_TASK_LUA db (K_dedup (idempotency_key task)) K_ingress_stream (mr_tasks_key task) (gate_key task)
       (paused_key task) K_active_repairs (task_id task) (dedup_ttl_seconds cfg) (dumps (JObj (task_envelope_to_dict task)))
       now (mr task \<noteq> None) priority (dumps (admission_context task))"

lemma through_existing:
  assumes "well_typed db" "wf_task task" "0 < dedup_ttl_seconds cfg" "str_at db (K_dedup (idempotency_key task)) = Some x" "live_task db x"
  shows "enqueue_script cfg db task now priority =
    Some ((0, x, 0, or_else (hash_at db (K_task x) ''ingress_message_id'') []), db)"
  using assms by (simp add: ENQUEUE_TASK_LUA_def redis_simps inspect_live)

lemma through_gate_live:
  assumes "well_typed db" "wf_task task" "0 < dedup_ttl_seconds cfg" "str_at db (K_dedup (idempotency_key task)) = None"
    "str_at db (gate_key task) = Some a" "live_task db a"
  shows "enqueue_script cfg db task now True = Some ((0, a, 0, []), set_ex_w db (K_dedup (idempotency_key task)) a (dedup_ttl_seconds cfg))"
  using assms by (simp add: ENQUEUE_TASK_LUA_def pass_gate_def redis_simps inspect_live)

abbreviation gate_script ::
  "admission_settings \<Rightarrow> redis \<Rightarrow> task_envelope \<Rightarrow> int \<Rightarrow> bool \<Rightarrow> (int \<times> string \<times> int \<times> string) reply"
where
  "gate_script cfg db task now priority \<equiv>
     pass_gate db (K_dedup (idempotency_key task)) K_ingress_stream (mr_tasks_key task) (gate_key task)
       (paused_key task) K_active_repairs (task_id task) (dedup_ttl_seconds cfg) (dumps (JObj (task_envelope_to_dict task)))
       now (mr task \<noteq> None) priority (dumps (admission_context task))"

abbreviation admitted :: "admission_settings \<Rightarrow> redis \<Rightarrow> task_envelope \<Rightarrow> int \<Rightarrow> bool \<Rightarrow> redis" where
  "admitted cfg db task now priority \<equiv> admitted_w db task (task_id task) (dedup_ttl_seconds cfg)
     (dumps (JObj (task_envelope_to_dict task))) now (mr task \<noteq> None) priority (dumps (admission_context task))"

lemma gate_created:
  assumes wt: "well_typed db" and run: "gate_script cfg db task now priority = Some ((code, x, rcv, mid), db1)" and "0 < code"
  shows "x = task_id task \<and> (\<exists>db0. well_typed db0 \<and> stream_at db0 K_ingress_stream = stream_at db K_ingress_stream \<and>
    db1 = admitted cfg db0 task now priority)"
proof (cases "priority \<and> str_at db (gate_key task) \<noteq> None")
  case False
  then show ?thesis using wt run by (cases priority) (auto simp: pass_gate_def redis_simps admit_new_wt Let_def)
next
  case True
  then obtain a where a: "str_at db (gate_key task) = Some a" by blast
  obtain found dbi where i: "inspect_or_recover db K_ingress_stream (mr_tasks_key task) (gate_key task) K_active_repairs a now priority
      = Some (found, dbi)" "well_typed dbi" using inspect_wt [OF wt] by blast
  have del: "well_typed (del dbi (gate_key task))" using i(2) by (simp add: redis_simps)
  show ?thesis
  proof (cases found)
    case (Stale st)
    define dbx where "dbx = (if str_at dbi (gate_key task) = Some a then del dbi (gate_key task) else dbi)"
    have wx: "well_typed dbx" using del i(2) by (simp add: dbx_def)
    have "x = task_id task \<and> db1 = admitted cfg dbx task now priority"
      using Stale True a i run wt assms(3) admit_new_wt [OF wx]
      by (auto simp: pass_gate_def redis_simps dbx_def [symmetric] split: if_splits)
    moreover have "stream_at dbx K_ingress_stream = stream_at db K_ingress_stream"
      using inspect_stale [OF wt i(1) [unfolded Stale]] by (simp add: dbx_def view_simps)
    ultimately show ?thesis using wx by blast
  qed (use True a i run wt assms(3) in \<open>auto simp: pass_gate_def redis_simps\<close>)
qed

lemma enqueue_created:
  assumes wt: "well_typed db" and run: "enqueue_script cfg db task now priority = Some ((code, x, rcv, mid), db1)" and "0 < code"
  shows "x = task_id task \<and> (\<exists>db0. well_typed db0 \<and> stream_at db0 K_ingress_stream = stream_at db K_ingress_stream \<and>
    db1 = admitted cfg db0 task now priority)"
proof (cases "str_at db (K_dedup (idempotency_key task))")
  case None
  then show ?thesis using gate_created [OF wt] run wt assms(3)
    by (simp add: ENQUEUE_TASK_LUA_def redis_simps split: if_splits)
next
  case (Some y)
  obtain found dbi where i: "inspect_or_recover db K_ingress_stream (mr_tasks_key task) (gate_key task) K_active_repairs y now priority
      = Some (found, dbi)" "well_typed dbi" using inspect_wt [OF wt] by blast
  have "well_typed (del dbi (K_dedup (idempotency_key task)))" using i(2) by (simp add: redis_simps)
  note c = gate_created [OF this _ assms(3)]
  show ?thesis
  proof (cases found)
    case (Stale st)
    have "stream_at (del dbi (K_dedup (idempotency_key task))) K_ingress_stream = stream_at db K_ingress_stream"
      using inspect_stale [OF wt i(1) [unfolded Stale]] by (simp add: view_simps)
    with c show ?thesis using run wt Some i Stale assms(3) by (auto simp: ENQUEUE_TASK_LUA_def redis_simps split: if_splits)
  qed (use run wt assms(3) Some i in \<open>auto simp: ENQUEUE_TASK_LUA_def redis_simps split: if_splits\<close>)
qed

lemma enqueue_task_fresh:
  assumes "well_typed db" "wf_task task" "0 < dedup_ttl_seconds cfg" "0 < ts (created_at task)"
    "str_at db (K_dedup (idempotency_key task)) = None" "str_at db (gate_key task) = None"
  shows "\<exists>db'. enqueue_task h ts cfg db task = (Inr \<lparr>enq_created = True, enq_task_id = task_id task, enq_recovered = False\<rparr>, db')"
proof -
  let ?p = "triage_priority_over_auto cfg \<and> is_triage_task task" and ?now = "ts (created_at task)"
  let ?db1 = "admitted cfg db task ?now ?p"
  have s: "enqueue_script cfg db task ?now ?p = Some ((1, task_id task, 0, show_nat (next_id db K_ingress_stream)), ?db1)"
    using assms by (simp add: ENQUEUE_TASK_LUA_def pass_gate_def redis_simps admit_new_wt)
  obtain db' where "record_created h cfg ?db1 (task_id task) ?now = Some db'"
    using record_created_wt [OF admitted_w_facts(1) [OF assms(1)]] by metis
  then show ?thesis unfolding enqueue_task_def Let_def s using assms(4) by simp
qed

definition example_mr :: mr_key where
  "example_mr = \<lparr>project_id = ''7'', iid = 3\<rparr>"

definition example_triage :: task_envelope where
  "example_triage = \<lparr>schema_version = 1, task_id = ''n'', kind = TK_PR_COMMAND, source = ''gitlab'', mr = Some example_mr,
     pr_url = ''u'', command = ''/triage'', payload = [], idempotency_key = ''k'', created_at = ''now''\<rparr>"

definition example_settings :: admission_settings where
  "example_settings = \<lparr>triage_priority_over_auto = True, dedup_ttl_seconds = 60, event_ttl_seconds = 60\<rparr>"

definition held_db :: "rkey \<Rightarrow> redis" where
  "held_db k = set_w (hset_w empty_redis (K_task ''t'') [(''status'', ''running'')]) k ''t''"

lemma example_triage_facts:
  "wf_task example_triage" "is_triage_task example_triage" "idempotency_key example_triage = ''k''"
  "gate_key example_triage = K_mr_triage_active example_mr"
  by (simp_all add: wf_task_def example_triage_def example_mr_def wf_mr_def is_triage_task_def first_word_def strip_def
      lstrip_def is_space_def lower_def to_lower_def gate_key_def SCHEMA_VERSION_def)

lemma held_db_facts:
  assumes "key_kind k = KStr"
  shows "well_typed (held_db k)" "str_at (held_db k) k = Some ''t''" "live_task (held_db k) ''t''"
    "k' \<noteq> k \<Longrightarrow> str_at (held_db k) k' = None"
proof -
  have "k \<noteq> K_task ''t''" using assms by auto
  then show "live_task (held_db k) ''t''" by (simp add: held_db_def live_task_def terminal_status_def view_simps)
qed (use assms in \<open>simp_all add: held_db_def redis_simps view_simps\<close>)

section \<open>Properties\<close>

text \<open>
  C6: admission is complete. A task that is admitted as new is stored as queued with its payload,
  its dedup key names it, it is marked enqueued with the id of its ingress message, and the
  ingress stream is the stream from before with one entry for the task appended.
\<close>

theorem enqueue_task_complete:
  assumes "well_typed db" "enqueue_task h ts cfg db task = (Inr r, db')" "enq_created r"
  shows "enq_task_id r = task_id task \<and> well_typed db' \<and>
    hash_at db' (K_task (task_id task)) ''status'' = Some ''queued'' \<and>
    hash_at db' (K_task (task_id task)) ''payload'' = Some (dumps (JObj (task_envelope_to_dict task))) \<and>
    str_at db' (K_dedup (idempotency_key task)) = Some (task_id task) \<and>
    admission_complete db' (task_id task) \<and> live_task db' (task_id task) \<and>
    entries (stream_at db' K_ingress_stream) =
      entries (stream_at db K_ingress_stream) @ [(next_id db K_ingress_stream, [(''task_id'', task_id task)])] \<and>
    (triage_priority_over_auto cfg \<and> is_triage_task task \<longrightarrow> str_at db' (gate_key task) = Some (task_id task))"
proof -
  let ?p = "triage_priority_over_auto cfg \<and> is_triage_task task" and ?now = "ts (created_at task)"
  obtain code x rcv mid db1 where s: "enqueue_script cfg db task ?now ?p = Some ((code, x, rcv, mid), db1)"
    "0 \<le> code" "record_created h cfg db1 x ?now = Some db'" "enq_task_id r = x" "code \<noteq> 0"
    using assms(2,3) by (auto simp: enqueue_task_def Let_def split: if_splits option.splits)
  have "0 < code" using s(2,5) by simp
  then obtain db0 where d: "x = task_id task" "well_typed db0" "db1 = admitted cfg db0 task ?now ?p"
      "stream_at db0 K_ingress_stream = stream_at db K_ingress_stream"
    using enqueue_created [OF assms(1) s(1)] by blast
  note f = admitted_w_facts [OF d(2), where task = task and tid = "task_id task" and ttl = "dedup_ttl_seconds cfg"
      and pl = "dumps (JObj (task_envelope_to_dict task))" and now = ?now and has_mr = "mr task \<noteq> None"
      and priority = ?p and ctx = "dumps (admission_context task)", folded d(3)]
  obtain "well_typed db'" and k: "\<And>k. k \<noteq> K_lifecycle x \<Longrightarrow> k \<noteq> K_lifecycle_events x \<Longrightarrow> untouched k db1 db'"
    using record_created_wt [OF f(1), of h cfg x ?now] s(3) by auto
  have "gate_key task \<noteq> K_lifecycle x \<and> gate_key task \<noteq> K_lifecycle_events x" by (simp add: gate_key_def split: option.splits)
  then have v: "hash_at db' (K_task x) = hash_at db1 (K_task x)" "exists_key db' (K_task x) = exists_key db1 (K_task x)"
    "str_at db' (K_dedup i) = str_at db1 (K_dedup i)" "str_at db' (gate_key task) = str_at db1 (gate_key task)"
    "stream_at db' K_ingress_stream = stream_at db1 K_ingress_stream" for i
    using untouched_views [OF k] by simp_all
  show ?thesis
    using f s(4) d(1,4) \<open>well_typed db'\<close>
    by (simp add: v [unfolded d(1)] admission_complete_def live_task_def terminal_status_def next_id_def)
qed

theorem enqueue_task_complete_witness:
  "\<exists>db'. admission_complete db' ''n'' \<and> str_at db' (K_mr_triage_active example_mr) = Some ''n''"
proof -
  have e: "task_id example_triage = ''n''" by (simp add: example_triage_def)
  obtain db' where "enqueue_task (\<lambda>s. s) (\<lambda>_. 5) example_settings empty_redis example_triage =
      (Inr \<lparr>enq_created = True, enq_task_id = task_id example_triage, enq_recovered = False\<rparr>, db')"
    using enqueue_task_fresh [of empty_redis example_triage example_settings "\<lambda>_. 5"] example_triage_facts(1)
    by (auto simp: example_settings_def)
  from enqueue_task_complete [OF _ this] show ?thesis
    using example_triage_facts e by (auto simp: example_settings_def)
qed

text \<open>
  C7: admission is idempotent. While the task that holds an idempotency key is live, enqueuing
  any task with the same key creates nothing: the answer names the live task, and its record,
  the new task's record and the ingress stream stay as they are.
\<close>

theorem enqueue_task_idempotent:
  assumes "well_typed db" "wf_task task" "0 < dedup_ttl_seconds cfg" "0 < ts (created_at task)"
    "str_at db (K_dedup (idempotency_key task)) = Some x" "live_task db x"
  shows "\<exists>db'. enqueue_task h ts cfg db task = (Inr \<lparr>enq_created = False, enq_task_id = x, enq_recovered = False\<rparr>, db') \<and>
    (\<forall>t. hash_at db' (K_task t) = hash_at db (K_task t)) \<and> stream_at db' K_ingress_stream = stream_at db K_ingress_stream \<and>
    live_task db' x \<and> str_at db' (K_dedup (idempotency_key task)) = Some x"
proof -
  obtain db' where d: "record_created h cfg db x (ts (created_at task)) = Some db'" "well_typed db'"
    "\<And>k. k \<noteq> K_lifecycle x \<Longrightarrow> k \<noteq> K_lifecycle_events x \<Longrightarrow> untouched k db db'"
    using record_created_wt [OF assms(1), of h cfg x] by metis
  note v = untouched_views [OF d(3)]
  have "enqueue_task h ts cfg db task = (Inr \<lparr>enq_created = False, enq_task_id = x, enq_recovered = False\<rparr>, db')"
    unfolding enqueue_task_def Let_def through_existing [OF assms(1-3,5,6)] using assms(4) d(1) by simp
  then show ?thesis using v assms(5,6) by (simp add: live_task_def admission_complete_def)
qed

theorem enqueue_task_idempotent_witness:
  "\<exists>db'. enqueue_task (\<lambda>s. s) (\<lambda>_. 5) example_settings (held_db (K_dedup ''k'')) example_triage =
     (Inr \<lparr>enq_created = False, enq_task_id = ''t'', enq_recovered = False\<rparr>, db')"
  using enqueue_task_idempotent [of "held_db (K_dedup ''k'')" example_triage example_settings "\<lambda>_. 5" "''t''" "\<lambda>s. s"]
    held_db_facts [of "K_dedup ''k''"] example_triage_facts(1,3) by (auto simp: example_settings_def)

text \<open>
  C8: one active triage task per merge request. While the triage task that the gate of an MR
  names is live, a triage command with a fresh idempotency key creates no task: the caller is
  given the active one, the gate stays, and the new key leads to the active task as well.
\<close>

theorem triage_gate_exclusive:
  assumes "well_typed db" "wf_task task" "0 < dedup_ttl_seconds cfg" "0 < ts (created_at task)"
    "triage_priority_over_auto cfg" "is_triage_task task"
    "str_at db (K_dedup (idempotency_key task)) = None" "str_at db (gate_key task) = Some a" "live_task db a"
  shows "\<exists>db'. enqueue_task h ts cfg db task = (Inr \<lparr>enq_created = False, enq_task_id = a, enq_recovered = False\<rparr>, db') \<and>
    str_at db' (gate_key task) = Some a \<and> str_at db' (K_dedup (idempotency_key task)) = Some a \<and>
    (\<forall>t. hash_at db' (K_task t) = hash_at db (K_task t)) \<and> stream_at db' K_ingress_stream = stream_at db K_ingress_stream"
proof -
  let ?db1 = "set_ex_w db (K_dedup (idempotency_key task)) a (dedup_ttl_seconds cfg)"
  have "well_typed ?db1" using assms(1) by (simp add: redis_simps)
  then obtain db' where d: "record_created h cfg ?db1 a (ts (created_at task)) = Some db'"
    "\<And>k. k \<noteq> K_lifecycle a \<Longrightarrow> k \<noteq> K_lifecycle_events a \<Longrightarrow> untouched k ?db1 db'"
    using record_created_wt [of ?db1 h cfg a] by metis
  have "gate_key task \<noteq> K_lifecycle a \<and> gate_key task \<noteq> K_lifecycle_events a" by (simp add: gate_key_def split: option.splits)
  then have v: "str_at db' (gate_key task) = Some a" "str_at db' (K_dedup (idempotency_key task)) = Some a"
    "hash_at db' (K_task t) = hash_at db (K_task t)" "stream_at db' K_ingress_stream = stream_at db K_ingress_stream" for t
    using untouched_views [OF d(2)] assms(8) by (simp_all add: view_simps)
  have "enqueue_task h ts cfg db task = (Inr \<lparr>enq_created = False, enq_task_id = a, enq_recovered = False\<rparr>, db')"
    unfolding enqueue_task_def Let_def
    using assms(4-6) d(1) through_gate_live [OF assms(1-3,7,8,9), of "ts (created_at task)"] by simp
  with v show ?thesis by blast
qed

theorem triage_gate_exclusive_witness:
  "\<exists>db'. enqueue_task (\<lambda>s. s) (\<lambda>_. 5) example_settings (held_db (K_mr_triage_active example_mr)) example_triage =
     (Inr \<lparr>enq_created = False, enq_task_id = ''t'', enq_recovered = False\<rparr>, db')"
  using triage_gate_exclusive [of "held_db (K_mr_triage_active example_mr)" example_triage example_settings "\<lambda>_. 5" "''t''" "\<lambda>s. s"]
    held_db_facts [of "K_mr_triage_active example_mr"] example_triage_facts by (auto simp: example_settings_def)

end
