(* ===== verification/Auto_Triage.thy ===== *)
theory Auto_Triage
  imports Admission
begin

text \<open>
  Triage before automatic workflows: the scripts that record the progress of an automatic
  workflow, pause it while a triage task holds the gate of its merge request, resume it
  afterwards, and repair the gate of a merge request, with the broker methods that call them.
\<close>

text \<open>As a congruence rule: a script is evaluated command by command, its continuation last.\<close>

lemma bind_head_cong: "m = m' \<Longrightarrow> Option.bind m f = Option.bind m' f"
  by simp

subsection \<open>Scripts\<close>

definition RECORD_AUTO_COMMAND_COMPLETED_LUA ::
  "redis \<Rightarrow> rkey \<Rightarrow> rkey \<Rightarrow> lua_arg \<Rightarrow> lua_arg \<Rightarrow> lua_arg \<Rightarrow> lua_arg \<Rightarrow> lua_arg \<Rightarrow> lua_arg \<Rightarrow> int reply"
where
  "RECORD_AUTO_COMMAND_COMPLETED_LUA db task_k lease_k w tok next_index completed head_sha now =
     do { status \<leftarrow> hget db task_k ''status'';
          if status \<noteq> Some ''running'' then Some (0, db) else
          do { ok \<leftarrow> lease_matches db lease_k w tok;
               if \<not> ok then Some (-1, db) else
               do { db1 \<leftarrow> hset db task_k [(''auto_next_command_index'', next_index), (''auto_completed_commands'', completed),
                             (''auto_workflow_head_sha'', head_sha), (''updated_at'', now)];
                    Some (1, db1) } } }"

definition PAUSE_AUTO_FOR_TRIAGE_LUA ::
  "redis \<Rightarrow> rkey \<Rightarrow> rkey \<Rightarrow> rkey \<Rightarrow> rkey \<Rightarrow> lua_arg \<Rightarrow> lua_arg \<Rightarrow> lua_arg \<Rightarrow> lua_arg \<Rightarrow> lua_arg \<Rightarrow> lua_arg \<Rightarrow> lua_arg \<Rightarrow> lua_arg \<Rightarrow> lua_arg \<Rightarrow>
   int reply"
where
  "PAUSE_AUTO_FOR_TRIAGE_LUA db task_k lease_k gate_k paused_k w tok triage auto next_index completed head_sha now mr_id =
     do { status \<leftarrow> hget db task_k ''status'';
          if status \<noteq> Some ''running'' then Some (0, db) else
          do { ok \<leftarrow> lease_matches db lease_k w tok;
               if \<not> ok then Some (-1, db) else
               do { active_triage \<leftarrow> get db gate_k;
                    if active_triage \<noteq> Some triage then Some (0, db) else
                    do { paused_auto \<leftarrow> get db paused_k;
                         if paused_auto \<noteq> None \<and> paused_auto \<noteq> Some auto then Some (-2, db) else
                         do { db1 \<leftarrow> hset db task_k
                                [(''status'', ''paused_by_triage''), (''auto_next_command_index'', next_index),
                                 (''auto_completed_commands'', completed), (''auto_workflow_head_sha'', head_sha),
                                 (''paused_by_triage_task_id'', triage), (''wait_kind'', ''mr_priority''),
                                 (''wait_identity'', mr_id), (''updated_at'', now)];
                              Some (1, set_w db1 paused_k auto) } } } } }"

definition RESUME_AUTO_AFTER_TRIAGE_LUA ::
  "redis \<Rightarrow> rkey \<Rightarrow> rkey \<Rightarrow> rkey \<Rightarrow> rkey \<Rightarrow> rkey \<Rightarrow> rkey \<Rightarrow> lua_arg \<Rightarrow> lua_arg \<Rightarrow> lua_arg \<Rightarrow> lua_arg \<Rightarrow> lua_arg \<Rightarrow> int reply"
where
  "RESUME_AUTO_AFTER_TRIAGE_LUA db gate_k paused_k lease_k triage_k worker_tasks_k inbox_k triage w tok now delivery =
     do { active_triage \<leftarrow> get db gate_k;
          if active_triage \<noteq> Some triage then Some (0, db) else
          do { ok \<leftarrow> lease_matches db lease_k w tok;
               if \<not> ok then Some (-1, db) else
               do { triage_status \<leftarrow> hget db triage_k ''status'';
                    if triage_status \<noteq> Some ''completed'' \<and> triage_status \<noteq> Some ''failed'' \<and> triage_status \<noteq> Some ''canceled''
                    then Some (0, db) else
                    do { paused_auto \<leftarrow> get db paused_k;
                         case paused_auto of
                           None \<Rightarrow> Some (0, del db gate_k)
                         | Some auto \<Rightarrow>
                             do { auto_status \<leftarrow> hget db (K_task auto) ''status'';
                                  paused_by \<leftarrow> hget db (K_task auto) ''paused_by_triage_task_id'';
                                  if auto_status \<noteq> Some ''paused_by_triage'' \<or> paused_by \<noteq> Some triage then Some (0, db) else
                                  do { old \<leftarrow> hget db (K_task auto) ''worker_id'';
                                       db1 \<leftarrow> (if or_else old [] \<noteq> [] then srem db (K_worker_tasks (or_else old [])) auto else Some db);
                                       db2 \<leftarrow> hset db1 (K_task auto) [(''status'', ''assigned''), (''worker_id'', w),
                                                (''fencing_token'', tok), (''updated_at'', now)];
                                       db3 \<leftarrow> sadd db2 worker_tasks_k auto;
                                       (_, db4) \<leftarrow> xadd db3 inbox_k [(''task_id'', auto), (''delivery_kind'', delivery),
                                                     (''payload'', ''{}'')];
                                       Some (1, del (del db4 gate_k) paused_k) } } } } } }"

subsection \<open>Lua values\<close>

text \<open>A member as a condition sees it: \<open>nil\<close> and \<open>false\<close> do not hold, \<open>null\<close> does.\<close>

fun lua_truthy :: "json option \<Rightarrow> bool" where
  "lua_truthy None = False"
| "lua_truthy (Some (JBool b)) = b"
| "lua_truthy (Some _) = True"

text \<open>\<open>tonumber\<close> on a decoded value; the numbers of the records are whole.\<close>

fun lua_tonumber :: "json option \<Rightarrow> int option" where
  "lua_tonumber (Some (JInt i)) = Some i"
| "lua_tonumber (Some (JStr s)) = tonumber s"
| "lua_tonumber _ = None"

text \<open>\<open>tostring\<close>; a table prints its address, which is no identifier of a record.\<close>

fun lua_tostring :: "json \<Rightarrow> string" where
  "lua_tostring (JStr s) = s"
| "lua_tostring (JInt i) = show_int i"
| "lua_tostring (JFloat l) = l"
| "lua_tostring (JBool b) = (if b then ''true'' else ''false'')"
| "lua_tostring JNull = ''userdata: NULL''"
| "lua_tostring _ = ''table: ''"

text \<open>\<open>type(x) == 'string' and x or ''\<close>.\<close>

fun lua_string :: "json option \<Rightarrow> string" where
  "lua_string (Some (JStr s)) = s"
| "lua_string _ = []"

definition or_value :: "json option \<Rightarrow> string \<Rightarrow> json" where
  "or_value v d = (if lua_truthy v then the v else JStr d)"

text \<open>\<open>t.field = value\<close>: assigning \<open>nil\<close> removes the member.\<close>

definition set_member :: "string \<Rightarrow> json option \<Rightarrow> dict \<Rightarrow> dict" where
  "set_member k v d = (case v of None \<Rightarrow> AList.delete k d | Some j \<Rightarrow> AList.update k j d)"

subsection \<open>Repairing the gate of a merge request\<close>

definition release_gate :: "redis \<Rightarrow> rkey \<Rightarrow> rkey \<Rightarrow> rkey \<Rightarrow> string \<Rightarrow> redis option" where
  "release_gate db gate_k mr_tasks_k active_k tid =
     do { g \<leftarrow> get db gate_k;
          db2 \<leftarrow> srem (if g = Some tid then del db gate_k else db) mr_tasks_k tid;
          zrem db2 active_k tid }"

definition queued_markdown :: string where
  "queued_markdown =
     [CHR 0xE5, CHR 0xB7, CHR 0xB2, CHR 0xE8, CHR 0xBF, CHR 0x9B, CHR 0xE5, CHR 0x85, CHR 0xA5, CHR 0xE4, CHR 0xBF,
      CHR 0xAE, CHR 0xE5, CHR 0xA4, CHR 0x8D, CHR 0xE9, CHR 0x98, CHR 0x9F, CHR 0xE5, CHR 0x88, CHR 0x97]"

text \<open>The loop over the items of a card: every item of the category that is free, or the task's own, is queued.\<close>

fun requeue_items ::
  "string \<Rightarrow> string \<Rightarrow> int option \<Rightarrow> string \<Rightarrow> json list \<Rightarrow> (bool \<times> json list) option"
where
  "requeue_items category tid pipeline_id sha [] = Some (False, [])"
| "requeue_items category tid pipeline_id sha (item # items) =
     do { c \<leftarrow> lua_field item ''category'';
          st \<leftarrow> lua_field item ''status'';
          t \<leftarrow> lua_field item ''task_id'';
          (found, rest) \<leftarrow> requeue_items category tid pipeline_id sha items;
          if c = Some (JStr category) \<and> (st = Some (JStr ''pending'') \<or> st = Some (JStr ''failed'') \<or> t = Some (JStr tid)) then
            (case item of
               JObj d \<Rightarrow> Some (True,
                 JObj (AList.update ''status_markdown'' (JStr queued_markdown)
                   (AList.update ''pipeline_sha'' (JStr sha)
                     (set_member ''pipeline_id'' (map_option JInt pipeline_id)
                       (AList.update ''task_id'' (JStr tid) (AList.update ''status'' (JStr ''queued'') d))))) # rest)
             | _ \<Rightarrow> None)
          else Some (found, item # rest) }"

fun lua_ipairs :: "json \<Rightarrow> json list option" where
  "lua_ipairs (JArr xs) = Some xs"
| "lua_ipairs (JObj d) = Some []"
| "lua_ipairs _ = None"

record card_recovery =
  cr_card_id :: string
  cr_ttl :: int
  cr_open_message_id :: string
  cr_category :: string
  cr_revision :: int
  cr_items :: json

text \<open>
  The card named by the admission context. \<open>Some None\<close>: the card does not fit the task;
  \<open>None\<close>: the script fails.
\<close>

definition recover_card ::
  "redis \<Rightarrow> json \<Rightarrow> string \<Rightarrow> string \<Rightarrow> int \<Rightarrow> string \<Rightarrow> card_recovery option option"
where
  "recover_card db ctx card_id project mr_no tid =
     (let card_k = K_triage_card card_id in
      do { ttl_v \<leftarrow> lua_field ctx ''ttl_seconds'';
           open_v \<leftarrow> lua_field ctx ''open_message_id'';
           cat_v \<leftarrow> lua_field ctx ''category'';
           let ttl = lua_tonumber (Some (or_value ttl_v ''0'')); msg = lua_string open_v; category = lua_string cat_v in
           do { valid1 \<leftarrow>
                  (if \<not> (exists_key db card_k \<and> type_ok db card_k KHash) then Some False else
                   do { p \<leftarrow> hget db card_k ''project_id'';
                        i \<leftarrow> hget db card_k ''mr_iid'';
                        if p \<noteq> Some project \<or> tonumber (or_else i ''0'') \<noteq> Some mr_no then Some False
                        else do { n \<leftarrow> ttl; Some (n > 0 \<and> msg \<noteq> [] \<and> category \<noteq> []) } });
                cp \<leftarrow> hget db card_k ''current_pipeline_id'';
                pid \<leftarrow> hget db card_k ''pipeline_id'';
                cs \<leftarrow> hget db card_k ''current_pipeline_sha'';
                sha \<leftarrow> hget db card_k ''pipeline_sha'';
                pv \<leftarrow> lua_field ctx ''pipeline_id'';
                sv \<leftarrow> lua_field ctx ''pipeline_sha'';
                rev \<leftarrow> hget db card_k ''revision'';
                rv \<leftarrow> lua_field ctx ''revision'';
                act \<leftarrow> hget db card_k ''active_task_id'';
                let card_revision = tonumber (or_else rev ''0''); ctx_revision = lua_tonumber (Some (or_value rv ''-1'')) in
                do { valid2 \<leftarrow>
                       (if \<not> valid1 \<or> or_else cp (or_else pid []) \<noteq> lua_tostring (or_value pv [])
                           \<or> or_else cs (or_else sha []) \<noteq> lua_string sv then Some False
                        else if card_revision = ctx_revision then Some True
                        else do { n \<leftarrow> ctx_revision; Some (card_revision = Some (n + 1) \<and> or_else act [] = tid) });
                     raw \<leftarrow> hget db card_k ''repair_items'';
                     if \<not> valid2 then Some None else
                     (case loads (or_else raw ''[]'') of
                        None \<Rightarrow> Some None
                      | Some items \<Rightarrow>
                          if \<not> lua_truthy (Some items) then Some None else
                          do { xs \<leftarrow> lua_ipairs items;
                               (matched, ys) \<leftarrow> requeue_items category tid (lua_tonumber pv) (lua_string sv) xs;
                               if \<not> matched then Some None else
                               do { n \<leftarrow> ttl;
                                    r \<leftarrow> card_revision;
                                    Some (Some \<lparr>cr_card_id = card_id, cr_ttl = n, cr_open_message_id = msg, cr_category = category,
                                      cr_revision = r, cr_items = JArr ys\<rparr>) } }) } } })"

text \<open>Whether the stored payload belongs to the merge request of the gate.\<close>

definition payload_fits :: "json \<Rightarrow> json \<Rightarrow> string \<Rightarrow> int \<Rightarrow> bool option" where
  "payload_fits ctx pl project mr_no =
     (if \<not> lua_truthy (Some ctx) \<or> \<not> lua_truthy (Some pl) then Some False else
      do { m \<leftarrow> lua_field pl ''mr'';
           if \<not> lua_truthy m then Some False else
           do { p \<leftarrow> lua_field (the m) ''project_id'';
                i \<leftarrow> lua_field (the m) ''iid'';
                Some (p = Some (JStr project) \<and> lua_tonumber i = Some mr_no) } })"

text \<open>The context of an unfinished admission: \<open>Some None\<close> when it is not valid.\<close>

definition admission_valid ::
  "redis \<Rightarrow> rkey \<Rightarrow> string \<Rightarrow> string \<Rightarrow> int \<Rightarrow> card_recovery option option option"
where
  "admission_valid db task_k tid project mr_no =
     do { raw_ctx \<leftarrow> hget db task_k ''admission_context'';
          raw_pl \<leftarrow> hget db task_k ''payload'';
          case (loads (or_else raw_ctx []), loads (or_else raw_pl [])) of
            (Some ctx, Some pl) \<Rightarrow>
              do { fits \<leftarrow> payload_fits ctx pl project mr_no;
                   if \<not> fits then Some None else
                   do { cid \<leftarrow> lua_field ctx ''card_id'';
                        if lua_string cid = [] then Some (Some None) else
                        do { c \<leftarrow> recover_card db ctx (lua_string cid) project mr_no tid;
                             Some (map_option Some c) } } }
          | _ \<Rightarrow> Some None }"

definition restore_card :: "redis \<Rightarrow> card_recovery \<Rightarrow> string \<Rightarrow> string \<Rightarrow> redis option" where
  "restore_card db c tid now =
     (let card_k = K_triage_card (cr_card_id c) in
      do { act \<leftarrow> hget db card_k ''active_task_id'';
           db1 \<leftarrow> hset db card_k
             [(''task_id'', tid), (''active_task_id'', tid), (''active_category'', cr_category c),
              (''repair_items'', cjson_encode (cr_items c)),
              (''revision'', show_int (if or_else act [] = tid then cr_revision c else cr_revision c + 1)),
              (''open_message_id'', cr_open_message_id c), (''updated_at'', now)];
           Some (set_ex_w (expire_w db1 card_k (cr_ttl c)) (K_task_triage_card tid) (cr_card_id c) (cr_ttl c)) })"

definition RECONCILE_ADMISSION_GATE_LUA ::
  "redis \<Rightarrow> rkey \<Rightarrow> rkey \<Rightarrow> rkey \<Rightarrow> rkey \<Rightarrow> rkey \<Rightarrow> lua_arg \<Rightarrow> int \<Rightarrow> lua_arg \<Rightarrow> int \<Rightarrow> int reply"
where
  "RECONCILE_ADMISSION_GATE_LUA db gate_k task_k mr_tasks_k active_k ingress_k tid now project mr_no =
     do { g \<leftarrow> get db gate_k;
          if g \<noteq> Some tid then Some (0, db)
          else if \<not> exists_key db task_k then
            do { db1 \<leftarrow> release_gate db gate_k mr_tasks_k active_k tid; Some (3, db1) }
          else if \<not> type_ok db task_k KHash then Some (-1, db)
          else
            do { st \<leftarrow> hget db task_k ''status'';
                 if st = Some ''completed'' \<or> st = Some ''failed'' \<or> st = Some ''canceled'' then
                   do { db1 \<leftarrow> release_gate db gate_k mr_tasks_k active_k tid; Some (3, db1) }
                 else
                   do { member \<leftarrow> sismember db mr_tasks_k tid;
                        score \<leftarrow> zscore db active_k tid;
                        adm \<leftarrow> hget db task_k ''admission_state'';
                        msg \<leftarrow> hget db task_k ''ingress_message_id'';
                        if st = Some ''queued'' \<and> (or_else adm [] \<noteq> ''enqueued'' \<or> or_else msg [] = []) then
                          do { valid \<leftarrow> admission_valid db task_k tid project mr_no;
                               case valid of
                                 None \<Rightarrow>
                                   do { db1 \<leftarrow> hset db task_k [(''status'', ''failed''), (''error'', ''admission_incomplete''),
                                                 (''updated_at'', show_int now)];
                                        db2 \<leftarrow> release_gate db1 gate_k mr_tasks_k active_k tid;
                                        Some (2, db2) }
                               | Some found \<Rightarrow>
                                   do { db1 \<leftarrow> sadd db mr_tasks_k tid;
                                        db2 \<leftarrow> zadd db1 active_k now tid;
                                        (mid, db3) \<leftarrow> xadd db2 ingress_k [(''task_id'', tid)];
                                        db4 \<leftarrow> hset db3 task_k [(''admission_state'', ''enqueued''), (''ingress_message_id'', mid),
                                                 (''updated_at'', show_int now)];
                                        db5 \<leftarrow> (case found of None \<Rightarrow> Some db4 | Some c \<Rightarrow> restore_card db4 c tid (show_int now));
                                        Some (1, db5) } }
                        else if \<not> member \<or> score = None then
                          do { db1 \<leftarrow> sadd db mr_tasks_k tid;
                               db2 \<leftarrow> zadd db1 active_k now tid;
                               Some (4, db2) }
                        else Some (0, db) } } }"

subsection \<open>Broker methods\<close>

definition dumps_commands :: "string list \<Rightarrow> string" where
  "dumps_commands cs = dumps (JArr (map JStr cs))"

definition record_auto_command_completed ::
  "redis \<Rightarrow> string \<Rightarrow> int \<Rightarrow> string list \<Rightarrow> string \<Rightarrow> mr_lease \<Rightarrow> int \<Rightarrow> bool answer"
where
  "record_auto_command_completed db tid next_index completed head_sha l now =
     on_reply db
       (RECORD_AUTO_COMMAND_COMPLETED_LUA db (K_task tid) (K_mr_lease (lease_mr l)) (lease_worker_id l)
          (show_int (lease_fencing_token l)) (show_int next_index) (dumps_commands completed) head_sha (show_int now))
       (\<lambda>r. if r = -1 then Inl (LostLeaseError tid) else Inr (r = 1))"

definition active_triage_task_id :: "admission_settings \<Rightarrow> redis \<Rightarrow> mr_key \<Rightarrow> string option" where
  "active_triage_task_id cfg db m =
     (if \<not> triage_priority_over_auto cfg then Some [] else do { v \<leftarrow> get db (K_mr_triage_active m); Some (or_else v []) })"

definition has_pending_triage :: "admission_settings \<Rightarrow> redis \<Rightarrow> mr_key \<Rightarrow> bool option" where
  "has_pending_triage cfg db m = map_option (\<lambda>t. t \<noteq> []) (active_triage_task_id cfg db m)"

definition pause_auto_for_triage ::
  "redis \<Rightarrow> string \<Rightarrow> mr_key \<Rightarrow> string \<Rightarrow> int \<Rightarrow> string list \<Rightarrow> string \<Rightarrow> mr_lease \<Rightarrow> int \<Rightarrow> bool answer"
where
  "pause_auto_for_triage db tid m triage next_index completed head_sha l now =
     (if lease_mr l \<noteq> m then (Inl (LostLeaseError tid), db) else
      on_reply db
        (PAUSE_AUTO_FOR_TRIAGE_LUA db (K_task tid) (K_mr_lease m) (K_mr_triage_active m) (K_mr_paused_auto m)
           (lease_worker_id l) (show_int (lease_fencing_token l)) triage tid (show_int next_index)
           (dumps_commands completed) head_sha (show_int now) (redis_id m))
        (\<lambda>r. if r = -1 then Inl (LostLeaseError tid)
             else if r = -2 then Inl (RuntimeErr (''another auto workflow is already paused for '' @ redis_id m))
             else Inr (r = 1)))"

definition resume_auto_after_triage :: "redis \<Rightarrow> mr_key \<Rightarrow> string \<Rightarrow> string \<Rightarrow> int \<Rightarrow> int \<Rightarrow> bool answer" where
  "resume_auto_after_triage db m triage w tok now =
     on_reply db
       (RESUME_AUTO_AFTER_TRIAGE_LUA db (K_mr_triage_active m) (K_mr_paused_auto m) (K_mr_lease m) (K_task triage)
          (K_worker_tasks w) (K_worker_inbox w) triage w (show_int tok) (show_int now) (delivery_kind_value DK_RESUME_AUTO))
       (\<lambda>r. if r = -1 then Inl (LostLeaseError triage) else Inr (r = 1))"

text \<open>The gates found by one step of a scan; the cursor and the batch of keys come from Redis.\<close>

fun gates_of_keys :: "string \<Rightarrow> (string \<Rightarrow> string option) \<Rightarrow> string list \<Rightarrow> (mr_key \<times> string) list" where
  "gates_of_keys prefix value_of [] = []"
| "gates_of_keys prefix value_of (k # ks) =
     (case parse_triage_gate prefix k of
        None \<Rightarrow> gates_of_keys prefix value_of ks
      | Some m \<Rightarrow> (case value_of k of
            None \<Rightarrow> gates_of_keys prefix value_of ks
          | Some t \<Rightarrow> if t = [] then gates_of_keys prefix value_of ks else (m, t) # gates_of_keys prefix value_of ks))"

definition reconcile_segment :: "string \<Rightarrow> string" where
  "reconcile_segment outcome =
     (if outcome = ''recovered'' then ''admission_recovered''
      else if outcome = ''failed'' then ''admission_failed''
      else if outcome = ''released'' then ''stale_gate_released''
      else ''admission_index_rebuilt'')"

definition hincrby :: "redis \<Rightarrow> rkey \<Rightarrow> string \<Rightarrow> int \<Rightarrow> redis option" where
  "hincrby db k f n =
     do { old \<leftarrow> hget db k f; i \<leftarrow> parse_int (or_else old ''0''); hset db k [(f, show_int (i + n))] }"

definition reconcile_admission_gate ::
  "(string \<Rightarrow> string) \<Rightarrow> int \<Rightarrow> redis \<Rightarrow> mr_key \<Rightarrow> string \<Rightarrow> int \<Rightarrow> string answer"
where
  "reconcile_admission_gate sha256_hex event_ttl db m tid now =
     (case RECONCILE_ADMISSION_GATE_LUA db (K_mr_triage_active m) (K_task tid) (K_mr_tasks m) K_active_repairs K_ingress_stream
             tid now (project_id m) (iid m) of
        None \<Rightarrow> (Inl RedisError, db)
      | Some (r, db1) \<Rightarrow>
          (case map_of [(0, ''healthy''), (1, ''recovered''), (2, ''failed''), (3, ''released''), (4, ''rebuilt'')] r of
             None \<Rightarrow> (Inl (RuntimeErr (''cannot reconcile admission gate for '' @ redis_id m @ '': code='' @ show_int r)), db1)
           | Some outcome \<Rightarrow>
               if outcome = ''healthy'' then (Inr outcome, db1) else
               (case lifecycle_event_new sha256_hex now tid ''queue'' ''point'' (reconcile_segment outcome) None
                       [(''reconciliation'', JStr outcome)] of
                  None \<Rightarrow> (Inl (ValueError ''lifecycle event''), db1)
                | Some ev \<Rightarrow>
                    (case record_lifecycle_event db1 event_ttl ev of
                       None \<Rightarrow> (Inl RedisError, db1)
                     | Some (_, db2) \<Rightarrow>
                         (case hincrby db2 K_repair_reconciliation_metrics outcome 1 of
                            None \<Rightarrow> (Inl RedisError, db2)
                          | Some db3 \<Rightarrow> (Inr outcome, db3))))))"

subsection \<open>Evaluation on a well-typed keyspace\<close>

definition auto_paused :: "redis \<Rightarrow> mr_key \<Rightarrow> string \<Rightarrow> string \<Rightarrow> bool" where
  "auto_paused db m triage auto \<longleftrightarrow> str_at db (K_mr_triage_active m) = Some triage \<and> str_at db (K_mr_paused_auto m) = Some auto \<and>
     hash_at db (K_task auto) ''status'' = Some ''paused_by_triage'' \<and>
     hash_at db (K_task auto) ''paused_by_triage_task_id'' = Some triage"

definition paused_w ::
  "redis \<Rightarrow> mr_key \<Rightarrow> string \<Rightarrow> string \<Rightarrow> int \<Rightarrow> string list \<Rightarrow> string \<Rightarrow> int \<Rightarrow> redis"
where
  "paused_w db m triage auto next_index completed head_sha now =
     set_w (hset_w db (K_task auto)
       [(''status'', ''paused_by_triage''), (''auto_next_command_index'', show_int next_index),
        (''auto_completed_commands'', dumps_commands completed), (''auto_workflow_head_sha'', head_sha),
        (''paused_by_triage_task_id'', triage), (''wait_kind'', ''mr_priority''),
        (''wait_identity'', redis_id m), (''updated_at'', show_int now)]) (K_mr_paused_auto m) auto"

lemma pause_eval:
  assumes "well_typed db"
  shows "pause_auto_for_triage db auto m triage n cs sha l now =
    (if lease_mr l \<noteq> m then (Inl (LostLeaseError auto), db)
     else if hash_at db (K_task auto) ''status'' \<noteq> Some ''running'' then (Inr False, db)
     else if \<not> holds_lease db (K_mr_lease m) (lease_worker_id l) (show_int (lease_fencing_token l)) then (Inl (LostLeaseError auto), db)
     else if str_at db (K_mr_triage_active m) \<noteq> Some triage then (Inr False, db)
     else if str_at db (K_mr_paused_auto m) \<notin> {None, Some auto}
       then (Inl (RuntimeErr (''another auto workflow is already paused for '' @ redis_id m)), db)
     else (Inr True, paused_w db m triage auto n cs sha now))"
  using assms by (auto simp: pause_auto_for_triage_def PAUSE_AUTO_FOR_TRIAGE_LUA_def redis_simps paused_w_def)

definition resumed_w :: "redis \<Rightarrow> mr_key \<Rightarrow> string \<Rightarrow> string \<Rightarrow> string \<Rightarrow> int \<Rightarrow> redis" where
  "resumed_w db m auto w tok now =
     (let old = or_else (hash_at db (K_task auto) ''worker_id'') [];
          db1 = (if old \<noteq> [] then srem_w db (K_worker_tasks old) auto else db);
          db2 = hset_w db1 (K_task auto) [(''status'', ''assigned''), (''worker_id'', w), (''fencing_token'', tok),
                  (''updated_at'', show_int now)];
          db3 = xadd_w (sadd_w db2 (K_worker_tasks w) auto) (K_worker_inbox w)
                  [(''task_id'', auto), (''delivery_kind'', ''resume_auto''), (''payload'', ''{}'')]
      in del (del db3 (K_mr_triage_active m)) (K_mr_paused_auto m))"

lemma resume_gone:
  assumes "well_typed db" "str_at db (K_mr_triage_active m) \<noteq> Some triage"
  shows "resume_auto_after_triage db m triage w tok now = (Inr False, db)"
  using assms by (simp add: resume_auto_after_triage_def RESUME_AUTO_AFTER_TRIAGE_LUA_def redis_simps)

lemma resume_paused:
  assumes "well_typed db" "auto_paused db m triage auto" "terminal_status (hash_at db (K_task triage) ''status'')"
    "holds_lease db (K_mr_lease m) w (show_int tok)"
  shows "resume_auto_after_triage db m triage w tok now = (Inr True, resumed_w db m auto w (show_int tok) now)"
  using assms
  by (auto simp: resume_auto_after_triage_def RESUME_AUTO_AFTER_TRIAGE_LUA_def redis_simps auto_paused_def
      terminal_status_def resumed_w_def Let_def)

lemma resumed_w_facts:
  "hash_at (resumed_w db m auto w tok now) (K_task auto) = (hash_at db (K_task auto))(''status'' \<mapsto> ''assigned'', ''worker_id'' \<mapsto> w,
     ''fencing_token'' \<mapsto> tok, ''updated_at'' \<mapsto> show_int now)"
  "str_at (resumed_w db m auto w tok now) (K_mr_triage_active m) = None"
  "str_at (resumed_w db m auto w tok now) (K_mr_paused_auto m) = None"
  "auto \<in> set (set_at (resumed_w db m auto w tok now) (K_worker_tasks w))"
  "entries (stream_at (resumed_w db m auto w tok now) (K_worker_inbox w)) =
     entries (stream_at db (K_worker_inbox w)) @ [(next_id db (K_worker_inbox w),
       [(''task_id'', auto), (''delivery_kind'', ''resume_auto''), (''payload'', ''{}'')])]"
  by (simp_all add: resumed_w_def Let_def view_simps next_id_def)

lemma resumed_w_wt: "well_typed db \<Longrightarrow> well_typed (resumed_w db m auto w tok now)"
  by (simp add: resumed_w_def Let_def redis_simps)

lemma queue_point_event: "\<exists>ev. lifecycle_event_new h now t ''queue'' ''point'' seg occ md = Some ev"
  using lifecycle_readers(1) [of LP_QUEUE] lifecycle_readers(2) [of LK_POINT]
  by (simp add: lifecycle_event_new_def Let_def)

definition released_w :: "redis \<Rightarrow> mr_key \<Rightarrow> string \<Rightarrow> redis" where
  "released_w db m tid = zrem_w (srem_w (del db (K_mr_triage_active m)) (K_mr_tasks m) tid) K_active_repairs tid"

lemma reconcile_terminal_script:
  assumes "well_typed db" "str_at db (K_mr_triage_active m) = Some tid" "terminal_status (hash_at db (K_task tid) ''status'')"
  shows "RECONCILE_ADMISSION_GATE_LUA db (K_mr_triage_active m) (K_task tid) (K_mr_tasks m) K_active_repairs K_ingress_stream
      tid now p i = Some (3, released_w db m tid)"
proof -
  have "exists_key db (K_task tid)" using assms(3) by (auto simp: terminal_status_def view_defs split: option.splits)
  moreover have "hash_at db (K_task tid) ''status'' = Some ''completed'' \<or> hash_at db (K_task tid) ''status'' = Some ''failed'' \<or>
      hash_at db (K_task tid) ''status'' = Some ''canceled''" using assms(3) by (simp add: terminal_status_def)
  ultimately show ?thesis
    using assms(1,2)
    by (simp add: RECONCILE_ADMISSION_GATE_LUA_def release_gate_def redis_simps released_w_def cong: bind_head_cong)
qed

lemma released_w_facts:
  "well_typed db \<Longrightarrow> well_typed (released_w db m tid)" "str_at (released_w db m tid) (K_mr_triage_active m) = None"
  "str_at (released_w db m tid) (K_mr_paused_auto m) = str_at db (K_mr_paused_auto m)"
  "hash_at (released_w db m tid) (K_task t) = hash_at db (K_task t)"
  "hash_at (released_w db m tid) K_repair_reconciliation_metrics = hash_at db K_repair_reconciliation_metrics"
  by (simp_all add: released_w_def redis_simps view_simps)

lemma reconcile_terminal:
  assumes "well_typed db" "str_at db (K_mr_triage_active m) = Some tid" "terminal_status (hash_at db (K_task tid) ''status'')"
    "parse_int (or_else (hash_at db K_repair_reconciliation_metrics ''released'') ''0'') \<noteq> None"
  shows "\<exists>db1. reconcile_admission_gate h ttl db m tid now = (Inr ''released'', db1) \<and> well_typed db1 \<and>
    str_at db1 (K_mr_triage_active m) = None \<and> str_at db1 (K_mr_paused_auto m) = str_at db (K_mr_paused_auto m) \<and>
    (\<forall>t. hash_at db1 (K_task t) = hash_at db (K_task t))"
proof -
  let ?db1 = "released_w db m tid"
  note s = reconcile_terminal_script [OF assms(1-3)]
  have wt: "well_typed ?db1" using assms(1) by (rule released_w_facts)
  obtain ev where ev: "lifecycle_event_new h now tid ''queue'' ''point'' ''stale_gate_released'' None
      [(''reconciliation'', JStr ''released'')] = Some ev"
    using queue_point_event by blast
  have tid: "le_task_id ev = tid" using ev by (rule lifecycle_event_new_task)
  obtain b db2 where db2: "record_lifecycle_event ?db1 ttl ev = Some (b, db2)" "well_typed db2"
    "\<And>k. k \<noteq> K_lifecycle tid \<Longrightarrow> k \<noteq> K_lifecycle_events tid \<Longrightarrow> untouched k ?db1 db2"
    using record_lifecycle_event_wt [OF wt, of ttl ev] unfolding tid by blast
  note v = untouched_views [OF db2(3)]
  have "hash_at db2 K_repair_reconciliation_metrics = hash_at db K_repair_reconciliation_metrics"
    using v(2) [of K_repair_reconciliation_metrics] by (simp add: released_w_facts)
  then obtain n where n: "parse_int (or_else (hash_at db2 K_repair_reconciliation_metrics ''released'') ''0'') = Some n"
    using assms(4) by auto
  then have "hincrby db2 K_repair_reconciliation_metrics ''released'' 1 =
      Some (hset_w db2 K_repair_reconciliation_metrics [(''released'', show_int (n + 1))])"
    using db2(2) by (simp add: hincrby_def redis_simps)
  then have "reconcile_admission_gate h ttl db m tid now =
      (Inr ''released'', hset_w db2 K_repair_reconciliation_metrics [(''released'', show_int (n + 1))])"
    unfolding reconcile_admission_gate_def s using ev db2(1) by (simp add: reconcile_segment_def)
  moreover have "str_at db2 (K_mr_triage_active m) = None" "str_at db2 (K_mr_paused_auto m) = str_at db (K_mr_paused_auto m)"
    "hash_at db2 (K_task t) = hash_at db (K_task t)" for t
    using v(1) [of "K_mr_triage_active m"] v(1) [of "K_mr_paused_auto m"] v(2) [of "K_task t"] by (simp_all add: released_w_facts)
  ultimately show ?thesis using db2(2) by (simp add: view_simps redis_simps)
qed

definition auto_db :: "string \<Rightarrow> redis" where
  "auto_db triage_status =
     set_w (hset_w (hset_w (hset_w empty_redis (K_task ''a'') [(''status'', ''running'')])
       (K_task ''t'') [(''status'', triage_status)])
       (K_mr_lease example_mr) [(''worker_id'', ''w''), (''fencing_token'', show_int 1)]) (K_mr_triage_active example_mr) ''t''"

abbreviation example_lease :: mr_lease where
  "example_lease \<equiv> \<lparr>lease_mr = example_mr, lease_worker_id = ''w'', lease_fencing_token = 1\<rparr>"

lemma auto_db_facts:
  "well_typed (auto_db st)" "holds_lease (auto_db st) (K_mr_lease example_mr) ''w'' (show_int 1)"
  "hash_at (auto_db st) (K_task ''t'') ''status'' = Some st" "hash_at (auto_db st) K_repair_reconciliation_metrics f = None"
  "pause_auto_for_triage (auto_db st) ''a'' example_mr ''t'' 2 [''/review''] ''c0'' example_lease 5 =
     (Inr True, paused_w (auto_db st) example_mr ''t'' ''a'' 2 [''/review''] ''c0'' 5)"
proof -
  show wt: "well_typed (auto_db st)" by (simp add: auto_db_def redis_simps)
  show "pause_auto_for_triage (auto_db st) ''a'' example_mr ''t'' 2 [''/review''] ''c0'' example_lease 5 =
     (Inr True, paused_w (auto_db st) example_mr ''t'' ''a'' 2 [''/review''] ''c0'' 5)"
    by (simp add: pause_eval [OF wt]) (simp add: auto_db_def view_simps holds_lease_def)
qed (simp_all add: auto_db_def view_simps holds_lease_def)

lemma paused_w_facts:
  assumes "well_typed db"
  shows "well_typed (paused_w db m tr a n cs sha now)"
    "t \<noteq> a \<Longrightarrow> hash_at (paused_w db m tr a n cs sha now) (K_task t) = hash_at db (K_task t)"
    "hash_at (paused_w db m tr a n cs sha now) (K_mr_lease m') = hash_at db (K_mr_lease m')"
    "hash_at (paused_w db m tr a n cs sha now) K_repair_reconciliation_metrics = hash_at db K_repair_reconciliation_metrics"
    "str_at db (K_mr_triage_active m) = Some tr \<Longrightarrow> auto_paused (paused_w db m tr a n cs sha now) m tr a"
  using assms by (simp_all add: paused_w_def redis_simps view_simps auto_paused_def)

section \<open>Properties\<close>

text \<open>
  C15: a paused workflow comes back where it stopped. When an automatic workflow was paused for a
  triage task, then at any later time, with the gate and the pause as they were and the triage
  task finished, the worker that holds the merge request resumes it: the workflow is assigned to
  that worker with the cursor recorded at the pause, is in the worker's task set, has exactly one
  new delivery in its inbox, gate and pause mark are gone, and a second resumption does nothing.
\<close>

theorem pause_resume_round_trip:
  assumes "well_typed db" "pause_auto_for_triage db auto m triage n cs sha l now = (Inr True, db1)"
    "well_typed db2" "hash_at db2 (K_task auto) = hash_at db1 (K_task auto)"
    "str_at db2 (K_mr_triage_active m) = str_at db1 (K_mr_triage_active m)"
    "str_at db2 (K_mr_paused_auto m) = str_at db1 (K_mr_paused_auto m)"
    "terminal_status (hash_at db2 (K_task triage) ''status'')" "holds_lease db2 (K_mr_lease m) w (show_int tok)"
  shows "\<exists>db3. resume_auto_after_triage db2 m triage w tok now' = (Inr True, db3) \<and>
    hash_at db3 (K_task auto) ''status'' = Some ''assigned'' \<and> hash_at db3 (K_task auto) ''worker_id'' = Some w \<and>
    hash_at db3 (K_task auto) ''auto_next_command_index'' = Some (show_int n) \<and>
    hash_at db3 (K_task auto) ''auto_completed_commands'' = Some (dumps_commands cs) \<and>
    hash_at db3 (K_task auto) ''auto_workflow_head_sha'' = Some sha \<and> tracked db3 auto w \<and>
    entries (stream_at db3 (K_worker_inbox w)) = entries (stream_at db2 (K_worker_inbox w)) @
      [(next_id db2 (K_worker_inbox w), [(''task_id'', auto), (''delivery_kind'', ''resume_auto''), (''payload'', ''{}'')])] \<and>
    str_at db3 (K_mr_triage_active m) = None \<and> str_at db3 (K_mr_paused_auto m) = None \<and>
    resume_auto_after_triage db3 m triage w tok now' = (Inr False, db3)"
proof -
  have p: "db1 = paused_w db m triage auto n cs sha now" "str_at db (K_mr_triage_active m) = Some triage"
    using assms(2) by (auto simp: pause_eval [OF assms(1)] split: if_splits)
  have f: "hash_at db2 (K_task auto) ''status'' = Some ''paused_by_triage''"
    "hash_at db2 (K_task auto) ''paused_by_triage_task_id'' = Some triage"
    "hash_at db2 (K_task auto) ''auto_next_command_index'' = Some (show_int n)"
    "hash_at db2 (K_task auto) ''auto_completed_commands'' = Some (dumps_commands cs)"
    "hash_at db2 (K_task auto) ''auto_workflow_head_sha'' = Some sha"
    by (simp_all add: assms(4) p(1) paused_w_def view_simps)
  have "auto_paused db2 m triage auto"
    using f(1,2) assms(5,6) p by (simp add: auto_paused_def paused_w_def view_simps)
  then have r: "resume_auto_after_triage db2 m triage w tok now' = (Inr True, resumed_w db2 m auto w (show_int tok) now')"
    using resume_paused assms(3,7,8) by blast
  have "resume_auto_after_triage (resumed_w db2 m auto w (show_int tok) now') m triage w tok now' =
      (Inr False, resumed_w db2 m auto w (show_int tok) now')"
    by (rule resume_gone) (simp_all add: resumed_w_wt assms(3) resumed_w_facts)
  then show ?thesis using r f by (simp add: resumed_w_facts tracked_def)
qed

theorem pause_resume_round_trip_witness:
  "\<exists>db3. resume_auto_after_triage (paused_w (auto_db ''completed'') example_mr ''t'' ''a'' 2 [''/review''] ''c0'' 5) example_mr ''t'' ''w'' 1 9
     = (Inr True, db3) \<and> hash_at db3 (K_task ''a'') ''auto_next_command_index'' = Some (show_int 2)"
proof -
  let ?db2 = "paused_w (auto_db ''completed'') example_mr ''t'' ''a'' 2 [''/review''] ''c0'' 5"
  note f = auto_db_facts [of "''completed''"] and g = paused_w_facts [OF auto_db_facts(1) [of "''completed''"]]
  have "terminal_status (hash_at ?db2 (K_task ''t'') ''status'')" using f(3) by (simp add: g(2) terminal_status_def)
  moreover have "holds_lease ?db2 (K_mr_lease example_mr) ''w'' (show_int 1)" using f(2) by (simp add: holds_lease_def g(3))
  ultimately show ?thesis using pause_resume_round_trip [OF f(1,5) g(1) refl refl refl] by blast
qed

text \<open>
  A paused workflow can be stranded. If the gate of a merge request is reconciled after its
  triage task has finished and before the paused workflow is resumed, the gate is released; then
  no resumption for that triage task does anything any more, the workflow stays paused and named
  by the pause mark, and as long as the mark is there pausing any other workflow of the merge
  request raises \<open>RuntimeError\<close>.
\<close>

theorem paused_auto_stranded:
  assumes "well_typed db" "auto_paused db m triage auto" "terminal_status (hash_at db (K_task triage) ''status'')"
    "parse_int (or_else (hash_at db K_repair_reconciliation_metrics ''released'') ''0'') \<noteq> None"
  shows "\<exists>db1. reconcile_admission_gate h ttl db m triage now = (Inr ''released'', db1) \<and>
    hash_at db1 (K_task auto) ''status'' = Some ''paused_by_triage'' \<and> str_at db1 (K_mr_paused_auto m) = Some auto \<and>
    (\<forall>w tok now'. resume_auto_after_triage db1 m triage w tok now' = (Inr False, db1)) \<and>
    (\<forall>db2 auto' triage' n cs sha l now'. well_typed db2 \<longrightarrow> str_at db2 (K_mr_paused_auto m) = str_at db1 (K_mr_paused_auto m) \<longrightarrow>
       auto' \<noteq> auto \<longrightarrow> hash_at db2 (K_task auto') ''status'' = Some ''running'' \<longrightarrow> lease_mr l = m \<longrightarrow>
       holds_lease db2 (K_mr_lease m) (lease_worker_id l) (show_int (lease_fencing_token l)) \<longrightarrow>
       str_at db2 (K_mr_triage_active m) = Some triage' \<longrightarrow>
       pause_auto_for_triage db2 auto' m triage' n cs sha l now' =
         (Inl (RuntimeErr (''another auto workflow is already paused for '' @ redis_id m)), db2))"
proof -
  have p: "str_at db (K_mr_triage_active m) = Some triage" "str_at db (K_mr_paused_auto m) = Some auto"
    "hash_at db (K_task auto) ''status'' = Some ''paused_by_triage''"
    using assms(2) by (simp_all add: auto_paused_def)
  obtain db1 where d: "reconcile_admission_gate h ttl db m triage now = (Inr ''released'', db1)" "well_typed db1"
    "str_at db1 (K_mr_triage_active m) = None" "str_at db1 (K_mr_paused_auto m) = Some auto"
    "hash_at db1 (K_task auto) = hash_at db (K_task auto)"
    using reconcile_terminal [OF assms(1) p(1) assms(3,4)] p(2) by metis
  have "resume_auto_after_triage db1 m triage w tok now' = (Inr False, db1)" for w tok now'
    using resume_gone [OF d(2)] d(3) by simp
  then show ?thesis using d p(3) by (auto simp: pause_eval)
qed

theorem paused_auto_stranded_witness:
  "\<exists>db1. reconcile_admission_gate (\<lambda>s. s) 60 (paused_w (auto_db ''completed'') example_mr ''t'' ''a'' 2 [''/review''] ''c0'' 5)
     example_mr ''t'' 9 = (Inr ''released'', db1) \<and> resume_auto_after_triage db1 example_mr ''t'' ''w'' 1 10 = (Inr False, db1)"
proof -
  let ?db2 = "paused_w (auto_db ''completed'') example_mr ''t'' ''a'' 2 [''/review''] ''c0'' 5"
  note f = auto_db_facts [of "''completed''"] and g = paused_w_facts [OF auto_db_facts(1) [of "''completed''"]]
  have "str_at (auto_db ''completed'') (K_mr_triage_active example_mr) = Some ''t''" by (simp add: auto_db_def view_simps)
  then have "auto_paused ?db2 example_mr ''t'' ''a''" by (rule g(5))
  moreover have "terminal_status (hash_at ?db2 (K_task ''t'') ''status'')" using f(3) by (simp add: g(2) terminal_status_def)
  moreover have "parse_int (or_else (hash_at ?db2 K_repair_reconciliation_metrics ''released'') ''0'') \<noteq> None"
    by (simp add: g(4) f(4) parse_nat_def is_digit_def)
  ultimately show ?thesis
    using paused_auto_stranded [OF g(1), of example_mr "''t''" "''a''" 2 "[''/review'']" "''c0''" 5 example_mr "''t''" "''a''" "\<lambda>s. s" 60 9]
    by blast
qed

end
