(* ===== verification/Pipeline_Wait.thy ===== *)
theory Pipeline_Wait
  imports Tasks
begin

text \<open>
  Waiting for a pipeline: registering a wait, publishing a pipeline event, resuming from the
  cached event, claiming and completing the resumption. A task stores the names of the event
  and waiter keys it waits on; a script that reads such a name works on the key it denotes.
\<close>

text \<open>\<open>tostring(value or '')\<close> on a member of a decoded event; \<open>None\<close> for values whose Lua text is not modelled.\<close>

fun lua_text :: "json option \<Rightarrow> string option" where
  "lua_text None = Some []"
| "lua_text (Some (JStr s)) = Some s"
| "lua_text (Some (JInt i)) = Some (show_int i)"
| "lua_text (Some (JBool b)) = Some (if b then ''true'' else [])"
| "lua_text (Some _) = None"

definition terminal_text :: "json option \<Rightarrow> bool" where
  "terminal_text st \<longleftrightarrow> st \<in> {Some (JStr ''success''), Some (JStr ''failed''), Some (JStr ''canceled''), Some (JStr ''skipped'')}"

text \<open>\<open>ok and event and event.status in (...)\<close> after \<open>pcall(cjson.decode, text)\<close>.\<close>

definition cached_terminal :: "string \<Rightarrow> bool option" where
  "cached_terminal text = (case loads text of
      None \<Rightarrow> Some False
    | Some (JBool False) \<Rightarrow> Some False
    | Some ev \<Rightarrow> do { st \<leftarrow> lua_field ev ''status''; Some (terminal_text st) })"

subsection \<open>Scripts\<close>

definition REGISTER_PIPELINE_WAIT_LUA ::
  "redis \<Rightarrow> rkey \<Rightarrow> rkey \<Rightarrow> rkey \<Rightarrow> rkey \<Rightarrow> lua_arg \<Rightarrow> int \<Rightarrow> lua_arg \<Rightarrow> lua_arg \<Rightarrow> int \<Rightarrow> lua_arg \<Rightarrow> lua_arg \<Rightarrow> lua_arg \<Rightarrow> lua_arg \<Rightarrow> string reply"
where
  "REGISTER_PIPELINE_WAIT_LUA db event_k waiter_k task_k waiting_k tid ttl project sha now event_name waiter_name attempt_id pid =
     do { cached \<leftarrow> get db event_k;
          hit \<leftarrow> (case cached of None \<Rightarrow> Some False | Some c \<Rightarrow> cached_terminal c);
          if hit then Some (or_else cached [], db) else
          do { db1 \<leftarrow> sadd db waiter_k tid;
               db2 \<leftarrow> hset (expire_w db1 waiter_k ttl) task_k
                  [(''pipeline_project_id'', project), (''pipeline_sha'', sha),
                   (''pipeline_wait_registered_at'', show_int now),
                   (''pipeline_event_key'', event_name), (''pipeline_waiter_key'', waiter_name),
                   (''pipeline_attempt_id'', attempt_id), (''pipeline_id'', pid)];
               db3 \<leftarrow> hdel db2 task_k [''pipeline_resume_queued'', ''pipeline_resume_queued_attempt_id'',
                        ''pipeline_resume_claimed_attempt_id'', ''pipeline_resume_claimed_event''];
               db4 \<leftarrow> zadd db3 waiting_k now tid;
               Some ([], db4) } }"

fun resume_waiters :: "string \<Rightarrow> string list \<Rightarrow> redis \<Rightarrow> string list reply" where
  "resume_waiters event [] db = Some ([], db)"
| "resume_waiters event (t # ts) db =
     do { worker_id \<leftarrow> hget db (K_task t) ''worker_id'';
          status \<leftarrow> hget db (K_task t) ''status'';
          attempt_id \<leftarrow> hget db (K_task t) ''pipeline_attempt_id'';
          queued_attempt \<leftarrow> hget db (K_task t) ''pipeline_resume_queued_attempt_id'';
          if worker_id \<noteq> None \<and> status = Some ''waiting_pipeline'' \<and> or_else queued_attempt [] \<noteq> or_else attempt_id [] then
            do { (_, db1) \<leftarrow> xadd db (K_worker_inbox (or_else worker_id []))
                    [(''task_id'', t), (''delivery_kind'', ''resume_pipeline''), (''payload'', event)];
                 db2 \<leftarrow> hset db1 (K_task t) [(''pipeline_resume_queued'', event),
                         (''pipeline_resume_queued_attempt_id'', or_else attempt_id [])];
                 (resumed, db3) \<leftarrow> resume_waiters event ts db2;
                 Some (t # resumed, db3) }
          else resume_waiters event ts db }"

definition PUBLISH_PIPELINE_EVENT_LUA ::
  "redis \<Rightarrow> rkey \<Rightarrow> rkey \<Rightarrow> rkey \<Rightarrow> rkey \<Rightarrow> lua_arg \<Rightarrow> int \<Rightarrow> bool \<Rightarrow> string list reply"
where
  "PUBLISH_PIPELINE_EVENT_LUA db event_k pipeline_event_k waiters_k pipeline_waiters_k event ttl terminal =
     (let db1 = set_ex_w db event_k event ttl; db2 = set_ex_w db1 pipeline_event_k event ttl in
      if \<not> terminal then Some ([], db2) else
      do { a \<leftarrow> smembers db2 waiters_k;
           b \<leftarrow> smembers db2 pipeline_waiters_k;
           resume_waiters event (remdups (a @ b)) db2 })"

text \<open>A key a task stores by name. A name that is no key of the runtime denotes an absent key.\<close>

definition named_sismember :: "redis \<Rightarrow> string \<Rightarrow> string \<Rightarrow> bool option" where
  "named_sismember db name x =
     (case resolve_key default_prefix name of None \<Rightarrow> Some False | Some k \<Rightarrow> sismember db k x)"

definition named_get :: "redis \<Rightarrow> string \<Rightarrow> string option option" where
  "named_get db name = (case resolve_key default_prefix name of None \<Rightarrow> Some None | Some k \<Rightarrow> get db k)"

definition forget_waiter :: "redis \<Rightarrow> string option \<Rightarrow> string \<Rightarrow> redis option" where
  "forget_waiter db waiter_name x =
     (case waiter_name of
        None \<Rightarrow> Some db
      | Some name \<Rightarrow>
          (case resolve_key default_prefix name of
             None \<Rightarrow> Some db
           | Some k \<Rightarrow> do { db1 \<leftarrow> srem db k x; Some (if set_at db1 k = [] then del db1 k else db1) }))"

definition RESUME_CACHED_PIPELINE_LUA :: "redis \<Rightarrow> rkey \<Rightarrow> lua_arg \<Rightarrow> int reply" where
  "RESUME_CACHED_PIPELINE_LUA db task_k tid =
     do { status \<leftarrow> hget db task_k ''status'';
          worker_id \<leftarrow> hget db task_k ''worker_id'';
          event_name \<leftarrow> hget db task_k ''pipeline_event_key'';
          waiter_name \<leftarrow> hget db task_k ''pipeline_waiter_key'';
          if event_name = None \<or> waiter_name = None \<or> status \<noteq> Some ''waiting_pipeline'' \<or> worker_id = None then Some (0, db) else
          do { waiting \<leftarrow> named_sismember db (or_else waiter_name []) tid;
               if \<not> waiting then Some (0, db) else
               do { event \<leftarrow> named_get db (or_else event_name []);
                    case event of
                      None \<Rightarrow> Some (0, db)
                    | Some ev \<Rightarrow>
                        do { terminal \<leftarrow> cached_terminal ev;
                             if \<not> terminal then Some (0, db) else
                             do { attempt_id \<leftarrow> hget db task_k ''pipeline_attempt_id'';
                                  queued \<leftarrow> hget db task_k ''pipeline_resume_queued_attempt_id'';
                                  if queued = Some (or_else attempt_id []) then Some (0, db) else
                                  do { (_, db1) \<leftarrow> xadd db (K_worker_inbox (or_else worker_id []))
                                          [(''task_id'', tid), (''delivery_kind'', ''resume_pipeline''), (''payload'', ev)];
                                       db2 \<leftarrow> hset db1 task_k [(''pipeline_resume_queued'', ev),
                                               (''pipeline_resume_queued_attempt_id'', or_else attempt_id [])];
                                       Some (1, db2) } } } } } }"

text \<open>\<open>event.project_id\<close> and \<open>event.sha\<close> as the script compares them.\<close>

definition event_identity :: "json \<Rightarrow> (string \<times> string) option" where
  "event_identity ev =
     do { p \<leftarrow> lua_field ev ''project_id''; pt \<leftarrow> lua_text p;
          s \<leftarrow> lua_field ev ''sha''; st \<leftarrow> lua_text s;
          Some (pt, st) }"

definition CLAIM_PIPELINE_RESUME_LUA ::
  "redis \<Rightarrow> rkey \<Rightarrow> rkey \<Rightarrow> rkey \<Rightarrow> lua_arg \<Rightarrow> lua_arg \<Rightarrow> lua_arg \<Rightarrow> lua_arg \<Rightarrow> lua_arg \<Rightarrow> int reply"
where
  "CLAIM_PIPELINE_RESUME_LUA db task_k lease_k waiting_k tid event w tok now =
     do { status \<leftarrow> hget db task_k ''status'';
          attempt \<leftarrow> hget db task_k ''pipeline_attempt_id'';
          project \<leftarrow> hget db task_k ''pipeline_project_id'';
          sha \<leftarrow> hget db task_k ''pipeline_sha'';
          claimed \<leftarrow> hget db task_k ''pipeline_resume_claimed_attempt_id'';
          let attempt_id = or_else attempt []; identity = (or_else project [], or_else sha []) in
          case loads event of
            None \<Rightarrow> Some (2, db)
          | Some (JBool False) \<Rightarrow> Some (2, db)
          | Some ev \<Rightarrow>
              if or_else status [] \<noteq> ''waiting_pipeline'' then
                (if or_else claimed [] \<noteq> [] \<and> or_else claimed [] = attempt_id
                 then do { i \<leftarrow> event_identity ev; Some (if i = identity then 0 else 2, db) }
                 else Some (2, db))
              else
                do { lost \<leftarrow>
                       (if w = [] then Some False else
                        do { lo \<leftarrow> hget db lease_k ''worker_id''; lf \<leftarrow> hget db lease_k ''fencing_token'';
                             ow \<leftarrow> hget db task_k ''worker_id''; tf \<leftarrow> hget db task_k ''fencing_token'';
                             Some (or_else lo [] \<noteq> w \<or> or_else lf [] \<noteq> tok \<or> or_else ow [] \<noteq> w \<or> or_else tf [] \<noteq> tok) });
                     if lost then Some (-1, db) else
                     do { i \<leftarrow> event_identity ev;
                          if i \<noteq> identity then Some (2, db) else
                          do { qa \<leftarrow> hget db task_k ''pipeline_resume_queued_attempt_id'';
                               qe \<leftarrow> hget db task_k ''pipeline_resume_queued'';
                               if or_else qa [] \<noteq> attempt_id \<or> or_else qe [] \<noteq> event then Some (2, db) else
                               do { wn \<leftarrow> hget db task_k ''pipeline_waiter_key'';
                                    db1 \<leftarrow> forget_waiter db wn tid;
                                    db2 \<leftarrow> zrem db1 waiting_k tid;
                                    db3 \<leftarrow> hset db2 task_k [(''status'', ''running''), (''heartbeat_at'', now), (''updated_at'', now),
                                            (''pipeline_resume_claimed_attempt_id'', attempt_id),
                                            (''pipeline_resume_claimed_event'', event)];
                                    db4 \<leftarrow> hdel db3 task_k [''pipeline_event_key'', ''pipeline_waiter_key'',
                                            ''pipeline_wait_registered_at'', ''pipeline_resume_queued'',
                                            ''pipeline_resume_queued_attempt_id'', ''delivery_attempt'', ''delivery_error'',
                                            ''delivery_message_id'', ''delivery_failed_at''];
                                    Some (1, db4) } } } } }"

definition COMPLETE_PIPELINE_RESUME_LUA :: "redis \<Rightarrow> rkey \<Rightarrow> rkey \<Rightarrow> lua_arg \<Rightarrow> lua_arg \<Rightarrow> int reply" where
  "COMPLETE_PIPELINE_RESUME_LUA db task_k waiting_k tid event =
     do { status \<leftarrow> hget db task_k ''status'';
          if status = None \<or> status = Some ''waiting_pipeline'' then Some (0, db) else
          do { queued \<leftarrow> hget db task_k ''pipeline_resume_queued'';
               if or_else queued [] \<noteq> [] \<and> or_else queued [] \<noteq> event then Some (-1, db) else
               do { wn \<leftarrow> hget db task_k ''pipeline_waiter_key'';
                    db1 \<leftarrow> forget_waiter db wn tid;
                    db2 \<leftarrow> zrem db1 waiting_k tid;
                    db3 \<leftarrow> hdel db2 task_k [''pipeline_event_key'', ''pipeline_waiter_key'', ''pipeline_wait_registered_at'',
                             ''pipeline_resume_queued'', ''delivery_attempt'', ''delivery_error'', ''delivery_message_id'',
                             ''delivery_failed_at''];
                    Some (1, db3) } } }"

subsection \<open>Broker methods\<close>

definition register_pipeline_wait ::
  "int \<Rightarrow> redis \<Rightarrow> string \<Rightarrow> string \<Rightarrow> string \<Rightarrow> string \<Rightarrow> int option \<Rightarrow> int \<Rightarrow> pipeline_event option answer"
where
  "register_pipeline_wait ttl db tid project sha attempt_id pid now =
     on_reply db
       (REGISTER_PIPELINE_WAIT_LUA db (K_pipeline_event project sha pid) (K_pipeline_waiters project sha pid) (K_task tid)
          K_pipeline_waiting tid ttl project sha now
          (redis_key default_prefix (K_pipeline_event project sha pid))
          (redis_key default_prefix (K_pipeline_waiters project sha pid)) attempt_id
          (case pid of Some n \<Rightarrow> show_int n | None \<Rightarrow> []))
       (\<lambda>cached. if cached = [] then Inr None
                 else case pipeline_event_from_json cached of
                        None \<Rightarrow> Inl (ValueError ''pipeline event'')
                      | Some e \<Rightarrow> Inr (Some e))"

text \<open>\<open>publish_pipeline_event\<close> up to the list it returns (the late-success reconciliation that follows is best effort).\<close>

definition publish_pipeline_event :: "int \<Rightarrow> redis \<Rightarrow> pipeline_event \<Rightarrow> string list answer" where
  "publish_pipeline_event ttl db e =
     (let p = pe_project_id e; s = pe_sha e; i = pe_pipeline_id e in
      on_reply db
        (PUBLISH_PIPELINE_EVENT_LUA db (K_pipeline_event p s None) (K_pipeline_event p s (Some i))
           (K_pipeline_waiters p s None) (K_pipeline_waiters p s (Some i)) (pipeline_event_to_json e) ttl
           (pipeline_event_terminal e))
        Inr)"

definition resume_pipeline_if_cached :: "redis \<Rightarrow> string \<Rightarrow> bool answer" where
  "resume_pipeline_if_cached db tid = on_reply db (RESUME_CACHED_PIPELINE_LUA db (K_task tid) tid) (\<lambda>r. Inr (r \<noteq> 0))"

definition complete_pipeline_resume :: "redis \<Rightarrow> string \<Rightarrow> pipeline_event \<Rightarrow> bool answer" where
  "complete_pipeline_resume db tid e =
     on_reply db (COMPLETE_PIPELINE_RESUME_LUA db (K_task tid) K_pipeline_waiting tid (pipeline_event_to_json e)) (\<lambda>r. Inr (r = 1))"

definition claim_pipeline_resume ::
  "redis \<Rightarrow> string \<Rightarrow> pipeline_event \<Rightarrow> mr_lease option \<Rightarrow> int \<Rightarrow> pipeline_resume_claim answer"
where
  "claim_pipeline_resume db tid e l now =
     on_reply db
       (CLAIM_PIPELINE_RESUME_LUA db (K_task tid) (lease_key_of l) K_pipeline_waiting tid (pipeline_event_to_json e)
          (fst (lease_args l)) (snd (lease_args l)) (show_int now))
       (\<lambda>r. if r = 1 then Inr PRC_CLAIMED else if r = 0 then Inr PRC_DUPLICATE else if r = 2 then Inr PRC_STALE
            else if r = -1 then Inr PRC_LOST_LEASE else Inl (KeyErr (show_int r)))"

definition get_cached_pipeline_event ::
  "redis \<Rightarrow> string \<Rightarrow> string \<Rightarrow> int option \<Rightarrow> broker_error + pipeline_event option"
where
  "get_cached_pipeline_event db project sha pid =
     (case get db (K_pipeline_event project sha pid) of
        None \<Rightarrow> Inl RedisError
      | Some value \<Rightarrow>
          if or_else value [] = [] then Inr None
          else (case pipeline_event_from_json (or_else value []) of
                  None \<Rightarrow> Inl (ValueError ''pipeline event'')
                | Some e \<Rightarrow> Inr (Some e)))"

text \<open>
  \<open>list_stale_pipeline_waits\<close>: the ids whose wait is old, by score, at most \<open>limit\<close>; those
  that are gone or not waiting are dropped from the index. The list holds the task ids of the
  records the method returns.
\<close>

definition zrangebyscore :: "redis \<Rightarrow> rkey \<Rightarrow> int \<Rightarrow> nat \<Rightarrow> string list" where
  "zrangebyscore db k max_score n =
     take n (map fst (filter (\<lambda>(_, sc). sc \<le> max_score) (sort_key (\<lambda>(x, sc). (sc, x)) (zset_at db k))))"

fun stale_waits_loop :: "string list \<Rightarrow> redis \<Rightarrow> string list reply" where
  "stale_waits_loop [] db = Some ([], db)"
| "stale_waits_loop (t # ts) db =
     do { status \<leftarrow> hget db (K_task t) ''status'';
          if status \<noteq> Some ''waiting_pipeline'' then
            do { db1 \<leftarrow> zrem db K_pipeline_waiting t; stale_waits_loop ts db1 }
          else do { (more_ids, db1) \<leftarrow> stale_waits_loop ts db; Some (t # more_ids, db1) } }"

definition list_stale_pipeline_waits :: "redis \<Rightarrow> int \<Rightarrow> nat \<Rightarrow> int \<Rightarrow> string list reply" where
  "list_stale_pipeline_waits db age_seconds limit now =
     (if \<not> type_ok db K_pipeline_waiting KZset then None
      else stale_waits_loop (zrangebyscore db K_pipeline_waiting (now - age_seconds) limit) db)"

definition defer_pipeline_fallback :: "redis \<Rightarrow> string \<Rightarrow> int \<Rightarrow> redis option" where
  "defer_pipeline_fallback db tid now = zadd db K_pipeline_waiting now tid"

subsection \<open>What a stored event says\<close>

lemma event_identity_json:
  "event_identity (JObj (stored_dict (pipeline_event_to_dict e))) = Some (pe_project_id e, pe_sha e)"
  by (simp add: event_identity_def pipeline_event_look)

definition event_done :: "pipeline_event \<Rightarrow> bool" where
  "event_done e \<longleftrightarrow> pe_status e \<in> {''success'', ''failed'', ''canceled'', ''skipped''}"

lemma cached_terminal_json: "cached_terminal (pipeline_event_to_json e) = Some (event_done e)"
  by (auto simp: cached_terminal_def pipeline_event_look event_done_def terminal_text_def)

lemma lower_done: "event_done e \<Longrightarrow> pipeline_event_terminal e"
  by (auto simp: event_done_def pipeline_event_terminal_def TERMINAL_PIPELINE_STATUSES_def lower_def to_lower_def)

lemma pipeline_event_json_nonempty [simp]: "pipeline_event_to_json e \<noteq> []"
  using pipeline_event_loads [of e] by (auto simp: loads_def)

subsection \<open>Waits\<close>

text \<open>The names a task stores are those of pipeline keys.\<close>

definition wait_ok :: "redis \<Rightarrow> string \<Rightarrow> bool" where
  "wait_ok db t \<longleftrightarrow>
     (\<forall>n. hash_at db (K_task t) ''pipeline_waiter_key'' = Some n \<longrightarrow>
        (\<exists>p s i. n = redis_key default_prefix (K_pipeline_waiters p s i))) \<and>
     (\<forall>n. hash_at db (K_task t) ''pipeline_event_key'' = Some n \<longrightarrow>
        (\<exists>p s i. n = redis_key default_prefix (K_pipeline_event p s i)))"

definition forget_w :: "redis \<Rightarrow> string option \<Rightarrow> string \<Rightarrow> redis" where
  "forget_w db waiter_name x =
     (case waiter_name of
        None \<Rightarrow> db
      | Some name \<Rightarrow>
          (case resolve_key default_prefix name of
             None \<Rightarrow> db
           | Some k \<Rightarrow> let db1 = srem_w db k x in if set_at db1 k = [] then del db1 k else db1))"

lemma resolve_pipeline_keys [simp]:
  "resolve_key default_prefix (redis_key default_prefix (K_pipeline_waiters p s i)) = Some (K_pipeline_waiters p s i)"
  "resolve_key default_prefix (redis_key default_prefix (K_pipeline_event p s i)) = Some (K_pipeline_event p s i)"
  by (simp_all add: resolve_redis_key)

lemma forget_waiter_wt:
  assumes "well_typed db" "wait_ok db t" "wn = hash_at db (K_task t) ''pipeline_waiter_key''"
  shows "forget_waiter db wn x = Some (forget_w db wn x)" "well_typed (forget_w db wn x)"
    "hash_at (forget_w db wn x) (K_task t) = hash_at db (K_task t)"
proof -
  consider "wn = None" | p s i where "wn = Some (redis_key default_prefix (K_pipeline_waiters p s i))"
    using assms(2,3) unfolding wait_ok_def by (metis option.exhaust)
  then have "forget_waiter db wn x = Some (forget_w db wn x) \<and> well_typed (forget_w db wn x) \<and>
      hash_at (forget_w db wn x) (K_task t) = hash_at db (K_task t)"
    using assms(1) by cases (simp_all add: forget_waiter_def forget_w_def Let_def redis_simps view_simps)
  then show "forget_waiter db wn x = Some (forget_w db wn x)" "well_typed (forget_w db wn x)"
    "hash_at (forget_w db wn x) (K_task t) = hash_at db (K_task t)" by blast+
qed

lemma forget_w_removes:
  assumes "wn = Some (redis_key default_prefix (K_pipeline_waiters p s i))"
  shows "x \<notin> set (set_at (forget_w db wn x) (K_pipeline_waiters p s i))"
  using assms by (simp add: forget_w_def Let_def view_simps)

definition field_or :: "redis \<Rightarrow> string \<Rightarrow> string \<Rightarrow> string" where
  "field_or db t f = or_else (hash_at db (K_task t) f) []"

definition wait_matches :: "redis \<Rightarrow> string \<Rightarrow> pipeline_event \<Rightarrow> bool" where
  "wait_matches db t e \<longleftrightarrow> (pe_project_id e, pe_sha e) = (field_or db t ''pipeline_project_id'', field_or db t ''pipeline_sha'')"

definition claim_fence_ok :: "redis \<Rightarrow> string \<Rightarrow> mr_lease option \<Rightarrow> bool" where
  "claim_fence_ok db t l \<longleftrightarrow> fst (lease_args l) = [] \<or>
     (let w = fst (lease_args l); tok = snd (lease_args l) in
      or_else (hash_at db (lease_key_of l) ''worker_id'') [] = w \<and> or_else (hash_at db (lease_key_of l) ''fencing_token'') [] = tok \<and>
      field_or db t ''worker_id'' = w \<and> field_or db t ''fencing_token'' = tok)"

definition claimed_w :: "redis \<Rightarrow> string \<Rightarrow> pipeline_event \<Rightarrow> int \<Rightarrow> redis" where
  "claimed_w db t e now =
     hdel_w (hset_w (zrem_w (forget_w db (hash_at db (K_task t) ''pipeline_waiter_key'') t) K_pipeline_waiting t) (K_task t)
        [(''status'', ''running''), (''heartbeat_at'', show_int now), (''updated_at'', show_int now),
         (''pipeline_resume_claimed_attempt_id'', field_or db t ''pipeline_attempt_id''),
         (''pipeline_resume_claimed_event'', pipeline_event_to_json e)]) (K_task t)
       [''pipeline_event_key'', ''pipeline_waiter_key'', ''pipeline_wait_registered_at'', ''pipeline_resume_queued'',
        ''pipeline_resume_queued_attempt_id'', ''delivery_attempt'', ''delivery_error'', ''delivery_message_id'',
        ''delivery_failed_at'']"

lemma claim_eval:
  assumes "well_typed db" "wait_ok db t"
  shows "claim_pipeline_resume db t e l now =
    (if field_or db t ''status'' \<noteq> ''waiting_pipeline'' then
       (Inr (if field_or db t ''pipeline_resume_claimed_attempt_id'' \<noteq> [] \<and>
                field_or db t ''pipeline_resume_claimed_attempt_id'' = field_or db t ''pipeline_attempt_id'' \<and> wait_matches db t e
             then PRC_DUPLICATE else PRC_STALE), db)
     else if \<not> claim_fence_ok db t l then (Inr PRC_LOST_LEASE, db)
     else if \<not> wait_matches db t e \<or>
             field_or db t ''pipeline_resume_queued_attempt_id'' \<noteq> field_or db t ''pipeline_attempt_id'' \<or>
             field_or db t ''pipeline_resume_queued'' \<noteq> pipeline_event_to_json e then (Inr PRC_STALE, db)
     else (Inr PRC_CLAIMED, claimed_w db t e now))"
proof -
  note fw = forget_waiter_wt [OF assms refl, of t]
  note eval = claim_pipeline_resume_def CLAIM_PIPELINE_RESUME_LUA_def redis_simps Let_def event_identity_json
  let ?fresh = "wait_matches db t e \<and> field_or db t ''pipeline_resume_queued_attempt_id'' = field_or db t ''pipeline_attempt_id'' \<and>
     field_or db t ''pipeline_resume_queued'' = pipeline_event_to_json e"
  consider (stale) "field_or db t ''status'' \<noteq> ''waiting_pipeline''"
    | (lost) "field_or db t ''status'' = ''waiting_pipeline''" "\<not> claim_fence_ok db t l"
    | (other) "field_or db t ''status'' = ''waiting_pipeline''" "claim_fence_ok db t l" "\<not> ?fresh"
    | (fresh) "field_or db t ''status'' = ''waiting_pipeline''" "claim_fence_ok db t l" ?fresh by blast
  then show ?thesis
  proof cases
    case stale
    then show ?thesis using assms(1) by (simp add: eval wait_matches_def field_or_def)
  next
    case lost
    then show ?thesis using assms(1) by (simp add: eval claim_fence_ok_def field_or_def)
  next
    case other
    then show ?thesis using assms(1)
      by (simp add: eval claim_fence_ok_def wait_matches_def field_or_def) blast
  next
    case fresh
    then show ?thesis using assms(1) fw by (simp add: eval claim_fence_ok_def wait_matches_def field_or_def claimed_w_def) blast
  qed
qed

text \<open>One field of a hash after a write of many.\<close>

lemma fold_delete_at: "fold (\<lambda>f m. m(f := None)) fs m g = (if g \<in> set fs then None else m g)"
  by (induction fs arbitrary: m) auto

lemma fold_update_at: "fold (\<lambda>(f, v) m. m(f \<mapsto> v)) kvs m g = (case map_of (rev kvs) g of None \<Rightarrow> m g | Some v \<Rightarrow> Some v)"
  by (induction kvs arbitrary: m) (auto simp: map_add_def split: option.splits)

lemma hash_field:
  "hash_at (hdel_w db k fs) k f = (if f \<in> set fs then None else hash_at db k f)"
  "hash_at (hset_w db k kvs) k f = (case map_of (rev kvs) f of None \<Rightarrow> hash_at db k f | Some v \<Rightarrow> Some v)"
  by (simp_all only: hash_at_hdel hash_at_hset fold_delete_at fold_update_at if_True refl)

lemma claimed_w_field:
  assumes "well_typed db" "wait_ok db t"
  shows "hash_at (claimed_w db t e now) (K_task t) f =
    (if f \<in> set [''pipeline_event_key'', ''pipeline_waiter_key'', ''pipeline_wait_registered_at'', ''pipeline_resume_queued'',
       ''pipeline_resume_queued_attempt_id'', ''delivery_attempt'', ''delivery_error'', ''delivery_message_id'',
       ''delivery_failed_at''] then None
     else case map_of (rev [(''status'', ''running''), (''heartbeat_at'', show_int now), (''updated_at'', show_int now),
         (''pipeline_resume_claimed_attempt_id'', field_or db t ''pipeline_attempt_id''),
         (''pipeline_resume_claimed_event'', pipeline_event_to_json e)]) f of
       None \<Rightarrow> hash_at db (K_task t) f | Some v \<Rightarrow> Some v)"
proof -
  have "hash_at (zrem_w (forget_w db (hash_at db (K_task t) ''pipeline_waiter_key'') t) K_pipeline_waiting t) (K_task t)
      = hash_at db (K_task t)"
    using forget_waiter_wt(3) [OF assms refl, of t] by (simp add: hash_at_other)
  then show ?thesis by (simp only: claimed_w_def hash_field)
qed

lemma claimed_w_waiting: "map_of (zset_at (claimed_w db t e now) K_pipeline_waiting) t = None"
  by (simp add: claimed_w_def zset_at_simps delete_conv')

lemma claimed_w_wt: "well_typed db \<Longrightarrow> wait_ok db t \<Longrightarrow> well_typed (claimed_w db t e now)"
  using forget_waiter_wt(2) [of db t _ t] by (simp add: claimed_w_def redis_simps)

lemma claimed_w_fields:
  assumes "well_typed db" "wait_ok db t"
  shows "wait_ok (claimed_w db t e now) t"
    "field_or (claimed_w db t e now) t ''status'' = ''running''"
    "field_or (claimed_w db t e now) t ''pipeline_resume_claimed_attempt_id'' = field_or db t ''pipeline_attempt_id''"
    "field_or (claimed_w db t e now) t ''pipeline_attempt_id'' = field_or db t ''pipeline_attempt_id''"
    "wait_matches (claimed_w db t e now) t e' = wait_matches db t e'"
  by (simp_all add: claimed_w_field [OF assms] wait_ok_def field_or_def wait_matches_def)

subsection \<open>Publishing\<close>

text \<open>A task the publication of a terminal event wakes.\<close>

definition wakes :: "redis \<Rightarrow> string \<Rightarrow> bool" where
  "wakes db t \<longleftrightarrow> hash_at db (K_task t) ''worker_id'' \<noteq> None \<and> hash_at db (K_task t) ''status'' = Some ''waiting_pipeline'' \<and>
     field_or db t ''pipeline_resume_queued_attempt_id'' \<noteq> field_or db t ''pipeline_attempt_id''"

definition wake_w :: "redis \<Rightarrow> string \<Rightarrow> string \<Rightarrow> redis" where
  "wake_w db t event =
     hset_w (xadd_w db (K_worker_inbox (field_or db t ''worker_id''))
        [(''task_id'', t), (''delivery_kind'', ''resume_pipeline''), (''payload'', event)])
       (K_task t) [(''pipeline_resume_queued'', event), (''pipeline_resume_queued_attempt_id'', field_or db t ''pipeline_attempt_id'')]"

text \<open>The deliveries that wait in the inbox of a worker, and the one that resumes a task.\<close>

definition inbox_messages :: "redis \<Rightarrow> string \<Rightarrow> (string \<times> string) list set" where
  "inbox_messages db w = snd ` set (entries (stream_at db (K_worker_inbox w)))"

definition resume_message :: "string \<Rightarrow> string \<Rightarrow> (string \<times> string) list" where
  "resume_message t event = [(''task_id'', t), (''delivery_kind'', ''resume_pipeline''), (''payload'', event)]"

lemma wake_w_inbox:
  "inbox_messages (wake_w db t event) w = inbox_messages db w \<union> (if w = field_or db t ''worker_id'' then {resume_message t event} else {})"
  by (simp add: wake_w_def inbox_messages_def resume_message_def view_simps)

lemma bind_cons: "Option.bind x (\<lambda>(a, b). Some (t # a, b)) = map_option (\<lambda>(a, b). (t # a, b)) x"
  by (cases x) auto

lemma resume_waiters_wt:
  "well_typed db \<Longrightarrow> resume_waiters event (t # ts) db =
     (if wakes db t then map_option (\<lambda>(r, db'). (t # r, db')) (resume_waiters event ts (wake_w db t event))
      else resume_waiters event ts db)"
  by (auto simp: redis_simps wakes_def wake_w_def field_or_def bind_cons)

lemma wake_w_wt: "well_typed db \<Longrightarrow> well_typed (wake_w db t event)"
  by (simp add: wake_w_def redis_simps)

lemma wake_w_hash:
  "hash_at (wake_w db t event) (K_task u) = (if u = t
     then (hash_at db (K_task t))(''pipeline_resume_queued'' \<mapsto> event,
            ''pipeline_resume_queued_attempt_id'' \<mapsto> field_or db t ''pipeline_attempt_id'')
     else hash_at db (K_task u))"
  by (simp add: wake_w_def view_simps)

lemma wake_w_not_wakes: "\<not> wakes (wake_w db t event) t"
  by (simp add: wakes_def field_or_def wake_w_hash)

lemma wake_w_other: "u \<noteq> t \<Longrightarrow> wakes (wake_w db t event) u = wakes db u"
  by (simp add: wakes_def field_or_def wake_w_hash)

text \<open>The loop: it wakes exactly the tasks of the list that a publication wakes, each once.\<close>

lemma resume_waiters_spec:
  "well_typed db \<Longrightarrow> distinct ts \<Longrightarrow>
   \<exists>db'. resume_waiters event ts db = Some (filter (wakes db) ts, db') \<and> well_typed db' \<and>
     (\<forall>w. inbox_messages db' w =
        inbox_messages db w \<union> {resume_message u event |u. u \<in> set ts \<and> wakes db u \<and> field_or db u ''worker_id'' = w}) \<and>
     (\<forall>p s i. str_at db' (K_pipeline_event p s i) = str_at db (K_pipeline_event p s i)) \<and>
     (\<forall>u. hash_at db' (K_task u) = (if u \<in> set ts \<and> wakes db u then hash_at (wake_w db u event) (K_task u) else hash_at db (K_task u)))"
proof (induction ts arbitrary: db)
  case Nil
  then show ?case by simp
next
  case (Cons t ts)
  show ?case
  proof (cases "wakes db t")
    case True
    have same: "wakes (wake_w db t event) u = wakes db u \<and> field_or (wake_w db t event) u = field_or db u" if "u \<noteq> t" for u
      using wake_w_other [OF that] that by (auto simp: fun_eq_iff field_or_def wake_w_hash)
    have in_ts: "wakes (wake_w db t event) u = wakes db u \<and> field_or (wake_w db t event) u = field_or db u" if "u \<in> set ts" for u
      using that Cons.prems(2) by (intro same) auto
    then have f: "filter (wakes (wake_w db t event)) ts = filter (wakes db) ts" by (intro filter_cong) simp_all
    have "distinct ts" using Cons.prems(2) by simp
    from Cons.IH [OF wake_w_wt [OF Cons.prems(1)] this] obtain db' where
      d: "resume_waiters event ts (wake_w db t event) = Some (filter (wakes (wake_w db t event)) ts, db')" "well_typed db'"
      "\<forall>u. hash_at db' (K_task u) =
         (if u \<in> set ts \<and> wakes (wake_w db t event) u then hash_at (wake_w (wake_w db t event) u event) (K_task u)
          else hash_at (wake_w db t event) (K_task u))"
      "\<forall>p s i. str_at db' (K_pipeline_event p s i) = str_at (wake_w db t event) (K_pipeline_event p s i)"
      "\<forall>w. inbox_messages db' w = inbox_messages (wake_w db t event) w \<union>
         {resume_message u event |u. u \<in> set ts \<and> wakes (wake_w db t event) u \<and> field_or (wake_w db t event) u ''worker_id'' = w}"
      by blast
    have "resume_waiters event (t # ts) db = Some (filter (wakes db) (t # ts), db')"
      using True Cons.prems(1) d(1) f by (simp add: resume_waiters_wt del: resume_waiters.simps)
    moreover have "hash_at db' (K_task u) = (if u \<in> set (t # ts) \<and> wakes db u then hash_at (wake_w db u event) (K_task u) else hash_at db (K_task u))" for u
    proof (cases "u = t")
      case True
      then show ?thesis using d(3) Cons.prems(2) \<open>wakes db t\<close> by simp
    next
      case False
      then show ?thesis using d(3) same [OF False] by (simp add: wake_w_hash)
    qed
    moreover have "str_at db' (K_pipeline_event p s i) = str_at db (K_pipeline_event p s i)" for p s i
      using d(4) by (simp add: wake_w_def view_simps)
    moreover have "inbox_messages db' w = inbox_messages db w \<union>
        {resume_message u event |u. u \<in> set (t # ts) \<and> wakes db u \<and> field_or db u ''worker_id'' = w}" for w
    proof -
      have "{resume_message u event |u. u \<in> set ts \<and> wakes (wake_w db t event) u \<and> field_or (wake_w db t event) u ''worker_id'' = w} =
          {resume_message u event |u. u \<in> set ts \<and> wakes db u \<and> field_or db u ''worker_id'' = w}"
        by (simp add: in_ts cong: conj_cong)
      then show ?thesis using d(5) True by (auto simp: wake_w_inbox)
    qed
    ultimately show ?thesis using d(2) by blast
  next
    case False
    then have skip: "resume_waiters event (t # ts) db = resume_waiters event ts db" "filter (wakes db) (t # ts) = filter (wakes db) ts"
      using Cons.prems(1) by (simp_all add: resume_waiters_wt del: resume_waiters.simps(2))
    have only: "u \<in> set (t # ts) \<and> wakes db u \<longleftrightarrow> u \<in> set ts \<and> wakes db u"
      "u \<in> set (t # ts) \<and> wakes db u \<and> P \<longleftrightarrow> u \<in> set ts \<and> wakes db u \<and> P" for u P using False by auto
    show ?thesis unfolding skip only using Cons.IH [OF Cons.prems(1)] Cons.prems(2) by simp
  qed
qed

lemma publish_eval:
  assumes "well_typed db" "pipeline_event_terminal e"
  defines "waiters \<equiv> remdups (set_at db (K_pipeline_waiters (pe_project_id e) (pe_sha e) None) @
     set_at db (K_pipeline_waiters (pe_project_id e) (pe_sha e) (Some (pe_pipeline_id e))))"
  shows "\<exists>db'. publish_pipeline_event ttl db e = (Inr (filter (wakes db) waiters), db') \<and> well_typed db' \<and>
    str_at db' (K_pipeline_event (pe_project_id e) (pe_sha e) None) = Some (pipeline_event_to_json e) \<and>
    str_at db' (K_pipeline_event (pe_project_id e) (pe_sha e) (Some (pe_pipeline_id e))) = Some (pipeline_event_to_json e) \<and>
    (\<forall>w. inbox_messages db' w = inbox_messages db w \<union>
       {resume_message u (pipeline_event_to_json e) |u. u \<in> set waiters \<and> wakes db u \<and> field_or db u ''worker_id'' = w}) \<and>
    (\<forall>u. hash_at db' (K_task u) = (if u \<in> set waiters \<and> wakes db u
       then hash_at (wake_w db u (pipeline_event_to_json e)) (K_task u) else hash_at db (K_task u)))"
proof -
  let ?db2 = "set_ex_w (set_ex_w db (K_pipeline_event (pe_project_id e) (pe_sha e) None) (pipeline_event_to_json e) ttl)
    (K_pipeline_event (pe_project_id e) (pe_sha e) (Some (pe_pipeline_id e))) (pipeline_event_to_json e) ttl"
  have wt: "well_typed ?db2" using assms(1) by (simp add: redis_simps)
  have h: "hash_at ?db2 (K_task u) = hash_at db (K_task u)" for u by (simp add: view_simps)
  then have w: "wakes ?db2 = wakes db" "field_or ?db2 = field_or db" by (simp_all add: fun_eq_iff wakes_def field_or_def)
  have s: "set_at ?db2 (K_pipeline_waiters p s i) = set_at db (K_pipeline_waiters p s i)" for p s i by (simp add: view_simps)
  obtain db' where d: "resume_waiters (pipeline_event_to_json e) waiters ?db2 = Some (filter (wakes ?db2) waiters, db')"
    "well_typed db'" "\<forall>p s i. str_at db' (K_pipeline_event p s i) = str_at ?db2 (K_pipeline_event p s i)"
    "\<forall>u. hash_at db' (K_task u) = (if u \<in> set waiters \<and> wakes ?db2 u
       then hash_at (wake_w ?db2 u (pipeline_event_to_json e)) (K_task u) else hash_at ?db2 (K_task u))"
    "\<forall>w. inbox_messages db' w = inbox_messages ?db2 w \<union>
       {resume_message u (pipeline_event_to_json e) |u. u \<in> set waiters \<and> wakes ?db2 u \<and> field_or ?db2 u ''worker_id'' = w}"
    using resume_waiters_spec [OF wt, of waiters "pipeline_event_to_json e"] by (auto simp: waiters_def)
  have "publish_pipeline_event ttl db e = (Inr (filter (wakes db) waiters), db')"
    using assms(2) wt d(1) by (simp add: publish_pipeline_event_def PUBLISH_PIPELINE_EVENT_LUA_def Let_def redis_simps s w waiters_def)
  moreover have "hash_at (wake_w ?db2 u ev) (K_task u) = hash_at (wake_w db u ev) (K_task u)" for u ev
    by (simp add: wake_w_hash h w)
  moreover have "inbox_messages ?db2 = inbox_messages db" by (simp add: fun_eq_iff inbox_messages_def view_simps)
  ultimately show ?thesis using d(2-5) by (simp add: h w view_simps)
qed

lemma resume_cached_eval:
  assumes "well_typed db" "hash_at db (K_task t) ''status'' = Some ''waiting_pipeline''"
    "hash_at db (K_task t) ''worker_id'' = Some w"
    "hash_at db (K_task t) ''pipeline_event_key'' = Some (redis_key default_prefix (K_pipeline_event p s i))"
    "hash_at db (K_task t) ''pipeline_waiter_key'' = Some (redis_key default_prefix (K_pipeline_waiters p s i))"
    "t \<in> set (set_at db (K_pipeline_waiters p s i))"
    "str_at db (K_pipeline_event p s i) = Some (pipeline_event_to_json e)" "event_done e"
    "hash_at db (K_task t) ''pipeline_resume_queued_attempt_id'' \<noteq> Some (field_or db t ''pipeline_attempt_id'')"
  shows "resume_pipeline_if_cached db t = (Inr True, wake_w db t (pipeline_event_to_json e))"
  using assms
  by (simp add: resume_pipeline_if_cached_def RESUME_CACHED_PIPELINE_LUA_def redis_simps named_sismember_def named_get_def
      cached_terminal_json wake_w_def field_or_def)

lemma claim_after_wake:
  assumes "well_typed db" "wait_ok db t" "hash_at db (K_task t) ''status'' = Some ''waiting_pipeline''"
    "wait_matches db t e" "claim_fence_ok db t l"
    and h: "hash_at db' (K_task t) = hash_at (wake_w db t (pipeline_event_to_json e)) (K_task t)"
    and wt: "well_typed db'" and lk: "hash_at db' (lease_key_of l) = hash_at db (lease_key_of l)"
  shows "fst (claim_pipeline_resume db' t e l now) = Inr PRC_CLAIMED"
proof -
  have ok: "wait_ok db' t" using assms(2) by (simp add: wait_ok_def h wake_w_hash)
  have "field_or db' t ''status'' = ''waiting_pipeline''" "wait_matches db' t e" "claim_fence_ok db' t l"
    "field_or db' t ''pipeline_resume_queued_attempt_id'' = field_or db' t ''pipeline_attempt_id''"
    "field_or db' t ''pipeline_resume_queued'' = pipeline_event_to_json e"
    using assms(3-5) lk by (simp_all add: field_or_def wait_matches_def claim_fence_ok_def h wake_w_hash)
  then show ?thesis by (simp add: claim_eval [OF wt ok])
qed

lemma claim_fence_held:
  assumes "claim_fence_ok db t l"
  shows "l = Some k \<and> lease_worker_id k \<noteq> [] \<longrightarrow>
    hash_at db (K_mr_lease (lease_mr k)) ''worker_id'' = Some (lease_worker_id k) \<and>
    hash_at db (K_mr_lease (lease_mr k)) ''fencing_token'' = Some (show_int (lease_fencing_token k)) \<and>
    field_or db t ''worker_id'' = lease_worker_id k \<and> field_or db t ''fencing_token'' = show_int (lease_fencing_token k)"
  using assms show_int_nonempty [of "lease_fencing_token k", symmetric]
  by (cases "hash_at db (K_mr_lease (lease_mr k)) ''worker_id''"; cases "hash_at db (K_mr_lease (lease_mr k)) ''fencing_token''")
    (auto simp: claim_fence_ok_def lease_args_def lease_key_of_def Let_def)

text \<open>A wait that was registered: the fields of the task, and the task among the waiters.\<close>

lemma register_eval:
  assumes "well_typed db" "0 < ttl" "register_pipeline_wait ttl db t p s attempt pid now = (Inr None, db1)"
  shows "hash_at db1 (K_task t) ''pipeline_project_id'' = Some p" "hash_at db1 (K_task t) ''pipeline_sha'' = Some s"
    "hash_at db1 (K_task t) ''pipeline_attempt_id'' = Some attempt"
    "hash_at db1 (K_task t) ''pipeline_resume_queued_attempt_id'' = None"
    "hash_at db1 (K_task t) ''pipeline_event_key'' = Some (redis_key default_prefix (K_pipeline_event p s pid))"
    "hash_at db1 (K_task t) ''pipeline_waiter_key'' = Some (redis_key default_prefix (K_pipeline_waiters p s pid))"
    "t \<in> set (set_at db1 (K_pipeline_waiters p s pid))" "well_typed db1"
proof -
  let ?ws = "K_pipeline_waiters p s pid" and ?k = "K_task t"
  define wait where "wait = hset_w (expire_w (sadd_w db ?ws t) ?ws ttl) ?k
      [(''pipeline_project_id'', p), (''pipeline_sha'', s), (''pipeline_wait_registered_at'', show_int now),
       (''pipeline_event_key'', redis_key default_prefix (K_pipeline_event p s pid)), (''pipeline_waiter_key'', redis_key default_prefix ?ws),
       (''pipeline_attempt_id'', attempt), (''pipeline_id'', case pid of Some n \<Rightarrow> show_int n | None \<Rightarrow> [])]"
  have db1: "db1 = zadd_w (hdel_w wait ?k [''pipeline_resume_queued'', ''pipeline_resume_queued_attempt_id'',
      ''pipeline_resume_claimed_attempt_id'', ''pipeline_resume_claimed_event'']) K_pipeline_waiting now t"
  proof (cases "case str_at db (K_pipeline_event p s pid) of None \<Rightarrow> Some False | Some c \<Rightarrow> cached_terminal c")
    case (Some hit)
    moreover have "\<not> cached_terminal [] = Some True" by (simp add: cached_terminal_def loads_def)
    ultimately show ?thesis using assms(1,3)
      by (cases hit) (auto simp: register_pipeline_wait_def REGISTER_PIPELINE_WAIT_LUA_def redis_simps wait_def split: option.splits if_splits)
  qed (use assms(1,3) in \<open>simp add: register_pipeline_wait_def REGISTER_PIPELINE_WAIT_LUA_def redis_simps on_reply_def\<close>)
  show "hash_at db1 ?k ''pipeline_project_id'' = Some p" "hash_at db1 ?k ''pipeline_sha'' = Some s"
    "hash_at db1 ?k ''pipeline_attempt_id'' = Some attempt" "hash_at db1 ?k ''pipeline_resume_queued_attempt_id'' = None"
    "hash_at db1 ?k ''pipeline_event_key'' = Some (redis_key default_prefix (K_pipeline_event p s pid))"
    "hash_at db1 ?k ''pipeline_waiter_key'' = Some (redis_key default_prefix ?ws)"
    by (simp_all add: db1 wait_def hash_at_other hash_field)
  show "t \<in> set (set_at db1 ?ws)" using assms(2) by (simp add: db1 wait_def view_simps)
  show "well_typed db1" using assms(1) by (simp add: db1 wait_def redis_simps)
qed

section \<open>Properties\<close>

text \<open>
  C12: a resumption is claimed once and only for the awaited pipeline. A claim succeeds only if the
  task is waiting, the event has the project and commit the task registered, it is the event queued
  for the task's current attempt, and, where the caller names a lease with a worker id, the lease
  record and the task both carry that worker and fencing token (a caller without a lease is not
  checked). The task then runs, and every later claim (by whatever lease, with whatever event) is a
  duplicate or stale. With a named attempt the same event is reported as a duplicate.
\<close>

theorem pipeline_resume_claimed_once:
  assumes "well_typed db" "wait_ok db t" "claim_pipeline_resume db t e l now = (Inr PRC_CLAIMED, db')"
  shows "field_or db t ''status'' = ''waiting_pipeline'' \<and> wait_matches db t e \<and>
    (\<forall>k. l = Some k \<and> lease_worker_id k \<noteq> [] \<longrightarrow>
       hash_at db (K_mr_lease (lease_mr k)) ''worker_id'' = Some (lease_worker_id k) \<and>
       hash_at db (K_mr_lease (lease_mr k)) ''fencing_token'' = Some (show_int (lease_fencing_token k)) \<and>
       field_or db t ''worker_id'' = lease_worker_id k \<and> field_or db t ''fencing_token'' = show_int (lease_fencing_token k)) \<and>
    field_or db t ''pipeline_resume_queued'' = pipeline_event_to_json e \<and>
    field_or db t ''pipeline_resume_queued_attempt_id'' = field_or db t ''pipeline_attempt_id'' \<and>
    field_or db' t ''status'' = ''running'' \<and> map_of (zset_at db' K_pipeline_waiting) t = None \<and>
    (\<forall>e' l' now'. claim_pipeline_resume db' t e' l' now' \<in> {(Inr PRC_DUPLICATE, db'), (Inr PRC_STALE, db')}) \<and>
    (field_or db t ''pipeline_attempt_id'' \<noteq> [] \<longrightarrow>
       (\<forall>l' now'. claim_pipeline_resume db' t e l' now' = (Inr PRC_DUPLICATE, db')))"
proof -
  have conds: "field_or db t ''status'' = ''waiting_pipeline''" "claim_fence_ok db t l" "wait_matches db t e"
    "field_or db t ''pipeline_resume_queued_attempt_id'' = field_or db t ''pipeline_attempt_id''"
    "field_or db t ''pipeline_resume_queued'' = pipeline_event_to_json e" "db' = claimed_w db t e now"
    using assms(3) unfolding claim_eval [OF assms(1,2)] by (simp_all split: if_splits)
  have ok: "well_typed db'" "wait_ok db' t"
    using claimed_w_wt [OF assms(1,2)] claimed_w_fields(1) [OF assms(1,2)] conds(6) by auto
  note f = claimed_w_fields(2-5) [OF assms(1,2), of e now, folded conds(6)]
  have "claim_pipeline_resume db' t e' l' now' \<in> {(Inr PRC_DUPLICATE, db'), (Inr PRC_STALE, db')}" for e' l' now'
    using f(1) by (simp add: claim_eval [OF ok])
  moreover have "claim_pipeline_resume db' t e l' now' = (Inr PRC_DUPLICATE, db')"
    if "field_or db t ''pipeline_attempt_id'' \<noteq> []" for l' now'
    using f that conds(3) by (simp add: claim_eval [OF ok])
  ultimately show ?thesis using conds f(1) claimed_w_waiting claim_fence_held [OF conds(2)] by simp
qed

definition example_pipeline :: pipeline_event where
  "example_pipeline = \<lparr>pe_project_id = ''7'', pe_pipeline_id = 42, pe_sha = ''abc'', pe_status = ''success'', pe_ref = ''main'',
     pe_occurred_at = ''now'', pe_source = ''webhook''\<rparr>"

definition waiting_db :: "string \<Rightarrow> redis" where
  "waiting_db attempt = hset_w (sadd_w empty_redis (K_pipeline_waiters ''7'' ''abc'' None) ''t'') (K_task ''t'')
     [(''status'', ''waiting_pipeline''), (''worker_id'', ''w''), (''pipeline_project_id'', ''7''), (''pipeline_sha'', ''abc''),
      (''pipeline_attempt_id'', attempt),
      (''pipeline_event_key'', redis_key default_prefix (K_pipeline_event ''7'' ''abc'' None)),
      (''pipeline_waiter_key'', redis_key default_prefix (K_pipeline_waiters ''7'' ''abc'' None))]"

lemma waiting_db_facts:
  "well_typed (waiting_db a)" "wait_ok (waiting_db a) ''t''" "hash_at (waiting_db a) (K_task ''t'') ''status'' = Some ''waiting_pipeline''"
  "hash_at (waiting_db a) (K_task ''t'') ''worker_id'' = Some ''w''" "wait_matches (waiting_db a) ''t'' example_pipeline"
  "field_or (waiting_db a) ''t'' ''pipeline_attempt_id'' = a"
  "hash_at (waiting_db a) (K_task ''t'') ''pipeline_resume_queued_attempt_id'' = None"
  "set_at (waiting_db a) (K_pipeline_waiters ''7'' ''abc'' None) = [''t'']" "claim_fence_ok (waiting_db a) ''t'' None"
  "hash_at (waiting_db a) (K_task ''t'') ''pipeline_event_key'' = Some (redis_key default_prefix (K_pipeline_event ''7'' ''abc'' None))"
  "hash_at (waiting_db a) (K_task ''t'') ''pipeline_waiter_key'' = Some (redis_key default_prefix (K_pipeline_waiters ''7'' ''abc'' None))"
proof -
  show "well_typed (waiting_db a)" by (simp add: waiting_db_def redis_simps)
  show "set_at (waiting_db a) (K_pipeline_waiters ''7'' ''abc'' None) = [''t'']" by (simp add: waiting_db_def view_simps)
  show "claim_fence_ok (waiting_db a) ''t'' None" by (simp add: claim_fence_ok_def lease_args_def)
qed (auto simp: waiting_db_def wait_ok_def wait_matches_def field_or_def hash_field hash_at_other example_pipeline_def)

definition waiter_lease :: mr_lease where
  "waiter_lease = \<lparr>lease_mr = \<lparr>project_id = ''7'', iid = 3\<rparr>, lease_worker_id = ''w'', lease_fencing_token = 1\<rparr>"

definition leased_db :: redis where
  "leased_db = hset_w (hset_w (waiting_db ''a'') (K_task ''t'') [(''fencing_token'', show_int 1)]) (K_mr_lease (lease_mr waiter_lease))
     [(''worker_id'', ''w''), (''fencing_token'', show_int 1)]"

theorem pipeline_resume_claimed_once_witness:
  "\<exists>db db'. claim_pipeline_resume db ''t'' example_pipeline (Some waiter_lease) 5 = (Inr PRC_CLAIMED, db') \<and>
     hash_at db (K_mr_lease (lease_mr waiter_lease)) ''worker_id'' = Some ''w'' \<and>
     claim_pipeline_resume db' ''t'' example_pipeline (Some waiter_lease) 9 = (Inr PRC_DUPLICATE, db')"
proof -
  let ?db = "wake_w leased_db ''t'' (pipeline_event_to_json example_pipeline)"
  note f = waiting_db_facts [of "''a''"]
  have task: "hash_at leased_db (K_task ''t'') = (hash_at (waiting_db ''a'') (K_task ''t''))(''fencing_token'' \<mapsto> show_int 1)"
    by (simp add: leased_db_def view_simps)
  have leased: "well_typed leased_db" "wait_ok leased_db ''t''" "hash_at leased_db (K_task ''t'') ''status'' = Some ''waiting_pipeline''"
    "wait_matches leased_db ''t'' example_pipeline"
    using f by (simp_all add: leased_db_def redis_simps wait_ok_def wait_matches_def field_or_def task [unfolded leased_db_def])
  have held: "claim_fence_ok leased_db ''t'' (Some waiter_lease)"
    using f(4) by (simp add: claim_fence_ok_def lease_args_def lease_key_of_def Let_def field_or_def task waiter_lease_def)
      (simp add: leased_db_def waiter_lease_def view_simps)
  have wt: "well_typed ?db" using wake_w_wt leased(1) by blast
  have ok: "wait_ok ?db ''t''" using leased(2) by (simp add: wait_ok_def wake_w_hash)
  have "fst (claim_pipeline_resume ?db ''t'' example_pipeline (Some waiter_lease) 5) = Inr PRC_CLAIMED"
    by (rule claim_after_wake [OF leased held refl wt]) (simp add: lease_key_of_def wake_w_def view_simps)
  then obtain db' where c: "claim_pipeline_resume ?db ''t'' example_pipeline (Some waiter_lease) 5 = (Inr PRC_CLAIMED, db')"
    by (metis eq_fst_iff)
  have "field_or ?db ''t'' ''pipeline_attempt_id'' \<noteq> []" using f(6) by (simp add: field_or_def wake_w_hash task)
  with pipeline_resume_claimed_once [OF wt ok c] c show ?thesis
    by (intro exI [of _ ?db] exI [of _ db']) (simp add: waiter_lease_def)
qed

text \<open>The fields of a task that make up its registered wait.\<close>

definition wait_fields :: "string list" where
  "wait_fields = [''pipeline_project_id'', ''pipeline_sha'', ''pipeline_attempt_id'', ''pipeline_event_key'', ''pipeline_waiter_key'',
     ''pipeline_resume_queued_attempt_id'']"

text \<open>
  C13: a registered wait is resumed by the event. Let a task register its wait for the pipeline of a
  commit under an attempt id that is not empty, and find no cached event. Take any later keyspace
  that kept the fields of the wait and the task among the waiters, in which the task belongs to a
  worker and has the waiting status. Publishing a terminal event of that commit (and pipeline, if the
  wait names one) puts the resumption with the event into the inbox of that worker, and the claim
  that follows (on any keyspace that kept the task and the lease record, by a caller whose lease
  matches or who has none) succeeds; publishing again queues the task no second time.
\<close>

theorem published_event_resumes:
  assumes "well_typed db" "0 < ttl" "attempt \<noteq> []" "pid \<in> {None, Some (pe_pipeline_id e)}" "pipeline_event_terminal e"
    and "register_pipeline_wait ttl db t (pe_project_id e) (pe_sha e) attempt pid now = (Inr None, db1)"
    and "well_typed db2" "\<forall>f\<in>set wait_fields. hash_at db2 (K_task t) f = hash_at db1 (K_task t) f"
    and "t \<in> set (set_at db2 (K_pipeline_waiters (pe_project_id e) (pe_sha e) pid))"
    and "hash_at db2 (K_task t) ''status'' = Some ''waiting_pipeline''" "hash_at db2 (K_task t) ''worker_id'' = Some w"
  shows "\<exists>ts db3. publish_pipeline_event ttl db2 e = (Inr ts, db3) \<and> t \<in> set ts \<and>
    resume_message t (pipeline_event_to_json e) \<in> inbox_messages db3 w \<and>
    (\<forall>db4 l now'. well_typed db4 \<longrightarrow> hash_at db4 (K_task t) = hash_at db3 (K_task t) \<longrightarrow>
       hash_at db4 (lease_key_of l) = hash_at db2 (lease_key_of l) \<longrightarrow> claim_fence_ok db2 t l \<longrightarrow>
       fst (claim_pipeline_resume db4 t e l now') = Inr PRC_CLAIMED) \<and>
    (\<exists>ts' db4. publish_pipeline_event ttl db3 e = (Inr ts', db4) \<and> t \<notin> set ts')"
proof -
  note r = register_eval [OF assms(1,2,6)]
  have k: "field_or db2 t ''pipeline_project_id'' = pe_project_id e" "field_or db2 t ''pipeline_sha'' = pe_sha e"
    "field_or db2 t ''pipeline_attempt_id'' = attempt" "field_or db2 t ''pipeline_resume_queued_attempt_id'' = []"
    using assms(8) r(1-4) by (simp_all add: wait_fields_def field_or_def)
  have wakes: "wakes db2 t" using k(3,4) assms(3,10,11) by (simp add: wakes_def)
  have ok: "wait_ok db2 t" using assms(8) r(5,6) by (auto simp: wait_fields_def wait_ok_def)
  have matches: "wait_matches db2 t e" using k(1,2) by (simp add: wait_matches_def)
  have waits: "t \<in> set (remdups (set_at db2 (K_pipeline_waiters (pe_project_id e) (pe_sha e) None) @
      set_at db2 (K_pipeline_waiters (pe_project_id e) (pe_sha e) (Some (pe_pipeline_id e)))))"
    using assms(4,9) by auto
  obtain ts db3 where d: "publish_pipeline_event ttl db2 e = (Inr ts, db3)" "well_typed db3" "t \<in> set ts"
    "hash_at db3 (K_task t) = hash_at (wake_w db2 t (pipeline_event_to_json e)) (K_task t)"
    "resume_message t (pipeline_event_to_json e) \<in> inbox_messages db3 w"
    using publish_eval [OF assms(7,5), of ttl] waits wakes assms(11) by (fastforce simp: field_or_def)
  have "\<not> wakes db3 t" using wake_w_not_wakes [of db2 t] by (simp add: wakes_def field_or_def d(4))
  then have "\<exists>ts' db4. publish_pipeline_event ttl db3 e = (Inr ts', db4) \<and> t \<notin> set ts'"
    using publish_eval [OF d(2) assms(5), of ttl] by fastforce
  with d show ?thesis using claim_after_wake [OF assms(7) ok assms(10) matches] by auto
qed

definition registering_db :: redis where
  "registering_db = hset_w empty_redis (K_task ''t'') [(''status'', ''running''), (''worker_id'', ''w'')]"

theorem published_event_resumes_witness:
  "\<exists>db1 ts db3. register_pipeline_wait 60 registering_db ''t'' ''7'' ''abc'' ''a'' None 5 = (Inr None, db1) \<and>
     publish_pipeline_event 60 (hset_w db1 (K_task ''t'') [(''status'', ''waiting_pipeline'')]) example_pipeline = (Inr ts, db3) \<and> ''t'' \<in> set ts \<and>
     resume_message ''t'' (pipeline_event_to_json example_pipeline) \<in> inbox_messages db3 ''w''"
proof -
  have wt: "well_typed registering_db" by (simp add: registering_db_def redis_simps)
  then obtain db1 where reg: "register_pipeline_wait 60 registering_db ''t'' ''7'' ''abc'' ''a'' None 5 = (Inr None, db1)"
    "hash_at db1 (K_task ''t'') ''worker_id'' = Some ''w''"
    by (simp add: register_pipeline_wait_def REGISTER_PIPELINE_WAIT_LUA_def redis_simps registering_db_def view_simps hash_field)
  let ?db2 = "hset_w db1 (K_task ''t'') [(''status'', ''waiting_pipeline'')]"
  have wt2: "well_typed ?db2" "''t'' \<in> set (set_at db1 (K_pipeline_waiters ''7'' ''abc'' None))"
    using register_eval(7,8) [OF wt _ reg(1)] by (simp_all add: redis_simps)
  have "pipeline_event_terminal example_pipeline" by (rule lower_done) (simp add: event_done_def example_pipeline_def)
  with published_event_resumes [OF wt, of 60 "''a''" None example_pipeline "''t''" 5 db1 ?db2 "''w''"] reg wt2 show ?thesis
    by (auto simp: example_pipeline_def wait_fields_def hash_field view_simps)
qed

text \<open>
  C14: no event is lost between the publisher and the waiter. A task that registers its wait
  after the terminal event was published gets the event back and is not suspended; a task that
  was not yet waiting when the event came finds it in the cache when its wait is checked, is
  queued, and can then claim it.
\<close>

theorem cached_event_not_lost:
  assumes "well_typed db" "event_done e" "pid \<in> {None, Some (pe_pipeline_id e)}"
  shows "(\<exists>ts db1. publish_pipeline_event ttl db e = (Inr ts, db1) \<and>
      register_pipeline_wait ttl db1 t (pe_project_id e) (pe_sha e) attempt pid now = (Inr (Some e), db1)) \<and>
    (\<forall>w. hash_at db (K_task t) ''status'' = Some ''waiting_pipeline'' \<longrightarrow> hash_at db (K_task t) ''worker_id'' = Some w \<longrightarrow>
      hash_at db (K_task t) ''pipeline_event_key'' = Some (redis_key default_prefix (K_pipeline_event (pe_project_id e) (pe_sha e) pid)) \<longrightarrow>
      hash_at db (K_task t) ''pipeline_waiter_key'' = Some (redis_key default_prefix (K_pipeline_waiters (pe_project_id e) (pe_sha e) pid)) \<longrightarrow>
      t \<in> set (set_at db (K_pipeline_waiters (pe_project_id e) (pe_sha e) pid)) \<longrightarrow>
      str_at db (K_pipeline_event (pe_project_id e) (pe_sha e) pid) = Some (pipeline_event_to_json e) \<longrightarrow>
      hash_at db (K_task t) ''pipeline_resume_queued_attempt_id'' = None \<longrightarrow> wait_matches db t e \<longrightarrow> claim_fence_ok db t None \<longrightarrow>
      (\<exists>db1. resume_pipeline_if_cached db t = (Inr True, db1) \<and> fst (claim_pipeline_resume db1 t e None now) = Inr PRC_CLAIMED))"
proof (intro conjI allI impI)
  obtain ts db1 where d: "publish_pipeline_event ttl db e = (Inr ts, db1)" "well_typed db1"
    "str_at db1 (K_pipeline_event (pe_project_id e) (pe_sha e) pid) = Some (pipeline_event_to_json e)"
    using publish_eval [OF assms(1) lower_done [OF assms(2)], of ttl] assms(3) by fastforce
  then show "\<exists>ts db1. publish_pipeline_event ttl db e = (Inr ts, db1) \<and>
      register_pipeline_wait ttl db1 t (pe_project_id e) (pe_sha e) attempt pid now = (Inr (Some e), db1)"
    using assms(2) by (simp add: register_pipeline_wait_def REGISTER_PIPELINE_WAIT_LUA_def redis_simps cached_terminal_json)
next
  fix w
  let ?k = "K_pipeline_waiters (pe_project_id e) (pe_sha e) pid" and ?e = "K_pipeline_event (pe_project_id e) (pe_sha e) pid"
  assume a: "hash_at db (K_task t) ''status'' = Some ''waiting_pipeline''" "hash_at db (K_task t) ''worker_id'' = Some w"
    "hash_at db (K_task t) ''pipeline_event_key'' = Some (redis_key default_prefix ?e)"
    "hash_at db (K_task t) ''pipeline_waiter_key'' = Some (redis_key default_prefix ?k)" "t \<in> set (set_at db ?k)"
    "str_at db ?e = Some (pipeline_event_to_json e)" "hash_at db (K_task t) ''pipeline_resume_queued_attempt_id'' = None"
    "wait_matches db t e" "claim_fence_ok db t None"
  have "resume_pipeline_if_cached db t = (Inr True, wake_w db t (pipeline_event_to_json e))"
    using resume_cached_eval [OF assms(1) a(1-6) assms(2)] a(7) by simp
  moreover have "wait_ok db t" using a(3,4) by (auto simp: wait_ok_def)
  then have "fst (claim_pipeline_resume (wake_w db t (pipeline_event_to_json e)) t e None now) = Inr PRC_CLAIMED"
    by (rule claim_after_wake [OF assms(1) _ a(1,8,9) refl wake_w_wt [OF assms(1)]]) (simp add: lease_key_of_def wake_w_def view_simps)
  ultimately show "\<exists>db1. resume_pipeline_if_cached db t = (Inr True, db1) \<and> fst (claim_pipeline_resume db1 t e None now) = Inr PRC_CLAIMED"
    by blast
qed

theorem cached_event_not_lost_witness:
  "\<exists>ts db1. publish_pipeline_event 60 empty_redis example_pipeline = (Inr ts, db1) \<and>
     register_pipeline_wait 60 db1 ''t'' ''7'' ''abc'' ''a'' (Some 42) 9 = (Inr (Some example_pipeline), db1)"
  using cached_event_not_lost [of empty_redis example_pipeline "Some 42" 60 "''t''" "''a''" 9]
  by (simp add: event_done_def example_pipeline_def)

text \<open>
  A wait registered without an attempt id is not woken by the event. The publication
  compares a missing queue mark with the empty attempt id and takes them as equal, so it passes
  the waiting task over; the check of the cached event tells a missing mark from an empty one
  and would queue it.
\<close>

theorem empty_attempt_not_woken:
  assumes "well_typed db" "pipeline_event_terminal e" "field_or db t ''pipeline_attempt_id'' = []"
    "hash_at db (K_task t) ''pipeline_resume_queued_attempt_id'' = None"
  shows "\<exists>ts db1. publish_pipeline_event ttl db e = (Inr ts, db1) \<and> t \<notin> set ts \<and> hash_at db1 (K_task t) = hash_at db (K_task t)"
proof -
  have "\<not> wakes db t" using assms(3,4) by (simp add: wakes_def field_or_def)
  then show ?thesis using publish_eval [OF assms(1,2), of ttl] by fastforce
qed

theorem empty_attempt_not_woken_witness:
  "\<exists>ts db1. publish_pipeline_event 60 (waiting_db []) example_pipeline = (Inr ts, db1) \<and> ''t'' \<notin> set ts"
proof -
  have "pipeline_event_terminal example_pipeline" by (rule lower_done) (simp add: event_done_def example_pipeline_def)
  from empty_attempt_not_woken [OF waiting_db_facts(1) this waiting_db_facts(6) waiting_db_facts(7), of 60] show ?thesis by blast
qed

end
