(* ===== verification/Session.thy ===== *)
theory Session
  imports Auto_Triage Pipeline_Wait
begin

text \<open>
  The sessions of a worker (\<open>session.py\<close>): within one merge request normal tasks run side by
  side and a triage task runs alone. \<open>MrSession\<close> is one asyncio condition; the pieces of code
  between two suspension points are the operations below, and a run of a delivery is a small
  program over them, interleaved with the other runs by \<open>session_step\<close>. \<open>MrSessionManager\<close>
  keeps one session per merge request, renews their leases and scans for missed pipelines.
\<close>

subsection \<open>The condition of one session\<close>

definition triage_commands :: "string list" where
  "triage_commands = [''/triage'', ''/fix-format'', ''/fix_format'', ''/repair-pipeline'']"

text \<open>\<open>is_triage_task\<close> of \<open>session.py\<close>; a command of white space only is an \<open>IndexError\<close>, \<open>None\<close>.\<close>

definition session_is_triage :: "task_envelope \<Rightarrow> bool option" where
  "session_is_triage task =
     (if command task = [] then Some False
      else case first_word (command task) of
             None \<Rightarrow> None
           | Some w \<Rightarrow> Some (lower w \<in> set triage_commands))"

record mr_session =
  session_lease :: mr_lease
  normal_running :: int
  exclusive_task_id :: "string option"
  triage_waiting_task_id :: "string option"
  cond_waiters :: "nat list"

text \<open>
  \<open>cond_waiters\<close> is the queue of the condition: the numbers of the runs that sleep in \<open>wait\<close>. Such
  a run does nothing until it is taken out of the queue, by \<open>notify_all\<close> or by its cancellation.
\<close>

definition new_session :: "mr_lease \<Rightarrow> mr_session" where
  "new_session l = \<lparr>session_lease = l, normal_running = 0, exclusive_task_id = None, triage_waiting_task_id = None,
     cond_waiters = []\<rparr>"

definition notify_all :: "mr_session \<Rightarrow> mr_session" where
  "notify_all s = s\<lparr>cond_waiters := []\<rparr>"

definition normal_ready :: "mr_session \<Rightarrow> bool" where
  "normal_ready s \<longleftrightarrow> exclusive_task_id s = None \<and> triage_waiting_task_id s = None"

definition begin_normal :: "mr_session \<Rightarrow> mr_session" where
  "begin_normal s = s\<lparr>normal_running := normal_running s + 1\<rparr>"

definition end_normal :: "mr_session \<Rightarrow> mr_session" where
  "end_normal s = notify_all (s\<lparr>normal_running := normal_running s - 1\<rparr>)"

text \<open>\<open>_begin_triage\<close> up to the wait: \<open>None\<close> is the \<open>ValueError\<close> for another waiting triage task.\<close>

definition claim_triage_wait :: "mr_session \<Rightarrow> string \<Rightarrow> mr_session option" where
  "claim_triage_wait s t =
     (if triage_waiting_task_id s \<notin> {None, Some t} then None else Some (s\<lparr>triage_waiting_task_id := Some t\<rparr>))"

definition triage_ready :: "mr_session \<Rightarrow> string \<Rightarrow> bool" where
  "triage_ready s t \<longleftrightarrow> exclusive_task_id s = Some t \<or> (exclusive_task_id s = None \<and> normal_running s = 0)"

definition begin_triage :: "mr_session \<Rightarrow> string \<Rightarrow> mr_session" where
  "begin_triage s t = s\<lparr>exclusive_task_id := Some t, triage_waiting_task_id := None\<rparr>"

text \<open>The handler of an exception (a cancellation) during the wait.\<close>

definition abandon_triage_wait :: "mr_session \<Rightarrow> string \<Rightarrow> mr_session" where
  "abandon_triage_wait s t = (if triage_waiting_task_id s = Some t then notify_all (s\<lparr>triage_waiting_task_id := None\<rparr>) else s)"

definition end_triage :: "mr_session \<Rightarrow> string \<Rightarrow> mr_session" where
  "end_triage s t =
     (let s1 = (if exclusive_task_id s = Some t then notify_all (s\<lparr>exclusive_task_id := None\<rparr>) else s)
      in if triage_waiting_task_id s1 = Some t then notify_all (s1\<lparr>triage_waiting_task_id := None\<rparr>) else s1)"

text \<open>\<open>_begin_triage_resume\<close>: the check before \<open>_begin_triage\<close>.\<close>

definition triage_resume_allowed :: "mr_session \<Rightarrow> string \<Rightarrow> bool" where
  "triage_resume_allowed s t \<longleftrightarrow> exclusive_task_id s \<in> {None, Some t}"

subsection \<open>Runs of deliveries\<close>

text \<open>
  Where a run stands: before its first operation, after the check of a resumption, in \<open>wait_for\<close> at
  the condition (asleep, or about to test its predicate), let in (the end of its wait is being recorded), in the executor, finished,
  refused by an exception before it was let in, or \<open>Leaked\<close>: recording the end of the wait
  raised after the run was let in, outside the \<open>try\<close> whose \<open>finally\<close> would let it out.
\<close>

datatype run_pc = Fresh | Checked | Waiting | Entered | Executing | Finished | Refused | Leaked

record run =
  run_task :: string
  run_triage :: bool
  run_resume :: bool
  run_pc :: run_pc

record session_state =
  sess :: mr_session
  runs :: "run list"

definition set_pc :: "session_state \<Rightarrow> nat \<Rightarrow> run_pc \<Rightarrow> mr_session \<Rightarrow> session_state" where
  "set_pc st i pc s = \<lparr>sess = s, runs = (runs st)[i := (runs st ! i)\<lparr>run_pc := pc\<rparr>]\<rparr>"

definition over :: "run \<Rightarrow> bool" where
  "over r \<longleftrightarrow> run_pc r \<in> {Finished, Refused, Leaked}"

text \<open>The end of \<open>run\<close> and \<open>resume_pipeline\<close>: a triage run that was suspended keeps its exclusivity.\<close>

definition leave :: "mr_session \<Rightarrow> run \<Rightarrow> bool \<Rightarrow> mr_session" where
  "leave s r suspended =
     (if run_triage r then (if suspended then s else end_triage s (run_task r)) else end_normal s)"

definition enter :: "mr_session \<Rightarrow> run \<Rightarrow> mr_session" where
  "enter s r = (if run_triage r then begin_triage s (run_task r) else begin_normal s)"

definition ready :: "mr_session \<Rightarrow> run \<Rightarrow> bool" where
  "ready s r \<longleftrightarrow> (if run_triage r then triage_ready s (run_task r) else normal_ready s)"

text \<open>A cancelled wait leaves the queue of the condition.\<close>

definition drop_waiter :: "mr_session \<Rightarrow> nat \<Rightarrow> mr_session" where
  "drop_waiter s i = s\<lparr>cond_waiters := removeAll i (cond_waiters s)\<rparr>"

definition asleep :: "session_state \<Rightarrow> nat \<Rightarrow> bool" where
  "asleep st i \<longleftrightarrow> i \<in> set (cond_waiters (sess st))"

text \<open>
  The steps of \<open>run\<close> and \<open>resume_pipeline\<close>. A run in \<open>wait_for\<close> that is not asleep tests its
  predicate: it is let in, or it enters the queue of the condition and sleeps. \<open>passed_on\<close> is the
  wake-up a cancelled waiter passes on.
\<close>

inductive run_step :: "session_state \<Rightarrow> session_state \<Rightarrow> bool" where
  check_resume: "\<lbrakk>i < length (runs st); r = runs st ! i; run_pc r = Fresh; run_triage r; run_resume r;
     triage_resume_allowed (sess st) (run_task r)\<rbrakk> \<Longrightarrow> run_step st (set_pc st i Checked (sess st))"
| refuse: "\<lbrakk>i < length (runs st); run_pc (runs st ! i) \<in> {Fresh, Checked}\<rbrakk> \<Longrightarrow> run_step st (set_pc st i Refused (sess st))"
| wait_normal: "\<lbrakk>i < length (runs st); r = runs st ! i; run_pc r = Fresh; \<not> run_triage r\<rbrakk>
     \<Longrightarrow> run_step st (set_pc st i Waiting (sess st))"
| wait_triage: "\<lbrakk>i < length (runs st); r = runs st ! i; run_triage r; run_pc r = (if run_resume r then Checked else Fresh);
     claim_triage_wait (sess st) (run_task r) = Some s\<rbrakk> \<Longrightarrow> run_step st (set_pc st i Waiting s)"
| cancel_normal: "\<lbrakk>i < length (runs st); r = runs st ! i; run_pc r = Waiting; \<not> run_triage r\<rbrakk>
     \<Longrightarrow> run_step st (set_pc st i Refused (drop_waiter (sess st) i))"
| cancel_triage: "\<lbrakk>i < length (runs st); r = runs st ! i; run_pc r = Waiting; run_triage r\<rbrakk>
     \<Longrightarrow> run_step st (set_pc st i Refused (abandon_triage_wait (drop_waiter (sess st) i) (run_task r)))"
| fall_asleep: "\<lbrakk>i < length (runs st); r = runs st ! i; run_pc r = Waiting; \<not> asleep st i; \<not> ready (sess st) r\<rbrakk>
     \<Longrightarrow> run_step st (st\<lparr>sess := (sess st)\<lparr>cond_waiters := cond_waiters (sess st) @ [i]\<rparr>\<rparr>)"
| passed_on: "asleep st i \<Longrightarrow> run_step st (st\<lparr>sess := drop_waiter (sess st) i\<rparr>)"
| let_in: "\<lbrakk>i < length (runs st); r = runs st ! i; run_pc r = Waiting; \<not> asleep st i; ready (sess st) r\<rbrakk>
     \<Longrightarrow> run_step st (set_pc st i Entered (enter (sess st) r))"
| recorded: "\<lbrakk>i < length (runs st); run_pc (runs st ! i) = Entered\<rbrakk> \<Longrightarrow> run_step st (set_pc st i Executing (sess st))"
| not_recorded: "\<lbrakk>i < length (runs st); run_pc (runs st ! i) = Entered\<rbrakk> \<Longrightarrow> run_step st (set_pc st i Leaked (sess st))"
| finish: "\<lbrakk>i < length (runs st); r = runs st ! i; run_pc r = Executing\<rbrakk>
     \<Longrightarrow> run_step st (set_pc st i Finished (leave (sess st) r suspended))"

definition arrive :: "session_state \<Rightarrow> string \<Rightarrow> bool \<Rightarrow> bool \<Rightarrow> session_state" where
  "arrive st t triage resume =
     \<lparr>sess = sess st, runs = runs st @ [\<lparr>run_task = t, run_triage = triage, run_resume = resume, run_pc = Fresh\<rparr>]\<rparr>"

text \<open>
  A session over time: deliveries arrive, runs make steps. In \<open>session_step\<close> a delivery of a
  triage task arrives only when no other run of that task is under way; \<open>delivery_step\<close> has
  no such condition, as the inbox of a worker.
\<close>

inductive session_step :: "session_state \<Rightarrow> session_state \<Rightarrow> bool" where
  ss_arrive: "(\<And>r. r \<in> set (runs st) \<Longrightarrow> run_triage r \<Longrightarrow> run_task r = t \<Longrightarrow> over r) \<Longrightarrow> session_step st (arrive st t triage resume)"
| ss_run: "run_step st st' \<Longrightarrow> session_step st st'"

inductive delivery_step :: "session_state \<Rightarrow> session_state \<Rightarrow> bool" where
  ds_arrive: "delivery_step st (arrive st t triage resume)"
| ds_run: "run_step st st' \<Longrightarrow> delivery_step st st'"

definition initial_session :: "mr_lease \<Rightarrow> session_state" where
  "initial_session l = \<lparr>sess = new_session l, runs = []\<rparr>"

subsection \<open>The invariant\<close>

definition inside :: "run \<Rightarrow> bool" where
  "inside r \<longleftrightarrow> run_pc r \<in> {Entered, Executing}"

definition counted :: "run \<Rightarrow> bool" where
  "counted r \<longleftrightarrow> \<not> run_triage r \<and> run_pc r \<in> {Entered, Executing, Leaked}"

definition run_fits :: "mr_session \<Rightarrow> run \<Rightarrow> bool" where
  "run_fits s r \<longleftrightarrow> (run_triage r \<and> inside r \<longrightarrow> exclusive_task_id s = Some (run_task r)) \<and>
     (run_triage r \<and> run_pc r = Waiting \<longrightarrow> triage_waiting_task_id s = Some (run_task r))"

definition apart :: "run \<Rightarrow> run \<Rightarrow> bool" where
  "apart r r' \<longleftrightarrow> (run_triage r \<and> run_triage r' \<and> \<not> over r \<and> \<not> over r' \<longrightarrow> run_task r \<noteq> run_task r')"

definition waits_for :: "run \<Rightarrow> string \<Rightarrow> bool" where
  "waits_for r t \<longleftrightarrow> run_triage r \<and> run_pc r = Waiting \<and> run_task r = t"

definition session_inv :: "session_state \<Rightarrow> bool" where
  "session_inv st \<longleftrightarrow>
     normal_running (sess st) = int (length (filter counted (runs st))) \<and>
     (exclusive_task_id (sess st) \<noteq> None \<longrightarrow> normal_running (sess st) = 0) \<and>
     (\<forall>i < length (runs st). run_fits (sess st) (runs st ! i)) \<and>
     (\<forall>i < length (runs st). \<forall>j < length (runs st). i \<noteq> j \<longrightarrow> apart (runs st ! i) (runs st ! j)) \<and>
     (\<forall>t. triage_waiting_task_id (sess st) = Some t \<longrightarrow> (\<exists>i < length (runs st). waits_for (runs st ! i) t))"

lemma length_filter_update:
  "i < length xs \<Longrightarrow> int (length (filter P (xs[i := y]))) = int (length (filter P xs)) - of_bool (P (xs ! i)) + of_bool (P y)"
proof (induction xs arbitrary: i)
  case (Cons a xs)
  show ?case
  proof (cases i)
    case (Suc n)
    with Cons.IH [of n] Cons.prems show ?thesis by (cases "P a") simp_all
  qed simp
qed simp

lemma set_pc_inv:
  assumes inv: "session_inv st" and i: "i < length (runs st)" and r: "r = runs st ! i" and r': "r' = r\<lparr>run_pc := pc\<rparr>"
    and cnt: "normal_running s = normal_running (sess st) - of_bool (counted r) + of_bool (counted r')"
    and excl: "exclusive_task_id s \<noteq> None \<Longrightarrow> normal_running s = 0"
    and mine: "run_fits s r'"
    and others: "\<And>q. run_fits (sess st) q \<Longrightarrow> apart q r \<Longrightarrow> run_fits s q"
    and active: "\<not> over r' \<Longrightarrow> \<not> over r"
    and wait: "\<And>t. triage_waiting_task_id s = Some t \<Longrightarrow>
      waits_for r' t \<or> (triage_waiting_task_id (sess st) = Some t \<and> \<not> waits_for r t)"
  shows "session_inv (set_pc st i pc s)"
proof -
  let ?st = "set_pc st i pc s"
  have rs: "runs ?st = (runs st)[i := r']" "sess ?st = s" by (simp_all add: set_pc_def r r')
  have nth: "runs ?st ! j = (if j = i then r' else runs st ! j)" if "j < length (runs st)" for j
    using that i by (simp add: rs nth_list_update)
  note I = inv [unfolded session_inv_def]
  have "normal_running s = int (length (filter counted (runs ?st)))"
    using I cnt i by (simp add: rs length_filter_update r)
  moreover have "run_fits s (runs ?st ! j)" if j: "j < length (runs st)" for j
  proof (cases "j = i")
    case False
    then have "apart (runs st ! j) r" "run_fits (sess st) (runs st ! j)" using I j i r by auto
    then show ?thesis using others False j by (simp add: nth)
  qed (use mine j in \<open>simp add: nth\<close>)
  moreover have "apart (runs ?st ! j) (runs ?st ! k)" if jk: "j < length (runs st)" "k < length (runs st)" "j \<noteq> k" for j k
  proof -
    have "apart (runs st ! j) (runs st ! k)" using I jk by blast
    then show ?thesis using active r r' jk by (auto simp: nth apart_def)
  qed
  moreover have "\<exists>j < length (runs st). waits_for (runs ?st ! j) t" if "triage_waiting_task_id s = Some t" for t
    using wait [OF that]
  proof
    assume "triage_waiting_task_id (sess st) = Some t \<and> \<not> waits_for r t"
    then obtain j where "j < length (runs st)" "waits_for (runs st ! j) t" "j \<noteq> i" using I r by blast
    then show ?thesis by (intro exI [of _ j]) (simp add: nth)
  qed (use i in \<open>auto intro!: exI [of _ i] simp: nth\<close>)
  ultimately show ?thesis using excl unfolding session_inv_def rs(2) by (simp add: rs(1))
qed

lemmas session_defs = begin_normal_def end_normal_def begin_triage_def end_triage_def abandon_triage_wait_def
  claim_triage_wait_def normal_ready_def triage_ready_def triage_resume_allowed_def leave_def enter_def ready_def notify_all_def
  drop_waiter_def Let_def

lemmas run_preds = over_def inside_def counted_def run_fits_def apart_def waits_for_def

lemma session_inv_at:
  assumes "session_inv st" "i < length (runs st)"
  shows "run_fits (sess st) (runs st ! i)" "exclusive_task_id (sess st) \<noteq> None \<Longrightarrow> normal_running (sess st) = 0"
  using assms by (auto simp: session_inv_def)

text \<open>A step that moves a run and leaves the condition alone.\<close>

lemma quiet_inv:
  assumes "session_inv st" "i < length (runs st)" "\<not> over (runs st ! i)"
    and "run_triage (runs st ! i) \<Longrightarrow> run_pc (runs st ! i) \<noteq> Waiting \<and> pc \<noteq> Waiting"
    and "inside (runs st ! i) = (pc \<in> {Entered, Executing, Leaked})"
  shows "session_inv (set_pc st i pc (sess st))"
  by (rule set_pc_inv [OF assms(1,2) refl refl])
    (use assms(3-) session_inv_at [OF assms(1,2)] in \<open>auto simp: run_preds\<close>)

lemma waiters_inv: "session_inv (st\<lparr>sess := (sess st)\<lparr>cond_waiters := xs\<rparr>\<rparr>) = session_inv st"
  by (simp add: session_inv_def run_fits_def)

lemma run_step_inv:
  assumes "run_step st st'" "session_inv st"
  shows "session_inv st'"
  using assms(1)
proof cases
  case (wait_triage i r s)
  show ?thesis unfolding wait_triage(1)
    by (rule set_pc_inv [OF assms(2) wait_triage(2) refl refl])
      (use wait_triage session_inv_at [OF assms(2) wait_triage(2)] in \<open>auto simp: session_defs run_preds split: if_splits\<close>)
next
  case (cancel_normal i r)
  show ?thesis unfolding cancel_normal(1)
    by (rule set_pc_inv [OF assms(2) cancel_normal(2) refl refl])
      (use cancel_normal session_inv_at [OF assms(2) cancel_normal(2)] in \<open>auto simp: session_defs run_preds split: if_splits\<close>)
next
  case (cancel_triage i r)
  show ?thesis unfolding cancel_triage(1)
    by (rule set_pc_inv [OF assms(2) cancel_triage(2) refl refl])
      (use cancel_triage session_inv_at [OF assms(2) cancel_triage(2)] in \<open>auto simp: session_defs run_preds split: if_splits\<close>)
next
  case (let_in i r)
  show ?thesis unfolding let_in(1)
    by (rule set_pc_inv [OF assms(2) let_in(2) refl refl])
      (use let_in session_inv_at [OF assms(2) let_in(2)] in \<open>auto simp: session_defs run_preds split: if_splits\<close>)
next
  case (finish i r suspended)
  note fits = session_inv_at [OF assms(2) finish(2)]
  have pos: "\<not> run_triage (runs st ! i) \<Longrightarrow> normal_running (sess st) \<noteq> 0"
  proof -
    assume "\<not> run_triage (runs st ! i)"
    then have "filter counted (runs st) \<noteq> []" using finish by (auto simp: filter_empty_conv counted_def)
    then show ?thesis using assms(2) by (simp add: session_inv_def)
  qed
  have pc: "run_pc (runs st ! i) = Executing" using finish by simp
  show ?thesis unfolding finish(1) finish(3)
  proof (cases "run_triage (runs st ! i)")
    case True
    with fits(1) pc have ex: "exclusive_task_id (sess st) = Some (run_task (runs st ! i))" by (simp add: run_fits_def inside_def)
    show "session_inv (set_pc st i Finished (leave (sess st) (runs st ! i) suspended))"
    proof (rule set_pc_inv [OF assms(2) finish(2) refl refl])
      fix q
      assume q: "run_fits (sess st) q" "apart q (runs st ! i)"
      show "run_fits (leave (sess st) (runs st ! i) suspended) q"
        using q True ex pc unfolding run_fits_def apart_def over_def inside_def
        by (cases suspended) (auto simp: leave_def end_triage_def notify_all_def Let_def)
    qed (use True ex pc fits in \<open>auto simp: session_defs over_def inside_def counted_def run_fits_def waits_for_def split: if_splits\<close>)
  next
    case False
    show "session_inv (set_pc st i Finished (leave (sess st) (runs st ! i) suspended))"
      by (rule set_pc_inv [OF assms(2) finish(2) refl refl])
        (use False pos pc fits in \<open>auto simp: leave_def end_normal_def notify_all_def over_def inside_def counted_def run_fits_def waits_for_def\<close>)
  qed
qed (simp_all add: waiters_inv drop_waiter_def assms(2), (rule quiet_inv [OF assms(2)]; auto simp: over_def inside_def)+)

text \<open>Nobody sleeps whose predicate holds: every change that makes one hold notifies.\<close>

definition asleep_inv :: "session_state \<Rightarrow> bool" where
  "asleep_inv st \<longleftrightarrow>
     (\<forall>j. asleep st j \<longrightarrow> j < length (runs st) \<and> run_pc (runs st ! j) = Waiting \<and> \<not> ready (sess st) (runs st ! j))"

lemma set_pc_asleep:
  assumes "asleep_inv st" "i < length (runs st)"
    and "\<And>j. j \<in> set (cond_waiters s) \<Longrightarrow> asleep st j \<and> j \<noteq> i"
    and "\<And>j. j \<in> set (cond_waiters s) \<Longrightarrow> ready s (runs st ! j) \<Longrightarrow> ready (sess st) (runs st ! j)"
  shows "asleep_inv (set_pc st i pc s)"
  using assms by (fastforce simp: asleep_inv_def asleep_def set_pc_def)

lemma run_step_asleep:
  assumes "run_step st st'" "session_inv st" "asleep_inv st"
  shows "asleep_inv st'"
proof -
  have awake: "\<not> asleep st i" if "i < length (runs st)" "run_pc (runs st ! i) \<noteq> Waiting" for i
    using assms(3) that by (auto simp: asleep_inv_def)
  have quiet: "asleep_inv (set_pc st i pc (sess st))" if "i < length (runs st)" "run_pc (runs st ! i) \<noteq> Waiting" for i pc
    using set_pc_asleep [OF assms(3) that(1), of "sess st"] awake [OF that] by (auto simp: asleep_def)
  have running: "0 \<le> normal_running (sess st)" using assms(2) by (simp add: session_inv_def)
  from assms(1) show ?thesis
  proof cases
    case (wait_triage i r s)
    have "run_pc (runs st ! i) \<noteq> Waiting" using wait_triage by (auto split: if_splits)
    from awake [OF wait_triage(2) this] show ?thesis unfolding wait_triage(1)
      using wait_triage(6)
      by (intro set_pc_asleep [OF assms(3) wait_triage(2)]) (auto simp: session_defs asleep_def split: if_splits)
  next
    case (cancel_normal i r)
    show ?thesis unfolding cancel_normal(1)
      by (rule set_pc_asleep [OF assms(3) cancel_normal(2)]) (auto simp: session_defs asleep_def)
  next
    case (cancel_triage i r)
    show ?thesis unfolding cancel_triage(1)
      by (rule set_pc_asleep [OF assms(3) cancel_triage(2)]) (auto simp: session_defs asleep_def split: if_splits)
  next
    case (fall_asleep i r)
    then show ?thesis using assms(3) by (auto simp: asleep_inv_def asleep_def session_defs)
  next
    case (passed_on i)
    then show ?thesis using assms(3) by (auto simp: asleep_inv_def asleep_def session_defs)
  next
    case (let_in i r)
    show ?thesis unfolding let_in(1)
    proof (rule set_pc_asleep [OF assms(3) let_in(2)])
      fix j
      assume "j \<in> set (cond_waiters (enter (sess st) r))"
      then have j: "asleep st j" by (auto simp: asleep_def session_defs split: if_splits)
      then show "asleep st j \<and> j \<noteq> i" using let_in(5) by auto
      then have "j < length (runs st)" "run_pc (runs st ! j) = Waiting" "j \<noteq> i" using assms(3) j by (auto simp: asleep_inv_def)
      then have "apart (runs st ! j) r" using assms(2) let_in(2,3) unfolding session_inv_def by metis
      then show "ready (enter (sess st) r) (runs st ! j) \<Longrightarrow> ready (sess st) (runs st ! j)"
        using let_in(4) \<open>run_pc (runs st ! j) = Waiting\<close> running by (auto simp: session_defs apart_def over_def split: if_splits)
    qed
  next
    case (finish i r suspended)
    have "run_triage r \<Longrightarrow> exclusive_task_id (sess st) = Some (run_task r)"
      using session_inv_at(1) [OF assms(2) finish(2)] finish by (simp add: run_fits_def inside_def)
    moreover have "\<not> asleep st i" using awake [OF finish(2)] finish by simp
    ultimately show ?thesis unfolding finish(1)
      by (intro set_pc_asleep [OF assms(3) finish(2)]) (auto simp: session_defs asleep_def split: if_splits)
  qed (use quiet in auto)
qed

lemma arrive_inv:
  assumes "session_inv st" "\<And>r. r \<in> set (runs st) \<Longrightarrow> run_triage r \<Longrightarrow> run_task r = t \<Longrightarrow> over r"
  shows "session_inv (arrive st t triage resume)"
proof -
  let ?r = "\<lparr>run_task = t, run_triage = triage, run_resume = resume, run_pc = Fresh\<rparr>"
  note I = assms(1) [unfolded session_inv_def]
  have new: "runs (arrive st t triage resume) = runs st @ [?r]" "sess (arrive st t triage resume) = sess st"
    by (simp_all add: arrive_def)
  have "\<not> counted ?r" "run_fits s ?r" "\<not> waits_for ?r u" for s u by (simp_all add: run_preds)
  moreover have "apart r ?r" "apart ?r r" if "r \<in> set (runs st)" for r using assms(2) that by (auto simp: apart_def)
  ultimately show ?thesis
    using I unfolding session_inv_def new by (fastforce simp: nth_append less_Suc_eq)
qed

lemma session_step_inv: "session_step st st' \<Longrightarrow> session_inv st \<Longrightarrow> session_inv st'"
  by (induction rule: session_step.induct) (simp_all add: arrive_inv run_step_inv)

lemma session_reach_inv: "session_step\<^sup>*\<^sup>* st st' \<Longrightarrow> session_inv st \<Longrightarrow> session_inv st'"
  by (induction rule: rtranclp_induct) (auto intro: session_step_inv)

lemma session_reach_asleep: "session_step\<^sup>*\<^sup>* st st' \<Longrightarrow> session_inv st \<Longrightarrow> asleep_inv st \<Longrightarrow> asleep_inv st'"
proof (induction rule: rtranclp_induct)
  case (step st1 st2)
  then have inv: "session_inv st1" "asleep_inv st1" using session_reach_inv by blast+
  from step(2) show ?case
  proof cases
    case (ss_arrive t triage resume)
    then show ?thesis using inv(2) by (auto simp: asleep_inv_def asleep_def arrive_def nth_append)
  next
    case ss_run
    then show ?thesis using run_step_asleep inv by blast
  qed
qed simp

lemma initial_session_asleep: "asleep_inv (initial_session l)"
  by (simp add: initial_session_def new_session_def asleep_inv_def asleep_def)

lemma initial_session_inv: "session_inv (initial_session l)"
  by (simp add: initial_session_def new_session_def session_inv_def)

text \<open>A run that is over stays as it is.\<close>

lemma run_step_over:
  assumes "run_step st st'" "i < length (runs st)" "over (runs st ! i)"
  shows "i < length (runs st') \<and> runs st' ! i = runs st ! i"
  using assms by cases (auto simp: set_pc_def over_def nth_list_update split: if_splits)

lemma session_over:
  assumes "session_step\<^sup>*\<^sup>* st st'" "i < length (runs st)" "over (runs st ! i)"
  shows "i < length (runs st') \<and> runs st' ! i = runs st ! i"
  using assms(1)
proof (induction rule: rtranclp_induct)
  case (step st1 st2)
  from step(2) show ?case
  proof cases
    case (ss_arrive t triage resume)
    then show ?thesis using step.IH by (simp add: arrive_def nth_append)
  next
    case ss_run
    then show ?thesis using run_step_over [of st1 st2 i] step.IH assms(3) by simp
  qed
qed (use assms in simp)

lemma counted_positive:
  assumes "session_inv st" "i < length (runs st)" "counted (runs st ! i)"
  shows "normal_running (sess st) \<noteq> 0" "exclusive_task_id (sess st) = None"
proof -
  have "filter counted (runs st) \<noteq> []" using assms(2,3) by (auto simp: filter_empty_conv)
  then show "normal_running (sess st) \<noteq> 0" using assms(1) by (simp add: session_inv_def)
  then show "exclusive_task_id (sess st) = None" using assms(1) by (auto simp: session_inv_def)
qed

lemma inside_triage:
  "session_inv st \<Longrightarrow> i < length (runs st) \<Longrightarrow> run_triage (runs st ! i) \<Longrightarrow> inside (runs st ! i) \<Longrightarrow>
     exclusive_task_id (sess st) = Some (run_task (runs st ! i))"
  using session_inv_at(1) by (simp add: run_fits_def)

subsection \<open>Steps of the last run\<close>

text \<open>A state whose last run is \<open>r\<close>.\<close>

abbreviation tailed :: "mr_session \<Rightarrow> run list \<Rightarrow> run \<Rightarrow> session_state" where
  "tailed s rs r \<equiv> \<lparr>sess = s, runs = rs @ [r]\<rparr>"

lemma tail_steps:
  "run_pc r = Fresh \<Longrightarrow> run_triage r \<Longrightarrow> run_resume r \<Longrightarrow> triage_resume_allowed s (run_task r) \<Longrightarrow>
     run_step (tailed s rs r) (tailed s rs (r\<lparr>run_pc := Checked\<rparr>))"
  "run_pc r = Fresh \<Longrightarrow> \<not> run_triage r \<Longrightarrow> run_step (tailed s rs r) (tailed s rs (r\<lparr>run_pc := Waiting\<rparr>))"
  "run_triage r \<Longrightarrow> run_pc r = (if run_resume r then Checked else Fresh) \<Longrightarrow> claim_triage_wait s (run_task r) = Some s' \<Longrightarrow>
     run_step (tailed s rs r) (tailed s' rs (r\<lparr>run_pc := Waiting\<rparr>))"
  "run_pc r = Waiting \<Longrightarrow> length rs \<notin> set (cond_waiters s) \<Longrightarrow> ready s r \<Longrightarrow> run_step (tailed s rs r) (tailed (enter s r) rs (r\<lparr>run_pc := Entered\<rparr>))"
  "run_pc r = Entered \<Longrightarrow> run_step (tailed s rs r) (tailed s rs (r\<lparr>run_pc := Executing\<rparr>))"
  "run_pc r = Executing \<Longrightarrow> run_step (tailed s rs r) (tailed (leave s r b) rs (r\<lparr>run_pc := Finished\<rparr>))"
  using run_step.check_resume [of "length rs" "tailed s rs r"] run_step.wait_normal [of "length rs" "tailed s rs r"]
    run_step.wait_triage [of "length rs" "tailed s rs r"] run_step.let_in [of "length rs" "tailed s rs r"]
    run_step.recorded [of "length rs" "tailed s rs r"] run_step.finish [of "length rs" "tailed s rs r"]
  by (simp_all add: set_pc_def asleep_def)

text \<open>A triage run and a normal run from arrival to the executor, when the condition lets them in.\<close>

lemma triage_runs:
  assumes "triage_waiting_task_id s \<in> {None, Some t}" "triage_ready s t" "resume \<longrightarrow> triage_resume_allowed s t"
    "length rs \<notin> set (cond_waiters s)"
  shows "run_step\<^sup>*\<^sup>* (tailed s rs \<lparr>run_task = t, run_triage = True, run_resume = resume, run_pc = Fresh\<rparr>)
    (tailed (begin_triage s t) rs \<lparr>run_task = t, run_triage = True, run_resume = resume, run_pc = Executing\<rparr>)"
proof -
  let ?r = "\<lambda>pc. \<lparr>run_task = t, run_triage = True, run_resume = resume, run_pc = pc\<rparr>"
  let ?s = "s\<lparr>triage_waiting_task_id := Some t\<rparr>"
  have "run_step\<^sup>*\<^sup>* (tailed s rs (?r Fresh)) (tailed s rs (?r (if resume then Checked else Fresh)))"
    using tail_steps(1) [of "?r Fresh" s rs] assms(3) by (cases resume) auto
  also have "run_step (tailed s rs (?r (if resume then Checked else Fresh))) (tailed ?s rs (?r Waiting))"
    using tail_steps(3) [of "?r (if resume then Checked else Fresh)" s ?s rs] assms(1) by (simp add: claim_triage_wait_def)
  also have "run_step (tailed ?s rs (?r Waiting)) (tailed (begin_triage s t) rs (?r Entered))"
    using tail_steps(4) [of "?r Waiting" rs ?s] assms(2,4) by (simp add: ready_def enter_def triage_ready_def begin_triage_def)
  also have "run_step (tailed (begin_triage s t) rs (?r Entered)) (tailed (begin_triage s t) rs (?r Executing))"
    using tail_steps(5) [of "?r Entered" "begin_triage s t" rs] by simp
  finally show ?thesis .
qed

lemma normal_runs:
  assumes "normal_ready s" "length rs \<notin> set (cond_waiters s)"
  shows "run_step\<^sup>*\<^sup>* (tailed s rs \<lparr>run_task = t, run_triage = False, run_resume = resume, run_pc = Fresh\<rparr>)
    (tailed (begin_normal s) rs \<lparr>run_task = t, run_triage = False, run_resume = resume, run_pc = Executing\<rparr>)"
proof -
  let ?r = "\<lambda>pc. \<lparr>run_task = t, run_triage = False, run_resume = resume, run_pc = pc\<rparr>"
  have "run_step\<^sup>*\<^sup>* (tailed s rs (?r Fresh)) (tailed s rs (?r Waiting))"
    using tail_steps(2) [of "?r Fresh" s rs] by (intro r_into_rtranclp) simp
  also have "run_step (tailed s rs (?r Waiting)) (tailed (begin_normal s) rs (?r Entered))"
    using tail_steps(4) [of "?r Waiting" rs s] assms by (simp add: ready_def enter_def)
  also have "run_step (tailed (begin_normal s) rs (?r Entered)) (tailed (begin_normal s) rs (?r Executing))"
    using tail_steps(5) [of "?r Entered" "begin_normal s" rs] by simp
  finally show ?thesis .
qed

lemma run_steps_mono: "run_step\<^sup>*\<^sup>* st st' \<Longrightarrow> session_step\<^sup>*\<^sup>* st st'" "run_step\<^sup>*\<^sup>* st st' \<Longrightarrow> delivery_step\<^sup>*\<^sup>* st st'"
  by (erule rtranclp_mono [THEN predicate2D, rotated], blast intro: ss_run ds_run)+

subsection \<open>The manager\<close>

text \<open>
  \<open>MrSessionManager\<close>: one session per merge request of the worker. The stored task read by
  \<open>_session_for\<close> comes as its owner and fencing token.
\<close>

definition session_for ::
  "string \<Rightarrow> (string \<times> mr_session) list \<Rightarrow> task_envelope \<Rightarrow> (string \<times> int option) option \<Rightarrow>
   (broker_error + mr_session option) \<times> (string \<times> mr_session) list"
where
  "session_for worker_id sessions task stored =
     (case mr task of
        None \<Rightarrow> (Inr None, sessions)
      | Some m \<Rightarrow>
          (case stored of
             Some (owner, Some token) \<Rightarrow>
               if owner \<noteq> worker_id then (Inl (LostLeaseError (task_id task)), sessions) else
               let l = \<lparr>lease_mr = m, lease_worker_id = worker_id, lease_fencing_token = token\<rparr> in
               (case map_of sessions (redis_id m) of
                  None \<Rightarrow> (Inr (Some (new_session l)), AList.update (redis_id m) (new_session l) sessions)
                | Some s \<Rightarrow>
                    if lease_fencing_token (session_lease s) \<noteq> token then
                      (Inr (Some (s\<lparr>session_lease := l\<rparr>)), AList.update (redis_id m) (s\<lparr>session_lease := l\<rparr>) sessions)
                    else (Inr (Some s), sessions))
           | _ \<Rightarrow> (Inl (LostLeaseError (task_id task)), sessions)))"

text \<open>The loop of \<open>renew_leases\<close>: the sessions whose lease is lost are dropped and collected.\<close>

fun renew_loop ::
  "int \<Rightarrow> (string \<times> mr_session) list \<Rightarrow> string list \<Rightarrow> (string \<times> mr_session) list \<Rightarrow> redis \<Rightarrow>
   (broker_error + string list) \<times> (string \<times> mr_session) list \<times> redis"
where
  "renew_loop seconds [] lost sessions db = (Inr lost, sessions, db)"
| "renew_loop seconds ((i, s) # todo) lost sessions db =
     (let l = session_lease s in
      case renew_mr db (lease_mr l) (lease_worker_id l) (lease_fencing_token l) seconds of
        (Inl e, db1) \<Rightarrow> (Inl e, sessions, db1)
      | (Inr renewed, db1) \<Rightarrow>
          if renewed then renew_loop seconds todo lost sessions db1
          else renew_loop seconds todo (lost @ [i]) (AList.delete i sessions) db1)"

definition renew_leases ::
  "int \<Rightarrow> (string \<times> mr_session) list \<Rightarrow> redis \<Rightarrow> (broker_error + unit) \<times> (string \<times> mr_session) list \<times> redis"
where
  "renew_leases seconds sessions db =
     (case renew_loop seconds sessions [] sessions db of
        (Inl e, r) \<Rightarrow> (Inl e, r)
      | (Inr lost, r) \<Rightarrow> if lost = [] then (Inr (), r) else (Inl (LostLeaseError (join '','' lost)), r))"

text \<open>
  \<open>fallback_pipeline_scan\<close>. What GitLab answers for a waiting task is an argument: \<open>None\<close> an
  exception, \<open>Some None\<close> no finished pipeline.
\<close>

definition fallback_one ::
  "int \<Rightarrow> (string \<Rightarrow> pipeline_event option option) \<Rightarrow> int \<Rightarrow> string \<Rightarrow> redis \<Rightarrow> redis option"
where
  "fallback_one ttl fetch now t db =
     (case fetch t of
        Some (Some e) \<Rightarrow>
          (case publish_pipeline_event ttl db e of
             (Inr _, db1) \<Rightarrow> Some db1
           | (Inl _, db1) \<Rightarrow> defer_pipeline_fallback db1 t now)
      | _ \<Rightarrow> defer_pipeline_fallback db t now)"

fun fallback_loop ::
  "int \<Rightarrow> (string \<Rightarrow> pipeline_event option option) \<Rightarrow> int \<Rightarrow> string list \<Rightarrow> redis \<Rightarrow> redis option"
where
  "fallback_loop ttl fetch now [] db = Some db"
| "fallback_loop ttl fetch now (t # ts) db = do { db1 \<leftarrow> fallback_one ttl fetch now t db; fallback_loop ttl fetch now ts db1 }"

definition fallback_pipeline_scan ::
  "int \<Rightarrow> int \<Rightarrow> (string \<Rightarrow> pipeline_event option option) \<Rightarrow> int \<Rightarrow> redis \<Rightarrow> redis option"
where
  "fallback_pipeline_scan scan_seconds ttl fetch now db =
     do { (ts, db1) \<leftarrow> list_stale_pipeline_waits db scan_seconds 32 now; fallback_loop ttl fetch now ts db1 }"

text \<open>
  \<open>_fetch_terminal_pipeline\<close> on what GitLab returns for one id and for the newest pipeline of a
  commit (as \<open>(id, sha, status, ref, source)\<close>).
\<close>

type_synonym gitlab_pipeline = "int \<times> string \<times> string \<times> string \<times> string"

definition fetch_terminal_pipeline ::
  "(int \<Rightarrow> gitlab_pipeline) \<Rightarrow> (string \<Rightarrow> int list) \<Rightarrow> string \<Rightarrow> string \<Rightarrow> string \<Rightarrow> int option \<Rightarrow> pipeline_event option"
where
  "fetch_terminal_pipeline pipeline_get pipelines_of_sha utc_now project sha pipeline_id =
     do { i \<leftarrow> (case pipeline_id of
                  Some i \<Rightarrow> Some i
                | None \<Rightarrow> (case pipelines_of_sha sha of [] \<Rightarrow> None | i # _ \<Rightarrow> Some i));
          let (pid, psha, status, ref, src) = pipeline_get i in
          if status \<notin> {''success'', ''failed'', ''canceled'', ''skipped''} then None
          else Some (pipeline_event_new utc_now project pid psha status ref None src) }"

definition session_held :: "redis \<Rightarrow> mr_session \<Rightarrow> bool" where
  "session_held db s \<longleftrightarrow> holds_lease db (K_mr_lease (lease_mr (session_lease s))) (lease_worker_id (session_lease s))
     (show_int (lease_fencing_token (session_lease s)))"

lemma renew_mr_eval:
  "well_typed db \<Longrightarrow>
    renew_mr db (lease_mr (session_lease s)) (lease_worker_id (session_lease s)) (lease_fencing_token (session_lease s)) seconds =
    (if session_held db s then (Inr True, pexpire_w db (K_mr_lease (lease_mr (session_lease s))) (seconds * 1000)) else (Inr False, db))"
  by (simp add: renew_mr_def RENEW_MR_LUA_def redis_simps session_held_def)

lemma renew_loop_eval:
  assumes "well_typed db" "0 < seconds"
  shows "\<exists>db'. renew_loop seconds todo lost sessions db =
      (Inr (lost @ map fst (filter (\<lambda>(i, s). \<not> session_held db s) todo)),
       fold (\<lambda>(i, s) ss. if session_held db s then ss else AList.delete i ss) todo sessions, db') \<and>
    well_typed db' \<and> (\<forall>k. hash_at db' k = hash_at db k)"
  using assms
proof (induction todo arbitrary: lost sessions db)
  case (Cons x todo)
  obtain i s where x: "x = (i, s)" by (cases x)
  show ?case
  proof (cases "session_held db s")
    case True
    let ?db1 = "pexpire_w db (K_mr_lease (lease_mr (session_lease s))) (seconds * 1000)"
    have h: "hash_at ?db1 k = hash_at db k" for k using Cons.prems(2) by (simp add: view_simps)
    then have "session_held ?db1 = session_held db" by (auto simp: session_held_def holds_lease_def fun_eq_iff)
    moreover have "well_typed ?db1" using Cons.prems(1) by (simp add: redis_simps)
    ultimately show ?thesis
      using Cons.IH [of ?db1 lost sessions] True Cons.prems h
      by (simp add: x renew_mr_eval Let_def)
  next
    case False
    then show ?thesis using Cons.IH [of db "lost @ [i]" "AList.delete i sessions"] Cons.prems
      by (simp add: x renew_mr_eval Let_def)
  qed
qed simp

lemma fold_delete:
  "fold (\<lambda>(i, s) ss. if P s then ss else AList.delete i ss) todo xs =
     filter (\<lambda>(i, _). \<not> (\<exists>s. (i, s) \<in> set todo \<and> \<not> P s)) xs"
proof (induction todo arbitrary: xs)
  case (Cons x todo)
  obtain i s where "x = (i, s)" by (cases x)
  then show ?case by (auto simp: Cons.IH AList.delete_eq intro!: filter_cong)
qed simp

lemma fold_delete_self:
  assumes "distinct (map fst xs)"
  shows "fold (\<lambda>(i, s) ss. if P s then ss else AList.delete i ss) xs xs = filter (\<lambda>(i, s). P s) xs"
  unfolding fold_delete using assms by (intro filter_cong) (auto dest: eq_key_imp_eq_value [OF assms])

abbreviation run_of :: "string \<Rightarrow> bool \<Rightarrow> run_pc \<Rightarrow> run" where
  "run_of t triage pc \<equiv> \<lparr>run_task = t, run_triage = triage, run_resume = False, run_pc = pc\<rparr>"

lemma first_run:
  "session_step\<^sup>*\<^sup>* (initial_session l) (tailed (new_session l) [] (run_of t triage Fresh))"
  using ss_arrive [of "initial_session l" t triage False]
  by (intro r_into_rtranclp) (simp add: initial_session_def arrive_def)

lemma first_triage:
  "session_step\<^sup>*\<^sup>* (initial_session l) (tailed (begin_triage (new_session l) t) [] (run_of t True Executing))"
proof -
  have "session_step\<^sup>*\<^sup>* (tailed (new_session l) [] (run_of t True Fresh)) (tailed (begin_triage (new_session l) t) [] (run_of t True Executing))"
    by (rule run_steps_mono(1) [OF triage_runs]) (simp_all add: new_session_def triage_ready_def)
  with first_run show ?thesis by (rule rtranclp_trans)
qed

lemma first_normal_waits:
  "session_step\<^sup>*\<^sup>* (initial_session l) (tailed (new_session l) [] (run_of t False Waiting))"
proof (rule rtranclp.rtrancl_into_rtrancl [OF first_run])
  show "session_step (tailed (new_session l) [] (run_of t False Fresh)) (tailed (new_session l) [] (run_of t False Waiting))"
    using ss_run [OF tail_steps(2) [of "run_of t False Fresh" "new_session l" "[]"]] by simp
qed

section \<open>Properties\<close>

text \<open>
  C16: a triage task runs alone in its merge request. In every state a session reaches when each
  triage task has one run at a time (deliveries, cancellations, suspensions, refusals and errors
  in any order), no other run is inside while a triage run is, whatever its kind.
\<close>

theorem session_exclusion:
  assumes "session_step\<^sup>*\<^sup>* (initial_session l) st" "i < length (runs st)" "run_triage (runs st ! i)" "inside (runs st ! i)"
    "j < length (runs st)" "j \<noteq> i"
  shows "\<not> inside (runs st ! j)"
proof
  assume j: "inside (runs st ! j)"
  note inv = session_reach_inv [OF assms(1) initial_session_inv]
  have ex: "exclusive_task_id (sess st) = Some (run_task (runs st ! i))" by (rule inside_triage [OF inv assms(2-4)])
  show False
  proof (cases "run_triage (runs st ! j)")
    case True
    then have "exclusive_task_id (sess st) = Some (run_task (runs st ! j))" using inside_triage [OF inv assms(5)] j by simp
    moreover have "apart (runs st ! i) (runs st ! j)" using inv assms(2,5,6) by (auto simp: session_inv_def)
    ultimately show False using ex True assms(3,4) j by (auto simp: apart_def inside_def over_def)
  next
    case False
    then have "counted (runs st ! j)" using j by (auto simp: counted_def inside_def)
    then show False using counted_positive(2) [OF inv assms(5)] ex by simp
  qed
qed

theorem session_exclusion_witness:
  "\<exists>st. session_step\<^sup>*\<^sup>* (initial_session example_lease) st \<and> length (runs st) = 2 \<and> inside (runs st ! 0) \<and> \<not> inside (runs st ! 1)"
proof -
  let ?s = "begin_triage (new_session example_lease) ''a''"
  let ?st = "tailed ?s [run_of ''a'' True Executing] (run_of ''n'' False Fresh)"
  have "session_step (tailed ?s [] (run_of ''a'' True Executing)) ?st"
    using ss_arrive [of "tailed ?s [] (run_of ''a'' True Executing)" "''n''" False False] by (simp add: arrive_def)
  with first_triage have r: "session_step\<^sup>*\<^sup>* (initial_session example_lease) ?st" by (rule rtranclp.rtrancl_into_rtrancl)
  have "\<not> inside (runs ?st ! 1)" by (rule session_exclusion [OF r, of 0]) (simp_all add: inside_def)
  with r show ?thesis by (intro exI [of _ ?st]) (simp add: inside_def)
qed

text \<open>
  C17: no wake-up is lost, and a session does not get stuck by itself. In every state a session
  reaches when each triage task has one run at a time, a run that waits at the condition and whose
  predicate holds is not asleep in the queue of the condition: a step lets it in. When no triage task
  holds the session and its count of normal runs is zero (a run that failed while the end of its wait
  was recorded stays counted), and some run waits, then a step lets in the triage task that is
  registered as waiting, or the waiting run itself if there is none.
\<close>

theorem session_progress:
  assumes "session_step\<^sup>*\<^sup>* (initial_session l) st" "i < length (runs st)" "run_pc (runs st ! i) = Waiting"
  shows "(ready (sess st) (runs st ! i) \<longrightarrow> \<not> asleep st i \<and> run_step st (set_pc st i Entered (enter (sess st) (runs st ! i)))) \<and>
    (exclusive_task_id (sess st) = None \<and> normal_running (sess st) = 0 \<longrightarrow>
      (\<exists>j < length (runs st). run_step st (set_pc st j Entered (enter (sess st) (runs st ! j))) \<and>
        (case triage_waiting_task_id (sess st) of None \<Rightarrow> j = i | Some t \<Rightarrow> waits_for (runs st ! j) t)))"
proof -
  note inv = session_reach_inv [OF assms(1) initial_session_inv]
  have let_in: "\<not> asleep st j \<and> run_step st (set_pc st j Entered (enter (sess st) (runs st ! j)))"
    if "j < length (runs st)" "run_pc (runs st ! j) = Waiting" "ready (sess st) (runs st ! j)" for j
    using session_reach_asleep [OF assms(1) initial_session_inv initial_session_asleep] run_step.let_in that
    by (auto simp: asleep_inv_def)
  have "\<exists>j < length (runs st). run_step st (set_pc st j Entered (enter (sess st) (runs st ! j))) \<and>
        (case triage_waiting_task_id (sess st) of None \<Rightarrow> j = i | Some t \<Rightarrow> waits_for (runs st ! j) t)"
    if free: "exclusive_task_id (sess st) = None" "normal_running (sess st) = 0"
  proof (cases "triage_waiting_task_id (sess st)")
    case (Some t)
    then obtain j where j: "j < length (runs st)" "waits_for (runs st ! j) t" using inv unfolding session_inv_def by blast
    then have "ready (sess st) (runs st ! j)" using free by (simp add: ready_def triage_ready_def waits_for_def)
    with j Some show ?thesis using let_in by (auto simp: waits_for_def)
  next
    case None
    then have "\<not> run_triage (runs st ! i)" using session_inv_at(1) [OF inv assms(2)] assms(3) by (auto simp: run_fits_def)
    then have "ready (sess st) (runs st ! i)" using None free by (simp add: ready_def normal_ready_def)
    with None show ?thesis using let_in assms(2,3) by auto
  qed
  with let_in [OF assms(2,3)] show ?thesis by blast
qed

text \<open>
  A triage task that arrives while a normal run is inside falls asleep; the end of the normal run
  wakes it, and it can be let in.
\<close>

definition after_normal :: "mr_lease \<Rightarrow> session_state" where
  "after_normal l = \<lparr>sess = (new_session l)\<lparr>triage_waiting_task_id := Some ''a''\<rparr>,
     runs = [run_of ''n'' False Finished, run_of ''a'' True Waiting]\<rparr>"

lemma after_normal_reached: "session_step\<^sup>*\<^sup>* (initial_session l) (after_normal l)"
proof -
  let ?s = "begin_normal (new_session l)" and ?n = "run_of ''n'' False Executing" and ?a = "run_of ''a'' True"
  let ?s1 = "?s\<lparr>triage_waiting_task_id := Some ''a''\<rparr>"
  let ?asleep = "tailed (?s1\<lparr>cond_waiters := [1]\<rparr>) [?n] (?a Waiting)"
  have "session_step\<^sup>*\<^sup>* (tailed (new_session l) [] (run_of ''n'' False Fresh)) (tailed ?s [] ?n)"
    by (rule run_steps_mono(1) [OF normal_runs]) (simp_all add: normal_ready_def new_session_def)
  with first_run have r: "session_step\<^sup>*\<^sup>* (initial_session l) (tailed ?s [] ?n)" by (rule rtranclp_trans)
  have s1: "session_step (tailed ?s [] ?n) (tailed ?s [?n] (?a Fresh))"
    using ss_arrive [of "tailed ?s [] ?n" "''a''" True False] by (simp add: arrive_def)
  have s2: "session_step (tailed ?s [?n] (?a Fresh)) (tailed ?s1 [?n] (?a Waiting))"
    using ss_run [OF tail_steps(3) [of "?a Fresh" ?s ?s1 "[?n]"]] by (simp add: claim_triage_wait_def begin_normal_def new_session_def)
  have s3: "session_step (tailed ?s1 [?n] (?a Waiting)) ?asleep"
    using ss_run [OF fall_asleep [of 1 "tailed ?s1 [?n] (?a Waiting)"]]
    by (simp add: asleep_def session_defs new_session_def)
  have s4: "session_step ?asleep (after_normal l)"
    using ss_run [OF finish [of 0 ?asleep _ False]]
    by (simp add: set_pc_def after_normal_def session_defs new_session_def)
  show ?thesis using r s1 s2 s3 s4 by (meson rtranclp.rtrancl_into_rtrancl)
qed

theorem session_progress_witness:
  "run_step (after_normal example_lease) (set_pc (after_normal example_lease) 1 Entered
     (begin_triage ((new_session example_lease)\<lparr>triage_waiting_task_id := Some ''a''\<rparr>) ''a''))"
  using session_progress [OF after_normal_reached [of example_lease], of 1]
  by (simp add: after_normal_def ready_def triage_ready_def enter_def new_session_def)

text \<open>
  An error after a normal run was let in shuts triage out for good. If recording the end of
  the wait fails, the run is counted for ever: in no later state of the session is a triage run
  inside.
\<close>

theorem leaked_run_blocks_triage:
  assumes "session_step\<^sup>*\<^sup>* (initial_session l) st" "i < length (runs st)" "run_pc (runs st ! i) = Leaked" "\<not> run_triage (runs st ! i)"
    "session_step\<^sup>*\<^sup>* st st'" "j < length (runs st')" "run_triage (runs st' ! j)"
  shows "\<not> inside (runs st' ! j)"
proof
  assume "inside (runs st' ! j)"
  have inv: "session_inv st'" using session_reach_inv [OF assms(5)] session_reach_inv [OF assms(1) initial_session_inv] by blast
  have "i < length (runs st') \<and> runs st' ! i = runs st ! i"
    by (rule session_over [OF assms(5,2)]) (simp add: over_def assms(3))
  moreover have "counted (runs st ! i)" using assms(3,4) by (simp add: counted_def)
  ultimately have "exclusive_task_id (sess st') = None" using counted_positive(2) [OF inv, of i] by simp
  then show False using inside_triage [OF inv assms(6,7) \<open>inside (runs st' ! j)\<close>] by simp
qed

theorem leaked_run_blocks_triage_witness:
  "\<exists>st. session_step\<^sup>*\<^sup>* (initial_session example_lease) st \<and> length (runs st) = 2 \<and> run_triage (runs st ! 1) \<and> \<not> inside (runs st ! 1)"
proof -
  let ?s = "new_session example_lease" and ?s1 = "begin_normal (new_session example_lease)"
  let ?st = "tailed ?s1 [] (run_of ''n'' False Leaked)" and ?st' = "tailed ?s1 [run_of ''n'' False Leaked] (run_of ''a'' True Fresh)"
  have "run_step (tailed ?s [] (run_of ''n'' False Waiting)) (tailed ?s1 [] (run_of ''n'' False Entered))"
    using tail_steps(4) [of "run_of ''n'' False Waiting" "[]" ?s] by (simp add: ready_def enter_def normal_ready_def new_session_def)
  moreover have "run_step (tailed ?s1 [] (run_of ''n'' False Entered)) ?st"
    using not_recorded [of 0 "tailed ?s1 [] (run_of ''n'' False Entered)"] by (simp add: set_pc_def)
  ultimately have st: "session_step\<^sup>*\<^sup>* (initial_session example_lease) ?st"
    using first_normal_waits by (meson ss_run rtranclp.rtrancl_into_rtrancl)
  have st': "session_step ?st ?st'" using ss_arrive [of ?st "''a''" True False] by (simp add: arrive_def)
  have "\<not> inside (runs ?st' ! 1)"
    by (rule leaked_run_blocks_triage [OF st _ _ _ r_into_rtranclp [of session_step, OF st'], of 0]) simp_all
  with st st' show ?thesis by (intro exI [of _ ?st']) (simp add: rtranclp.rtrancl_into_rtrancl)
qed

text \<open>
  A second delivery of a triage task breaks its exclusivity. From any state in which a triage
  run is in the executor and holds the session, a second delivery of the same task is let in at
  once; when it ends (a duplicate or stale resumption returns at once) the session is released,
  and a normal run gets in while the first triage run is still in the executor.
\<close>

theorem duplicate_run_breaks_exclusion:
  assumes "i < length (runs st)" "run_triage (runs st ! i)" "run_pc (runs st ! i) = Executing" "run_task (runs st ! i) = t"
    "exclusive_task_id (sess st) = Some t" "triage_waiting_task_id (sess st) = None"
    "\<forall>j\<in>set (cond_waiters (sess st)). j < length (runs st)"
  shows "\<exists>st' j. delivery_step\<^sup>*\<^sup>* st st' \<and> runs st' ! i = runs st ! i \<and> j < length (runs st') \<and>
    \<not> run_triage (runs st' ! j) \<and> inside (runs st' ! j)"
proof -
  let ?d = "\<lambda>pc. \<lparr>run_task = t, run_triage = True, run_resume = True, run_pc = pc\<rparr>"
  let ?n = "\<lambda>pc. \<lparr>run_task = ''n'', run_triage = False, run_resume = False, run_pc = pc\<rparr>"
  let ?s = "(sess st)\<lparr>triage_waiting_task_id := None, exclusive_task_id := None, cond_waiters := []\<rparr>" and ?rs = "runs st @ [?d Finished]"
  let ?s' = "begin_triage (sess st) t"
  have s0: "delivery_step st (tailed (sess st) (runs st) (?d Fresh))"
    using ds_arrive [of st t True True] by (simp add: arrive_def)
  have s1: "delivery_step\<^sup>*\<^sup>* (tailed (sess st) (runs st) (?d Fresh)) (tailed ?s' (runs st) (?d Executing))"
    by (rule run_steps_mono(2) [OF triage_runs]) (use assms(5-7) in \<open>auto simp: triage_ready_def triage_resume_allowed_def\<close>)
  have s2: "delivery_step (tailed ?s' (runs st) (?d Executing)) (tailed ?s (runs st) (?d Finished))"
    using ds_run [OF tail_steps(6) [of "?d Executing" ?s' "runs st" False]] assms(5,6)
    by (simp add: leave_def end_triage_def begin_triage_def notify_all_def Let_def)
  have s3: "delivery_step (tailed ?s (runs st) (?d Finished)) (tailed ?s ?rs (?n Fresh))"
    using ds_arrive [of "tailed ?s (runs st) (?d Finished)" "''n''" False False] by (simp add: arrive_def)
  have s4: "delivery_step\<^sup>*\<^sup>* (tailed ?s ?rs (?n Fresh)) (tailed (begin_normal ?s) ?rs (?n Executing))"
    by (rule run_steps_mono(2) [OF normal_runs]) (simp_all add: normal_ready_def)
  have "delivery_step\<^sup>*\<^sup>* st (tailed ?s ?rs (?n Fresh))"
    using s0 s1 s2 s3 by (meson converse_rtranclp_into_rtranclp rtranclp.rtrancl_into_rtrancl)
  with s4 have "delivery_step\<^sup>*\<^sup>* st (tailed (begin_normal ?s) ?rs (?n Executing))" by (rule rtranclp_trans [rotated])
  then show ?thesis
    using assms(1) by (intro exI [of _ "tailed (begin_normal ?s) ?rs (?n Executing)"] exI [of _ "length ?rs"])
      (simp add: nth_append inside_def)
qed

theorem duplicate_run_breaks_exclusion_witness:
  "\<exists>st j. delivery_step\<^sup>*\<^sup>* (tailed (begin_triage (new_session example_lease) ''a'') [] (run_of ''a'' True Executing)) st \<and>
     runs st ! 0 = run_of ''a'' True Executing \<and> \<not> run_triage (runs st ! j) \<and> inside (runs st ! j)"
  using duplicate_run_breaks_exclusion [of 0 "tailed (begin_triage (new_session example_lease) ''a'') [] (run_of ''a'' True Executing)" "''a''"]
  by (auto simp: begin_triage_def new_session_def)

text \<open>
  Two triage tasks can block each other. A session reaches a state in which a suspended triage
  task holds it and another triage task waits; then neither the waiting task nor any normal run
  can be let in, and the resumption that would end the first task is refused as well.
\<close>

theorem suspended_triage_deadlock:
  "\<exists>st. session_step\<^sup>*\<^sup>* (initial_session l) st \<and> exclusive_task_id (sess st) = Some ''a'' \<and>
    \<not> normal_ready (sess st) \<and> (\<forall>t. triage_ready (sess st) t = (t = ''a'')) \<and> claim_triage_wait (sess st) ''a'' = None"
proof -
  let ?a = "\<lambda>pc. \<lparr>run_task = ''a'', run_triage = True, run_resume = False, run_pc = pc\<rparr>"
  let ?b = "\<lambda>pc. \<lparr>run_task = ''b'', run_triage = True, run_resume = False, run_pc = pc\<rparr>"
  let ?s0 = "new_session l" and ?s1 = "begin_triage (new_session l) ''a''"
  let ?s2 = "?s1\<lparr>triage_waiting_task_id := Some ''b''\<rparr>"
  have s0: "session_step (initial_session l) (tailed ?s0 [] (?a Fresh))"
    using ss_arrive [of "initial_session l" "''a''" True False] by (simp add: initial_session_def arrive_def)
  have s1: "session_step\<^sup>*\<^sup>* (tailed ?s0 [] (?a Fresh)) (tailed ?s1 [] (?a Executing))"
    by (rule run_steps_mono(1) [OF triage_runs]) (simp_all add: new_session_def triage_ready_def)
  have s2: "session_step (tailed ?s1 [] (?a Executing)) (tailed ?s1 [] (?a Finished))"
    using ss_run [OF tail_steps(6) [of "?a Executing" ?s1 "[]" True]] by (simp add: leave_def)
  have s3: "session_step (tailed ?s1 [] (?a Finished)) (tailed ?s1 [?a Finished] (?b Fresh))"
    using ss_arrive [of "tailed ?s1 [] (?a Finished)" "''b''" True False] by (simp add: arrive_def)
  have s4: "session_step (tailed ?s1 [?a Finished] (?b Fresh)) (tailed ?s2 [?a Finished] (?b Waiting))"
    using ss_run [OF tail_steps(3) [of "?b Fresh" ?s1 ?s2 "[?a Finished]"]]
    by (simp add: claim_triage_wait_def begin_triage_def)
  have "session_step\<^sup>*\<^sup>* (initial_session l) (tailed ?s2 [?a Finished] (?b Waiting))"
    using s0 s1 s2 s3 s4 by (meson converse_rtranclp_into_rtranclp rtranclp.rtrancl_into_rtrancl)
  moreover have "exclusive_task_id ?s2 = Some ''a''" "triage_waiting_task_id ?s2 = Some ''b''" by (simp_all add: begin_triage_def)
  ultimately show ?thesis
    by (intro exI [of _ "tailed ?s2 [?a Finished] (?b Waiting)"])
      (auto simp: triage_ready_def normal_ready_def claim_triage_wait_def)
qed

text \<open>
  Renewing the leases of a worker keeps exactly the sessions whose lease the worker still
  holds, touches no lease record, and reports the merge requests that are lost.
\<close>

theorem renew_leases_keeps_held:
  assumes "well_typed db" "0 < seconds" "distinct (map fst sessions)"
  shows "\<exists>db'. renew_leases seconds sessions db =
    (if \<forall>(i, s)\<in>set sessions. session_held db s then Inr ()
     else Inl (LostLeaseError (join '','' (map fst (filter (\<lambda>(i, s). \<not> session_held db s) sessions)))),
     filter (\<lambda>(i, s). session_held db s) sessions, db') \<and> (\<forall>k. hash_at db' k = hash_at db k)"
proof -
  have "map fst (filter (\<lambda>(i, s). \<not> session_held db s) sessions) = [] \<longleftrightarrow> (\<forall>(i, s)\<in>set sessions. session_held db s)"
    by (auto simp: filter_empty_conv)
  then show ?thesis
    using renew_loop_eval [OF assms(1,2), of sessions "[]" sessions] fold_delete_self [OF assms(3), of "session_held db"]
    by (auto simp: renew_leases_def)
qed

theorem renew_leases_keeps_held_witness:
  "\<exists>db'. renew_leases 60 [(redis_id example_mr, new_session example_lease)] (auto_db ''running'') =
     (Inr (), [(redis_id example_mr, new_session example_lease)], db')"
proof -
  have "session_held (auto_db ''running'') (new_session example_lease)"
    using auto_db_facts(2) [of "''running''"] by (simp add: session_held_def new_session_def)
  with renew_leases_keeps_held [OF auto_db_facts(1), of 60 "[(redis_id example_mr, new_session example_lease)]" "''running''"]
  show ?thesis by auto
qed

end
