(* ===== verification/Repair_Ledger.thy ===== *)
theory Repair_Ledger
  imports Models
begin

text \<open>
  What a repair run of the unit-test agent did, read off its messages: the execution ledger
  (\<open>execution_ledger.py\<close>), the identities of commit and push attempts (\<open>push_attempt.py\<close>) and
  the coordinator's snapshot of the latest publication (\<open>repair_coordinator.py\<close>). A message has
  tool calls, the id of the call it answers and its content; \<open>None\<close> is a Python exception.
  Git and SHA-256 are arguments.
\<close>

subsection \<open>The ledger\<close>

record tool_attempt =
  ta_name :: json
  ta_args :: dict
  ta_result :: "dict option"
  ta_sequence :: nat
  ta_result_text :: string

record execution_ledger =
  pushes :: "dict list"
  pipelines :: "dict list"
  tool_attempts :: "tool_attempt list"
  replan_requests :: "dict list"

definition empty_ledger :: execution_ledger where
  "empty_ledger = \<lparr>pushes = [], pipelines = [], tool_attempts = [], replan_requests = []\<rparr>"

record message =
  msg_tool_calls :: "dict list"
  msg_tool_call_id :: string
  msg_content :: string

text \<open>\<open>tool_call.get("function", {}).get(k, d)\<close>; a member that is no dictionary raises.\<close>

definition function_get :: "dict \<Rightarrow> string \<Rightarrow> json \<Rightarrow> json option" where
  "function_get d k dflt =
     (case dget d ''function'' of
        None \<Rightarrow> Some dflt
      | Some (JObj f) \<Rightarrow> Some (or_else (dget f k) dflt)
      | Some _ \<Rightarrow> None)"

definition call_args :: "dict \<Rightarrow> dict option" where
  "call_args d =
     do { raw \<leftarrow> (case dget d ''args'' of
                    None \<Rightarrow> function_get d ''arguments'' (JObj [])
                  | Some JNull \<Rightarrow> function_get d ''arguments'' (JObj [])
                  | Some v \<Rightarrow> Some v);
          let parsed = (case raw of JStr s \<Rightarrow> or_else (loads s) (JObj []) | v \<Rightarrow> v) in
          Some (case parsed of JObj a \<Rightarrow> a | _ \<Rightarrow> []) }"

definition call_name :: "dict \<Rightarrow> json option" where
  "call_name d =
     (case dget d ''name'' of
        Some v \<Rightarrow> if truthy v then Some v else function_get d ''name'' (JStr [])
      | None \<Rightarrow> function_get d ''name'' (JStr []))"

fun record_calls ::
  "dict list \<Rightarrow> (string \<times> json \<times> dict) list \<Rightarrow> (string \<times> json \<times> dict) list option"
where
  "record_calls [] calls = Some calls"
| "record_calls (c # cs) calls =
     do { call_id \<leftarrow> opt_str c ''id'' [];
          name \<leftarrow> call_name c;
          args \<leftarrow> call_args c;
          record_calls cs (if call_id \<noteq> [] \<and> truthy name then AList.update call_id (name, args) calls else calls) }"

record ledger_state =
  ls_ledger :: execution_ledger
  ls_calls :: "(string \<times> json \<times> dict) list"
  ls_positions :: "(string \<times> nat) list"

definition record_attempt :: "tool_attempt \<Rightarrow> execution_ledger \<Rightarrow> execution_ledger" where
  "record_attempt a lg = lg\<lparr>tool_attempts := tool_attempts lg @ [a]\<rparr>"

text \<open>A push result: the result of a known attempt is replaced, another one appended.\<close>

definition record_push :: "dict \<Rightarrow> ledger_state \<Rightarrow> ledger_state option" where
  "record_push result st =
     do { attempt_id \<leftarrow> get_str result ''attempt_id'' [];
          let lg = ls_ledger st in
          case (if attempt_id = [] then None else map_of (ls_positions st) attempt_id) of
            Some i \<Rightarrow> Some (st\<lparr>ls_ledger := lg\<lparr>pushes := (pushes lg)[i := result]\<rparr>\<rparr>)
          | None \<Rightarrow>
              Some (st\<lparr>ls_ledger := lg\<lparr>pushes := pushes lg @ [result]\<rparr>,
                       ls_positions := (if attempt_id \<noteq> [] then AList.update attempt_id (length (pushes lg)) (ls_positions st)
                                        else ls_positions st)\<rparr>) }"

definition with_sequence :: "dict \<Rightarrow> nat \<Rightarrow> dict" where
  "with_sequence result n = AList.update ''_sequence'' (JInt (int n)) result"

definition record_result :: "json \<Rightarrow> dict \<Rightarrow> nat \<Rightarrow> ledger_state \<Rightarrow> ledger_state option" where
  "record_result name result n st =
     (let lg = ls_ledger st in
      if name = JStr ''commit_and_push_tool'' then record_push result st
      else if name = JStr ''wait_pipeline_tool'' \<or> name = JStr ''fetch_pipeline_logs_tool'' then
        Some (st\<lparr>ls_ledger := lg\<lparr>pipelines := pipelines lg @ [with_sequence result n]\<rparr>\<rparr>)
      else if name = JStr ''request_repair_replan_tool'' \<and> dget result ''status'' = Some (JStr ''success'') then
        Some (st\<lparr>ls_ledger := lg\<lparr>replan_requests := replan_requests lg @ [with_sequence result n]\<rparr>\<rparr>)
      else Some st)"

definition message_result :: "message \<Rightarrow> dict option" where
  "message_result m = (case loads (msg_content m) of Some (JObj d) \<Rightarrow> Some d | _ \<Rightarrow> None)"

definition ledger_message :: "nat \<Rightarrow> message \<Rightarrow> ledger_state \<Rightarrow> ledger_state option" where
  "ledger_message n m st =
     do { calls \<leftarrow> record_calls (msg_tool_calls m) (ls_calls st);
          let st1 = st\<lparr>ls_calls := calls\<rparr> in
          case map_of calls (msg_tool_call_id m) of
            None \<Rightarrow> Some st1
          | Some (name, args) \<Rightarrow>
              let result = message_result m;
                  st2 = st1\<lparr>ls_ledger := record_attempt \<lparr>ta_name = name, ta_args = args, ta_result = result, ta_sequence = n,
                              ta_result_text = msg_content m\<rparr> (ls_ledger st1)\<rparr>
              in (case result of None \<Rightarrow> Some st2 | Some d \<Rightarrow> record_result name d n st2) }"

fun ledger_loop :: "nat \<Rightarrow> message list \<Rightarrow> ledger_state \<Rightarrow> ledger_state option" where
  "ledger_loop n [] st = Some st"
| "ledger_loop n (m # ms) st = do { st1 \<leftarrow> ledger_message n m st; ledger_loop (Suc n) ms st1 }"

definition ledger_start :: ledger_state where
  "ledger_start = \<lparr>ls_ledger = empty_ledger, ls_calls = [], ls_positions = []\<rparr>"

definition build_execution_ledger :: "message list \<Rightarrow> execution_ledger option" where
  "build_execution_ledger ms = map_option ls_ledger (ledger_loop 0 ms ledger_start)"

text \<open>\<open>int(push.get("attempt_sequence") or 0)\<close>, and 0 where that raises.\<close>

definition push_sequence :: "dict \<Rightarrow> int" where
  "push_sequence p = or_else (get_int p ''attempt_sequence'' 0) 0"

definition push_landed :: "dict \<Rightarrow> bool" where
  "push_landed p \<longleftrightarrow> dget p ''status'' = Some (JStr ''success'') \<and> get_bool p ''changed'' \<and> get_bool p ''commit_sha''"

text \<open>\<open>last_push\<close>: among the pushes that landed the last one of the greatest sequence.\<close>

fun latest_push :: "dict list \<Rightarrow> dict option" where
  "latest_push [] = None"
| "latest_push (p # ps) =
     (case latest_push ps of
        None \<Rightarrow> if push_landed p then Some p else None
      | Some q \<Rightarrow> if push_landed p \<and> push_sequence p > push_sequence q then Some p else Some q)"

definition last_push :: "execution_ledger \<Rightarrow> dict option" where
  "last_push lg = latest_push (pushes lg)"

definition last_pushed_sha :: "execution_ledger \<Rightarrow> string option option" where
  "last_pushed_sha lg = (case last_push lg of None \<Rightarrow> Some None | Some p \<Rightarrow> map_option Some (req_str p ''commit_sha''))"

subsection \<open>Push attempts\<close>

record push_attempt_identity =
  pa_task_id :: string
  pa_sequence :: int
  pa_base_sha :: string
  pa_diff_digest :: string
  pa_attempt_id :: string
  pa_effect_name :: string
  pa_marker :: string

definition result_fields :: "push_attempt_identity \<Rightarrow> dict" where
  "result_fields a =
     [(''attempt_id'', JStr (pa_attempt_id a)), (''attempt_sequence'', JInt (pa_sequence a)),
      (''base_sha'', JStr (pa_base_sha a)), (''diff_digest'', JStr (pa_diff_digest a))]"

definition digest20 :: "(string \<Rightarrow> string) \<Rightarrow> string \<Rightarrow> string" where
  "digest20 sha256_hex v = take 20 (sha256_hex v)"

text \<open>\<open>digest_diff\<close> of \<open>tools/repo_snapshot.py\<close> on text.\<close>

definition digest_diff :: "(string \<Rightarrow> string) \<Rightarrow> string \<Rightarrow> string" where
  "digest_diff sha256_hex diff = ''sha256:'' @ sha256_hex diff"

definition marker_prefix :: "string \<Rightarrow> string" where
  "marker_prefix task = ''[pr-agent-task:'' @ task @ '':push-attempt:''"

definition push_identity :: "(string \<Rightarrow> string) \<Rightarrow> string \<Rightarrow> int \<Rightarrow> string \<Rightarrow> string \<Rightarrow> push_attempt_identity" where
  "push_identity sha256_hex task n base staged =
     (let attempt = task @ '':'' @ show_int n @ '':'' @ base @ '':'' @ staged in
      \<lparr>pa_task_id = task, pa_sequence = n, pa_base_sha = base, pa_diff_digest = staged, pa_attempt_id = attempt,
       pa_effect_name = ''commit-push:'' @ show_int n @ '':'' @ take 12 base @ '':'' @ staged,
       pa_marker = marker_prefix task @ show_int n @ '':'' @ digest20 sha256_hex attempt @ '']''\<rparr>)"

definition legacy_shas :: "dict list \<Rightarrow> string list option" where
  "legacy_shas ps =
     map_option remdups (those_map (\<lambda>p. req_str p ''commit_sha'') (filter (\<lambda>p. push_sequence p \<le> 0 \<and> push_landed p) ps))"

definition previous_sequences :: "dict list \<Rightarrow> int list option" where
  "previous_sequences ps =
     do { shas \<leftarrow> legacy_shas ps;
          let positive = filter (\<lambda>n. n > 0) (map push_sequence ps) in
          Some (if positive \<noteq> [] then positive else map int [1..<Suc (length shas)]) }"

definition build_push_attempt ::
  "(string \<Rightarrow> string) \<Rightarrow> (string list \<Rightarrow> string) \<Rightarrow> string \<Rightarrow> dict list \<Rightarrow> (string + push_attempt_identity) option"
where
  "build_push_attempt sha256_hex git task previous =
     (let base = git [''rev-parse'', ''HEAD'']; diff = git [''diff'', ''--cached'', ''--binary'', ''--full-index'', ''--no-ext-diff''] in
      if startswith base ''ERROR:'' then Some (Inl base)
      else if startswith diff ''ERROR:'' then Some (Inl diff)
      else do { ns \<leftarrow> previous_sequences previous;
                Some (Inr (push_identity sha256_hex task (fold max ns 0 + 1) (strip base) (digest_diff sha256_hex diff))) })"

text \<open>
  The search for the marker: at each position of the message the prefix, the digits of the
  sequence, twenty digits of the hash and the closing bracket.
\<close>

definition is_hex :: "char \<Rightarrow> bool" where
  "is_hex c \<longleftrightarrow> (let n = (of_char c :: nat) in (48 \<le> n \<and> n \<le> 57) \<or> (97 \<le> n \<and> n \<le> 102))"

definition match_marker :: "string \<Rightarrow> string \<Rightarrow> (int \<times> string) option" where
  "match_marker prefix s =
     (if \<not> startswith s prefix then None else
      let r = drop (length prefix) s; ds = takeWhile is_digit r; r1 = dropWhile is_digit r in
      case (parse_nat ds, r1) of
        (Some n, c # r2) \<Rightarrow>
          if c = CHR '':'' \<and> length (takeWhile is_hex r2) = 20 \<and> startswith (drop 20 r2) '']''
          then Some (int n, prefix @ ds @ '':'' @ take 20 r2 @ '']'') else None
      | _ \<Rightarrow> None)"

fun search_marker :: "string \<Rightarrow> string \<Rightarrow> (int \<times> string) option" where
  "search_marker prefix [] = None"
| "search_marker prefix (c # s) =
     (case match_marker prefix (c # s) of Some m \<Rightarrow> Some m | None \<Rightarrow> search_marker prefix s)"

definition completed_ids :: "dict list \<Rightarrow> string list option" where
  "completed_ids ps =
     those_map (\<lambda>p. req_str p ''attempt_id'')
       (filter (\<lambda>p. dget p ''status'' = Some (JStr ''success'') \<and> get_bool p ''changed'' \<and> get_bool p ''attempt_id'') ps)"

definition recover_push_attempt ::
  "(string \<Rightarrow> string) \<Rightarrow> (string list \<Rightarrow> string) \<Rightarrow> string \<Rightarrow> dict list \<Rightarrow> push_attempt_identity option option"
where
  "recover_push_attempt sha256_hex git task previous =
     (let message = git [''log'', ''-1'', ''--pretty=%B''] in
      if message = [] \<or> startswith message ''ERROR:'' then Some None else
      case search_marker (marker_prefix task) message of
        None \<Rightarrow> Some None
      | Some (n, found) \<Rightarrow>
          do { ids \<leftarrow> completed_ids previous;
               let head = git [''rev-parse'', ''HEAD'']; base = git [''rev-parse'', ''HEAD^''];
                   diff = git [''diff'', ''HEAD^'', ''HEAD'', ''--binary'', ''--full-index'', ''--no-ext-diff''] in
               if list_ex (\<lambda>v. startswith v ''ERROR:'') [head, base, diff] then Some None else
               let a = push_identity sha256_hex task n (strip base) (digest_diff sha256_hex diff) in
               Some (if pa_attempt_id a \<in> set ids \<or> pa_marker a \<noteq> found then None else Some a) })"

text \<open>The message of the commit that \<open>commit_and_push_tool\<close> makes for an attempt.\<close>

definition commit_msg :: "int \<Rightarrow> push_attempt_identity \<Rightarrow> string" where
  "commit_msg mr_id attempt =
     ''[UT Agent] MR !'' @ show_int mr_id @ '': '' @
     [CHR 0xE8, CHR 0x87, CHR 0xAA, CHR 0xE5, CHR 0x8A, CHR 0xA8, CHR 0xE4, CHR 0xBB, CHR 0xA3, CHR 0xE7,
      CHR 0xA0, CHR 0x81, CHR 0xE5, CHR 0x8F, CHR 0x98, CHR 0xE6, CHR 0x9B, CHR 0xB4] @
     [CHR 0x0A, CHR 0x0A] @ pa_marker attempt"

subsection \<open>The coordinator\<close>

datatype publication_phase = PP_NONE | PP_UNVERIFIED | PP_NONTERMINAL | PP_TERMINAL

fun publication_phase_value :: "publication_phase \<Rightarrow> string" where
  "publication_phase_value PP_NONE = ''none''"
| "publication_phase_value PP_UNVERIFIED = ''unverified''"
| "publication_phase_value PP_NONTERMINAL = ''nonterminal''"
| "publication_phase_value PP_TERMINAL = ''terminal''"

record terminal_pipeline_proof =
  tp_attempt_id :: string
  tp_commit_sha :: string
  tp_pipeline_id :: int
  tp_status :: string

record repair_snapshot =
  rs_ledger :: execution_ledger
  rs_published_attempt_count :: nat
  rs_latest_push_attempt :: "tool_attempt option"
  rs_latest_pushed_sha :: string
  rs_latest_attempt_id :: string
  rs_publication_phase :: publication_phase
  rs_latest_exact_pipeline :: "dict option"
  rs_terminal_proof :: "terminal_pipeline_proof option"

definition requires_exact_pipeline :: "repair_snapshot \<Rightarrow> bool" where
  "requires_exact_pipeline s \<longleftrightarrow> rs_publication_phase s \<in> {PP_UNVERIFIED, PP_NONTERMINAL}"

definition terminal_pipeline_statuses :: "string list" where
  "terminal_pipeline_statuses = [''success'', ''failed'', ''canceled'', ''skipped'']"

definition attempt_result :: "tool_attempt \<Rightarrow> dict" where
  "attempt_result a = or_else (ta_result a) []"

definition attempt_landed :: "tool_attempt \<Rightarrow> bool" where
  "attempt_landed a \<longleftrightarrow> ta_name a = JStr ''commit_and_push_tool'' \<and> dget (attempt_result a) ''status'' = Some (JStr ''success'') \<and>
     dget (attempt_result a) ''changed'' = Some (JBool True) \<and> get_bool (attempt_result a) ''commit_sha''"

fun successful_push_loop :: "tool_attempt list \<Rightarrow> string list \<Rightarrow> tool_attempt list option" where
  "successful_push_loop [] seen = Some []"
| "successful_push_loop (a # attempts) seen =
     (if \<not> attempt_landed a then successful_push_loop attempts seen else
      do { sha \<leftarrow> get_str (attempt_result a) ''commit_sha'' [];
           if sha \<in> set seen then successful_push_loop attempts seen
           else map_option (\<lambda>rest. a # rest) (successful_push_loop attempts (sha # seen)) })"

definition successful_push_attempts :: "execution_ledger \<Rightarrow> tool_attempt list option" where
  "successful_push_attempts lg = successful_push_loop (tool_attempts lg) []"

definition pipeline_matches_attempt :: "dict \<Rightarrow> string \<Rightarrow> string \<Rightarrow> bool option" where
  "pipeline_matches_attempt p sha attempt_id =
     do { st \<leftarrow> get_str p ''status'' [];
          if lower st \<notin> {''success'', ''running''} then Some False else
          do { requested \<leftarrow> get_str p ''requested_commit_sha'' [];
               if requested \<noteq> sha then Some False else
               do { matched \<leftarrow> get_str p ''matched_commit_sha'' [];
                    if matched \<noteq> sha then Some False else
                    do { pid \<leftarrow> get_str p ''attempt_id'' [];
                         Some (attempt_id = [] \<or> pid = [] \<or> pid = attempt_id) } } } }"

text \<open>\<open>int(validation_pipeline_id or pipeline_id or 0)\<close>, and 0 where that raises.\<close>

definition pipeline_id_of :: "dict \<Rightarrow> int" where
  "pipeline_id_of p =
     (if get_bool p ''validation_pipeline_id'' then or_else (get_int p ''validation_pipeline_id'' 0) 0
      else or_else (get_int p ''pipeline_id'' 0) 0)"

definition exact_pipeline :: "nat \<Rightarrow> string \<Rightarrow> string \<Rightarrow> dict \<Rightarrow> bool option" where
  "exact_pipeline n sha attempt_id p =
     do { q \<leftarrow> get_int p ''_sequence'' 0;
          if q > int n then pipeline_matches_attempt p sha attempt_id else Some False }"

fun filter_option :: "('a \<Rightarrow> bool option) \<Rightarrow> 'a list \<Rightarrow> 'a list option" where
  "filter_option P [] = Some []"
| "filter_option P (x # xs) = do { b \<leftarrow> P x; ys \<leftarrow> filter_option P xs; Some (if b then x # ys else ys) }"

definition pipeline_status_of :: "dict \<Rightarrow> string option" where
  "pipeline_status_of p = map_option lower (get_str p ''pipeline_status'' [])"

definition terminal_pipeline :: "dict \<Rightarrow> bool option" where
  "terminal_pipeline p = map_option (\<lambda>st. st \<in> set terminal_pipeline_statuses) (pipeline_status_of p)"

text \<open>The phase and, for a finished pipeline, the proof.\<close>

definition publication_evidence ::
  "string \<Rightarrow> string \<Rightarrow> dict option \<Rightarrow> (publication_phase \<times> terminal_pipeline_proof option) option"
where
  "publication_evidence attempt_id sha pipeline =
     (case pipeline of
        None \<Rightarrow> Some (PP_UNVERIFIED, None)
      | Some p \<Rightarrow>
          do { st \<leftarrow> pipeline_status_of p;
               Some (if st \<in> set terminal_pipeline_statuses
                     then (PP_TERMINAL, Some \<lparr>tp_attempt_id = attempt_id, tp_commit_sha = sha,
                             tp_pipeline_id = pipeline_id_of p, tp_status = st\<rparr>)
                     else (PP_NONTERMINAL, None)) })"

text \<open>The last finished pipeline of the commit, or else its last one.\<close>

definition choose_pipeline :: "nat \<Rightarrow> string \<Rightarrow> string \<Rightarrow> dict list \<Rightarrow> dict option option" where
  "choose_pipeline n sha attempt_id ps =
     do { exact \<leftarrow> filter_option (exact_pipeline n sha attempt_id) ps;
          terminal \<leftarrow> filter_option terminal_pipeline exact;
          Some (if terminal \<noteq> [] then Some (last terminal) else if exact \<noteq> [] then Some (last exact) else None) }"

definition snapshot_of_ledger :: "execution_ledger \<Rightarrow> repair_snapshot option" where
  "snapshot_of_ledger lg =
     do { landed \<leftarrow> successful_push_attempts lg;
          if landed = [] then
            Some \<lparr>rs_ledger = lg, rs_published_attempt_count = 0, rs_latest_push_attempt = None, rs_latest_pushed_sha = [],
              rs_latest_attempt_id = [], rs_publication_phase = PP_NONE, rs_latest_exact_pipeline = None, rs_terminal_proof = None\<rparr>
          else
            let latest = last landed in
            do { sha \<leftarrow> get_str (attempt_result latest) ''commit_sha'' [];
                 attempt_id \<leftarrow> get_str (attempt_result latest) ''attempt_id'' [];
                 pipeline \<leftarrow> choose_pipeline (ta_sequence latest) sha attempt_id (pipelines lg);
                 (phase, evidence) \<leftarrow> publication_evidence attempt_id sha pipeline;
                 Some \<lparr>rs_ledger = lg, rs_published_attempt_count = length landed, rs_latest_push_attempt = Some latest,
                   rs_latest_pushed_sha = sha, rs_latest_attempt_id = attempt_id, rs_publication_phase = phase,
                   rs_latest_exact_pipeline = pipeline, rs_terminal_proof = evidence\<rparr> } }"

definition build_repair_snapshot :: "message list \<Rightarrow> repair_snapshot option" where
  "build_repair_snapshot ms = do { lg \<leftarrow> build_execution_ledger ms; snapshot_of_ledger lg }"

definition guard_head :: string where
  "guard_head = [CHR 0xE4, CHR 0xBF, CHR 0xAE, CHR 0xE5, CHR 0xA4, CHR 0x8D, CHR 0xE6, CHR 0x8F, CHR 0x90, CHR 0xE4, CHR 0xBA, CHR 0xA4, CHR 0x20]"

definition guard_tail :: string where
  "guard_tail = [CHR 0x20, CHR 0xE5, CHR 0xB0, CHR 0x9A, CHR 0xE6, CHR 0x9C, CHR 0xAA, CHR 0xE5, CHR 0xAE, CHR 0x8C, CHR 0xE6, CHR 0x88,
     CHR 0x90, CHR 0xE7, CHR 0xB2, CHR 0xBE, CHR 0xE7, CHR 0xA1, CHR 0xAE, CHR 0xE6, CHR 0xB5, CHR 0x81, CHR 0xE6, CHR 0xB0, CHR 0xB4,
     CHR 0xE7, CHR 0xBA, CHR 0xBF, CHR 0xE9, CHR 0xAA, CHR 0x8C, CHR 0xE8, CHR 0xAF, CHR 0x81, CHR 0xE3, CHR 0x80, CHR 0x82]"

definition terminal_guard :: "repair_snapshot \<Rightarrow> bool \<times> string" where
  "terminal_guard s =
     (if requires_exact_pipeline s then (False, guard_head @ rs_latest_pushed_sha s @ guard_tail) else (True, []))"

definition max_repair_commits :: "json option \<Rightarrow> int" where
  "max_repair_commits setting = max 1 (or_else (py_int (or_else setting (JInt 3))) 3)"

subsection \<open>The ledger is ordered and has one entry per attempt\<close>

definition push_attempt_id :: "dict \<Rightarrow> string" where
  "push_attempt_id p = or_else (get_str p ''attempt_id'' []) []"

definition ledger_inv :: "nat \<Rightarrow> ledger_state \<Rightarrow> bool" where
  "ledger_inv n st \<longleftrightarrow>
     (\<forall>a i. map_of (ls_positions st) a = Some i \<longleftrightarrow>
        a \<noteq> [] \<and> i < length (pushes (ls_ledger st)) \<and> push_attempt_id (pushes (ls_ledger st) ! i) = a) \<and>
     sorted_wrt (<) (map ta_sequence (tool_attempts (ls_ledger st))) \<and>
     (\<forall>a \<in> set (tool_attempts (ls_ledger st)). ta_sequence a < n)"

lemma record_push_inv:
  assumes "ledger_inv n st" "record_push result st = Some st'"
  shows "ledger_inv n st'"
proof -
  obtain a where a: "get_str result ''attempt_id'' [] = Some a" using assms(2) by (auto simp: record_push_def bind_eq_Some_conv)
  then have pid: "push_attempt_id result = a" by (simp add: push_attempt_id_def)
  have pos: "map_of (ls_positions st) b = Some i \<longleftrightarrow>
      b \<noteq> [] \<and> i < length (pushes (ls_ledger st)) \<and> push_attempt_id (pushes (ls_ledger st) ! i) = b" for b i
    using assms(1) by (simp add: ledger_inv_def)
  show ?thesis
  proof (cases "a \<noteq> [] \<and> map_of (ls_positions st) a \<noteq> None")
    case True
    then obtain i where i: "map_of (ls_positions st) a = Some i" by blast
    then have "push_attempt_id (pushes (ls_ledger st) ! i) = a" using pos by blast
    then have "push_attempt_id ((pushes (ls_ledger st))[i := result] ! j) = push_attempt_id (pushes (ls_ledger st) ! j)"
      if "j < length (pushes (ls_ledger st))" for j using that pid by (cases "j = i") simp_all
    moreover have "st' = st\<lparr>ls_ledger := (ls_ledger st)\<lparr>pushes := (pushes (ls_ledger st))[i := result]\<rparr>\<rparr>"
      using assms(2) a i True by (simp add: record_push_def Let_def)
    ultimately show ?thesis using assms(1) by (auto simp: ledger_inv_def)
  next
    case False
    then have new: "st' = st\<lparr>ls_ledger := (ls_ledger st)\<lparr>pushes := pushes (ls_ledger st) @ [result]\<rparr>,
        ls_positions := (if a \<noteq> [] then AList.update a (length (pushes (ls_ledger st))) (ls_positions st) else ls_positions st)\<rparr>"
      using assms(2) a by (auto simp: record_push_def Let_def split: if_splits option.splits)
    have "a \<noteq> [] \<Longrightarrow> map_of (ls_positions st) a = None" using False by blast
    then have "a \<noteq> [] \<Longrightarrow> push_attempt_id (pushes (ls_ledger st) ! j) \<noteq> a" if "j < length (pushes (ls_ledger st))" for j
      using pos [of a j] that by auto
    then show ?thesis using assms(1) pid pos unfolding ledger_inv_def new
      by (auto simp: update_conv' nth_append less_Suc_eq)
  qed
qed

lemma if_some_cases:
  "(if a then x else if b then Some p else if c then Some q else Some r) = Some z \<Longrightarrow> \<not> a \<Longrightarrow> z = p \<or> z = q \<or> z = r"
  by (auto split: if_splits)

lemma record_result_inv:
  assumes "ledger_inv n st" "record_result name result k st = Some st'"
  shows "ledger_inv n st'"
proof (cases "name = JStr ''commit_and_push_tool''")
  case True
  then show ?thesis using record_push_inv [OF assms(1)] assms(2) by (simp add: record_result_def Let_def)
next
  case False
  have "pushes (ls_ledger st') = pushes (ls_ledger st) \<and> ls_positions st' = ls_positions st \<and>
      tool_attempts (ls_ledger st') = tool_attempts (ls_ledger st)"
    using if_some_cases [OF assms(2) [unfolded record_result_def Let_def] False] by (elim disjE) simp_all
  then show ?thesis using assms(1) by (simp add: ledger_inv_def)
qed

lemma ledger_message_inv:
  assumes "ledger_inv n st" "ledger_message n m st = Some st'"
  shows "ledger_inv (Suc n) st'"
proof -
  have later: "\<forall>a \<in> set (tool_attempts (ls_ledger st)). ta_sequence a < Suc n" using assms(1) by (auto simp: ledger_inv_def)
  then have up: "ledger_inv (Suc n) (st\<lparr>ls_calls := c\<rparr>)" for c using assms(1) by (simp add: ledger_inv_def)
  have at: "ledger_inv (Suc n) (st\<lparr>ls_calls := c, ls_ledger := record_attempt a (ls_ledger st)\<rparr>)" if "ta_sequence a = n" for a c
    using assms(1) that later by (simp add: ledger_inv_def record_attempt_def sorted_wrt_append)
  have fin: "ledger_inv (Suc n) st'"
    if "record_result nm d n (st\<lparr>ls_calls := c, ls_ledger := record_attempt a (ls_ledger st)\<rparr>) = Some st'" "ta_sequence a = n" for nm d a c
    using record_result_inv at that by blast
  obtain calls where calls: "record_calls (msg_tool_calls m) (ls_calls st) = Some calls"
    using assms(2) by (auto simp: ledger_message_def bind_eq_Some_conv)
  show ?thesis
  proof (cases "map_of calls (msg_tool_call_id m)")
    case None
    then show ?thesis using assms(2) calls up by (simp add: ledger_message_def) blast
  next
    case (Some x)
    obtain nm args where "x = (nm, args)" by (cases x)
    then show ?thesis using assms(2) calls Some at fin
      by (cases "message_result m") (auto simp: ledger_message_def Let_def)
  qed
qed

lemma ledger_loop_inv:
  "ledger_inv n st \<Longrightarrow> ledger_loop n ms st = Some st' \<Longrightarrow> ledger_inv (n + length ms) st'"
proof (induction ms arbitrary: n st)
  case (Cons m ms)
  then obtain st1 where "ledger_message n m st = Some st1" "ledger_loop (Suc n) ms st1 = Some st'"
    by (auto simp: bind_eq_Some_conv)
  then show ?case using Cons.IH [OF ledger_message_inv [OF Cons.prems(1)]] by fastforce
qed simp

lemma ledger_start_inv: "ledger_inv 0 ledger_start"
  by (simp add: ledger_inv_def ledger_start_def empty_ledger_def)

lemma distinct_of_positions:
  assumes "\<And>i j. i < length xs \<Longrightarrow> j < length xs \<Longrightarrow> xs ! i \<noteq> [] \<Longrightarrow> xs ! i = xs ! j \<Longrightarrow> i = j"
  shows "distinct (filter (\<lambda>x. x \<noteq> []) xs)"
  using assms
proof (induction xs)
  case (Cons x xs)
  have "i < length xs \<Longrightarrow> j < length xs \<Longrightarrow> xs ! i \<noteq> [] \<Longrightarrow> xs ! i = xs ! j \<Longrightarrow> i = j" for i j
    using Cons.prems [of "Suc i" "Suc j"] by simp
  moreover have "x \<noteq> [] \<Longrightarrow> x \<notin> set xs" using Cons.prems [of 0 "Suc _"] by (fastforce simp: in_set_conv_nth)
  ultimately show ?case using Cons.IH by auto
qed simp

lemma ledger_loop_append:
  "ledger_loop n (xs @ ys) st = do { st1 \<leftarrow> ledger_loop n xs st; ledger_loop (n + length xs) ys st1 }"
proof (induction xs arbitrary: n st)
  case (Cons m xs)
  then show ?case by (cases "ledger_message n m st") simp_all
qed simp

lemma record_push_twice:
  assumes "ledger_inv n st" "record_push result st = Some st'" "push_attempt_id result \<noteq> []"
    "pushes (ls_ledger st2) = pushes (ls_ledger st')" "ls_positions st2 = ls_positions st'"
  shows "\<exists>st3. record_push result st2 = Some st3 \<and> pushes (ls_ledger st3) = pushes (ls_ledger st') \<and> ls_positions st3 = ls_positions st'"
proof -
  let ?a = "push_attempt_id result"
  have a: "get_str result ''attempt_id'' [] = Some ?a"
    using assms(2) by (auto simp: record_push_def bind_eq_Some_conv push_attempt_id_def)
  have "\<exists>i < length (pushes (ls_ledger st')). pushes (ls_ledger st') ! i = result"
    using assms(2) a assms(3) assms(1)
    by (auto simp: record_push_def Let_def ledger_inv_def split: option.splits intro: exI [of _ "length (pushes (ls_ledger st))"])
  then obtain i where i: "i < length (pushes (ls_ledger st'))" "pushes (ls_ledger st') ! i = result" by blast
  then have "map_of (ls_positions st') ?a = Some i"
    using record_push_inv [OF assms(1,2)] assms(3) by (simp add: ledger_inv_def)
  then show ?thesis using a assms(3-5) i list_update_id [of "pushes (ls_ledger st')" i]
    by (simp add: record_push_def Let_def)
qed

subsection \<open>Identities of attempts\<close>

lemma filter_option_sub: "filter_option P xs = Some ys \<Longrightarrow> y \<in> set ys \<Longrightarrow> y \<in> set xs \<and> P y = Some True"
  by (induction xs arbitrary: ys) (auto simp: bind_eq_Some_conv split: if_splits)

lemma filter_option_mem: "filter_option P xs = Some ys \<Longrightarrow> x \<in> set xs \<Longrightarrow> P x = Some True \<Longrightarrow> x \<in> set ys"
  by (induction xs arbitrary: ys) (auto simp: bind_eq_Some_conv)

text \<open>The chosen pipeline is an exact one, and a terminal one if there is one.\<close>

lemma choose_terminal:
  assumes "choose_pipeline n sha aid ps = Some c"
  shows "c = Some p \<Longrightarrow> p \<in> set ps \<and> exact_pipeline n sha aid p = Some True"
    "\<exists>p\<in>set ps. exact_pipeline n sha aid p = Some True \<and> terminal_pipeline p = Some True \<Longrightarrow>
       \<exists>p\<in>set ps. c = Some p \<and> exact_pipeline n sha aid p = Some True \<and> terminal_pipeline p = Some True"
proof -
  obtain exact terminal where e: "filter_option (exact_pipeline n sha aid) ps = Some exact" "filter_option terminal_pipeline exact = Some terminal"
    "c = (if terminal \<noteq> [] then Some (last terminal) else if exact \<noteq> [] then Some (last exact) else None)"
    using assms by (auto simp: choose_pipeline_def bind_eq_Some_conv)
  have sub: "q \<in> set terminal \<Longrightarrow> q \<in> set exact \<and> terminal_pipeline q = Some True" for q using filter_option_sub [OF e(2)] by blast
  show "p \<in> set ps \<and> exact_pipeline n sha aid p = Some True" if "c = Some p"
  proof -
    have "p \<in> set exact" using that e(3) sub by (auto split: if_splits)
    then show ?thesis using filter_option_sub [OF e(1)] by blast
  qed
  assume "\<exists>p\<in>set ps. exact_pipeline n sha aid p = Some True \<and> terminal_pipeline p = Some True"
  then have "terminal \<noteq> []" using filter_option_mem [OF e(1)] filter_option_mem [OF e(2)] by fastforce
  then have "c = Some (last terminal)" "last terminal \<in> set exact" "terminal_pipeline (last terminal) = Some True"
    using e(3) sub [of "last terminal"] by auto
  then show "\<exists>p\<in>set ps. c = Some p \<and> exact_pipeline n sha aid p = Some True \<and> terminal_pipeline p = Some True"
    using filter_option_sub [OF e(1)] by blast
qed

subsection \<open>What it takes to end a run\<close>

text \<open>The commit a tool attempt published.\<close>

definition published_commit :: "tool_attempt \<Rightarrow> string option" where
  "published_commit a = (case ta_result a of
      None \<Rightarrow> None
    | Some d \<Rightarrow>
        if ta_name a = JStr ''commit_and_push_tool'' \<and> dget d ''status'' = Some (JStr ''success'') \<and> dget d ''changed'' = Some (JBool True)
        then do { v \<leftarrow> dget d ''commit_sha''; if truthy v then py_str v else None } else None)"

text \<open>The last attempt that published a commit which no attempt before it published.\<close>

definition newest_commit :: "execution_ledger \<Rightarrow> nat \<Rightarrow> string \<Rightarrow> bool" where
  "newest_commit lg i sha \<longleftrightarrow>
     i < length (tool_attempts lg) \<and> published_commit (tool_attempts lg ! i) = Some sha \<and>
     (\<forall>j < i. published_commit (tool_attempts lg ! j) \<noteq> Some sha) \<and>
     (\<forall>j sha'. i < j \<and> j < length (tool_attempts lg) \<and> published_commit (tool_attempts lg ! j) = Some sha' \<longrightarrow>
        (\<exists>k \<le> i. published_commit (tool_attempts lg ! k) = Some sha'))"

text \<open>A pipeline result that verifies the commit of an attempt.\<close>

definition verifies :: "dict \<Rightarrow> tool_attempt \<Rightarrow> string \<Rightarrow> bool" where
  "verifies p a sha \<longleftrightarrow> (\<exists>n st pst aid pid.
     get_int p ''_sequence'' 0 = Some n \<and> int (ta_sequence a) < n \<and>
     get_str p ''requested_commit_sha'' [] = Some sha \<and> get_str p ''matched_commit_sha'' [] = Some sha \<and>
     get_str p ''status'' [] = Some st \<and> lower st \<in> {''success'', ''running''} \<and>
     get_str p ''pipeline_status'' [] = Some pst \<and> lower pst \<in> {''success'', ''failed'', ''canceled'', ''skipped''} \<and>
     get_str (or_else (ta_result a) []) ''attempt_id'' [] = Some aid \<and> get_str p ''attempt_id'' [] = Some pid \<and>
     (aid = [] \<or> pid = [] \<or> pid = aid))"

lemma verifies_iff:
  assumes "get_str (attempt_result a) ''attempt_id'' [] = Some aid"
  shows "verifies p a sha \<longleftrightarrow> exact_pipeline (ta_sequence a) sha aid p = Some True \<and> terminal_pipeline p = Some True"
  using assms
  by (auto simp: verifies_def exact_pipeline_def pipeline_matches_attempt_def terminal_pipeline_def pipeline_status_of_def attempt_result_def
      terminal_pipeline_statuses_def bind_eq_Some_conv split: if_splits)

lemma published_commit_landed:
  "published_commit a = (if attempt_landed a then get_str (attempt_result a) ''commit_sha'' [] else None)"
  by (auto simp: published_commit_def attempt_landed_def attempt_result_def get_str_def get_bool_def dget_def
      split: option.splits)

lemma newest_commitD:
  assumes "newest_commit lg i sha"
  shows "i < length (tool_attempts lg)" "published_commit (tool_attempts lg ! i) = Some sha"
    "j < i \<Longrightarrow> published_commit (tool_attempts lg ! j) \<noteq> Some sha"
    "i < j \<and> j < length (tool_attempts lg) \<and> published_commit (tool_attempts lg ! j) = Some x \<Longrightarrow>
       \<exists>k \<le> i. published_commit (tool_attempts lg ! k) = Some x"
  using assms unfolding newest_commit_def by simp_all

lemma newest_unique:
  assumes "newest_commit lg i sha" "newest_commit lg j sha'"
  shows "j = i \<and> sha' = sha"
proof -
  have first: "\<not> k < k'" if k: "newest_commit lg k x" "newest_commit lg k' x'" for k k' x x'
  proof
    assume "k < k'"
    then obtain m where "m \<le> k" "published_commit (tool_attempts lg ! m) = Some x'"
      using newest_commitD(4) [OF k(1), of k' x'] newest_commitD(1,2) [OF k(2)] by blast
    then show False using newest_commitD(3) [OF k(2), of m] \<open>k < k'\<close> by simp
  qed
  then have "j = i" using first [OF assms] first [OF assms(2,1)] by simp
  then show ?thesis using newest_commitD(2) [OF assms(1)] newest_commitD(2) [OF assms(2)] by simp
qed

lemma successful_push_cases:
  assumes "successful_push_loop (a # as) seen = Some ls"
  obtains (skipped) "successful_push_loop as seen = Some ls" "\<forall>x. published_commit a = Some x \<longrightarrow> x \<in> set seen"
    | (taken) x ls' where "published_commit a = Some x" "x \<notin> set seen" "successful_push_loop as (x # seen) = Some ls'" "ls = a # ls'"
proof (cases "attempt_landed a")
  case True
  then obtain x where x: "get_str (attempt_result a) ''commit_sha'' [] = Some x" using assms by (auto simp: bind_eq_Some_conv)
  then have "published_commit a = Some x" using True by (simp add: published_commit_landed)
  then show thesis using that assms True x by (cases "x \<in> set seen") auto
qed (use that assms in \<open>simp add: published_commit_landed\<close>)

lemma none_taken: "successful_push_loop as seen = Some [] \<Longrightarrow> b \<in> set as \<Longrightarrow> published_commit b = Some x \<Longrightarrow> x \<in> set seen"
proof (induction as arbitrary: seen)
  case (Cons a as)
  from Cons.prems(1) show ?case by (cases rule: successful_push_cases) (use Cons in auto)
qed simp

text \<open>What the loop takes last: the attempts before and after it.\<close>

lemma last_taken:
  assumes "successful_push_loop as seen = Some ls" "ls \<noteq> []"
  shows "\<exists>xs ys sha. as = xs @ last ls # ys \<and> published_commit (last ls) = Some sha \<and> sha \<notin> set seen \<and>
      (\<forall>b\<in>set xs. published_commit b \<noteq> Some sha) \<and>
      (\<forall>b\<in>set ys. \<forall>x. published_commit b = Some x \<longrightarrow> x = sha \<or> x \<in> set seen \<or> (\<exists>c\<in>set xs. published_commit c = Some x))"
  using assms
proof (induction as arbitrary: seen ls)
  case (Cons a as)
  from Cons.prems(1) show ?case
  proof (cases rule: successful_push_cases)
    case skipped
    from Cons.IH [OF skipped(1) Cons.prems(2)] obtain xs ys sha where "as = xs @ last ls # ys" "published_commit (last ls) = Some sha"
      "sha \<notin> set seen" "\<forall>b\<in>set xs. published_commit b \<noteq> Some sha"
      "\<forall>b\<in>set ys. \<forall>x. published_commit b = Some x \<longrightarrow> x = sha \<or> x \<in> set seen \<or> (\<exists>c\<in>set xs. published_commit c = Some x)" by blast
    then show ?thesis using skipped(2) by (intro exI [of _ "a # xs"] exI [of _ ys] exI [of _ sha]) auto
  next
    case (taken x ls')
    show ?thesis
    proof (cases "ls' = []")
      case True
      then show ?thesis using taken none_taken [OF taken(3) [unfolded True]] by (intro exI [of _ "[]"] exI [of _ as] exI [of _ x]) auto
    next
      case False
      from Cons.IH [OF taken(3) False] obtain xs ys sha where "as = xs @ last ls' # ys" "published_commit (last ls') = Some sha"
        "sha \<notin> set (x # seen)" "\<forall>b\<in>set xs. published_commit b \<noteq> Some sha"
        "\<forall>b\<in>set ys. \<forall>y. published_commit b = Some y \<longrightarrow> y = sha \<or> y \<in> set (x # seen) \<or> (\<exists>c\<in>set xs. published_commit c = Some y)" by blast
      then show ?thesis using taken False by (intro exI [of _ "a # xs"] exI [of _ ys] exI [of _ sha]) auto
    qed
  qed
qed simp

lemma newest_landed:
  assumes "successful_push_attempts lg = Some landed"
  shows "landed = [] \<Longrightarrow> \<not> newest_commit lg i sha"
    "landed \<noteq> [] \<Longrightarrow> get_str (attempt_result (last landed)) ''commit_sha'' [] = Some sha \<Longrightarrow>
       \<exists>i. newest_commit lg i sha \<and> tool_attempts lg ! i = last landed"
proof -
  have run: "successful_push_loop (tool_attempts lg) [] = Some landed" using assms by (simp add: successful_push_attempts_def)
  show "\<not> newest_commit lg i sha" if "landed = []"
    using none_taken [OF run [unfolded that]] by (auto simp: newest_commit_def dest: nth_mem)
  assume "landed \<noteq> []" "get_str (attempt_result (last landed)) ''commit_sha'' [] = Some sha"
  then obtain xs ys where split: "tool_attempts lg = xs @ last landed # ys" "published_commit (last landed) = Some sha"
    "\<forall>b\<in>set xs. published_commit b \<noteq> Some sha"
    "\<forall>b\<in>set ys. \<forall>x. published_commit b = Some x \<longrightarrow> x = sha \<or> (\<exists>c\<in>set xs. published_commit c = Some x)"
    using last_taken [OF run] by (auto simp: published_commit_landed split: if_splits)
  have "\<exists>k \<le> length xs. published_commit (tool_attempts lg ! k) = Some x"
    if "length xs < j" "j < length (tool_attempts lg)" "published_commit (tool_attempts lg ! j) = Some x" for j x
  proof -
    have "tool_attempts lg ! j = ys ! (j - Suc (length xs))" "j - Suc (length xs) < length ys"
      using that(1,2) by (auto simp: split(1) nth_append nth_Cons')
    then have "x = sha \<or> (\<exists>c\<in>set xs. published_commit c = Some x)" using split(4) that(3) by (metis nth_mem)
    then show ?thesis
    proof
      assume "x = sha"
      then show ?thesis using split(1,2) by (intro exI [of _ "length xs"]) simp
    next
      assume "\<exists>c\<in>set xs. published_commit c = Some x"
      then obtain k where "k < length xs" "published_commit (xs ! k) = Some x" by (auto simp: in_set_conv_nth)
      then show ?thesis by (intro exI [of _ k]) (simp add: split(1) nth_append)
    qed
  qed
  moreover have "tool_attempts lg ! length xs = last landed" "length xs < length (tool_attempts lg)" by (simp_all add: split(1))
  moreover have "published_commit (tool_attempts lg ! j) \<noteq> Some sha" if "j < length xs" for j
    using split(3) that by (simp add: split(1) nth_append)
  ultimately have "newest_commit lg (length xs) sha" using split(2) unfolding newest_commit_def by metis
  then show "\<exists>i. newest_commit lg i sha \<and> tool_attempts lg ! i = last landed" using split(1) by (intro exI [of _ "length xs"]) simp
qed

lemma fold_max_ge: "(x::int) \<in> set xs \<or> x \<le> a \<Longrightarrow> x \<le> fold max xs a"
proof (induction xs arbitrary: a)
  case (Cons y xs)
  have "x \<in> set xs \<or> x \<le> max y a" using Cons.prems by (auto simp: le_max_iff_disj)
  from Cons.IH [OF this] show ?case by (simp only: fold_simps)
qed simp

lemma show_int_no_colon: "CHR '':'' \<notin> set (show_int n)"
  using show_int_num_chars [of n] by (auto simp: list_all_iff num_char_def is_digit_def)

lemma push_identity_inject:
  assumes "pa_attempt_id (push_identity h t n b (digest_diff h d)) = pa_attempt_id (push_identity h t' n' b' (digest_diff h d'))"
    and "\<And>s. CHR '':'' \<notin> set (h s)" "CHR '':'' \<notin> set b" "CHR '':'' \<notin> set b'"
  shows "t = t' \<and> n = n' \<and> b = b' \<and> h d = h d'"
proof -
  let ?c = "CHR '':''"
  have "(((t @ ?c # show_int n) @ ?c # b) @ ?c # ''sha256'') @ ?c # h d = (((t' @ ?c # show_int n') @ ?c # b') @ ?c # ''sha256'') @ ?c # h d'"
    using assms(1) by (simp add: push_identity_def digest_diff_def Let_def)
  then have "((t @ ?c # show_int n) @ ?c # b) @ ?c # ''sha256'' = ((t' @ ?c # show_int n') @ ?c # b') @ ?c # ''sha256'' \<and> h d = h d'"
    by (rule tagged_inject [OF assms(2) assms(2), THEN iffD1])
  then have d: "h d = h d'" and "(t @ ?c # show_int n) @ ?c # b = (t' @ ?c # show_int n') @ ?c # b'"
    using append_same_eq [of _ "?c # ''sha256''"] by blast+
  then have "t @ ?c # show_int n = t' @ ?c # show_int n'" "b = b'" using assms(3,4) tagged_inject by blast+
  then have "t = t'" "show_int n = show_int n'" using show_int_no_colon tagged_inject by blast+
  moreover from this(2) have "n = n'" using parse_show_int [of n] parse_show_int [of n'] by simp
  ultimately show ?thesis using \<open>b = b'\<close> d by blast
qed

lemma takeWhile_digits: "takeWhile is_digit (show_nat n @ CHR '':'' # s) = show_nat n" "dropWhile is_digit (show_nat n @ CHR '':'' # s) = CHR '':'' # s"
proof -
  have d: "\<forall>c\<in>set (show_nat n). is_digit c" using show_nat_digits by (auto simp: list_all_iff)
  then show "takeWhile is_digit (show_nat n @ CHR '':'' # s) = show_nat n" by (simp add: is_digit_def)
  show "dropWhile is_digit (show_nat n @ CHR '':'' # s) = CHR '':'' # s" using d by (simp add: is_digit_def)
qed

lemma match_marker_here:
  assumes "0 \<le> n" "length x = 20" "list_all is_hex x"
  shows "match_marker p (p @ show_int n @ '':'' @ x @ '']'' @ s) = Some (n, p @ show_int n @ '':'' @ x @ '']'')"
proof -
  obtain k where k: "n = int k" using assms(1) nonneg_int_cases by blast
  have "takeWhile is_hex (x @ CHR '']'' # s) = x" using assms(3) by (simp add: list_all_iff is_hex_def)
  then show ?thesis using assms(2) takeWhile_digits [of k "x @ '']'' @ s"]
    by (simp add: match_marker_def startswith_def k show_int_def Let_def)
qed

lemma search_marker_skip:
  assumes "CHR ''['' \<notin> set pre" "p = CHR ''['' # p'"
  shows "search_marker p (pre @ s) = search_marker p s"
  using assms
proof (induction pre)
  case (Cons c pre)
  have "match_marker p ((c # pre) @ s) = None" using Cons.prems by (auto simp: match_marker_def startswith_def)
  then show ?case using Cons by simp
qed simp

text \<open>The bracket the message begins with begins no marker, and the rest before the marker has none.\<close>

lemma search_commit_msg:
  "search_marker (marker_prefix t) (commit_msg mr_id a @ post) = search_marker (marker_prefix t) (pa_marker a @ post)"
proof -
  have digits: "CHR ''['' \<notin> set (show_int mr_id)"
    using show_int_num_chars [of mr_id] by (auto simp: list_all_iff num_char_def is_digit_def)
  obtain r where r: "commit_msg mr_id a = CHR ''['' # r @ pa_marker a" "CHR ''['' \<notin> set r" "\<exists>r'. r = CHR ''U'' # r'"
    using digits by (simp add: commit_msg_def)
  have "match_marker (marker_prefix t) (CHR ''['' # r @ pa_marker a @ post) = None"
    using r(3) by (auto simp: match_marker_def marker_prefix_def startswith_def)
  moreover have "search_marker (marker_prefix t) (r @ pa_marker a @ post) = search_marker (marker_prefix t) (pa_marker a @ post)"
    by (rule search_marker_skip [OF r(2)]) (simp add: marker_prefix_def)
  ultimately show ?thesis by (simp add: r(1))
qed

section \<open>Properties\<close>

text \<open>
  The ledger orders what it read and has every attempt once. The tool attempts stand in the
  order of their messages, and no two recorded pushes carry the same attempt id.
\<close>

theorem ledger_well_formed:
  assumes "build_execution_ledger ms = Some lg"
  shows "sorted_wrt (<) (map ta_sequence (tool_attempts lg)) \<and> distinct (filter (\<lambda>a. a \<noteq> []) (map push_attempt_id (pushes lg)))"
proof -
  obtain st where st: "ledger_loop 0 ms ledger_start = Some st" "lg = ls_ledger st"
    using assms by (auto simp: build_execution_ledger_def)
  have "ledger_inv (length ms) st" using ledger_loop_inv [OF ledger_start_inv st(1)] by simp
  then have inv: "\<And>a i. map_of (ls_positions st) a = Some i \<longleftrightarrow> a \<noteq> [] \<and> i < length (pushes lg) \<and> push_attempt_id (pushes lg ! i) = a"
    "sorted_wrt (<) (map ta_sequence (tool_attempts lg))" by (simp_all add: ledger_inv_def st(2))
  have "distinct (filter (\<lambda>a. a \<noteq> []) (map push_attempt_id (pushes lg)))"
  proof (rule distinct_of_positions)
    fix i j
    let ?xs = "map push_attempt_id (pushes lg)"
    assume "i < length ?xs" "j < length ?xs" "?xs ! i \<noteq> []" "?xs ! i = ?xs ! j"
    then have "map_of (ls_positions st) (?xs ! i) = Some i" "map_of (ls_positions st) (?xs ! i) = Some j" using inv(1) by simp_all
    then show "i = j" by simp
  qed
  with inv(2) show ?thesis by blast
qed

definition example_push :: message where
  "example_push = \<lparr>msg_tool_calls = [[(''id'', JStr ''c''), (''name'', JStr ''commit_and_push_tool''), (''args'', JObj [])]],
     msg_tool_call_id = ''c'', msg_content = dumps (JObj [(''attempt_id'', JStr ''a1'')])\<rparr>"

lemma example_push_ledger:
  "build_execution_ledger [example_push] = Some \<lparr>pushes = [[(''attempt_id'', JStr ''a1'')]], pipelines = [],
     tool_attempts = [\<lparr>ta_name = JStr ''commit_and_push_tool'', ta_args = [], ta_result = Some [(''attempt_id'', JStr ''a1'')],
       ta_sequence = 0, ta_result_text = msg_content example_push\<rparr>], replan_requests = []\<rparr>"
  by (simp add: build_execution_ledger_def ledger_message_def message_result_def example_push_def opt_str_def call_name_def call_args_def dget_def
      Let_def ledger_start_def empty_ledger_def loads_dumps_obj stored_dict_def record_result_def record_push_def get_str_def
      record_attempt_def)

theorem ledger_well_formed_witness: "\<exists>lg. build_execution_ledger [example_push] = Some lg \<and> distinct (map push_attempt_id (pushes lg))"
  using ledger_well_formed [OF example_push_ledger] example_push_ledger by simp

text \<open>
  A repeated push result is recorded once. When the same message with the result of a push
  attempt comes twice, the recorded pushes are those after the first time.
\<close>

theorem ledger_push_once:
  assumes "build_execution_ledger (ms @ [m]) = Some lg" "msg_tool_calls m = []"
    "loads (msg_content m) = Some (JObj result)" "push_attempt_id result \<noteq> []"
    "\<exists>a \<in> set (tool_attempts lg). ta_sequence a = length ms \<and> ta_name a = JStr ''commit_and_push_tool''"
  shows "\<exists>lg'. build_execution_ledger (ms @ [m, m]) = Some lg' \<and> pushes lg' = pushes lg"
proof -
  obtain st1 st where st: "ledger_loop 0 ms ledger_start = Some st1" "ledger_message (length ms) m st1 = Some st" "lg = ls_ledger st"
    using assms(1) by (auto simp: build_execution_ledger_def ledger_loop_append bind_eq_Some_conv)
  have inv: "ledger_inv (length ms) st1" using ledger_loop_inv [OF ledger_start_inv st(1)] by simp
  have old: "a \<in> set (tool_attempts (ls_ledger st1)) \<Longrightarrow> ta_sequence a \<noteq> length ms" for a using inv by (auto simp: ledger_inv_def)
  let ?at = "\<lambda>nm args k. \<lparr>ta_name = nm, ta_args = args, ta_result = Some result, ta_sequence = k, ta_result_text = msg_content m\<rparr>"
  let ?rec = "\<lambda>nm args k s. s\<lparr>ls_ledger := record_attempt (?at nm args k) (ls_ledger s)\<rparr>"
  have step: "ledger_message k m s = (case map_of (ls_calls s) (msg_tool_call_id m) of None \<Rightarrow> Some s
      | Some (nm, args) \<Rightarrow> record_result nm result k (?rec nm args k s))" for k s
    using assms(2,3) by (simp add: ledger_message_def message_result_def Let_def split: option.splits)
  obtain args where call: "map_of (ls_calls st1) (msg_tool_call_id m) = Some (JStr ''commit_and_push_tool'', args)"
    using st(2,3) assms(5) old
    by (auto simp: step record_result_def Let_def record_push_def record_attempt_def bind_eq_Some_conv split: option.splits if_splits)
  let ?nm = "JStr ''commit_and_push_tool''"
  have p: "record_push result (?rec ?nm args (length ms) st1) = Some st" using st(2) by (simp add: step call record_result_def Let_def)
  then have calls: "ls_calls st = ls_calls st1" by (auto simp: record_push_def Let_def bind_eq_Some_conv split: option.splits)
  have "ledger_inv (Suc (length ms)) (?rec ?nm args (length ms) st1)"
    using inv by (auto simp: ledger_inv_def record_attempt_def sorted_wrt_append)
  from record_push_twice [OF this p assms(4), of "?rec ?nm args (Suc (length ms)) st"]
  obtain st3 where "record_push result (?rec ?nm args (Suc (length ms)) st) = Some st3" "pushes (ls_ledger st3) = pushes (ls_ledger st)"
    by (auto simp: record_attempt_def)
  then have "ledger_loop 0 (ms @ [m, m]) ledger_start = Some st3" "pushes (ls_ledger st3) = pushes lg"
    using st calls call by (simp_all add: ledger_loop_append step record_result_def Let_def)
  then show ?thesis by (simp add: build_execution_ledger_def)
qed

theorem ledger_push_once_witness:
  "\<exists>lg'. build_execution_ledger ([example_push] @ [example_push\<lparr>msg_tool_calls := []\<rparr>, example_push\<lparr>msg_tool_calls := []\<rparr>]) = Some lg' \<and>
     pushes lg' = [[(''attempt_id'', JStr ''a1'')]]"
proof -
  let ?m = "example_push\<lparr>msg_tool_calls := []\<rparr>" and ?r = "[(''attempt_id'', JStr ''a1'')]"
  obtain lg where lg: "build_execution_ledger ([example_push] @ [?m]) = Some lg" "pushes lg = [?r]"
    "\<exists>a \<in> set (tool_attempts lg). ta_sequence a = 1 \<and> ta_name a = JStr ''commit_and_push_tool''"
    by (simp add: build_execution_ledger_def ledger_message_def message_result_def example_push_def opt_str_def call_name_def call_args_def dget_def
      Let_def ledger_start_def empty_ledger_def loads_dumps_obj stored_dict_def record_result_def record_push_def get_str_def
      record_attempt_def)
  have "loads (msg_content ?m) = Some (JObj ?r)" by (simp add: example_push_def loads_dumps_obj stored_dict_def)
  moreover have "push_attempt_id ?r \<noteq> []" by (simp add: push_attempt_id_def get_str_def dget_def)
  ultimately show ?thesis using ledger_push_once [OF lg(1) _ _ _ ] lg(2,3) by simp
qed

text \<open>
  C18: a repair run may end exactly when its newest commit is verified. The newest commit is the one
  of the last successful push that published a commit no earlier push had published. The guard lets
  the run end if and only if there is no such commit, or some pipeline result that was read after the
  push was requested for and matched to exactly that commit, does not name another attempt, and has a
  terminal status. The terminal proof of the snapshot names this commit, the attempt of the push and
  the status and id of such a pipeline.
\<close>

theorem terminal_guard_sound:
  assumes "build_execution_ledger ms = Some lg" "build_repair_snapshot ms = Some s"
  shows "(fst (terminal_guard s) \<longleftrightarrow>
      (\<forall>i sha. newest_commit lg i sha \<longrightarrow> (\<exists>p\<in>set (pipelines lg). verifies p (tool_attempts lg ! i) sha))) \<and>
    (\<forall>evidence. rs_terminal_proof s = Some evidence \<longrightarrow>
      (\<exists>i p. newest_commit lg i (tp_commit_sha evidence) \<and> p \<in> set (pipelines lg) \<and>
         verifies p (tool_attempts lg ! i) (tp_commit_sha evidence) \<and>
         get_str (or_else (ta_result (tool_attempts lg ! i)) []) ''attempt_id'' [] = Some (tp_attempt_id evidence) \<and>
         pipeline_status_of p = Some (tp_status evidence) \<and> tp_pipeline_id evidence = pipeline_id_of p))"
proof -
  have snap: "snapshot_of_ledger lg = Some s" using assms by (simp add: build_repair_snapshot_def)
  then obtain landed where landed: "successful_push_attempts lg = Some landed"
    by (auto simp: snapshot_of_ledger_def bind_eq_Some_conv)
  show ?thesis
  proof (cases "landed = []")
    case True
    then have "s = \<lparr>rs_ledger = lg, rs_published_attempt_count = 0, rs_latest_push_attempt = None, rs_latest_pushed_sha = [],
        rs_latest_attempt_id = [], rs_publication_phase = PP_NONE, rs_latest_exact_pipeline = None, rs_terminal_proof = None\<rparr>"
      using snap landed by (simp add: snapshot_of_ledger_def)
    moreover have "\<not> newest_commit lg i sha" for i sha
      using newest_landed(1) landed True by blast
    ultimately show ?thesis by (simp add: terminal_guard_def requires_exact_pipeline_def)
  next
    case False
    let ?a = "last landed"
    obtain sha aid pipeline phase evidence where e: "get_str (attempt_result ?a) ''commit_sha'' [] = Some sha"
      "get_str (attempt_result ?a) ''attempt_id'' [] = Some aid"
      "choose_pipeline (ta_sequence ?a) sha aid (pipelines lg) = Some pipeline" "publication_evidence aid sha pipeline = Some (phase, evidence)"
      and s: "rs_publication_phase s = phase" "rs_terminal_proof s = evidence"
      using snap landed False by (auto simp: snapshot_of_ledger_def Let_def bind_eq_Some_conv)
    obtain i where i: "newest_commit lg i sha" "tool_attempts lg ! i = ?a" using newest_landed(2) [OF landed False e(1)] by blast
    have only: "newest_commit lg j sha' \<longleftrightarrow> j = i \<and> sha' = sha" for j sha' using newest_unique i(1) by metis
    note v = verifies_iff [OF e(2)]
    have guard: "fst (terminal_guard s) \<longleftrightarrow> phase \<notin> {PP_UNVERIFIED, PP_NONTERMINAL}"
      by (simp add: terminal_guard_def requires_exact_pipeline_def s(1))
    show ?thesis
    proof (cases "\<exists>p\<in>set (pipelines lg). verifies p ?a sha")
      case True
      then obtain p where p: "pipeline = Some p" "p \<in> set (pipelines lg)" "verifies p ?a sha"
        using choose_terminal(2) [OF e(3)] v by blast
      then have "evidence = Some \<lparr>tp_attempt_id = aid, tp_commit_sha = sha, tp_pipeline_id = pipeline_id_of p,
          tp_status = or_else (pipeline_status_of p) []\<rparr> \<and> phase = PP_TERMINAL \<and> pipeline_status_of p \<noteq> None"
        using e(4) v [of p sha] by (auto simp: publication_evidence_def terminal_pipeline_def)
      with p i e(2) show ?thesis using True by (auto simp: guard s(2) only attempt_result_def)
    next
      case False
      then have "\<not> terminal_pipeline p = Some True" if "pipeline = Some p" for p
        using choose_terminal(1) [OF e(3) [unfolded that]] v by blast
      then have "phase \<in> {PP_UNVERIFIED, PP_NONTERMINAL} \<and> evidence = None"
        using e(4) by (auto simp: publication_evidence_def terminal_pipeline_def bind_eq_Some_conv split: option.splits if_splits)
      then show ?thesis using False i by (auto simp: guard s(2) only)
    qed
  qed
qed

definition example_wait :: message where
  "example_wait = \<lparr>msg_tool_calls = [[(''id'', JStr ''d''), (''name'', JStr ''wait_pipeline_tool''), (''args'', JObj [])]],
     msg_tool_call_id = ''d'', msg_content = dumps (JObj [(''matched_commit_sha'', JStr ''abc''), (''pipeline_id'', JInt 7),
       (''pipeline_status'', JStr ''success''), (''requested_commit_sha'', JStr ''abc''), (''status'', JStr ''success'')])\<rparr>"

definition example_landed :: message where
  "example_landed = example_push\<lparr>msg_content := dumps (JObj [(''attempt_id'', JStr ''a1''), (''changed'', JBool True),
     (''commit_sha'', JStr ''abc''), (''status'', JStr ''success'')])\<rparr>"

definition example_second :: message where
  "example_second = \<lparr>msg_tool_calls = [[(''id'', JStr ''e''), (''name'', JStr ''commit_and_push_tool''), (''args'', JObj [])]],
     msg_tool_call_id = ''e'', msg_content = dumps (JObj [(''attempt_id'', JStr ''a2''), (''changed'', JBool True),
       (''commit_sha'', JStr ''def''), (''status'', JStr ''success'')])\<rparr>"

lemmas example_ledger_simps = build_repair_snapshot_def build_execution_ledger_def ledger_message_def message_result_def
  example_landed_def example_push_def example_second_def example_wait_def opt_str_def call_name_def call_args_def dget_def Let_def
  ledger_start_def empty_ledger_def loads_dumps_obj stored_dict_def record_result_def record_push_def get_str_def record_attempt_def
  with_sequence_def snapshot_of_ledger_def successful_push_attempts_def publication_evidence_def choose_pipeline_def attempt_landed_def
  attempt_result_def get_bool_def exact_pipeline_def get_int_def pipeline_matches_attempt_def lower_def to_lower_def
  terminal_pipeline_def pipeline_status_of_def terminal_pipeline_statuses_def terminal_guard_def requires_exact_pipeline_def

text \<open>A run that pushed, saw the pipeline of that commit succeed and pushed again may not end.\<close>

theorem terminal_guard_sound_witness:
  "(\<exists>lg s. build_execution_ledger [example_landed, example_wait] = Some lg \<and> build_repair_snapshot [example_landed, example_wait] = Some s \<and>
      fst (terminal_guard s) \<and> newest_commit lg 0 ''abc'') \<and>
   (\<exists>lg s. build_execution_ledger [example_landed, example_wait, example_second] = Some lg \<and>
      build_repair_snapshot [example_landed, example_wait, example_second] = Some s \<and> \<not> fst (terminal_guard s) \<and>
      \<not> (\<forall>i sha. newest_commit lg i sha \<longrightarrow> (\<exists>p\<in>set (pipelines lg). verifies p (tool_attempts lg ! i) sha)))"
proof
  obtain lg s where e: "build_execution_ledger [example_landed, example_wait] = Some lg" "build_repair_snapshot [example_landed, example_wait] = Some s"
    "fst (terminal_guard s)" "rs_terminal_proof s \<noteq> None" "\<forall>x. rs_terminal_proof s = Some x \<longrightarrow> tp_commit_sha x = ''abc''" "length (tool_attempts lg) = 2"
    "\<not> attempt_landed (tool_attempts lg ! 1)"
    by (simp add: example_ledger_simps)
  obtain i where i: "newest_commit lg i ''abc''" using terminal_guard_sound [OF e(1,2)] e(4,5) by fastforce
  then have "i < 2" "i \<noteq> 1" using e(6,7) by (auto simp: newest_commit_def published_commit_landed)
  then have "i = 0" by simp
  with i e show "\<exists>lg s. build_execution_ledger [example_landed, example_wait] = Some lg \<and>
      build_repair_snapshot [example_landed, example_wait] = Some s \<and> fst (terminal_guard s) \<and> newest_commit lg 0 ''abc''" by blast
next
  obtain lg s where e: "build_execution_ledger [example_landed, example_wait, example_second] = Some lg"
    "build_repair_snapshot [example_landed, example_wait, example_second] = Some s" "\<not> fst (terminal_guard s)"
    by (simp add: example_ledger_simps)
  with terminal_guard_sound [OF e(1,2)] show "\<exists>lg s. build_execution_ledger [example_landed, example_wait, example_second] = Some lg \<and>
      build_repair_snapshot [example_landed, example_wait, example_second] = Some s \<and> \<not> fst (terminal_guard s) \<and>
      \<not> (\<forall>i sha. newest_commit lg i sha \<longrightarrow> (\<exists>p\<in>set (pipelines lg). verifies p (tool_attempts lg ! i) sha))" by blast
qed

text \<open>
  C19: a new push attempt is told apart from every earlier one. Its sequence is greater than the
  sequence of any previous push, so its attempt id differs from the id of every previous push
  that was named by this scheme, whatever that push's base commit and diff.
\<close>

theorem push_attempt_fresh:
  assumes "build_push_attempt h git t previous = Some (Inr a)" "\<And>s. CHR '':'' \<notin> set (h s)"
    "CHR '':'' \<notin> set (git [''rev-parse'', ''HEAD''])" "p \<in> set previous"
  shows "push_sequence p < pa_sequence a \<and>
    (\<forall>n b d. push_sequence p = n \<longrightarrow> CHR '':'' \<notin> set b \<longrightarrow>
       push_attempt_id p = pa_attempt_id (push_identity h t n b (digest_diff h d)) \<longrightarrow> push_attempt_id p \<noteq> pa_attempt_id a)"
proof -
  let ?base = "git [''rev-parse'', ''HEAD'']"
  obtain ns d where ns: "previous_sequences previous = Some ns"
    "a = push_identity h t (fold max ns 0 + 1) (strip ?base) (digest_diff h d)"
    using assms(1) by (auto simp: build_push_attempt_def Let_def bind_eq_Some_conv split: if_splits)
  have "push_sequence p \<le> fold max ns 0"
  proof (cases "push_sequence p > 0")
    case True
    then have m: "push_sequence p \<in> set (filter (\<lambda>n. n > 0) (map push_sequence previous))" using assms(4) by simp
    then have "filter (\<lambda>n. n > 0) (map push_sequence previous) \<noteq> []" by (metis empty_iff empty_set)
    then have "push_sequence p \<in> set ns" using ns(1) m by (auto simp: previous_sequences_def Let_def bind_eq_Some_conv)
    then show ?thesis by (intro fold_max_ge) simp
  next
    case False
    then show ?thesis using fold_max_ge [of 0 ns 0] by simp
  qed
  then have lt: "push_sequence p < pa_sequence a" by (simp add: ns(2) push_identity_def Let_def)
  have "set (strip ?base) \<subseteq> set ?base" by (auto simp: strip_def lstrip_def dest!: set_dropWhileD)
  then have "CHR '':'' \<notin> set (strip ?base)" using assms(3) by blast
  then have "n = pa_sequence a"
    if "CHR '':'' \<notin> set b" "pa_attempt_id (push_identity h t n b (digest_diff h d')) = pa_attempt_id a" for n b d'
    using push_identity_inject [OF that(2) [unfolded ns(2)] assms(2) that(1)] by (simp add: ns(2) push_identity_def Let_def)
  with lt show ?thesis by (metis less_irrefl)
qed

definition example_git :: "string list \<Rightarrow> string" where
  "example_git args = (if args = [''rev-parse'', ''HEAD''] then ''b0'' else if args = [''rev-parse'', ''HEAD^''] then ''b0'' else ''d'')"

definition example_hash :: "string \<Rightarrow> string" where
  "example_hash s = replicate 64 (CHR ''a'')"

lemma example_build:
  "build_push_attempt example_hash example_git ''t'' [result_fields (push_identity example_hash ''t'' 1 ''b'' ''d'')] =
     Some (Inr (push_identity example_hash ''t'' 2 ''b0'' (digest_diff example_hash ''d'')))"
  by (simp add: build_push_attempt_def example_git_def startswith_def Let_def previous_sequences_def legacy_shas_def push_landed_def
      push_sequence_def get_int_def dget_def result_fields_def push_identity_def strip_def lstrip_def is_space_def)

theorem push_attempt_fresh_witness:
  "push_sequence (result_fields (push_identity example_hash ''t'' 1 ''b'' ''d'')) <
     pa_sequence (push_identity example_hash ''t'' 2 ''b0'' (digest_diff example_hash ''d''))"
  using push_attempt_fresh [OF example_build, of "result_fields (push_identity example_hash ''t'' 1 ''b'' ''d'')"]
  by (simp add: example_hash_def example_git_def)

text \<open>
  C20: a push attempt survives a crash between commit and push. Take the attempt built from the staged
  diff and the commit that is made for it, with the message the program gives it (Git may append to
  it). The attempt is recovered from that commit, identical, when the parent of the head is the base
  it was built on, the committed diff is the staged one, the head can be read and no successful push
  of this attempt is recorded. SHA-256 is assumed to give at least twenty hexadecimal digits.
\<close>

theorem push_attempt_recovered:
  assumes "build_push_attempt h git t previous = Some (Inr a)" "\<And>s. 20 \<le> length (h s) \<and> list_all is_hex (h s)"
    "git' [''log'', ''-1'', ''--pretty=%B''] = commit_msg mr_id a @ post"
    "\<not> startswith (git' [''rev-parse'', ''HEAD'']) ''ERROR:''"
    "git' [''rev-parse'', ''HEAD^''] = git [''rev-parse'', ''HEAD'']"
    "git' [''diff'', ''HEAD^'', ''HEAD'', ''--binary'', ''--full-index'', ''--no-ext-diff''] =
       git [''diff'', ''--cached'', ''--binary'', ''--full-index'', ''--no-ext-diff'']"
    "completed_ids previous' = Some ids" "pa_attempt_id a \<notin> set ids"
  shows "recover_push_attempt h git' t previous' = Some (Some a)"
proof -
  let ?base = "git [''rev-parse'', ''HEAD'']" and ?diff = "git [''diff'', ''--cached'', ''--binary'', ''--full-index'', ''--no-ext-diff'']"
  obtain ns where ns: "a = push_identity h t (fold max ns 0 + 1) (strip ?base) (digest_diff h ?diff)"
    "\<not> startswith ?base ''ERROR:''" "\<not> startswith ?diff ''ERROR:''"
    using assms(1) by (auto simp: build_push_attempt_def Let_def bind_eq_Some_conv split: if_splits)
  define n where "n = fold max ns 0 + 1"
  define x where "x = digest20 h (pa_attempt_id a)"
  have n: "0 \<le> n" using fold_max_ge [of 0 ns 0] by (simp add: n_def)
  have m: "pa_marker a = marker_prefix t @ show_int n @ '':'' @ x @ '']''"
    by (simp add: ns(1) push_identity_def Let_def n_def x_def)
  have x: "length x = 20" "list_all is_hex x"
    using assms(2) [of "pa_attempt_id a"] by (auto simp: x_def digest20_def list_all_iff dest: in_set_takeD)
  have "search_marker (marker_prefix t) (pa_marker a @ post) = Some (n, pa_marker a)"
    using match_marker_here [OF n x, of "marker_prefix t" post] by (simp add: m marker_prefix_def)
  then have f: "search_marker (marker_prefix t) (commit_msg mr_id a @ post) = Some (n, pa_marker a)"
    by (simp add: search_commit_msg)
  have "commit_msg mr_id a @ post \<noteq> []" "\<not> startswith (commit_msg mr_id a @ post) ''ERROR:''"
    by (simp_all add: commit_msg_def startswith_def)
  then show ?thesis
    unfolding recover_push_attempt_def Let_def assms(3) f using assms(4-8) ns by (simp add: n_def)
qed

definition example_git_after :: "string list \<Rightarrow> string" where
  "example_git_after args =
     (if args = [''log'', ''-1'', ''--pretty=%B''] then
        commit_msg 12 (push_identity example_hash ''t'' 2 ''b0'' (digest_diff example_hash ''d'')) @ [CHR 0x0A]
      else if args = [''rev-parse'', ''HEAD''] then ''b1'' else if args = [''rev-parse'', ''HEAD^''] then ''b0'' else ''d'')"

theorem push_attempt_recovered_witness:
  "recover_push_attempt example_hash example_git_after ''t'' [] =
     Some (Some (push_identity example_hash ''t'' 2 ''b0'' (digest_diff example_hash ''d'')))"
  by (rule push_attempt_recovered [OF example_build, of _ 12 "[CHR 0x0A]" _ "[]"])
    (simp_all add: example_hash_def is_hex_def example_git_after_def example_git_def startswith_def completed_ids_def list_all_iff)

end
