(* ===== verification/Repair_Manifest.thy ===== *)
theory Repair_Manifest
  imports Auto_Triage Repair_Ledger
begin

text \<open>
  The commits of one repair task and what may be reverted of them: the immutable records of
  \<open>triage/repair_rollback.py\<close> and the broker's scripts that append a pushed commit to the
  manifest of a task and freeze it. The scripts work on JSON text; \<open>manifest_append\<close> and
  \<open>manifest_freeze\<close> say the same on records, and the lemmas show that the scripts implement
  them.
\<close>

subsection \<open>Records\<close>

datatype repair_rollback_status =
  RB_QUEUED | RB_VALIDATING | RB_REVERTING | RB_COMMITTING | RB_PUSHING | RB_SUCCEEDED | RB_FAILED

fun repair_rollback_status_value :: "repair_rollback_status \<Rightarrow> string" where
  "repair_rollback_status_value RB_QUEUED = ''queued''"
| "repair_rollback_status_value RB_VALIDATING = ''validating''"
| "repair_rollback_status_value RB_REVERTING = ''reverting''"
| "repair_rollback_status_value RB_COMMITTING = ''committing''"
| "repair_rollback_status_value RB_PUSHING = ''pushing''"
| "repair_rollback_status_value RB_SUCCEEDED = ''succeeded''"
| "repair_rollback_status_value RB_FAILED = ''failed''"

definition RepairRollbackStatus_members :: "repair_rollback_status list" where
  "RepairRollbackStatus_members =
     [RB_QUEUED, RB_VALIDATING, RB_REVERTING, RB_COMMITTING, RB_PUSHING, RB_SUCCEEDED, RB_FAILED]"

definition RepairRollbackStatus :: "string \<Rightarrow> repair_rollback_status option" where
  "RepairRollbackStatus = str_enum_of repair_rollback_status_value RepairRollbackStatus_members"

datatype rollback_failure_code =
    RF_UNAUTHORIZED_ACTOR | RF_MANIFEST_MISSING | RF_MANIFEST_INCOMPLETE | RF_COMMIT_CHAIN_MISMATCH
  | RF_REMOTE_HEAD_CHANGED | RF_MR_NOT_OPEN | RF_SOURCE_BRANCH_CHANGED | RF_SOURCE_BRANCH_MISSING
  | RF_ALREADY_ROLLED_BACK | RF_REVERT_CONFLICT | RF_TREE_MISMATCH | RF_ROLLBACK_COMMIT_INVALID
  | RF_INFRASTRUCTURE_ERROR

fun rollback_failure_code_value :: "rollback_failure_code \<Rightarrow> string" where
  "rollback_failure_code_value RF_UNAUTHORIZED_ACTOR = ''unauthorized_actor''"
| "rollback_failure_code_value RF_MANIFEST_MISSING = ''manifest_missing''"
| "rollback_failure_code_value RF_MANIFEST_INCOMPLETE = ''manifest_incomplete''"
| "rollback_failure_code_value RF_COMMIT_CHAIN_MISMATCH = ''commit_chain_mismatch''"
| "rollback_failure_code_value RF_REMOTE_HEAD_CHANGED = ''remote_head_changed''"
| "rollback_failure_code_value RF_MR_NOT_OPEN = ''mr_not_open''"
| "rollback_failure_code_value RF_SOURCE_BRANCH_CHANGED = ''source_branch_changed''"
| "rollback_failure_code_value RF_SOURCE_BRANCH_MISSING = ''source_branch_missing''"
| "rollback_failure_code_value RF_ALREADY_ROLLED_BACK = ''already_rolled_back''"
| "rollback_failure_code_value RF_REVERT_CONFLICT = ''revert_conflict''"
| "rollback_failure_code_value RF_TREE_MISMATCH = ''tree_mismatch''"
| "rollback_failure_code_value RF_ROLLBACK_COMMIT_INVALID = ''rollback_commit_invalid''"
| "rollback_failure_code_value RF_INFRASTRUCTURE_ERROR = ''infrastructure_error''"

definition RollbackFailureCode_members :: "rollback_failure_code list" where
  "RollbackFailureCode_members =
     [RF_UNAUTHORIZED_ACTOR, RF_MANIFEST_MISSING, RF_MANIFEST_INCOMPLETE, RF_COMMIT_CHAIN_MISMATCH, RF_REMOTE_HEAD_CHANGED,
      RF_MR_NOT_OPEN, RF_SOURCE_BRANCH_CHANGED, RF_SOURCE_BRANCH_MISSING, RF_ALREADY_ROLLED_BACK, RF_REVERT_CONFLICT,
      RF_TREE_MISMATCH, RF_ROLLBACK_COMMIT_INVALID, RF_INFRASTRUCTURE_ERROR]"

definition RollbackFailureCode :: "string \<Rightarrow> rollback_failure_code option" where
  "RollbackFailureCode = str_enum_of rollback_failure_code_value RollbackFailureCode_members"

interpretation repair_rollback_status_enum: str_enum repair_rollback_status_value RepairRollbackStatus_members
proof unfold_locales
  show "x \<in> set RepairRollbackStatus_members" for x by (cases x) (simp_all add: RepairRollbackStatus_members_def)
qed (simp add: RepairRollbackStatus_members_def)

interpretation rollback_failure_code_enum: str_enum rollback_failure_code_value RollbackFailureCode_members
proof unfold_locales
  show "x \<in> set RollbackFailureCode_members" for x by (cases x) (simp_all add: RollbackFailureCode_members_def)
qed (simp add: RollbackFailureCode_members_def)

lemma rollback_enum_readers [simp]:
  "RepairRollbackStatus (repair_rollback_status_value s) = Some s"
  "RollbackFailureCode (rollback_failure_code_value c) = Some c"
  by (simp_all add: RepairRollbackStatus_def RollbackFailureCode_def repair_rollback_status_enum.of_value
      rollback_failure_code_enum.of_value)

record manifest_validation =
  mv_ok :: bool
  mv_failure_code :: "rollback_failure_code option"
  mv_message :: string

record repair_commit_entry =
  ce_sequence :: int
  ce_commit_sha :: string
  ce_parent_sha :: string
  ce_tree_sha :: string
  ce_effect_id :: string
  ce_task_marker :: string
  ce_pushed_at :: string

definition repair_commit_entry_to_dict :: "repair_commit_entry \<Rightarrow> dict" where
  "repair_commit_entry_to_dict e =
     [(''sequence'', JInt (ce_sequence e)), (''commit_sha'', JStr (ce_commit_sha e)), (''parent_sha'', JStr (ce_parent_sha e)),
      (''tree_sha'', JStr (ce_tree_sha e)), (''effect_id'', JStr (ce_effect_id e)), (''task_marker'', JStr (ce_task_marker e)),
      (''pushed_at'', JStr (ce_pushed_at e))]"

definition repair_commit_entry_from_dict :: "dict \<Rightarrow> repair_commit_entry option" where
  "repair_commit_entry_from_dict d =
     do { n \<leftarrow> req_int d ''sequence'';
          sha \<leftarrow> req_str d ''commit_sha'';
          parent \<leftarrow> req_str d ''parent_sha'';
          tree \<leftarrow> req_str d ''tree_sha'';
          effect \<leftarrow> req_str d ''effect_id'';
          mark \<leftarrow> req_str d ''task_marker'';
          pushed \<leftarrow> req_str d ''pushed_at'';
          Some \<lparr>ce_sequence = n, ce_commit_sha = sha, ce_parent_sha = parent, ce_tree_sha = tree, ce_effect_id = effect,
            ce_task_marker = mark, ce_pushed_at = pushed\<rparr> }"

record repair_commit_manifest =
  rm_repair_task_id :: string
  rm_project_id :: string
  rm_mr_iid :: int
  rm_source_branch :: string
  rm_base_commit_sha :: string
  rm_base_tree_sha :: string
  rm_authorized_actor_id :: string
  rm_entries :: "repair_commit_entry list"
  rm_frozen :: bool
  rm_frozen_at :: string
  rm_schema_version :: int

definition final_repair_sha :: "repair_commit_manifest \<Rightarrow> string" where
  "final_repair_sha m = (if rm_entries m = [] then [] else ce_commit_sha (last (rm_entries m)))"

definition valid_sha :: "string \<Rightarrow> bool" where
  "valid_sha s \<longleftrightarrow> length s = 40 \<and> list_all is_hex s"

definition valid_branch :: "string \<Rightarrow> bool" where
  "valid_branch s \<longleftrightarrow> s \<noteq> [] \<and> s = strip s \<and> \<not> startswith s ''/'' \<and> \<not> startswith s ''refs/'' \<and> \<not> endswith s ''/'' \<and>
     \<not> endswith s ''.'' \<and> \<not> contains s ''//'' \<and> \<not> contains s ''..'' \<and> \<not> contains s [CHR ''@'', CHR 0x7B] \<and>
     \<not> list_ex (\<lambda>c. is_space c \<or> (of_char c :: nat) < 32) s"

definition manifest_invalid :: "rollback_failure_code \<Rightarrow> string \<Rightarrow> manifest_validation" where
  "manifest_invalid code message = \<lparr>mv_ok = False, mv_failure_code = Some code, mv_message = message\<rparr>"

definition manifest_valid :: manifest_validation where
  "manifest_valid = \<lparr>mv_ok = True, mv_failure_code = None, mv_message = []\<rparr>"

fun validate_entries :: "int \<Rightarrow> string list \<Rightarrow> string \<Rightarrow> repair_commit_entry list \<Rightarrow> manifest_validation" where
  "validate_entries expected_sequence seen_shas expected_parent [] = manifest_valid"
| "validate_entries expected_sequence seen_shas expected_parent (e # es) =
     (if ce_sequence e \<noteq> expected_sequence \<or> ce_commit_sha e \<in> set seen_shas then
        manifest_invalid RF_COMMIT_CHAIN_MISMATCH ''commit sequence is not unique and continuous''
      else if \<not> (valid_sha (ce_commit_sha e) \<and> valid_sha (ce_parent_sha e) \<and> valid_sha (ce_tree_sha e)) then
        manifest_invalid RF_MANIFEST_INCOMPLETE ''commit identity is invalid''
      else if \<not> (ce_effect_id e \<noteq> [] \<and> ce_task_marker e \<noteq> [] \<and> ce_pushed_at e \<noteq> []) then
        manifest_invalid RF_MANIFEST_INCOMPLETE ''commit evidence is incomplete''
      else if ce_parent_sha e \<noteq> expected_parent then
        manifest_invalid RF_COMMIT_CHAIN_MISMATCH ''commit parent chain does not match''
      else validate_entries (expected_sequence + 1) (ce_commit_sha e # seen_shas) (ce_commit_sha e) es)"

definition validate_static :: "repair_commit_manifest \<Rightarrow> manifest_validation" where
  "validate_static m =
     (if rm_schema_version m \<noteq> 1 then manifest_invalid RF_MANIFEST_INCOMPLETE ''unsupported manifest schema''
      else if \<not> (rm_repair_task_id m \<noteq> [] \<and> rm_project_id m \<noteq> [] \<and> rm_source_branch m \<noteq> [] \<and> rm_authorized_actor_id m \<noteq> []) then
        manifest_invalid RF_MANIFEST_INCOMPLETE ''manifest identity is incomplete''
      else if rm_mr_iid m \<le> 0 \<or> \<not> valid_branch (rm_source_branch m) then
        manifest_invalid RF_MANIFEST_INCOMPLETE ''MR identity or source branch is invalid''
      else if \<not> valid_sha (rm_base_commit_sha m) \<or> \<not> valid_sha (rm_base_tree_sha m) then
        manifest_invalid RF_MANIFEST_INCOMPLETE ''base commit or tree is invalid''
      else if \<not> rm_frozen m \<or> rm_frozen_at m = [] \<or> rm_entries m = [] then
        manifest_invalid RF_MANIFEST_INCOMPLETE ''manifest is not frozen and complete''
      else validate_entries 1 [] (rm_base_commit_sha m) (rm_entries m))"

definition repair_commit_manifest_to_dict :: "repair_commit_manifest \<Rightarrow> dict" where
  "repair_commit_manifest_to_dict m =
     [(''repair_task_id'', JStr (rm_repair_task_id m)), (''project_id'', JStr (rm_project_id m)), (''mr_iid'', JInt (rm_mr_iid m)),
      (''source_branch'', JStr (rm_source_branch m)), (''base_commit_sha'', JStr (rm_base_commit_sha m)),
      (''base_tree_sha'', JStr (rm_base_tree_sha m)), (''authorized_actor_id'', JStr (rm_authorized_actor_id m)),
      (''entries'', JArr (map (\<lambda>e. JObj (repair_commit_entry_to_dict e)) (rm_entries m))),
      (''frozen'', JBool (rm_frozen m)), (''frozen_at'', JStr (rm_frozen_at m)), (''schema_version'', JInt (rm_schema_version m))]"

definition repair_commit_manifest_to_json :: "repair_commit_manifest \<Rightarrow> string" where
  "repair_commit_manifest_to_json m = dumps (JObj (repair_commit_manifest_to_dict m))"

definition manifest_digest :: "(string \<Rightarrow> string) \<Rightarrow> repair_commit_manifest \<Rightarrow> string" where
  "manifest_digest sha256_hex m = sha256_hex (repair_commit_manifest_to_json m)"

text \<open>\<open>value.get("entries") or ()\<close>; each element is read as a dictionary.\<close>

fun entry_of_json :: "json \<Rightarrow> repair_commit_entry option" where
  "entry_of_json (JObj d) = repair_commit_entry_from_dict d"
| "entry_of_json _ = None"

definition get_entries :: "dict \<Rightarrow> repair_commit_entry list option" where
  "get_entries d = (case dget d ''entries'' of
      None \<Rightarrow> Some []
    | Some (JArr xs) \<Rightarrow> those_map entry_of_json xs
    | Some v \<Rightarrow> if truthy v then None else Some [])"

definition repair_commit_manifest_from_dict :: "dict \<Rightarrow> repair_commit_manifest option" where
  "repair_commit_manifest_from_dict d =
     do { version \<leftarrow> (case dget d ''schema_version'' of None \<Rightarrow> Some 1 | Some v \<Rightarrow> py_int v);
          task \<leftarrow> req_str d ''repair_task_id'';
          project \<leftarrow> req_str d ''project_id'';
          n \<leftarrow> req_int d ''mr_iid'';
          branch \<leftarrow> req_str d ''source_branch'';
          base \<leftarrow> req_str d ''base_commit_sha'';
          tree \<leftarrow> req_str d ''base_tree_sha'';
          actor \<leftarrow> req_str d ''authorized_actor_id'';
          es \<leftarrow> get_entries d;
          at \<leftarrow> get_str d ''frozen_at'' [];
          Some \<lparr>rm_repair_task_id = task, rm_project_id = project, rm_mr_iid = n, rm_source_branch = branch, rm_base_commit_sha = base,
            rm_base_tree_sha = tree, rm_authorized_actor_id = actor, rm_entries = es, rm_frozen = get_bool d ''frozen'',
            rm_frozen_at = at, rm_schema_version = version\<rparr> }"

definition repair_commit_manifest_from_json :: "string \<Rightarrow> repair_commit_manifest option" where
  "repair_commit_manifest_from_json s = do { d \<leftarrow> from_json s; repair_commit_manifest_from_dict d }"

record repair_rollback_state =
  rr_rollback_task_id :: string
  rr_repair_task_id :: string
  rr_status :: repair_rollback_status
  rr_trigger :: string
  rr_requested_by :: string
  rr_expected_remote_head :: string
  rr_manifest_digest :: string
  rr_rollback_commit_sha :: string
  rr_failure_code :: "rollback_failure_code option"
  rr_failure_message :: string
  rr_retryable :: bool
  rr_created_at :: string
  rr_updated_at :: string

definition repair_rollback_state_to_dict :: "repair_rollback_state \<Rightarrow> dict" where
  "repair_rollback_state_to_dict s =
     [(''rollback_task_id'', JStr (rr_rollback_task_id s)), (''repair_task_id'', JStr (rr_repair_task_id s)),
      (''status'', JStr (repair_rollback_status_value (rr_status s))), (''trigger'', JStr (rr_trigger s)),
      (''requested_by'', JStr (rr_requested_by s)), (''expected_remote_head'', JStr (rr_expected_remote_head s)),
      (''manifest_digest'', JStr (rr_manifest_digest s)), (''rollback_commit_sha'', JStr (rr_rollback_commit_sha s)),
      (''failure_code'', JStr (case rr_failure_code s of None \<Rightarrow> [] | Some c \<Rightarrow> rollback_failure_code_value c)),
      (''failure_message'', JStr (rr_failure_message s)), (''retryable'', JBool (rr_retryable s)),
      (''created_at'', JStr (rr_created_at s)), (''updated_at'', JStr (rr_updated_at s))]"

definition repair_rollback_state_to_json :: "repair_rollback_state \<Rightarrow> string" where
  "repair_rollback_state_to_json s = dumps (JObj (repair_rollback_state_to_dict s))"

definition repair_rollback_state_from_dict :: "dict \<Rightarrow> repair_rollback_state option" where
  "repair_rollback_state_from_dict d =
     do { code \<leftarrow> get_str d ''failure_code'' [];
          rollback_task \<leftarrow> req_str d ''rollback_task_id'';
          repair_task \<leftarrow> req_str d ''repair_task_id'';
          st \<leftarrow> do { v \<leftarrow> dget d ''status''; enum_json RepairRollbackStatus v };
          trig \<leftarrow> get_str d ''trigger'' [];
          by \<leftarrow> get_str d ''requested_by'' [];
          head \<leftarrow> get_str d ''expected_remote_head'' [];
          digest \<leftarrow> get_str d ''manifest_digest'' [];
          sha \<leftarrow> get_str d ''rollback_commit_sha'' [];
          fc \<leftarrow> (if code = [] then Some None else map_option Some (RollbackFailureCode code));
          message \<leftarrow> get_str d ''failure_message'' [];
          created \<leftarrow> get_str d ''created_at'' [];
          updated \<leftarrow> get_str d ''updated_at'' [];
          Some \<lparr>rr_rollback_task_id = rollback_task, rr_repair_task_id = repair_task, rr_status = st, rr_trigger = trig,
            rr_requested_by = by, rr_expected_remote_head = head, rr_manifest_digest = digest, rr_rollback_commit_sha = sha,
            rr_failure_code = fc, rr_failure_message = message, rr_retryable = get_bool d ''retryable'', rr_created_at = created,
            rr_updated_at = updated\<rparr> }"

definition repair_rollback_state_from_json :: "string \<Rightarrow> repair_rollback_state option" where
  "repair_rollback_state_from_json s = do { d \<leftarrow> from_json s; repair_rollback_state_from_dict d }"

text \<open>The feature flags: the environment variable, where it is set, goes before the setting.\<close>

fun enabled :: "json \<Rightarrow> bool option" where
  "enabled (JBool b) = Some b"
| "enabled v =
     (if v = JInt 0 then Some False else if v = JInt 1 then Some True else
      do { s \<leftarrow> (if truthy v then py_str v else Some []);
           Some (lower (strip s) \<in> {''true'', ''1'', ''yes'', ''on''}) })"

definition flag :: "(string \<Rightarrow> string option) \<Rightarrow> (string \<Rightarrow> json option) \<Rightarrow> string \<Rightarrow> string \<Rightarrow> bool \<Rightarrow> bool option" where
  "flag getenv settings env_name setting_name dflt =
     enabled (case getenv env_name of Some s \<Rightarrow> JStr s | None \<Rightarrow> or_else (settings setting_name) (JBool dflt))"

definition repair_rollback_enabled :: "(string \<Rightarrow> string option) \<Rightarrow> (string \<Rightarrow> json option) \<Rightarrow> bool option" where
  "repair_rollback_enabled getenv settings =
     flag getenv settings ''PR_AGENT_REPAIR_ROLLBACK_ENABLED'' ''REPAIR_ROLLBACK.ENABLED'' False"

definition cancel_reverts_pushed_commits :: "(string \<Rightarrow> string option) \<Rightarrow> (string \<Rightarrow> json option) \<Rightarrow> bool option" where
  "cancel_reverts_pushed_commits getenv settings =
     flag getenv settings ''PR_AGENT_CANCEL_REVERTS_PUSHED_COMMITS'' ''REPAIR_ROLLBACK.CANCEL_REVERTS_PUSHED_COMMITS'' True"

definition rollback_success_notification_enabled :: "(string \<Rightarrow> string option) \<Rightarrow> (string \<Rightarrow> json option) \<Rightarrow> bool option" where
  "rollback_success_notification_enabled getenv settings =
     flag getenv settings ''PR_AGENT_ROLLBACK_NOTIFY_ON_SUCCESS'' ''REPAIR_ROLLBACK.NOTIFY_ON_SUCCESS'' True"

subsection \<open>Scripts\<close>

text \<open>The text \<open>string.find\<close> searches: a string or the digits of a number; other values raise.\<close>

fun lua_search_text :: "json \<Rightarrow> string option" where
  "lua_search_text (JStr s) = Some s"
| "lua_search_text (JInt i) = Some (show_int i)"
| "lua_search_text (JFloat l) = Some l"
| "lua_search_text _ = None"

definition repair_payload :: "json \<Rightarrow> bool option" where
  "repair_payload pl =
     do { c \<leftarrow> lua_field pl ''command'';
          k \<leftarrow> lua_field pl ''kind'';
          if k = Some (JStr ''post_repair_ut'') then Some True else
          do { text \<leftarrow> lua_search_text (or_value c []);
               Some (startswith text ''/triage'' \<or> startswith text ''/fix-format'' \<or> startswith text ''/fix_format'' \<or>
                 startswith text ''/repair-pipeline'') } }"

text \<open>The task's id, project and merge request as the payload has them.\<close>

definition payload_ids :: "json \<Rightarrow> (json option \<times> json option \<times> json option) option" where
  "payload_ids pl =
     do { tid \<leftarrow> lua_field pl ''task_id'';
          m \<leftarrow> lua_field pl ''mr'';
          md \<leftarrow> m;
          project \<leftarrow> lua_field md ''project_id'';
          n \<leftarrow> lua_field md ''iid'';
          Some (tid, project, n) }"

definition fresh_manifest :: "json option \<times> json option \<times> json option \<Rightarrow> json option \<Rightarrow> string \<Rightarrow> string \<Rightarrow> string \<Rightarrow> dict" where
  "fresh_manifest ids parent base_tree branch actor =
     (case ids of (tid, project, n) \<Rightarrow>
       List.map_filter (\<lambda>(k, v). map_option (Pair k) v)
         [(''schema_version'', Some (JInt 1)), (''repair_task_id'', tid), (''project_id'', project), (''mr_iid'', n),
          (''source_branch'', Some (JStr branch)), (''base_commit_sha'', parent), (''base_tree_sha'', Some (JStr base_tree)),
          (''authorized_actor_id'', Some (JStr actor)), (''entries'', Some (JObj [])), (''frozen'', Some (JBool False)),
          (''frozen_at'', Some (JStr []))])"

text \<open>A decoded manifest whose \<open>entries\<close> is a table: its members and the elements of that table.\<close>

definition read_manifest :: "json \<Rightarrow> (dict \<times> json list) option option" where
  "read_manifest j =
     do { es \<leftarrow> lua_field j ''entries'';
          Some (case (j, es) of
                  (JObj d, Some (JArr xs)) \<Rightarrow> Some (d, xs)
                | (JObj d, Some (JObj _)) \<Rightarrow> Some (d, [])
                | _ \<Rightarrow> None) }"

text \<open>\<open>table.insert(t, v)\<close>, as \<open>cjson\<close> writes the table afterwards.\<close>

definition lua_insert :: "json option \<Rightarrow> json \<Rightarrow> json" where
  "lua_insert t v = (case t of
      Some (JArr xs) \<Rightarrow> JArr (xs @ [v])
    | Some (JObj (m # d)) \<Rightarrow> JObj (m # d @ [(''1'', v)])
    | _ \<Rightarrow> JArr [v])"

definition same_identity :: "dict \<Rightarrow> json option \<times> json option \<times> json option \<Rightarrow> string \<Rightarrow> string \<Rightarrow> string \<Rightarrow> bool" where
  "same_identity d ids base_tree branch actor \<longleftrightarrow>
     (case ids of (tid, project, n) \<Rightarrow>
       dget d ''repair_task_id'' = tid \<and> dget d ''project_id'' = project \<and> lua_tonumber (dget d ''mr_iid'') = lua_tonumber n \<and>
       dget d ''source_branch'' = Some (JStr branch) \<and> dget d ''base_tree_sha'' = Some (JStr base_tree) \<and>
       dget d ''authorized_actor_id'' = Some (JStr actor))"

definition same_entry :: "json \<Rightarrow> json \<Rightarrow> bool option" where
  "same_entry entry l =
     do { n \<leftarrow> lua_field entry ''sequence'';
          n' \<leftarrow> lua_field l ''sequence'';
          if lua_tonumber n \<noteq> lua_tonumber n' then Some False else
          do { vs \<leftarrow> those_map (lua_field entry) [''commit_sha'', ''parent_sha'', ''tree_sha'', ''effect_id'', ''task_marker'', ''pushed_at''];
               vs' \<leftarrow> those_map (lua_field l) [''commit_sha'', ''parent_sha'', ''tree_sha'', ''effect_id'', ''task_marker'', ''pushed_at''];
               Some (vs = vs') } }"

fun known_commit :: "json option \<Rightarrow> json list \<Rightarrow> bool option" where
  "known_commit sha [] = Some False"
| "known_commit sha (x # xs) = do { v \<leftarrow> lua_field x ''commit_sha''; if v = sha then Some True else known_commit sha xs }"

text \<open>The script from the frozen test on, for a manifest with members \<open>d\<close> and elements \<open>xs\<close>.\<close>

definition append_to ::
  "redis \<Rightarrow> rkey \<Rightarrow> string \<Rightarrow> json option \<times> json option \<times> json option \<Rightarrow> dict \<Rightarrow> json list \<Rightarrow> json \<Rightarrow> json option \<Rightarrow>
   string \<Rightarrow> string \<Rightarrow> string \<Rightarrow> string \<Rightarrow> (int \<times> string) reply"
where
  "append_to db task_k raw ids d xs entry parent base_tree branch actor now =
     (if lua_truthy (dget d ''frozen'') then Some ((-4, ''manifest is frozen''), db)
      else if \<not> same_identity d ids base_tree branch actor then Some ((-5, ''manifest identity changed''), db)
      else
      do { again \<leftarrow> (if xs = [] then Some False else same_entry entry (last xs));
           if again then Some ((0, raw), db) else
           do { n \<leftarrow> lua_field entry ''sequence'';
                if lua_tonumber n \<noteq> Some (int (length xs) + 1) then Some ((-5, ''commit sequence is not continuous''), db) else
                do { expected_parent \<leftarrow> (if xs = [] then Some (dget d ''base_commit_sha'') else lua_field (last xs) ''commit_sha'');
                     if parent \<noteq> expected_parent then Some ((-5, ''commit parent does not match''), db) else
                     do { sha \<leftarrow> lua_field entry ''commit_sha'';
                          known \<leftarrow> known_commit sha xs;
                          if known then Some ((-5, ''duplicate commit SHA''), db) else
                          do { encoded \<leftarrow> Some (cjson_encode (JObj (AList.update ''entries'' (lua_insert (dget d ''entries'') entry) d)));
                               db1 \<leftarrow> hset db task_k [(''repair_commit_manifest'', encoded), (''updated_at'', now)];
                               Some ((1, encoded), db1) } } } } })"

definition APPEND_REPAIR_COMMIT_LUA ::
  "redis \<Rightarrow> rkey \<Rightarrow> rkey \<Rightarrow> lua_arg \<Rightarrow> lua_arg \<Rightarrow> lua_arg \<Rightarrow> lua_arg \<Rightarrow> lua_arg \<Rightarrow> lua_arg \<Rightarrow> lua_arg \<Rightarrow> (int \<times> string) reply"
where
  "APPEND_REPAIR_COMMIT_LUA db task_k lease_k w tok entry_text base_tree branch actor now =
     (if \<not> exists_key db task_k then Some ((-1, ''task missing''), db) else
      do { lost \<leftarrow> fence_lost db lease_k w tok;
           if lost then Some ((-2, ''lost lease''), db) else
           do { raw_payload \<leftarrow> hget db task_k ''payload'';
                case (loads (or_else raw_payload []), loads entry_text) of
                  (None, _) \<Rightarrow> Some ((-3, ''task is not a repair command''), db)
                | (Some pl, entry_v) \<Rightarrow>
                    do { repair \<leftarrow> repair_payload pl;
                         m \<leftarrow> lua_field pl ''mr'';
                         if entry_v = None \<or> \<not> lua_truthy m \<or> \<not> repair then
                           Some ((-3, ''task is not a repair command''), db)
                         else
                         do { entry \<leftarrow> entry_v;
                              stored \<leftarrow> hget db task_k ''repair_commit_manifest'';
                              ids \<leftarrow> payload_ids pl;
                              parent \<leftarrow> lua_field entry ''parent_sha'';
                              manifest \<leftarrow>
                                (if or_else stored [] = [] then Some (Some (fresh_manifest ids parent base_tree branch actor, [])) else
                                 (case loads (or_else stored []) of None \<Rightarrow> Some None | Some j \<Rightarrow> read_manifest j));
                              case manifest of
                                None \<Rightarrow> Some ((-3, ''stored manifest is invalid''), db)
                              | Some (d, xs) \<Rightarrow>
                                  append_to db task_k (or_else stored []) ids d xs entry parent base_tree branch actor now } } } })"

definition FREEZE_REPAIR_MANIFEST_LUA ::
  "redis \<Rightarrow> rkey \<Rightarrow> rkey \<Rightarrow> lua_arg \<Rightarrow> lua_arg \<Rightarrow> lua_arg \<Rightarrow> lua_arg \<Rightarrow> (int \<times> string) reply"
where
  "FREEZE_REPAIR_MANIFEST_LUA db task_k lease_k w tok frozen_at now =
     (if \<not> exists_key db task_k then Some ((-1, ''task missing''), db) else
      do { lost \<leftarrow> fence_lost db lease_k w tok;
           if lost then Some ((-2, ''lost lease''), db) else
           do { stored \<leftarrow> hget db task_k ''repair_commit_manifest'';
                if or_else stored [] = [] then Some ((0, []), db) else
                do { manifest \<leftarrow> (case loads (or_else stored []) of None \<Rightarrow> Some None | Some j \<Rightarrow> read_manifest j);
                     case manifest of
                       None \<Rightarrow> Some ((-3, ''stored manifest is invalid''), db)
                     | Some (d, xs) \<Rightarrow>
                         if lua_truthy (dget d ''frozen'') then Some ((0, or_else stored []), db) else
                         do { encoded \<leftarrow> Some (cjson_encode (JObj (AList.update ''frozen_at'' (JStr frozen_at)
                                             (AList.update ''frozen'' (JBool True) d))));
                              db1 \<leftarrow> hset db task_k [(''repair_commit_manifest'', encoded), (''updated_at'', now)];
                              Some ((1, encoded), db1) } } } })"

subsection \<open>Broker methods\<close>

definition full_sha :: "string \<Rightarrow> bool" where
  "full_sha s \<longleftrightarrow> length s = 40 \<and> list_all (\<lambda>c. c \<in> set ''0123456789abcdef'') s"

definition validate_manifest_append_input ::
  "string \<Rightarrow> repair_commit_entry \<Rightarrow> string \<Rightarrow> string \<Rightarrow> string \<Rightarrow> broker_error + unit"
where
  "validate_manifest_append_input tid e base_tree branch actor =
     (if tid = [] \<or> ce_sequence e \<le> 0 \<or>
         \<not> list_all full_sha [ce_commit_sha e, ce_parent_sha e, ce_tree_sha e, base_tree] then
        Inl (RepairManifestConflict ''repair commit identity is invalid'')
      else if \<not> list_all (\<lambda>v. v \<noteq> []) [ce_effect_id e, ce_task_marker e, ce_pushed_at e, branch, actor] then
        Inl (RepairManifestConflict ''repair commit evidence is incomplete'')
      else if branch \<noteq> strip branch \<or> startswith branch ''refs/'' \<or> contains branch ''..'' then
        Inl (RepairManifestConflict ''source branch is not normalized'')
      else Inr ())"

definition repair_manifest_result :: "string \<Rightarrow> int \<times> string \<Rightarrow> broker_error + repair_commit_manifest" where
  "repair_manifest_result tid r =
     (if fst r = -2 then Inl (LostLeaseError tid)
      else if fst r < 0 then Inl (RepairManifestConflict (snd r))
      else if snd r = [] then Inl (RepairManifestConflict ''Redis returned an empty repair commit manifest'')
      else (case repair_commit_manifest_from_json (snd r) of
              None \<Rightarrow> Inl (ValueError ''repair commit manifest'')
            | Some m \<Rightarrow> Inr m))"

definition append_repair_commit ::
  "redis \<Rightarrow> string \<Rightarrow> repair_commit_entry \<Rightarrow> string \<Rightarrow> string \<Rightarrow> string \<Rightarrow> mr_lease option \<Rightarrow> int \<Rightarrow> repair_commit_manifest answer"
where
  "append_repair_commit db tid e base_tree branch actor l now =
     (case validate_manifest_append_input tid e base_tree branch actor of
        Inl err \<Rightarrow> (Inl err, db)
      | Inr _ \<Rightarrow>
          on_reply db
            (APPEND_REPAIR_COMMIT_LUA db (K_task tid) (lease_key_of l) (fst (lease_args l)) (snd (lease_args l))
               (dumps (JObj (repair_commit_entry_to_dict e))) base_tree branch actor (show_int now))
            (repair_manifest_result tid))"

definition freeze_repair_commit_manifest ::
  "redis \<Rightarrow> string \<Rightarrow> mr_lease option \<Rightarrow> string \<Rightarrow> int \<Rightarrow> repair_commit_manifest option answer"
where
  "freeze_repair_commit_manifest db tid l iso_now now =
     on_reply db
       (FREEZE_REPAIR_MANIFEST_LUA db (K_task tid) (lease_key_of l) (fst (lease_args l)) (snd (lease_args l)) iso_now (show_int now))
       (\<lambda>r. if fst r = -2 then Inl (LostLeaseError tid)
            else if fst r < 0 then Inl (RepairManifestConflict (snd r))
            else if snd r = [] then Inr None
            else (case repair_commit_manifest_from_json (snd r) of
                    None \<Rightarrow> Inl (ValueError ''repair commit manifest'')
                  | Some m \<Rightarrow> Inr (Some m)))"

subsection \<open>The chain of commits\<close>

definition entry_ok :: "repair_commit_entry \<Rightarrow> bool" where
  "entry_ok e \<longleftrightarrow> valid_sha (ce_commit_sha e) \<and> valid_sha (ce_parent_sha e) \<and> valid_sha (ce_tree_sha e) \<and>
     ce_effect_id e \<noteq> [] \<and> ce_task_marker e \<noteq> [] \<and> ce_pushed_at e \<noteq> []"

text \<open>
  Entries numbered from \<open>n\<close> that follow \<open>parent\<close>: the numbers are consecutive, no commit occurs
  twice and each entry's parent is the commit before it.
\<close>

definition chain_from :: "int \<Rightarrow> string \<Rightarrow> repair_commit_entry list \<Rightarrow> bool" where
  "chain_from n parent es \<longleftrightarrow>
     map ce_sequence es = map (\<lambda>i. n + int i) [0..<length es] \<and> distinct (map ce_commit_sha es) \<and>
     map ce_parent_sha es = butlast (parent # map ce_commit_sha es) \<and> list_all entry_ok es"

lemma chain_from_Nil [simp]: "chain_from n parent []"
  by (simp add: chain_from_def)

lemma upt_shift: "map (\<lambda>i. n + int i) [0..<Suc k] = n # map (\<lambda>i. (n + 1) + int i) [0..<k]"
  by (simp add: upt_conv_Cons map_Suc_upt [symmetric] del: upt_Suc)

lemma chain_from_Cons:
  "chain_from n parent (e # es) \<longleftrightarrow>
     ce_sequence e = n \<and> ce_parent_sha e = parent \<and> entry_ok e \<and> ce_commit_sha e \<notin> ce_commit_sha ` set es \<and>
     chain_from (n + 1) (ce_commit_sha e) es"
  unfolding chain_from_def list.map length_Cons upt_shift by auto

lemma chain_from_snoc:
  "chain_from n parent (es @ [e]) \<longleftrightarrow>
     chain_from n parent es \<and> ce_sequence e = n + int (length es) \<and> entry_ok e \<and> ce_commit_sha e \<notin> ce_commit_sha ` set es \<and>
     ce_parent_sha e = (if es = [] then parent else ce_commit_sha (last es))"
  by (induction es arbitrary: n parent) (auto simp: chain_from_Cons)

lemma mv_ok_simps [simp]: "mv_ok manifest_valid" "\<not> mv_ok (manifest_invalid c s)"
  by (simp_all add: manifest_valid_def manifest_invalid_def)

lemma validate_entries_iff:
  "mv_ok (validate_entries n seen parent es) \<longleftrightarrow>
     chain_from n parent es \<and> set (map ce_commit_sha es) \<inter> set seen = {}"
  by (induction n seen parent es rule: validate_entries.induct) (auto simp: chain_from_Cons entry_ok_def)

subsection \<open>Round trips\<close>

definition entry_doc :: "repair_commit_entry \<Rightarrow> json" where
  "entry_doc e = JObj (stored_dict (repair_commit_entry_to_dict e))"

lemma entry_to_dict_facts:
  "distinct (map fst (repair_commit_entry_to_dict e))" "wf_json (JObj (repair_commit_entry_to_dict e))"
  by (simp_all add: repair_commit_entry_to_dict_def)

lemma entry_look:
  "dget (stored_dict (repair_commit_entry_to_dict e)) ''sequence'' = Some (JInt (ce_sequence e))"
  "dget (stored_dict (repair_commit_entry_to_dict e)) ''commit_sha'' = Some (JStr (ce_commit_sha e))"
  "dget (stored_dict (repair_commit_entry_to_dict e)) ''parent_sha'' = Some (JStr (ce_parent_sha e))"
  "dget (stored_dict (repair_commit_entry_to_dict e)) ''tree_sha'' = Some (JStr (ce_tree_sha e))"
  "dget (stored_dict (repair_commit_entry_to_dict e)) ''effect_id'' = Some (JStr (ce_effect_id e))"
  "dget (stored_dict (repair_commit_entry_to_dict e)) ''task_marker'' = Some (JStr (ce_task_marker e))"
  "dget (stored_dict (repair_commit_entry_to_dict e)) ''pushed_at'' = Some (JStr (ce_pushed_at e))"
  by (simp_all only: dget_stored [OF entry_to_dict_facts(1)]) (simp_all add: repair_commit_entry_to_dict_def dget_def)

lemma entry_of_doc [simp]: "entry_of_json (entry_doc e) = Some e"
  by (simp add: entry_doc_def repair_commit_entry_from_dict_def read_defs entry_look)

lemma those_entries [simp]: "those_map entry_of_json (map entry_doc es) = Some es"
  by (induction es) simp_all

lemma manifest_to_dict_facts:
  "distinct (map fst (repair_commit_manifest_to_dict m))" "wf_json (JObj (repair_commit_manifest_to_dict m))"
  by (simp_all add: repair_commit_manifest_to_dict_def list_all_iff repair_commit_entry_to_dict_def)

lemma manifest_look:
  "dget (stored_dict (repair_commit_manifest_to_dict m)) ''schema_version'' = Some (JInt (rm_schema_version m))"
  "dget (stored_dict (repair_commit_manifest_to_dict m)) ''repair_task_id'' = Some (JStr (rm_repair_task_id m))"
  "dget (stored_dict (repair_commit_manifest_to_dict m)) ''project_id'' = Some (JStr (rm_project_id m))"
  "dget (stored_dict (repair_commit_manifest_to_dict m)) ''mr_iid'' = Some (JInt (rm_mr_iid m))"
  "dget (stored_dict (repair_commit_manifest_to_dict m)) ''source_branch'' = Some (JStr (rm_source_branch m))"
  "dget (stored_dict (repair_commit_manifest_to_dict m)) ''base_commit_sha'' = Some (JStr (rm_base_commit_sha m))"
  "dget (stored_dict (repair_commit_manifest_to_dict m)) ''base_tree_sha'' = Some (JStr (rm_base_tree_sha m))"
  "dget (stored_dict (repair_commit_manifest_to_dict m)) ''authorized_actor_id'' = Some (JStr (rm_authorized_actor_id m))"
  "dget (stored_dict (repair_commit_manifest_to_dict m)) ''entries'' = Some (JArr (map entry_doc (rm_entries m)))"
  "dget (stored_dict (repair_commit_manifest_to_dict m)) ''frozen'' = Some (JBool (rm_frozen m))"
  "dget (stored_dict (repair_commit_manifest_to_dict m)) ''frozen_at'' = Some (JStr (rm_frozen_at m))"
  by (simp_all only: dget_stored [OF manifest_to_dict_facts(1)])
     (simp_all add: repair_commit_manifest_to_dict_def dget_def entry_doc_def comp_def)

lemma manifest_from_look:
  assumes "dget d ''schema_version'' = Some (JInt (rm_schema_version m))"
    "dget d ''repair_task_id'' = Some (JStr (rm_repair_task_id m))"
    "dget d ''project_id'' = Some (JStr (rm_project_id m))"
    "dget d ''mr_iid'' = Some (JInt (rm_mr_iid m))"
    "dget d ''source_branch'' = Some (JStr (rm_source_branch m))"
    "dget d ''base_commit_sha'' = Some (JStr (rm_base_commit_sha m))"
    "dget d ''base_tree_sha'' = Some (JStr (rm_base_tree_sha m))"
    "dget d ''authorized_actor_id'' = Some (JStr (rm_authorized_actor_id m))"
    "dget d ''entries'' = Some (JArr (map entry_doc (rm_entries m)))"
    "dget d ''frozen'' = Some (JBool (rm_frozen m))" "dget d ''frozen_at'' = Some (JStr (rm_frozen_at m))"
  shows "repair_commit_manifest_from_dict d = Some m"
  using assms by (simp add: repair_commit_manifest_from_dict_def read_defs get_entries_def)

lemma rollback_state_to_dict_facts:
  "distinct (map fst (repair_rollback_state_to_dict s))" "wf_json (JObj (repair_rollback_state_to_dict s))"
  by (simp_all add: repair_rollback_state_to_dict_def)

lemma rollback_state_look:
  "dget (stored_dict (repair_rollback_state_to_dict s)) ''rollback_task_id'' = Some (JStr (rr_rollback_task_id s))"
  "dget (stored_dict (repair_rollback_state_to_dict s)) ''repair_task_id'' = Some (JStr (rr_repair_task_id s))"
  "dget (stored_dict (repair_rollback_state_to_dict s)) ''status'' = Some (JStr (repair_rollback_status_value (rr_status s)))"
  "dget (stored_dict (repair_rollback_state_to_dict s)) ''trigger'' = Some (JStr (rr_trigger s))"
  "dget (stored_dict (repair_rollback_state_to_dict s)) ''requested_by'' = Some (JStr (rr_requested_by s))"
  "dget (stored_dict (repair_rollback_state_to_dict s)) ''expected_remote_head'' = Some (JStr (rr_expected_remote_head s))"
  "dget (stored_dict (repair_rollback_state_to_dict s)) ''manifest_digest'' = Some (JStr (rr_manifest_digest s))"
  "dget (stored_dict (repair_rollback_state_to_dict s)) ''rollback_commit_sha'' = Some (JStr (rr_rollback_commit_sha s))"
  "dget (stored_dict (repair_rollback_state_to_dict s)) ''failure_code'' =
     Some (JStr (case rr_failure_code s of None \<Rightarrow> [] | Some c \<Rightarrow> rollback_failure_code_value c))"
  "dget (stored_dict (repair_rollback_state_to_dict s)) ''failure_message'' = Some (JStr (rr_failure_message s))"
  "dget (stored_dict (repair_rollback_state_to_dict s)) ''retryable'' = Some (JBool (rr_retryable s))"
  "dget (stored_dict (repair_rollback_state_to_dict s)) ''created_at'' = Some (JStr (rr_created_at s))"
  "dget (stored_dict (repair_rollback_state_to_dict s)) ''updated_at'' = Some (JStr (rr_updated_at s))"
  by (simp_all only: dget_stored [OF rollback_state_to_dict_facts(1)]) (simp_all add: repair_rollback_state_to_dict_def dget_def)

lemma failure_code_nonempty [simp]: "rollback_failure_code_value c \<noteq> []"
  by (cases c) simp_all

lemma rollback_state_round_trip:
  "repair_rollback_state_from_json (repair_rollback_state_to_json s) = Some s"
  by (cases "rr_failure_code s")
     (simp_all add: repair_rollback_state_from_json_def repair_rollback_state_to_json_def
        from_json_dumps [OF rollback_state_to_dict_facts(2)] repair_rollback_state_from_dict_def read_defs
        rollback_state_look enum_json_def)

text \<open>
  What \<open>RepairCommitManifest.from_json\<close> reads from the text \<open>to_json\<close> wrote is the same
  manifest, entries included, and the same holds of the rollback state.
\<close>

theorem manifest_round_trip:
  "repair_commit_manifest_from_json (repair_commit_manifest_to_json m) = Some m \<and>
   repair_rollback_state_from_json (repair_rollback_state_to_json s) = Some s"
  by (simp add: repair_commit_manifest_from_json_def repair_commit_manifest_to_json_def rollback_state_round_trip
      from_json_dumps [OF manifest_to_dict_facts(2)] manifest_from_look [OF manifest_look])

subsection \<open>What the scripts do to the record\<close>

text \<open>The manifest the first commit of a task opens.\<close>

definition manifest_open :: "string \<Rightarrow> mr_key \<Rightarrow> string \<Rightarrow> string \<Rightarrow> string \<Rightarrow> string \<Rightarrow> repair_commit_manifest" where
  "manifest_open tid m parent base_tree branch actor =
     \<lparr>rm_repair_task_id = tid, rm_project_id = project_id m, rm_mr_iid = iid m, rm_source_branch = branch,
      rm_base_commit_sha = parent, rm_base_tree_sha = base_tree, rm_authorized_actor_id = actor, rm_entries = [],
      rm_frozen = False, rm_frozen_at = [], rm_schema_version = 1\<rparr>"

definition manifest_append ::
  "string \<Rightarrow> mr_key \<Rightarrow> repair_commit_entry \<Rightarrow> string \<Rightarrow> string \<Rightarrow> string \<Rightarrow> repair_commit_manifest option \<Rightarrow> string + repair_commit_manifest"
where
  "manifest_append tid mk e base_tree branch actor old =
     (let m = or_else old (manifest_open tid mk (ce_parent_sha e) base_tree branch actor); es = rm_entries m in
      if rm_frozen m then Inl ''manifest is frozen''
      else if \<not> (rm_repair_task_id m = tid \<and> rm_project_id m = project_id mk \<and> rm_mr_iid m = iid mk \<and>
                 rm_source_branch m = branch \<and> rm_base_tree_sha m = base_tree \<and> rm_authorized_actor_id m = actor) then
        Inl ''manifest identity changed''
      else if es \<noteq> [] \<and> e = last es then Inr m
      else if ce_sequence e \<noteq> int (length es) + 1 then Inl ''commit sequence is not continuous''
      else if ce_parent_sha e \<noteq> (if es = [] then rm_base_commit_sha m else ce_commit_sha (last es)) then
        Inl ''commit parent does not match''
      else if ce_commit_sha e \<in> ce_commit_sha ` set es then Inl ''duplicate commit SHA''
      else Inr (m\<lparr>rm_entries := es @ [e]\<rparr>))"

definition manifest_freeze :: "string \<Rightarrow> repair_commit_manifest \<Rightarrow> repair_commit_manifest" where
  "manifest_freeze at m = (if rm_frozen m then m else m\<lparr>rm_frozen := True, rm_frozen_at := at\<rparr>)"

text \<open>The document the scripts store, its members in the order the first append writes them.\<close>

definition manifest_doc :: "repair_commit_manifest \<Rightarrow> dict" where
  "manifest_doc m =
     [(''schema_version'', JInt (rm_schema_version m)), (''repair_task_id'', JStr (rm_repair_task_id m)),
      (''project_id'', JStr (rm_project_id m)), (''mr_iid'', JInt (rm_mr_iid m)), (''source_branch'', JStr (rm_source_branch m)),
      (''base_commit_sha'', JStr (rm_base_commit_sha m)), (''base_tree_sha'', JStr (rm_base_tree_sha m)),
      (''authorized_actor_id'', JStr (rm_authorized_actor_id m)), (''entries'', JArr (map entry_doc (rm_entries m))),
      (''frozen'', JBool (rm_frozen m)), (''frozen_at'', JStr (rm_frozen_at m))]"

definition manifest_text :: "repair_commit_manifest \<Rightarrow> string" where
  "manifest_text m = cjson_encode (JObj (manifest_doc m))"

lemma doc_look [simp]:
  "dget (manifest_doc m) ''schema_version'' = Some (JInt (rm_schema_version m))"
  "dget (manifest_doc m) ''repair_task_id'' = Some (JStr (rm_repair_task_id m))"
  "dget (manifest_doc m) ''project_id'' = Some (JStr (rm_project_id m))"
  "dget (manifest_doc m) ''mr_iid'' = Some (JInt (rm_mr_iid m))"
  "dget (manifest_doc m) ''source_branch'' = Some (JStr (rm_source_branch m))"
  "dget (manifest_doc m) ''base_commit_sha'' = Some (JStr (rm_base_commit_sha m))"
  "dget (manifest_doc m) ''base_tree_sha'' = Some (JStr (rm_base_tree_sha m))"
  "dget (manifest_doc m) ''authorized_actor_id'' = Some (JStr (rm_authorized_actor_id m))"
  "dget (manifest_doc m) ''entries'' = Some (JArr (map entry_doc (rm_entries m)))"
  "dget (manifest_doc m) ''frozen'' = Some (JBool (rm_frozen m))"
  "dget (manifest_doc m) ''frozen_at'' = Some (JStr (rm_frozen_at m))"
  by (simp_all add: manifest_doc_def dget_def)

lemma doc_update [simp]:
  "AList.update ''entries'' (JArr (map entry_doc es)) (manifest_doc m) = manifest_doc (m\<lparr>rm_entries := es\<rparr>)"
  "AList.update ''frozen_at'' (JStr at) (AList.update ''frozen'' (JBool True) (manifest_doc m)) =
     manifest_doc (m\<lparr>rm_frozen := True, rm_frozen_at := at\<rparr>)"
  by (simp_all add: manifest_doc_def)

lemma flat_lua_table: "list_all (\<lambda>(k, v). lua_table v = v) d \<Longrightarrow> lua_table (JObj d) = JObj d"
  by (auto simp: list_all_iff intro!: map_idI)

lemma lua_table_entry [simp]: "lua_table (entry_doc e) = entry_doc e"
  unfolding entry_doc_def
  by (rule flat_lua_table) (simp add: stored_dict_def repair_commit_entry_to_dict_def list_all_iff)

lemma lua_table_entries: "es \<noteq> [] \<Longrightarrow> lua_table (JArr (map entry_doc es)) = JArr (map entry_doc es)"
  by (cases es) simp_all

lemma lua_table_doc: "rm_entries m \<noteq> [] \<Longrightarrow> lua_table (JObj (manifest_doc m)) = JObj (manifest_doc m)"
  by (rule flat_lua_table) (simp add: manifest_doc_def lua_table_entries)

lemma wf_entry_doc [simp]: "wf_json (entry_doc e)"
  using wf_sort_keys [OF entry_to_dict_facts(2)] by (simp add: entry_doc_def)

lemma wf_manifest_doc: "wf_json (JObj (manifest_doc m))"
  by (simp add: manifest_doc_def list_all_iff)

lemma loads_manifest_text: "rm_entries m \<noteq> [] \<Longrightarrow> loads (manifest_text m) = Some (JObj (manifest_doc m))"
  using loads_cjson_encode [OF wf_manifest_doc, of m] by (simp add: manifest_text_def lua_table_doc del: lua_table.simps)

lemma manifest_text_nonempty [simp]: "manifest_text m \<noteq> []"
  by (simp add: manifest_text_def cjson_encode_def)

lemma manifest_from_text: "rm_entries m \<noteq> [] \<Longrightarrow> repair_commit_manifest_from_json (manifest_text m) = Some m"
  by (simp add: repair_commit_manifest_from_json_def from_json_def loads_manifest_text manifest_from_look)

lemma same_entry_doc [simp]: "same_entry (entry_doc e) (entry_doc e') = Some (e = e')"
  by (auto simp: same_entry_def entry_doc_def entry_look)

lemma known_commit_doc [simp]:
  "known_commit (Some (JStr sha)) (map entry_doc es) = Some (sha \<in> ce_commit_sha ` set es)"
  by (induction es) (auto simp: entry_doc_def entry_look)

lemma loads_entry [simp]: "loads (dumps (JObj (repair_commit_entry_to_dict e))) = Some (entry_doc e)"
  by (simp add: entry_doc_def loads_dumps_obj [OF entry_to_dict_facts(2)])

lemma entry_fields [simp]:
  "lua_field (entry_doc e) ''sequence'' = Some (Some (JInt (ce_sequence e)))"
  "lua_field (entry_doc e) ''commit_sha'' = Some (Some (JStr (ce_commit_sha e)))"
  "lua_field (entry_doc e) ''parent_sha'' = Some (Some (JStr (ce_parent_sha e)))"
  by (simp_all add: entry_doc_def entry_look)

subsection \<open>The scripts on a stored repair task\<close>

definition repair_command :: "task_envelope \<Rightarrow> bool" where
  "repair_command t \<longleftrightarrow> kind t = TK_POST_REPAIR_UT \<or> startswith (command t) ''/triage'' \<or> startswith (command t) ''/fix-format'' \<or>
     startswith (command t) ''/fix_format'' \<or> startswith (command t) ''/repair-pipeline''"

definition repair_stored :: "redis \<Rightarrow> task_envelope \<Rightarrow> mr_key \<Rightarrow> bool" where
  "repair_stored db t mk \<longleftrightarrow> well_typed db \<and> wf_task t \<and> mr t = Some mk \<and> repair_command t \<and>
     hash_at db (K_task (task_id t)) ''payload'' = Some (task_envelope_to_json t)"

definition manifest_field :: "redis \<Rightarrow> string \<Rightarrow> string" where
  "manifest_field db tid = or_else (hash_at db (K_task tid) ''repair_commit_manifest'') []"

definition stored_manifest :: "redis \<Rightarrow> string \<Rightarrow> repair_commit_manifest option" where
  "stored_manifest db tid =
     (if manifest_field db tid = [] then None else repair_commit_manifest_from_json (manifest_field db tid))"

definition manifest_written :: "redis \<Rightarrow> string \<Rightarrow> bool" where
  "manifest_written db tid \<longleftrightarrow> manifest_field db tid = [] \<or> (\<exists>m. manifest_field db tid = manifest_text m \<and> rm_entries m \<noteq> [])"

definition saved_w :: "redis \<Rightarrow> string \<Rightarrow> repair_commit_manifest \<Rightarrow> int \<Rightarrow> redis" where
  "saved_w db tid m now =
     hset_w db (K_task tid) [(''repair_commit_manifest'', manifest_text m), (''updated_at'', show_int now)]"

lemma manifest_written_cases:
  assumes "manifest_written db tid"
  obtains (none) "manifest_field db tid = []" "stored_manifest db tid = None"
  | (some) m where "manifest_field db tid = manifest_text m" "rm_entries m \<noteq> []" "stored_manifest db tid = Some m"
  using assms by (auto simp: manifest_written_def stored_manifest_def manifest_from_text)

lemma saved_w_facts [simp]:
  "manifest_field (saved_w db tid m now) tid = manifest_text m"
  "rm_entries m \<noteq> [] \<Longrightarrow> stored_manifest (saved_w db tid m now) tid = Some m"
  "rm_entries m \<noteq> [] \<Longrightarrow> manifest_written (saved_w db tid m now) tid"
  by (auto simp: manifest_field_def stored_manifest_def manifest_written_def saved_w_def view_simps manifest_from_text)

lemma saved_w_stored: "repair_stored db t mk \<Longrightarrow> repair_stored (saved_w db (task_id t) m now) t mk"
  by (simp add: repair_stored_def saved_w_def view_simps redis_simps)

lemma saved_w_fence: "fence_ok (saved_w db tid m now) l = fence_ok db l"
  by (rule fence_ok_cong) (simp add: saved_w_def view_simps)

lemma repair_payload_stored [simp]:
  "repair_payload (JObj (stored_dict (task_envelope_to_dict t))) = Some (repair_command t)"
  by (cases "kind t") (auto simp: repair_payload_def task_envelope_look or_value_def repair_command_def)

lemma payload_ids_stored:
  "mr t = Some mk \<Longrightarrow>
   payload_ids (JObj (stored_dict (task_envelope_to_dict t))) =
     Some (Some (JStr (task_id t)), Some (JStr (project_id mk)), Some (JInt (iid mk)))"
  by (simp add: payload_ids_def task_envelope_look mr_key_look)

lemma same_identity_doc [simp]:
  "same_identity (manifest_doc m) (Some (JStr tid), Some (JStr p), Some (JInt n)) base_tree branch actor \<longleftrightarrow>
     rm_repair_task_id m = tid \<and> rm_project_id m = p \<and> rm_mr_iid m = n \<and> rm_source_branch m = branch \<and>
     rm_base_tree_sha m = base_tree \<and> rm_authorized_actor_id m = actor"
  by (auto simp: same_identity_def)

lemma read_manifest_doc [simp]: "read_manifest (JObj (manifest_doc m)) = Some (Some (manifest_doc m, map entry_doc (rm_entries m)))"
  by (simp add: read_manifest_def)

lemma lua_insert_doc [simp]: "lua_insert (Some (JArr xs)) v = JArr (xs @ [v])" "lua_insert (Some (JObj [])) v = JArr [v]"
  by (simp_all add: lua_insert_def)

lemma doc_update_entry [simp]:
  "AList.update ''entries'' (JArr [entry_doc e]) (manifest_doc m) = manifest_doc (m\<lparr>rm_entries := [e]\<rparr>)"
  "AList.update ''entries'' (JArr (map entry_doc es @ [entry_doc e])) (manifest_doc m) = manifest_doc (m\<lparr>rm_entries := es @ [e]\<rparr>)"
  using doc_update(1) [of "[e]"] doc_update(1) [of "es @ [e]"] by simp_all

lemma fresh_doc:
  "fresh_manifest (Some (JStr tid), Some (JStr (project_id mk)), Some (JInt (iid mk))) (Some (JStr parent)) base_tree branch actor =
     AList.update ''entries'' (JObj []) (manifest_doc (manifest_open tid mk parent base_tree branch actor))"
  by (simp add: fresh_manifest_def manifest_doc_def manifest_open_def List.map_filter_def)

lemma fresh_facts:
  fixes tid mk parent base_tree branch actor
  defines "d \<equiv> AList.update ''entries'' (JObj []) (manifest_doc (manifest_open tid mk parent base_tree branch actor))"
  shows "dget d ''frozen'' = Some (JBool False)" "dget d ''base_commit_sha'' = Some (JStr parent)"
    "same_identity d (Some (JStr tid), Some (JStr (project_id mk)), Some (JInt (iid mk))) base_tree branch actor"
    "dget d ''entries'' = Some (JObj [])"
  by (simp_all add: d_def manifest_doc_def manifest_open_def same_identity_def dget_def)

lemma stored_exists: "repair_stored db t mk \<Longrightarrow> exists_key db (K_task (task_id t))"
  by (rule ccontr) (simp add: repair_stored_def hash_absent)

lemma APPEND_head:
  assumes "repair_stored db t mk" "fence_ok db l"
  shows "exists_key db (K_task (task_id t))"
    "fence_lost db (lease_key_of l) (fst (lease_args l)) (snd (lease_args l)) = Some False"
    "hget db (K_task (task_id t)) f = Some (hash_at db (K_task (task_id t)) f)"
    "loads (or_else (hash_at db (K_task (task_id t)) ''payload'') []) = Some (JObj (stored_dict (task_envelope_to_dict t)))"
  using assms stored_exists [OF assms(1)]
  by (auto simp: repair_stored_def fence_ok_def redis_simps task_envelope_to_json_def
      loads_dumps_obj [OF task_envelope_to_dict_wf])

lemma manifest_open_simps [simp]:
  "rm_repair_task_id (manifest_open tid mk parent base_tree branch actor) = tid"
  "rm_project_id (manifest_open tid mk parent base_tree branch actor) = project_id mk"
  "rm_mr_iid (manifest_open tid mk parent base_tree branch actor) = iid mk"
  "rm_source_branch (manifest_open tid mk parent base_tree branch actor) = branch"
  "rm_base_commit_sha (manifest_open tid mk parent base_tree branch actor) = parent"
  "rm_base_tree_sha (manifest_open tid mk parent base_tree branch actor) = base_tree"
  "rm_authorized_actor_id (manifest_open tid mk parent base_tree branch actor) = actor"
  "rm_entries (manifest_open tid mk parent base_tree branch actor) = []"
  "\<not> rm_frozen (manifest_open tid mk parent base_tree branch actor)"
  "rm_schema_version (manifest_open tid mk parent base_tree branch actor) = 1"
  by (simp_all add: manifest_open_def)

lemma append_script:
  assumes "repair_stored db t mk" "fence_ok db l"
  shows "APPEND_REPAIR_COMMIT_LUA db (K_task (task_id t)) (lease_key_of l) (fst (lease_args l)) (snd (lease_args l))
      (dumps (JObj (repair_commit_entry_to_dict e))) base_tree branch actor now =
    do { manifest \<leftarrow>
           (if manifest_field db (task_id t) = [] then
              Some (Some (AList.update ''entries'' (JObj []) (manifest_doc (manifest_open (task_id t) mk (ce_parent_sha e)
                            base_tree branch actor)), []))
            else (case loads (manifest_field db (task_id t)) of None \<Rightarrow> Some None | Some j \<Rightarrow> read_manifest j));
         case manifest of
           None \<Rightarrow> Some ((-3, ''stored manifest is invalid''), db)
         | Some (d, xs) \<Rightarrow>
             append_to db (K_task (task_id t)) (manifest_field db (task_id t))
               (Some (JStr (task_id t)), Some (JStr (project_id mk)), Some (JInt (iid mk))) d xs (entry_doc e)
               (Some (JStr (ce_parent_sha e))) base_tree branch actor now }"
  using APPEND_head [OF assms] assms unfolding fresh_doc [symmetric] manifest_field_def
  by (simp add: APPEND_REPAIR_COMMIT_LUA_def repair_stored_def task_envelope_look payload_ids_stored
      cong: bind_head_cong split del: if_split)

lemma append_to_fresh:
  assumes "well_typed db"
  shows "append_to db (K_task tid) [] (Some (JStr tid), Some (JStr (project_id mk)), Some (JInt (iid mk)))
      (AList.update ''entries'' (JObj []) (manifest_doc (manifest_open tid mk (ce_parent_sha e) base_tree branch actor)))
      [] (entry_doc e) (Some (JStr (ce_parent_sha e))) base_tree branch actor (show_int now) =
    (if ce_sequence e \<noteq> 1 then Some ((-5, ''commit sequence is not continuous''), db)
     else let m = (manifest_open tid mk (ce_parent_sha e) base_tree branch actor)\<lparr>rm_entries := [e]\<rparr> in
       Some ((1, manifest_text m), saved_w db tid m now))"
  using assms
  by (simp add: append_to_def fresh_facts redis_simps saved_w_def manifest_text_def Let_def cong: bind_head_cong)

lemma append_to_doc:
  assumes "well_typed db" "rm_entries m \<noteq> []"
  shows "append_to db (K_task tid) raw (Some (JStr tid), Some (JStr (project_id mk)), Some (JInt (iid mk))) (manifest_doc m)
      (map entry_doc (rm_entries m)) (entry_doc e) (Some (JStr (ce_parent_sha e))) base_tree branch actor (show_int now) =
    (case manifest_append tid mk e base_tree branch actor (Some m) of
       Inl msg \<Rightarrow> Some ((if rm_frozen m then -4 else -5, msg), db)
     | Inr m' \<Rightarrow> if e = last (rm_entries m) then Some ((0, raw), db) else Some ((1, manifest_text m'), saved_w db tid m' now))"
  using assms
  by (simp add: append_to_def manifest_append_def last_map redis_simps saved_w_def manifest_text_def Let_def
      if_distrib [where f = "case_sum _ _"] cong: bind_head_cong if_cong split del: if_split)

lemma append_nonempty:
  assumes "manifest_append tid mk e base_tree branch actor old = Inr m"
  shows "rm_entries m \<noteq> []"
  using assms by (auto simp: manifest_append_def Let_def split: if_splits)

lemma append_same:
  assumes "manifest_append tid mk e base_tree branch actor (Some m) = Inr m'"
  shows "m' = m \<longleftrightarrow> e = last (rm_entries m) \<and> rm_entries m \<noteq> []"
proof -
  have "m\<lparr>rm_entries := rm_entries m @ [e]\<rparr> \<noteq> m"
    by (metis append_self_conv list.distinct(1) repair_commit_manifest.select_convs(8)
        repair_commit_manifest.surjective repair_commit_manifest.update_convs(8))
  then show ?thesis using assms by (auto simp: manifest_append_def Let_def split: if_splits)
qed

lemma append_refines:
  assumes "repair_stored db t mk" "fence_ok db l" "manifest_written db (task_id t)"
    and "validate_manifest_append_input (task_id t) e base_tree branch actor = Inr ()"
  shows "append_repair_commit db (task_id t) e base_tree branch actor l now =
    (case manifest_append (task_id t) mk e base_tree branch actor (stored_manifest db (task_id t)) of
       Inl msg \<Rightarrow> (Inl (RepairManifestConflict msg), db)
     | Inr m \<Rightarrow> (Inr m, if stored_manifest db (task_id t) = Some m then db else saved_w db (task_id t) m now))"
  using assms(3)
proof (cases rule: manifest_written_cases)
  case none
  show ?thesis
    unfolding append_repair_commit_def append_script [OF assms(1,2)]
    using assms(1,4) none
    by (simp add: append_to_fresh repair_stored_def repair_manifest_result_def manifest_append_def Let_def manifest_from_text)
next
  case (some m)
  let ?r = "manifest_append (task_id t) mk e base_tree branch actor (Some m)"
  show ?thesis
  proof (cases ?r)
    case (Inl msg)
    then show ?thesis
      unfolding append_repair_commit_def append_script [OF assms(1,2)] using assms(1,4) some
      by (simp add: append_to_doc loads_manifest_text repair_stored_def repair_manifest_result_def)
  next
    case (Inr m')
    then have "\<not> rm_frozen m" by (auto simp: manifest_append_def)
    then show ?thesis
      unfolding append_repair_commit_def append_script [OF assms(1,2)]
      using assms(1,4) some Inr append_same [OF Inr] append_nonempty [OF Inr]
      by (auto simp: append_to_doc loads_manifest_text repair_stored_def repair_manifest_result_def manifest_from_text)
  qed
qed

lemma freeze_refines:
  assumes "repair_stored db t mk" "fence_ok db l" "manifest_written db (task_id t)"
  shows "freeze_repair_commit_manifest db (task_id t) l at now =
    (case stored_manifest db (task_id t) of
       None \<Rightarrow> (Inr None, db)
     | Some m \<Rightarrow> (Inr (Some (manifest_freeze at m)), if rm_frozen m then db else saved_w db (task_id t) (manifest_freeze at m) now))"
  using assms(3)
proof (cases rule: manifest_written_cases)
  case none
  then show ?thesis using APPEND_head [OF assms(1,2)]
    by (simp add: freeze_repair_commit_manifest_def FREEZE_REPAIR_MANIFEST_LUA_def manifest_field_def)
next
  case (some m)
  have "hset db (K_task (task_id t)) kvs = Some (hset_w db (K_task (task_id t)) kvs)" for kvs
    using assms(1) by (simp add: repair_stored_def redis_simps)
  then show ?thesis using APPEND_head [OF assms(1,2)] some
    by (simp add: freeze_repair_commit_manifest_def FREEZE_REPAIR_MANIFEST_LUA_def manifest_field_def loads_manifest_text
        manifest_from_text manifest_freeze_def saved_w_def flip: manifest_text_def cong: bind_head_cong)
qed

subsection \<open>The history of a manifest\<close>

text \<open>
  What may happen to the stored manifest of task \<open>t\<close>: anyone may call the two broker methods with
  any arguments, and everything else leaves the payload and the manifest of the task alone.
\<close>

inductive manifest_step :: "task_envelope \<Rightarrow> redis \<Rightarrow> redis \<Rightarrow> bool" for t where
  append: "append_repair_commit db (task_id t) e base_tree branch actor l now = (r, db') \<Longrightarrow> manifest_step t db db'"
| freeze: "at \<noteq> [] \<Longrightarrow> freeze_repair_commit_manifest db (task_id t) l at now = (r, db') \<Longrightarrow> manifest_step t db db'"
| other: "well_typed db' \<Longrightarrow> hash_at db' (K_task (task_id t)) ''payload'' = hash_at db (K_task (task_id t)) ''payload'' \<Longrightarrow>
    hash_at db' (K_task (task_id t)) ''repair_commit_manifest'' = hash_at db (K_task (task_id t)) ''repair_commit_manifest'' \<Longrightarrow>
    manifest_step t db db'"

definition manifest_good :: "string \<Rightarrow> mr_key \<Rightarrow> repair_commit_manifest \<Rightarrow> bool" where
  "manifest_good tid mk m \<longleftrightarrow> rm_schema_version m = 1 \<and> rm_repair_task_id m = tid \<and> tid \<noteq> [] \<and> rm_project_id m = project_id mk \<and>
     rm_mr_iid m = iid mk \<and> rm_source_branch m \<noteq> [] \<and> rm_authorized_actor_id m \<noteq> [] \<and> valid_sha (rm_base_commit_sha m) \<and>
     valid_sha (rm_base_tree_sha m) \<and> chain_from 1 (rm_base_commit_sha m) (rm_entries m) \<and> (rm_frozen m \<longrightarrow> rm_frozen_at m \<noteq> [])"

definition manifest_inv :: "task_envelope \<Rightarrow> mr_key \<Rightarrow> redis \<Rightarrow> bool" where
  "manifest_inv t mk db \<longleftrightarrow> repair_stored db t mk \<and> manifest_written db (task_id t) \<and>
     pred_option (manifest_good (task_id t) mk) (stored_manifest db (task_id t))"

lemma hex_digit_iff: "c \<in> set ''0123456789abcdef'' \<longleftrightarrow> is_hex c"
proof
  assume "is_hex c"
  then have "of_char c \<in> {48 ..< 58 :: nat} \<union> {97 ..< 103}" by (auto simp: is_hex_def Let_def)
  then have "c \<in> char_of ` ({48 ..< 58 :: nat} \<union> {97 ..< 103})" by (metis char_of_char image_eqI)
  also have "char_of ` ({48 ..< 58 :: nat} \<union> {97 ..< 103}) = set ''0123456789abcdef''" by code_simp
  finally show "c \<in> set ''0123456789abcdef''" .
qed (auto simp: is_hex_def)

lemma full_sha_valid: "full_sha s = valid_sha s"
  by (simp only: full_sha_def valid_sha_def hex_digit_iff)

lemma append_input_facts:
  assumes "validate_manifest_append_input tid e base_tree branch actor = Inr ()"
  shows "tid \<noteq> []" "entry_ok e" "valid_sha base_tree" "branch \<noteq> []" "actor \<noteq> []"
  using assms by (auto simp: validate_manifest_append_input_def full_sha_valid entry_ok_def split: if_splits)

lemma manifest_append_good:
  assumes "manifest_append tid mk e base_tree branch actor old = Inr m" "pred_option (manifest_good tid mk) old"
    and "validate_manifest_append_input tid e base_tree branch actor = Inr ()"
  shows "manifest_good tid mk m \<and> (old = Some m' \<longrightarrow> \<not> rm_frozen m')"
  using assms(1,2) append_input_facts [OF assms(3)]
  by (cases old)
     (auto simp: manifest_append_def Let_def manifest_good_def chain_from_snoc [of _ _ "[]", simplified] chain_from_snoc entry_ok_def
        split: if_splits)

lemma stored_manifest_cong:
  assumes "hash_at db' (K_task tid) ''repair_commit_manifest'' = hash_at db (K_task tid) ''repair_commit_manifest''"
  shows "stored_manifest db' tid = stored_manifest db tid" "manifest_written db' tid = manifest_written db tid"
  using assms by (simp_all add: stored_manifest_def manifest_written_def manifest_field_def)

text \<open>A caller whose lease is gone changes nothing.\<close>

lemma lost_append:
  assumes "repair_stored db t mk" "\<not> fence_ok db l"
  shows "snd (append_repair_commit db (task_id t) e base_tree branch actor l now) = db"
    "freeze_repair_commit_manifest db (task_id t) l at now = (Inl (LostLeaseError (task_id t)), db)"
proof -
  have "fence_lost db (lease_key_of l) (fst (lease_args l)) (snd (lease_args l)) = Some True"
    using assms by (auto simp: fence_ok_def repair_stored_def redis_simps)
  then show "snd (append_repair_commit db (task_id t) e base_tree branch actor l now) = db"
    "freeze_repair_commit_manifest db (task_id t) l at now = (Inl (LostLeaseError (task_id t)), db)"
    using stored_exists [OF assms(1)]
    by (simp_all add: append_repair_commit_def APPEND_REPAIR_COMMIT_LUA_def freeze_repair_commit_manifest_def
        FREEZE_REPAIR_MANIFEST_LUA_def split: sum.split)
qed

lemma refused_input: "validate_manifest_append_input tid e base_tree branch actor = Inl err \<Longrightarrow>
    append_repair_commit db tid e base_tree branch actor l now = (Inl err, db)"
  by (simp add: append_repair_commit_def)

text \<open>What one step does to the record: nothing, an admitted append, or a freeze.\<close>

lemma manifest_step_cases:
  assumes "manifest_step t db db'" "manifest_inv t mk db"
  obtains (same) "repair_stored db' t mk" "manifest_written db' (task_id t)" "stored_manifest db' (task_id t) = stored_manifest db (task_id t)"
  | (append) e base_tree branch actor m now where "db' = saved_w db (task_id t) m now"
      "validate_manifest_append_input (task_id t) e base_tree branch actor = Inr ()"
      "manifest_append (task_id t) mk e base_tree branch actor (stored_manifest db (task_id t)) = Inr m"
  | (freeze) m at now where "at \<noteq> []" "stored_manifest db (task_id t) = Some m" "\<not> rm_frozen m"
      "db' = saved_w db (task_id t) (manifest_freeze at m) now"
  using assms(1)
proof cases
  case (append e base_tree branch actor l now r)
  note inv = assms(2) [unfolded manifest_inv_def]
  show ?thesis
  proof (cases "fence_ok db l \<and> validate_manifest_append_input (task_id t) e base_tree branch actor = Inr ()")
    case True
    then show ?thesis
      using append append_refines [of db t mk l e base_tree branch actor now] inv that(1,2)
      by (auto split: sum.splits if_splits)
  next
    case False
    then have "db' = db"
      using append lost_append(1) [of db t mk l e base_tree branch actor now] inv
        refused_input [of "task_id t" e base_tree branch actor _ db l now]
      by (cases "validate_manifest_append_input (task_id t) e base_tree branch actor") auto
    then show ?thesis using inv that(1) by blast
  qed
next
  case (freeze at l now r)
  note inv = assms(2) [unfolded manifest_inv_def]
  show ?thesis
  proof (cases "fence_ok db l")
    case True
    then show ?thesis
      using freeze freeze_refines [of db t mk l at now] inv that(1,3)
      by (auto split: option.splits if_splits)
  next
    case False
    then show ?thesis using freeze lost_append(2) [of db t mk l at now] inv that(1) by auto
  qed
next
  case other
  then show ?thesis
    using assms(2) that(1) stored_manifest_cong [of db' "task_id t" db] by (auto simp: manifest_inv_def repair_stored_def)
qed

lemma manifest_freeze_good:
  "manifest_good tid mk m \<Longrightarrow> at \<noteq> [] \<Longrightarrow> manifest_good tid mk (manifest_freeze at m)" "rm_entries (manifest_freeze at m) = rm_entries m"
  by (auto simp: manifest_good_def manifest_freeze_def)

lemma manifest_step_inv:
  assumes "manifest_step t db db'" "manifest_inv t mk db"
  shows "manifest_inv t mk db'"
  using assms
proof (cases rule: manifest_step_cases)
  case same
  then show ?thesis using assms(2) by (simp add: manifest_inv_def)
next
  case (append e base_tree branch actor m now)
  then have "manifest_good (task_id t) mk m"
    using assms(2) manifest_append_good [OF append(3) _ append(2)] by (simp add: manifest_inv_def)
  then show ?thesis
    using append assms(2) append_nonempty [OF append(3)] by (simp add: manifest_inv_def saved_w_stored)
next
  case (freeze m at now)
  moreover have "rm_entries m \<noteq> []"
    using assms(2) freeze(2) unfolding manifest_inv_def by (auto elim: manifest_written_cases)
  ultimately show ?thesis
    using assms(2) by (simp add: manifest_inv_def saved_w_stored manifest_freeze_good)
qed

lemma manifest_history_inv: "(manifest_step t)\<^sup>*\<^sup>* db db' \<Longrightarrow> manifest_inv t mk db \<Longrightarrow> manifest_inv t mk db'"
  by (induction rule: rtranclp_induct) (auto intro: manifest_step_inv)

lemma frozen_step:
  assumes "manifest_step t db db'" "manifest_inv t mk db" "stored_manifest db (task_id t) = Some m" "rm_frozen m"
  shows "stored_manifest db' (task_id t) = Some m"
  using assms(1,2)
proof (cases rule: manifest_step_cases)
  case (append e base_tree branch actor m' now)
  then show ?thesis
    using assms(3,4) manifest_append_good [OF append(3) _ append(2), of m] assms(2) by (simp add: manifest_inv_def)
qed (use assms(3,4) in simp_all)

lemma frozen_history:
  "(manifest_step t)\<^sup>*\<^sup>* db db' \<Longrightarrow> manifest_inv t mk db \<Longrightarrow> stored_manifest db (task_id t) = Some m \<Longrightarrow> rm_frozen m \<Longrightarrow>
   manifest_inv t mk db' \<and> stored_manifest db' (task_id t) = Some m"
  by (induction rule: rtranclp_induct) (auto intro: manifest_step_inv frozen_step)

lemma manifest_start: "repair_stored db t mk \<Longrightarrow> manifest_field db (task_id t) = [] \<Longrightarrow> manifest_inv t mk db"
  by (simp add: manifest_inv_def manifest_written_def stored_manifest_def)

lemma validate_static_chain:
  "mv_ok (validate_static m) \<longleftrightarrow>
     rm_schema_version m = 1 \<and> rm_repair_task_id m \<noteq> [] \<and> rm_project_id m \<noteq> [] \<and> rm_authorized_actor_id m \<noteq> [] \<and>
     0 < rm_mr_iid m \<and> valid_branch (rm_source_branch m) \<and> valid_sha (rm_base_commit_sha m) \<and> valid_sha (rm_base_tree_sha m) \<and>
     rm_frozen m \<and> rm_frozen_at m \<noteq> [] \<and> rm_entries m \<noteq> [] \<and> chain_from 1 (rm_base_commit_sha m) (rm_entries m)"
  by (auto simp: validate_static_def validate_entries_iff valid_branch_def)

subsection \<open>An example\<close>

definition repair_db :: redis where
  "repair_db = hset_w empty_redis (K_task ''n'') [(''payload'', task_envelope_to_json example_triage)]"

definition example_entry :: repair_commit_entry where
  "example_entry = \<lparr>ce_sequence = 1, ce_commit_sha = replicate 40 (CHR ''a''), ce_parent_sha = replicate 40 (CHR ''b''),
     ce_tree_sha = replicate 40 (CHR ''c''), ce_effect_id = ''e'', ce_task_marker = ''m'', ce_pushed_at = ''p''\<rparr>"

definition example_manifest :: repair_commit_manifest where
  "example_manifest = (manifest_open ''n'' example_mr (replicate 40 (CHR ''b'')) (replicate 40 (CHR ''d'')) ''main'' ''u'')
     \<lparr>rm_entries := [example_entry], rm_frozen := False\<rparr>"

definition appended_db :: redis where
  "appended_db = saved_w repair_db ''n'' example_manifest 0"

definition frozen_db :: redis where
  "frozen_db = saved_w appended_db ''n'' (manifest_freeze ''at'' example_manifest) 1"

lemma example_id [simp]: "task_id example_triage = ''n''"
  by (simp add: example_triage_def)

lemma example_input: "validate_manifest_append_input ''n'' example_entry (replicate 40 (CHR ''d'')) ''main'' ''u'' = Inr ()"
  by (simp add: validate_manifest_append_input_def example_entry_def full_sha_def list_all_iff strip_def lstrip_def is_space_def
      startswith_def)

lemma repair_db_facts:
  "repair_stored repair_db example_triage example_mr" "manifest_field repair_db ''n'' = []" "stored_manifest repair_db ''n'' = None"
  "manifest_written repair_db ''n''"
proof -
  show "manifest_field repair_db ''n'' = []" by (simp add: manifest_field_def repair_db_def view_simps)
  then show "stored_manifest repair_db ''n'' = None" "manifest_written repair_db ''n''"
    by (simp_all add: stored_manifest_def manifest_written_def)
  show "repair_stored repair_db example_triage example_mr"
    using example_triage_facts(1)
    by (simp add: repair_stored_def repair_db_def view_simps redis_simps, simp add: example_triage_def repair_command_def startswith_def)
qed

lemma no_lease_fence [simp]: "fence_ok db None"
  by (simp add: fence_ok_def lease_args_def)

lemma example_append:
  "manifest_append ''n'' example_mr example_entry (replicate 40 (CHR ''d'')) ''main'' ''u'' None = Inr example_manifest"
  by (simp add: manifest_append_def example_entry_def example_manifest_def)

lemma example_appended:
  "append_repair_commit repair_db ''n'' example_entry (replicate 40 (CHR ''d'')) ''main'' ''u'' None 0 =
     (Inr example_manifest, appended_db)"
  using append_refines [OF repair_db_facts(1), of None, unfolded example_id, OF _ repair_db_facts(4) example_input, of 0]
  by (simp add: repair_db_facts example_append appended_db_def)

lemma example_entries [simp]: "rm_entries example_manifest = [example_entry]" "\<not> rm_frozen example_manifest"
  by (simp_all add: example_manifest_def)

lemma appended_db_facts:
  "repair_stored appended_db example_triage example_mr" "stored_manifest appended_db ''n'' = Some example_manifest"
  "manifest_written appended_db ''n''"
  using saved_w_stored [OF repair_db_facts(1)] by (simp_all add: appended_db_def)

lemma example_frozen:
  "freeze_repair_commit_manifest appended_db ''n'' None ''at'' 1 = (Inr (Some (manifest_freeze ''at'' example_manifest)), frozen_db)"
  using freeze_refines [OF appended_db_facts(1), of None, unfolded example_id, OF _ appended_db_facts(3), of "''at''" 1]
  by (simp add: appended_db_facts frozen_db_def)

lemma example_history: "(manifest_step example_triage)\<^sup>*\<^sup>* repair_db frozen_db"
  using manifest_step.append [of repair_db example_triage, unfolded example_id, OF example_appended]
    manifest_step.freeze [of "''at''" appended_db example_triage, unfolded example_id, OF _ example_frozen]
  by (auto intro: converse_rtranclp_into_rtranclp)

lemma frozen_db_facts: "stored_manifest frozen_db ''n'' = Some (manifest_freeze ''at'' example_manifest)"
    "rm_frozen (manifest_freeze ''at'' example_manifest)" "rm_source_branch (manifest_freeze ''at'' example_manifest) = ''main''"
  by (simp_all add: frozen_db_def manifest_freeze_good(2), simp_all add: manifest_freeze_def example_manifest_def)

subsection \<open>Properties\<close>

text \<open>
  C24: \<open>validate_static\<close> accepts a manifest exactly when it is frozen, its identity, branch and base
  are well formed, its entries are numbered from 1 without a gap, no commit occurs twice, the first
  entry's parent is the base commit and every other entry's parent is the commit before it, and
  every entry has valid hashes and its evidence.
\<close>

theorem validate_static_exact:
  "mv_ok (validate_static m) \<longleftrightarrow>
     rm_schema_version m = 1 \<and> rm_repair_task_id m \<noteq> [] \<and> rm_project_id m \<noteq> [] \<and> rm_authorized_actor_id m \<noteq> [] \<and>
     0 < rm_mr_iid m \<and> valid_branch (rm_source_branch m) \<and> valid_sha (rm_base_commit_sha m) \<and> valid_sha (rm_base_tree_sha m) \<and>
     rm_frozen m \<and> rm_frozen_at m \<noteq> [] \<and> rm_entries m \<noteq> [] \<and>
     map ce_sequence (rm_entries m) = map int [1..<Suc (length (rm_entries m))] \<and>
     distinct (map ce_commit_sha (rm_entries m)) \<and>
     map ce_parent_sha (rm_entries m) = butlast (rm_base_commit_sha m # map ce_commit_sha (rm_entries m)) \<and>
     list_all entry_ok (rm_entries m)"
proof -
  have "map (\<lambda>i. 1 + int i) [0..<k] = map int [1..<Suc k]" for k
    by (simp add: map_Suc_upt [symmetric] del: upt_Suc)
  then show ?thesis unfolding validate_static_chain chain_from_def by simp
qed

text \<open>
  C21: on a stored repair task whose caller holds its lease, the append and freeze scripts refine
  the operations on manifest records: the reply and the manifest stored afterwards are those of
  \<open>manifest_append\<close> and \<open>manifest_freeze\<close> on the manifest stored before.
\<close>

theorem repair_manifest_refinement:
  assumes "repair_stored db t mk" "fence_ok db l" "manifest_written db (task_id t)"
    and "validate_manifest_append_input (task_id t) e base_tree branch actor = Inr ()"
  shows "(case append_repair_commit db (task_id t) e base_tree branch actor l now of (r, db') \<Rightarrow>
      (case manifest_append (task_id t) mk e base_tree branch actor (stored_manifest db (task_id t)) of
         Inl msg \<Rightarrow> r = Inl (RepairManifestConflict msg) \<and> db' = db
       | Inr m \<Rightarrow> r = Inr m \<and> stored_manifest db' (task_id t) = Some m))
    \<and> (case freeze_repair_commit_manifest db (task_id t) l at now of (r, db') \<Rightarrow>
      r = Inr (map_option (manifest_freeze at) (stored_manifest db (task_id t))) \<and>
      stored_manifest db' (task_id t) = map_option (manifest_freeze at) (stored_manifest db (task_id t)))"
proof (rule conjI)
  show "case append_repair_commit db (task_id t) e base_tree branch actor l now of (r, db') \<Rightarrow>
      (case manifest_append (task_id t) mk e base_tree branch actor (stored_manifest db (task_id t)) of
         Inl msg \<Rightarrow> r = Inl (RepairManifestConflict msg) \<and> db' = db
       | Inr m \<Rightarrow> r = Inr m \<and> stored_manifest db' (task_id t) = Some m)"
    using append_refines [OF assms] append_nonempty by (fastforce split: sum.split)
  show "case freeze_repair_commit_manifest db (task_id t) l at now of (r, db') \<Rightarrow>
      r = Inr (map_option (manifest_freeze at) (stored_manifest db (task_id t))) \<and>
      stored_manifest db' (task_id t) = map_option (manifest_freeze at) (stored_manifest db (task_id t))"
    unfolding freeze_refines [OF assms(1-3)] using assms(3)
    by (cases rule: manifest_written_cases) (simp_all add: manifest_freeze_good(2), simp add: manifest_freeze_def)
qed

theorem repair_manifest_refinement_witness:
  "\<exists>db'. append_repair_commit repair_db ''n'' example_entry (replicate 40 (CHR ''d'')) ''main'' ''u'' None 0 = (Inr example_manifest, db') \<and>
     stored_manifest db' ''n'' = Some example_manifest"
  using repair_manifest_refinement [OF repair_db_facts(1), of None, unfolded example_id, OF _ repair_db_facts(4) example_input, of 0 "''at''"]
  by (simp add: repair_db_facts example_append split: prod.splits)

text \<open>
  C22: whatever appends, freezes and other operations follow the admission of a repair task, a
  frozen manifest found in Redis passes \<open>validate_static\<close> exactly when its branch name is valid:
  the scripts never let a broken chain of commits through.
\<close>

theorem manifest_history_valid:
  assumes "repair_stored db t mk" "manifest_field db (task_id t) = []" "(manifest_step t)\<^sup>*\<^sup>* db db'"
    and "stored_manifest db' (task_id t) = Some m" "rm_frozen m"
  shows "mv_ok (validate_static m) \<longleftrightarrow> valid_branch (rm_source_branch m)"
proof -
  have inv: "manifest_inv t mk db'" using manifest_history_inv [OF assms(3) manifest_start [OF assms(1,2)]] .
  then have "manifest_good (task_id t) mk m" "rm_entries m \<noteq> []" "wf_mr mk"
    using assms(4) by (auto simp: manifest_inv_def repair_stored_def wf_task_def elim: manifest_written_cases)
  then show ?thesis using assms(5) by (auto simp: validate_static_chain manifest_good_def wf_mr_def)
qed

theorem manifest_history_valid_witness: "mv_ok (validate_static (manifest_freeze ''at'' example_manifest))"
  using manifest_history_valid [OF repair_db_facts(1), unfolded example_id, OF repair_db_facts(2) example_history frozen_db_facts(1,2)]
  by (simp add: frozen_db_facts valid_branch_def strip_def lstrip_def is_space_def startswith_def endswith_def)

text \<open>C23: a frozen manifest never changes again, whoever calls which operation in which order.\<close>

theorem frozen_manifest_final:
  assumes "manifest_inv t mk db" "stored_manifest db (task_id t) = Some m" "rm_frozen m" "(manifest_step t)\<^sup>*\<^sup>* db db'"
  shows "stored_manifest db' (task_id t) = Some m"
  using frozen_history [OF assms(4,1-3)] by simp

theorem frozen_manifest_final_witness:
  "stored_manifest (snd (append_repair_commit frozen_db ''n'' example_entry (replicate 40 (CHR ''d'')) ''main'' ''u'' None 2)) ''n'' =
     Some (manifest_freeze ''at'' example_manifest)"
proof -
  obtain r db' where step: "append_repair_commit frozen_db ''n'' example_entry (replicate 40 (CHR ''d'')) ''main'' ''u'' None 2 = (r, db')"
    by (rule prod.exhaust)
  have "manifest_inv example_triage example_mr frozen_db"
    using manifest_history_inv [OF example_history manifest_start [OF repair_db_facts(1)]] repair_db_facts(2) by simp
  moreover have "(manifest_step example_triage)\<^sup>*\<^sup>* frozen_db db'"
    using manifest_step.append [of frozen_db example_triage, unfolded example_id, OF step] by simp
  ultimately show ?thesis
    using frozen_manifest_final [of example_triage example_mr frozen_db] frozen_db_facts(1,2) step by simp
qed

text \<open>A branch name the append accepts and \<open>validate_static\<close> refuses: such a manifest can never be rolled back.\<close>

lemma append_admits_invalid_branch:
  "validate_manifest_append_input ''n'' example_entry (replicate 40 (CHR ''d'')) ''fix//x'' ''u'' = Inr () \<and> \<not> valid_branch ''fix//x''"
  by (simp add: validate_manifest_append_input_def example_entry_def full_sha_def list_all_iff strip_def lstrip_def is_space_def
      startswith_def valid_branch_def)

end
