(* ===== verification/Repair_Categories.thy ===== *)
theory Repair_Categories
  imports Models
begin

text \<open>
  The policy of a repair, as pure functions: how failed jobs are sorted into repair categories
  (\<open>triage/failure_categories.py\<close>), the items of a repair card and how they are settled against
  the jobs that still fail, and the verdict on one repair attempt (\<open>triage/repair_outcome.py\<close>).
  A job is the dictionary GitLab sends. \<open>kw\<close> stands for the keyword lists \<open>_keywords\<close> reads
  from the settings, category by category. \<open>None\<close> is a Python exception.
\<close>

subsection \<open>Records\<close>

datatype repair_item_status =
  RI_PENDING | RI_QUEUED | RI_RUNNING | RI_WAITING_PIPELINE | RI_SUCCEEDED | RI_BLOCKED | RI_FAILED | RI_RESOLVED

record failure_explanation =
  fe_job_name :: string
  fe_job_url :: string
  fe_confirmed_reason :: string
  fe_possible_reason :: string
  fe_suggested_action :: string
  fe_pipeline_id :: int
  fe_job_id :: int
  fe_trace_line :: int
  fe_confidence :: string
  fe_observed_at :: string

record repair_item =
  ri_category :: repair_category
  ri_command :: string
  ri_label :: string
  ri_display_name :: string
  ri_button_type :: string
  ri_status :: repair_item_status
  ri_task_id :: string
  ri_pipeline_id :: int
  ri_pipeline_sha :: string
  ri_result_pipeline_id :: int
  ri_result_pipeline_sha :: string
  ri_status_markdown :: string
  ri_failed_job_names :: "string list"
  ri_failure_explanations :: "failure_explanation list"

subsection \<open>Categories of failed jobs\<close>

definition CATEGORY_ORDER :: "repair_category list" where
  "CATEGORY_ORDER = [RC_FORMAT, RC_CLANG, RC_BUILD, RC_UNKNOWN]"

text \<open>Display name, command, label and button type; the Chinese texts are their UTF-8 bytes.\<close>

definition label_pipeline :: string where
  "label_pipeline =
     [CHR 0xE6, CHR 0xB5, CHR 0x81, CHR 0xE6, CHR 0xB0, CHR 0xB4, CHR 0xE7, CHR 0xBA, CHR 0xBF]"

definition label_repair_pipeline :: string where
  "label_repair_pipeline =
     [CHR 0xE4, CHR 0xBF, CHR 0xAE, CHR 0xE5, CHR 0xA4, CHR 0x8D, CHR 0xE6, CHR 0xB5, CHR 0x81, CHR 0xE6,
      CHR 0xB0, CHR 0xB4, CHR 0xE7, CHR 0xBA, CHR 0xBF]"

definition label_repair_format :: string where
  "label_repair_format =
     [CHR 0xE4, CHR 0xBF, CHR 0xAE, CHR 0xE5, CHR 0xA4, CHR 0x8D, CHR 0xE6, CHR 0xA0, CHR 0xBC, CHR 0xE5,
      CHR 0xBC, CHR 0x8F]"

definition label_repair_clang :: string where
  "label_repair_clang =
     [CHR 0xE4, CHR 0xBF, CHR 0xAE, CHR 0xE5, CHR 0xA4, CHR 0x8D, CHR 0xE9, CHR 0x9D, CHR 0x99, CHR 0xE6,
      CHR 0x80, CHR 0x81, CHR 0xE5, CHR 0x88, CHR 0x86, CHR 0xE6, CHR 0x9E, CHR 0x90, CHR 0xE9, CHR 0x97,
      CHR 0xAE, CHR 0xE9, CHR 0xA2, CHR 0x98]"

definition label_repair_build :: string where
  "label_repair_build =
     [CHR 0xE4, CHR 0xBF, CHR 0xAE, CHR 0xE5, CHR 0xA4, CHR 0x8D, CHR 0xE7, CHR 0xBC, CHR 0x96, CHR 0xE8,
      CHR 0xAF, CHR 0x91, CHR 0xE9, CHR 0x94, CHR 0x99, CHR 0xE8, CHR 0xAF, CHR 0xAF]"

definition label_repair_unknown :: string where
  "label_repair_unknown =
     [CHR 0xE8, CHR 0x87, CHR 0xAA, CHR 0xE5, CHR 0x8A, CHR 0xA8, CHR 0xE8, CHR 0xAF, CHR 0x8A, CHR 0xE6,
      CHR 0x96, CHR 0xAD, CHR 0xE4, CHR 0xBF, CHR 0xAE, CHR 0xE5, CHR 0xA4, CHR 0x8D]"

fun category_metadata :: "repair_category \<Rightarrow> string \<times> string \<times> string \<times> string" where
  "category_metadata RC_PIPELINE = (label_pipeline, ''/repair-pipeline'', label_repair_pipeline, ''primary'')"
| "category_metadata RC_FORMAT = (''Format'', ''/fix-format'', label_repair_format, ''primary'')"
| "category_metadata RC_CLANG = (''Clang'', ''/triage'', label_repair_clang, ''danger'')"
| "category_metadata RC_BUILD = (''Build'', ''/triage'', label_repair_build, ''danger'')"
| "category_metadata RC_UNKNOWN = (''Unknown'', ''/triage'', label_repair_unknown, ''danger'')"

definition new_item :: "repair_category \<Rightarrow> int \<Rightarrow> string \<Rightarrow> repair_item" where
  "new_item c pid sha =
     (case category_metadata c of (display_name, cmd, label, button_type) \<Rightarrow>
       \<lparr>ri_category = c, ri_command = cmd, ri_label = label, ri_display_name = display_name, ri_button_type = button_type,
        ri_status = RI_PENDING, ri_task_id = [], ri_pipeline_id = pid, ri_pipeline_sha = sha, ri_result_pipeline_id = 0,
        ri_result_pipeline_sha = [], ri_status_markdown = [], ri_failed_job_names = [], ri_failure_explanations = []\<rparr>)"

definition pipeline_repair_item :: "int \<Rightarrow> string \<Rightarrow> repair_item" where
  "pipeline_repair_item pid sha = new_item RC_PIPELINE pid sha"

fun KEYWORD_DEFAULTS :: "repair_category \<Rightarrow> string list" where
  "KEYWORD_DEFAULTS RC_FORMAT = [''code_format_check'', ''format'']"
| "KEYWORD_DEFAULTS RC_CLANG = [''clang'', ''clang-tidy'']"
| "KEYWORD_DEFAULTS RC_BUILD = [''build'', ''compile'', ''cmake'', ''ninja'', ''coverage'']"
| "KEYWORD_DEFAULTS _ = []"

fun keyword_setting :: "repair_category \<Rightarrow> string" where
  "keyword_setting RC_FORMAT = ''FEISHU.PIPELINE_FORMAT_JOB_KEYWORDS''"
| "keyword_setting RC_CLANG = ''FEISHU.PIPELINE_CLANG_JOB_KEYWORDS''"
| "keyword_setting RC_BUILD = ''FEISHU.PIPELINE_BUILD_JOB_KEYWORDS''"
| "keyword_setting RC_PIPELINE = ''FEISHU.PIPELINE_PIPELINE_JOB_KEYWORDS''"
| "keyword_setting RC_UNKNOWN = ''FEISHU.PIPELINE_UNKNOWN_JOB_KEYWORDS''"

text \<open>The elements of a configured value as texts; a string is a sequence of characters.\<close>

fun iterate_texts :: "json \<Rightarrow> string list option" where
  "iterate_texts (JArr xs) = those_map py_str xs"
| "iterate_texts (JStr s) = Some (map (\<lambda>c. [c]) s)"
| "iterate_texts (JObj d) = Some (map fst d)"
| "iterate_texts _ = None"

definition job_keywords :: "(string \<Rightarrow> json option) \<Rightarrow> repair_category \<Rightarrow> string list option" where
  "job_keywords settings c =
     do { values \<leftarrow> (case settings (keyword_setting c) of
                       Some v \<Rightarrow> if truthy v then iterate_texts v else Some (KEYWORD_DEFAULTS c)
                     | None \<Rightarrow> Some (KEYWORD_DEFAULTS c));
          Some (map lower (filter (\<lambda>v. strip v \<noteq> []) values)) }"

text \<open>\<open>str((job or {}).get("name") or "")\<close>; the \<open>repr\<close> of a nested value is outside the model.\<close>

definition job_name :: "dict \<Rightarrow> string" where
  "job_name job = or_else (get_str job ''name'' []) []"

definition categorize_name :: "(repair_category \<Rightarrow> string list) \<Rightarrow> string \<Rightarrow> repair_category" where
  "categorize_name kw name =
     or_else (find (\<lambda>c. list_ex (\<lambda>k. contains (lower name) k) (kw c)) [RC_FORMAT, RC_CLANG, RC_BUILD]) RC_UNKNOWN"

definition categorize_failed_job :: "(repair_category \<Rightarrow> string list) \<Rightarrow> dict \<Rightarrow> repair_category" where
  "categorize_failed_job kw job = categorize_name kw (job_name job)"

definition group_failed_jobs ::
  "(repair_category \<Rightarrow> string list) \<Rightarrow> dict list \<Rightarrow> (repair_category \<times> dict list) list"
where
  "group_failed_jobs kw jobs =
     filter (\<lambda>(c, js). js \<noteq> []) (map (\<lambda>c. (c, filter (\<lambda>j. categorize_failed_job kw j = c) jobs)) CATEGORY_ORDER)"

definition classify_failed_jobs :: "(repair_category \<Rightarrow> string list) \<Rightarrow> dict list \<Rightarrow> repair_category list" where
  "classify_failed_jobs kw jobs = map fst (group_failed_jobs kw jobs)"

subsection \<open>Repair items\<close>

definition repair_items_for_categories :: "repair_category list \<Rightarrow> int \<Rightarrow> string \<Rightarrow> repair_item list" where
  "repair_items_for_categories cs pid sha = map (\<lambda>c. new_item c pid sha) (filter (\<lambda>c. c \<in> set cs) CATEGORY_ORDER)"

definition auto_repair_job :: "(repair_category \<Rightarrow> string list) \<Rightarrow> dict \<Rightarrow> bool" where
  "auto_repair_job kw job \<longleftrightarrow>
     \<not> (categorize_failed_job kw job = RC_FORMAT \<and> dget job ''auto_repair_eligible'' = Some (JBool False))"

definition named_jobs :: "dict list \<Rightarrow> string list" where
  "named_jobs jobs = filter (\<lambda>n. n \<noteq> []) (map job_name jobs)"

definition repair_items_for_failed_jobs ::
  "(repair_category \<Rightarrow> string list) \<Rightarrow> dict list \<Rightarrow> int \<Rightarrow> string \<Rightarrow> repair_item list"
where
  "repair_items_for_failed_jobs kw jobs pid sha =
     map (\<lambda>(c, js). (new_item c pid sha)\<lparr>ri_failed_job_names := named_jobs js\<rparr>)
       (group_failed_jobs kw (filter (auto_repair_job kw) jobs))"

text \<open>\<open>{item.category: item for item in items}\<close>: the last item of a category wins.\<close>

definition by_category :: "repair_item list \<Rightarrow> repair_category \<Rightarrow> repair_item option" where
  "by_category items c = find (\<lambda>i. ri_category i = c) (rev items)"

definition format_running_markdown :: string where
  "format_running_markdown =
     [CHR 0xE6, CHR 0xA3, CHR 0x80, CHR 0xE6, CHR 0xB5, CHR 0x8B, CHR 0xE5, CHR 0x88, CHR 0xB0, CHR 0xE6,
      CHR 0xA0, CHR 0xBC, CHR 0xE5, CHR 0xBC, CHR 0x8F, CHR 0xE9, CHR 0x97, CHR 0xAE, CHR 0xE9, CHR 0xA2,
      CHR 0x98, CHR 0xEF, CHR 0xBC, CHR 0x8C, CHR 0xE6, CHR 0xAD, CHR 0xA3, CHR 0xE5, CHR 0x9C, CHR 0xA8,
      CHR 0xE8, CHR 0x87, CHR 0xAA, CHR 0xE5, CHR 0x8A, CHR 0xA8, CHR 0xE4, CHR 0xBF, CHR 0xAE, CHR 0xE5,
      CHR 0xA4, CHR 0x8D]"

definition bind_auto_format_cleanup ::
  "(repair_category \<Rightarrow> string list) \<Rightarrow> repair_item list \<Rightarrow> string \<Rightarrow> dict list \<Rightarrow> int \<Rightarrow> string \<Rightarrow> repair_item list option"
where
  "bind_auto_format_cleanup kw previous_items tid failed_jobs pid sha =
     (let found = filter (\<lambda>j. categorize_failed_job kw j = RC_FORMAT) failed_jobs;
          format_jobs = (if found = [] then [[(''name'', JStr ''code_format_check'')]] else found);
          fresh = repair_items_for_failed_jobs kw format_jobs pid sha
      in case (by_category previous_items RC_FORMAT, fresh) of
           (None, []) \<Rightarrow> None
         | (found_item, _) \<Rightarrow>
             let item = (case found_item of Some i \<Rightarrow> i | None \<Rightarrow> hd fresh)
                   \<lparr>ri_task_id := tid, ri_status := RI_RUNNING, ri_pipeline_id := pid, ri_pipeline_sha := sha,
                    ri_status_markdown := format_running_markdown, ri_failed_job_names := map job_name format_jobs\<rparr>
             in Some (List.map_filter (\<lambda>c. if c = RC_FORMAT then Some item else by_category previous_items c) CATEGORY_ORDER))"

subsection \<open>The verdict on an attempt\<close>

datatype repair_outcome = RO_SUCCESS | RO_PARTIAL_SUCCESS | RO_BLOCKED | RO_FAILED

datatype category_repair_outcome = CO_SUCCEEDED | CO_BLOCKED | CO_FAILED | CO_NOT_SELECTED | CO_UNVERIFIED

fun category_repair_outcome_value :: "category_repair_outcome \<Rightarrow> string" where
  "category_repair_outcome_value CO_SUCCEEDED = ''succeeded''"
| "category_repair_outcome_value CO_BLOCKED = ''blocked''"
| "category_repair_outcome_value CO_FAILED = ''failed''"
| "category_repair_outcome_value CO_NOT_SELECTED = ''not_selected''"
| "category_repair_outcome_value CO_UNVERIFIED = ''unverified''"

definition CategoryRepairOutcome :: "string \<Rightarrow> category_repair_outcome option" where
  "CategoryRepairOutcome =
     str_enum_of category_repair_outcome_value [CO_SUCCEEDED, CO_BLOCKED, CO_FAILED, CO_NOT_SELECTED, CO_UNVERIFIED]"

interpretation category_repair_outcome_enum:
  str_enum category_repair_outcome_value "[CO_SUCCEEDED, CO_BLOCKED, CO_FAILED, CO_NOT_SELECTED, CO_UNVERIFIED]"
proof
  fix x show "x \<in> set [CO_SUCCEEDED, CO_BLOCKED, CO_FAILED, CO_NOT_SELECTED, CO_UNVERIFIED]" by (cases x) simp_all
qed simp

record category_repair_result =
  crr_category :: string
  crr_outcome :: category_repair_outcome
  crr_selection :: string
  crr_source_failed_job_names :: "string list"
  crr_validation_failed_job_names :: "string list"
  crr_verified_repaired_job_names :: "string list"
  crr_reason :: string

definition category_repair_result_to_dict :: "category_repair_result \<Rightarrow> dict" where
  "category_repair_result_to_dict r =
     [(''category'', JStr (crr_category r)), (''outcome'', JStr (category_repair_outcome_value (crr_outcome r))),
      (''selection'', JStr (crr_selection r)), (''source_failed_job_names'', JArr (map JStr (crr_source_failed_job_names r))),
      (''validation_failed_job_names'', JArr (map JStr (crr_validation_failed_job_names r)))] @
     (if crr_verified_repaired_job_names r = [] then []
      else [(''verified_repaired_job_names'', JArr (map JStr (crr_verified_repaired_job_names r)))]) @
     [(''reason'', JStr (crr_reason r))]"

definition category_repair_result_from_dict :: "dict \<Rightarrow> category_repair_result option" where
  "category_repair_result_from_dict d =
     do { c \<leftarrow> get_str d ''category'' ''unknown'';
          oc \<leftarrow> (case dget d ''outcome'' of
                   Some v \<Rightarrow> if truthy v then enum_json CategoryRepairOutcome v else Some CO_UNVERIFIED
                 | None \<Rightarrow> Some CO_UNVERIFIED);
          sel \<leftarrow> get_str d ''selection'' ''not_selected'';
          src \<leftarrow> get_strs d ''source_failed_job_names'';
          val \<leftarrow> get_strs d ''validation_failed_job_names'';
          ver \<leftarrow> get_strs d ''verified_repaired_job_names'';
          reason \<leftarrow> get_str d ''reason'' [];
          Some \<lparr>crr_category = c, crr_outcome = oc, crr_selection = sel, crr_source_failed_job_names = src,
            crr_validation_failed_job_names = val, crr_verified_repaired_job_names = ver, crr_reason = reason\<rparr> }"

record repair_verdict =
  rv_outcome :: repair_outcome
  rv_category_results :: "category_repair_result list"
  rv_introduced_failure_categories :: "string list"
  rv_introduced_failed_job_names :: "string list"

definition stripped_names :: "string list \<Rightarrow> string list" where
  "stripped_names names = filter (\<lambda>n. n \<noteq> []) (map strip names)"

text \<open>The group of one category; \<open>_group_names\<close> keeps the groups that are not empty.\<close>

definition group_names :: "(repair_category \<Rightarrow> string list) \<Rightarrow> string list \<Rightarrow> repair_category \<Rightarrow> string list" where
  "group_names kw names c = filter (\<lambda>n. categorize_name kw n = c) (stripped_names names)"

definition verified_success :: "category_repair_result \<Rightarrow> bool" where
  "verified_success r \<longleftrightarrow> crr_selection r = ''selected'' \<and>
     (crr_outcome r = CO_SUCCEEDED \<or> (crr_outcome r \<noteq> CO_UNVERIFIED \<and> crr_verified_repaired_job_names r \<noteq> []))"

definition verified_selected_success_count :: "category_repair_result list \<Rightarrow> nat" where
  "verified_selected_success_count rs = length (filter verified_success rs)"

definition reason_still_failing :: string where
  "reason_still_failing =
     [CHR 0xE9, CHR 0xAA, CHR 0x8C, CHR 0xE8, CHR 0xAF, CHR 0x81, CHR 0xE6, CHR 0xB5, CHR 0x81, CHR 0xE6,
      CHR 0xB0, CHR 0xB4, CHR 0xE7, CHR 0xBA, CHR 0xBF, CHR 0xE4, CHR 0xBB, CHR 0x8D, CHR 0xE6, CHR 0x9C,
      CHR 0x89, CHR 0xE8, CHR 0xAF, CHR 0xA5, CHR 0xE7, CHR 0xB1, CHR 0xBB, CHR 0xE9, CHR 0x9D, CHR 0x9E,
      CHR 0xE9, CHR 0x98, CHR 0xBB, CHR 0xE5, CHR 0xA1, CHR 0x9E, CHR 0xE5, CHR 0xA4, CHR 0xB1, CHR 0xE8,
      CHR 0xB4, CHR 0xA5, CHR 0xE4, CHR 0xBB, CHR 0xBB, CHR 0xE5, CHR 0x8A, CHR 0xA1]"

definition reason_blocked :: string where
  "reason_blocked =
     [CHR 0xE5, CHR 0xBD, CHR 0x93, CHR 0xE5, CHR 0x89, CHR 0x8D, CHR 0xE7, CHR 0xB1, CHR 0xBB, CHR 0xE5,
      CHR 0x88, CHR 0xAB, CHR 0xE8, CHR 0xA2, CHR 0xAB, CHR 0xE5, CHR 0xA4, CHR 0x96, CHR 0xE9, CHR 0x83,
      CHR 0xA8, CHR 0xE4, CHR 0xBE, CHR 0x9D, CHR 0xE8, CHR 0xB5, CHR 0x96, CHR 0xE9, CHR 0x98, CHR 0xBB,
      CHR 0xE5, CHR 0xA1, CHR 0x9E]"

definition reason_unverified :: string where
  "reason_unverified =
     [CHR 0xE6, CHR 0x97, CHR 0xA0, CHR 0xE6, CHR 0xB3, CHR 0x95, CHR 0xE5, CHR 0x8F, CHR 0xAF, CHR 0xE9,
      CHR 0x9D, CHR 0xA0, CHR 0xE7, CHR 0xA1, CHR 0xAE, CHR 0xE8, CHR 0xAE, CHR 0xA4, CHR 0xE9, CHR 0xAA,
      CHR 0x8C, CHR 0xE8, CHR 0xAF, CHR 0x81, CHR 0xE6, CHR 0xB5, CHR 0x81, CHR 0xE6, CHR 0xB0, CHR 0xB4,
      CHR 0xE7, CHR 0xBA, CHR 0xBF, CHR 0xE7, CHR 0xBB, CHR 0x93, CHR 0xE6, CHR 0x9E, CHR 0x9C]"

definition reason_all_passed :: string where
  "reason_all_passed =
     [CHR 0xE6, CHR 0x89, CHR 0x80, CHR 0xE9, CHR 0x80, CHR 0x89, CHR 0xE7, CHR 0xB1, CHR 0xBB, CHR 0xE5,
      CHR 0x88, CHR 0xAB, CHR 0xE7, CHR 0x9A, CHR 0x84, CHR 0xE5, CHR 0xA4, CHR 0xB1, CHR 0xE8, CHR 0xB4,
      CHR 0xA5, CHR 0xE4, CHR 0xBB, CHR 0xBB, CHR 0xE5, CHR 0x8A, CHR 0xA1, CHR 0xE5, CHR 0xB7, CHR 0xB2,
      CHR 0xE5, CHR 0x85, CHR 0xA8, CHR 0xE9, CHR 0x83, CHR 0xA8, CHR 0xE9, CHR 0x80, CHR 0x9A, CHR 0xE8,
      CHR 0xBF, CHR 0x87]"

definition reason_format_cleanup :: string where
  "reason_format_cleanup =
     [CHR 0xE7, CHR 0xB3, CHR 0xBB, CHR 0xE7, CHR 0xBB, CHR 0x9F, CHR 0xE9, CHR 0x99, CHR 0x84, CHR 0xE5,
      CHR 0xB8, CHR 0xA6, CHR 0xE5, CHR 0xA4, CHR 0x84, CHR 0xE7, CHR 0x90, CHR 0x86, CHR 0xE7, CHR 0x9A,
      CHR 0x84, CHR 0xE6, CHR 0xA0, CHR 0xBC, CHR 0xE5, CHR 0xBC, CHR 0x8F, CHR 0xE6, CHR 0xB8, CHR 0x85,
      CHR 0xE7, CHR 0x90, CHR 0x86]"

definition reason_cleanup :: string where
  "reason_cleanup =
     [CHR 0xE7, CHR 0xB3, CHR 0xBB, CHR 0xE7, CHR 0xBB, CHR 0x9F, CHR 0xE9, CHR 0x99, CHR 0x84, CHR 0xE5,
      CHR 0xB8, CHR 0xA6, CHR 0xE5, CHR 0xA4, CHR 0x84, CHR 0xE7, CHR 0x90, CHR 0x86]"

definition reason_not_selected :: string where
  "reason_not_selected =
     [CHR 0xE6, CHR 0x9C, CHR 0xAC, CHR 0xE6, CHR 0xAC, CHR 0xA1, CHR 0xE6, CHR 0x9C, CHR 0xAA, CHR 0xE9,
      CHR 0x80, CHR 0x89, CHR 0xE6, CHR 0x8B, CHR 0xA9]"

text \<open>The outcome of a category that was worked on, from the jobs of it that still fail.\<close>

definition worked_outcome :: "string list \<Rightarrow> string list \<Rightarrow> bool \<Rightarrow> category_repair_outcome" where
  "worked_outcome nonblocked blocked reliable =
     (if nonblocked \<noteq> [] then CO_FAILED else if blocked \<noteq> [] then CO_BLOCKED
      else if \<not> reliable then CO_UNVERIFIED else CO_SUCCEEDED)"

fun selected_reason :: "category_repair_outcome \<Rightarrow> string" where
  "selected_reason CO_FAILED = reason_still_failing"
| "selected_reason CO_BLOCKED = reason_blocked"
| "selected_reason CO_UNVERIFIED = reason_unverified"
| "selected_reason _ = reason_all_passed"

definition category_result ::
  "(repair_category \<Rightarrow> string list) \<Rightarrow> (repair_category \<Rightarrow> string list) \<Rightarrow> repair_category list \<Rightarrow> repair_category list \<Rightarrow> bool \<Rightarrow>
   string list \<Rightarrow> repair_category \<Rightarrow> category_repair_result option"
where
  "category_result before after selected effective reliable blocked c =
     (let now_blocked = filter (\<lambda>n. n \<in> set blocked) (after c);
          nonblocked = filter (\<lambda>n. n \<notin> set blocked) (after c);
          worked = worked_outcome nonblocked now_blocked reliable;
          (outcome, reason, selection) =
            (if c \<in> set selected then (worked, selected_reason worked, ''selected'')
             else if c \<in> set effective then
               (worked, if c = RC_FORMAT then reason_format_cleanup else reason_cleanup, ''effective_cleanup'')
             else (CO_NOT_SELECTED, reason_not_selected, ''not_selected''))
      in if before c \<noteq> [] \<or> after c \<noteq> [] \<or> c \<in> set selected \<or> c \<in> set effective then
           Some \<lparr>crr_category = repair_category_value c, crr_outcome = outcome, crr_selection = selection,
             crr_source_failed_job_names = before c, crr_validation_failed_job_names = after c,
             crr_verified_repaired_job_names = (if reliable then filter (\<lambda>n. n \<notin> set (after c)) (before c) else []),
             crr_reason = reason\<rparr>
         else None)"

definition introduced_in ::
  "(repair_category \<Rightarrow> string list) \<Rightarrow> (repair_category \<Rightarrow> string list) \<Rightarrow> string list \<Rightarrow> repair_category \<Rightarrow> bool"
where
  "introduced_in before after blocked c \<longleftrightarrow>
     after c \<noteq> [] \<and> before c = [] \<and> list_ex (\<lambda>n. n \<notin> set blocked) (after c)"

definition aggregate_outcome :: "category_repair_result list \<Rightarrow> string list \<Rightarrow> repair_outcome" where
  "aggregate_outcome results introduced =
     (let selected_results = filter (\<lambda>r. crr_selection r = ''selected'') results;
          fully_succeeded = length (filter (\<lambda>r. crr_outcome r = CO_SUCCEEDED) selected_results)
      in if introduced \<noteq> [] then RO_FAILED
         else if selected_results \<noteq> [] \<and> fully_succeeded = length selected_results then RO_SUCCESS
         else if verified_selected_success_count selected_results \<noteq> 0 then RO_PARTIAL_SUCCESS
         else if selected_results \<noteq> [] \<and> list_all (\<lambda>r. crr_outcome r = CO_BLOCKED) selected_results then RO_BLOCKED
         else RO_FAILED)"

definition evaluate_repair_outcome ::
  "(repair_category \<Rightarrow> string list) \<Rightarrow> string list \<Rightarrow> dict list \<Rightarrow> string list \<Rightarrow> string list \<Rightarrow> bool \<Rightarrow> string list \<Rightarrow> repair_verdict option"
where
  "evaluate_repair_outcome kw source_names validation_jobs selected_categories effective_categories reliable blocked_names =
     do { selected \<leftarrow> those_map RepairCategory selected_categories;
          given \<leftarrow> those_map RepairCategory effective_categories;
          let effective = (if given = [] then selected else given);
              before = group_names kw source_names;
              after = group_names kw (map job_name validation_jobs);
              blocked = stripped_names blocked_names;
              introduced = filter (introduced_in before after blocked) CATEGORY_ORDER;
              introduced_names = concat (map (\<lambda>c. filter (\<lambda>n. n \<notin> set blocked) (after c)) introduced);
              results = List.map_filter (category_result before after selected effective reliable blocked) CATEGORY_ORDER in
          Some \<lparr>rv_outcome = aggregate_outcome results introduced_names, rv_category_results = results,
            rv_introduced_failure_categories = map repair_category_value introduced,
            rv_introduced_failed_job_names = introduced_names\<rparr> }"

subsection \<open>Settling the items of a card\<close>

definition markdown_still_failing :: string where
  "markdown_still_failing =
     [CHR 0xE6, CHR 0xB5, CHR 0x81, CHR 0xE6, CHR 0xB0, CHR 0xB4, CHR 0xE7, CHR 0xBA, CHR 0xBF, CHR 0xE4,
      CHR 0xBB, CHR 0x8D, CHR 0xE6, CHR 0x9C, CHR 0x89, CHR 0xE8, CHR 0xAF, CHR 0xA5, CHR 0xE7, CHR 0xB1,
      CHR 0xBB, CHR 0xE5, CHR 0xA4, CHR 0xB1, CHR 0xE8, CHR 0xB4, CHR 0xA5, CHR 0xE4, CHR 0xBB, CHR 0xBB,
      CHR 0xE5, CHR 0x8A, CHR 0xA1]"

definition markdown_passed :: string where
  "markdown_passed =
     [CHR 0xE6, CHR 0x9C, CHR 0x80, CHR 0xE6, CHR 0x96, CHR 0xB0, CHR 0xE6, CHR 0xB5, CHR 0x81, CHR 0xE6,
      CHR 0xB0, CHR 0xB4, CHR 0xE7, CHR 0xBA, CHR 0xBF, CHR 0xE5, CHR 0xB7, CHR 0xB2, CHR 0xE9, CHR 0x80,
      CHR 0x9A, CHR 0xE8, CHR 0xBF, CHR 0x87]"

definition markdown_passed_too :: string where
  "markdown_passed_too =
     [CHR 0xE5, CHR 0xB7, CHR 0xB2, CHR 0xE9, CHR 0x9A, CHR 0x8F, CHR 0xE6, CHR 0x9C, CHR 0xAC, CHR 0xE6,
      CHR 0xAC, CHR 0xA1, CHR 0xE4, CHR 0xBF, CHR 0xAE, CHR 0xE5, CHR 0xA4, CHR 0x8D, CHR 0xE9, CHR 0x80,
      CHR 0x9A, CHR 0xE8, CHR 0xBF, CHR 0x87]"

definition explain :: "failure_explanation list \<Rightarrow> string list \<Rightarrow> failure_explanation list" where
  "explain explanations names = List.map_filter (\<lambda>n. find (\<lambda>x. fe_job_name x = n) (rev explanations)) names"

definition reconcile_item ::
  "repair_item \<Rightarrow> repair_item option \<Rightarrow> category_repair_result option \<Rightarrow> bool \<Rightarrow> string \<Rightarrow> failure_explanation list \<Rightarrow> repair_item"
where
  "reconcile_item item latest result worked error explanations =
     (if map_option crr_outcome result = Some CO_BLOCKED then
        let names = (case latest of Some l \<Rightarrow> ri_failed_job_names l | None \<Rightarrow> ri_failed_job_names item) in
        item\<lparr>ri_status := RI_BLOCKED, ri_status_markdown := reason_blocked, ri_failed_job_names := names,
             ri_failure_explanations := explain explanations names\<rparr>
      else case latest of
        Some l \<Rightarrow>
          item\<lparr>ri_status := (if worked then RI_FAILED else RI_PENDING),
               ri_status_markdown := (if worked then (if error \<noteq> [] then error else markdown_still_failing) else []),
               ri_failed_job_names := ri_failed_job_names l,
               ri_failure_explanations := explain explanations (ri_failed_job_names l)\<rparr>
      | None \<Rightarrow>
          item\<lparr>ri_status := (if worked then RI_SUCCEEDED else RI_RESOLVED),
               ri_status_markdown := (if worked then markdown_passed else markdown_passed_too),
               ri_failure_explanations := []\<rparr>)"

definition reconcile_batch_repair_items ::
  "(repair_category \<Rightarrow> string list) \<Rightarrow> repair_item list \<Rightarrow> string list \<Rightarrow> string list \<Rightarrow> dict list \<Rightarrow> int \<Rightarrow> string \<Rightarrow> string \<Rightarrow>
   failure_explanation list \<Rightarrow> category_repair_result list \<Rightarrow> int option \<Rightarrow> string option \<Rightarrow> repair_item list option"
where
  "reconcile_batch_repair_items kw previous_items selected_categories effective_categories failed_jobs pid sha error
     explanations results result_pid result_sha =
     do { selected \<leftarrow> those_map RepairCategory selected_categories;
          given \<leftarrow> those_map RepairCategory effective_categories;
          let effective = (if given = [] then selected else given);
              previous = by_category (filter (\<lambda>i. ri_category i \<noteq> RC_PIPELINE) previous_items);
              latest = by_category (repair_items_for_failed_jobs kw failed_jobs pid sha);
              result_of = (\<lambda>c. find (\<lambda>r. crr_category r = repair_category_value c) (rev results));
              categories = filter (\<lambda>c. previous c \<noteq> None \<or> latest c \<noteq> None \<or> c \<in> set selected \<or> c \<in> set effective) CATEGORY_ORDER;
              item_of = (\<lambda>c. case previous c of Some i \<Rightarrow> i | None \<Rightarrow> or_else (latest c) (new_item c pid sha)) in
          Some (map (\<lambda>c. (reconcile_item (item_of c) (latest c) (result_of c) (c \<in> set effective) error explanations)
                  \<lparr>ri_pipeline_id := pid, ri_pipeline_sha := sha, ri_result_pipeline_id := or_else result_pid pid,
                   ri_result_pipeline_sha := or_else result_sha sha\<rparr>) categories) }"

definition reconcile_repair_items ::
  "repair_item list \<Rightarrow> string \<Rightarrow> string list \<Rightarrow> int \<Rightarrow> string \<Rightarrow> string \<Rightarrow> repair_item list option"
where
  "reconcile_repair_items previous_items target_category failed_categories pid sha target_error =
     do { target \<leftarrow> RepairCategory target_category;
          remaining \<leftarrow> those_map RepairCategory failed_categories;
          let previous = by_category previous_items;
              categories = filter (\<lambda>c. previous c \<noteq> None \<or> c \<in> set remaining) CATEGORY_ORDER in
          Some (map (\<lambda>c. (or_else (previous c) (new_item c pid sha))
                  \<lparr>ri_status := (if c \<in> set remaining then (if c = target then RI_FAILED else RI_PENDING)
                                 else (if c = target then RI_SUCCEEDED else RI_RESOLVED)),
                   ri_result_pipeline_id := pid, ri_result_pipeline_sha := sha,
                   ri_status_markdown := (if c = target then target_error else [])\<rparr>) categories) }"

subsection \<open>The steps of a pipeline repair\<close>

datatype pipeline_repair_step = PS_TRIAGE | PS_FORMAT | PS_TERMINAL

definition initial_repair_step :: "string list \<Rightarrow> pipeline_repair_step option" where
  "initial_repair_step categories =
     do { cs \<leftarrow> those_map RepairCategory categories;
          Some (if cs \<noteq> [] \<and> list_all (\<lambda>c. c = RC_FORMAT) cs then PS_FORMAT else PS_TRIAGE) }"

definition next_step_after_triage :: "string list \<Rightarrow> pipeline_repair_step option" where
  "next_step_after_triage categories =
     do { cs \<leftarrow> those_map RepairCategory categories; Some (if RC_FORMAT \<in> set cs then PS_FORMAT else PS_TERMINAL) }"

subsection \<open>Lemmas\<close>

lemma order_iff: "c \<in> set CATEGORY_ORDER \<longleftrightarrow> c \<noteq> RC_PIPELINE"
  by (cases c) (simp_all add: CATEGORY_ORDER_def)

lemma categorize_order: "categorize_name kw n \<noteq> RC_PIPELINE"
  by (auto simp: categorize_name_def)

lemma RepairCategory_iff: "RepairCategory s = Some c \<longleftrightarrow> repair_category_value c = s"
  by (simp add: RepairCategory_def repair_category_enum.of_value_iff)

lemma those_categories: "those_map RepairCategory ss = Some cs \<Longrightarrow> ss = map repair_category_value cs"
  by (induction ss arbitrary: cs) (auto simp: bind_eq_Some_conv RepairCategory_iff)

lemma category_value_in: "repair_category_value c \<in> repair_category_value ` S \<longleftrightarrow> c \<in> S"
  by (auto simp: repair_category_enum.value_inject)

lemma ri_category_new [simp]: "ri_category (new_item c pid sha) = c"
  by (cases c) (simp_all add: new_item_def)

lemma by_category_some: "by_category items c = Some i \<Longrightarrow> ri_category i = c"
  by (auto simp: by_category_def find_Some_iff)

lemma latest_item:
  assumes "c \<noteq> RC_PIPELINE"
  shows "by_category (repair_items_for_failed_jobs kw jobs pid sha) c =
    (let js = filter (\<lambda>j. categorize_failed_job kw j = c) (filter (auto_repair_job kw) jobs) in
     if js = [] then None else Some ((new_item c pid sha)\<lparr>ri_failed_job_names := named_jobs js\<rparr>))"
  using assms
  by (cases c) (simp_all add: by_category_def repair_items_for_failed_jobs_def group_failed_jobs_def CATEGORY_ORDER_def Let_def)

lemma reconcile_item_facts:
  "ri_category (reconcile_item item latest result worked error explanations) = ri_category item"
  "ri_status (reconcile_item item (Some l) result worked error explanations) \<in> {RI_FAILED, RI_PENDING, RI_BLOCKED}"
  "ri_failed_job_names (reconcile_item item (Some l) result worked error explanations) = ri_failed_job_names l"
  by (auto simp: reconcile_item_def Let_def split: option.split)

lemma category_result_selected:
  "category_result before after selected effective reliable blocked c = Some r \<Longrightarrow>
     crr_selection r = ''selected'' \<longleftrightarrow> c \<in> set selected"
  "c \<in> set selected \<Longrightarrow> \<exists>r. category_result before after selected effective reliable blocked c = Some r \<and>
     (crr_outcome r = CO_SUCCEEDED \<longleftrightarrow> after c = [] \<and> reliable)"
  by (auto simp: category_result_def worked_outcome_def Let_def filter_empty_conv split: if_splits)

lemma selected_results:
  "filter (\<lambda>r. crr_selection r = ''selected'') (List.map_filter (category_result before after selected effective reliable blocked) cs) =
   List.map_filter (category_result before after selected effective reliable blocked) (filter (\<lambda>c. c \<in> set selected) cs)"
  using category_result_selected by (induction cs) (auto simp: List.map_filter_def)

lemma length_filter_full: "length (filter P xs) = length xs \<longleftrightarrow> list_all P xs"
  using length_filter_less [of _ xs P] by (fastforce simp: list_all_iff)

lemma aggregate_success_iff:
  "aggregate_outcome results introduced = RO_SUCCESS \<longleftrightarrow>
     introduced = [] \<and> filter (\<lambda>r. crr_selection r = ''selected'') results \<noteq> [] \<and>
     list_all (\<lambda>r. crr_outcome r = CO_SUCCEEDED) (filter (\<lambda>r. crr_selection r = ''selected'') results)"
proof -
  define sel where "sel = filter (\<lambda>r. crr_selection r = ''selected'') results"
  show ?thesis unfolding aggregate_outcome_def Let_def length_filter_full sel_def [symmetric] by auto
qed

lemma aggregate_success:
  "aggregate_outcome (List.map_filter (category_result before after selected effective reliable blocked) CATEGORY_ORDER) introduced =
     RO_SUCCESS \<longleftrightarrow>
   introduced = [] \<and> (\<exists>c\<in>set selected. c \<noteq> RC_PIPELINE) \<and> (\<forall>c\<in>set selected. c \<noteq> RC_PIPELINE \<longrightarrow> after c = [] \<and> reliable)"
proof -
  let ?f = "category_result before after selected effective reliable blocked"
  let ?cs = "filter (\<lambda>c. c \<in> set selected) CATEGORY_ORDER"
  have "list_all (\<lambda>r. crr_outcome r = CO_SUCCEEDED) (List.map_filter ?f cs) \<longleftrightarrow> list_all (\<lambda>c. after c = [] \<and> reliable) cs"
    if "set cs \<subseteq> set selected" for cs
    using that
  proof (induction cs)
    case (Cons c cs)
    then show ?case
      using category_result_selected(2) [of c selected before after effective reliable blocked] by (auto simp: List.map_filter_def)
  qed (simp add: List.map_filter_def)
  moreover have "List.map_filter ?f cs = [] \<longleftrightarrow> cs = []" if "set cs \<subseteq> set selected" for cs
    using that
  proof (cases cs)
    case (Cons c cs')
    then show ?thesis
      using that category_result_selected(2) [of c selected before after effective reliable blocked] by (auto simp: List.map_filter_def)
  qed (simp add: List.map_filter_def)
  ultimately have "aggregate_outcome (List.map_filter ?f CATEGORY_ORDER) introduced = RO_SUCCESS \<longleftrightarrow>
      introduced = [] \<and> ?cs \<noteq> [] \<and> list_all (\<lambda>c. after c = [] \<and> reliable) ?cs"
    unfolding aggregate_success_iff selected_results by (metis (mono_tags, lifting) mem_Collect_eq set_filter subsetI)
  then show ?thesis by (auto simp: filter_empty_conv list_all_iff order_iff)
qed

lemma category_result_look:
  fixes r :: category_repair_result
  defines "d \<equiv> category_repair_result_to_dict r"
  shows "dget d ''category'' = Some (JStr (crr_category r))" "dget d ''outcome'' = Some (JStr (category_repair_outcome_value (crr_outcome r)))"
    "dget d ''selection'' = Some (JStr (crr_selection r))" "dget d ''reason'' = Some (JStr (crr_reason r))"
    "dget d ''source_failed_job_names'' = Some (JArr (map JStr (crr_source_failed_job_names r)))"
    "dget d ''validation_failed_job_names'' = Some (JArr (map JStr (crr_validation_failed_job_names r)))"
    "dget d ''verified_repaired_job_names'' =
       (if crr_verified_repaired_job_names r = [] then None else Some (JArr (map JStr (crr_verified_repaired_job_names r))))"
  by (simp_all add: d_def category_repair_result_to_dict_def dget_def)

lemma those_strs [simp]: "those_map py_str (map JStr xs) = Some xs"
  by (induction xs) simp_all

lemma category_repair_result_from_to_dict:
  "crr_category r \<noteq> [] \<Longrightarrow> crr_selection r \<noteq> [] \<Longrightarrow>
   category_repair_result_from_dict (category_repair_result_to_dict r) = Some r"
  by (cases "crr_outcome r")
     (simp_all add: category_repair_result_from_dict_def read_defs category_result_look enum_json_def CategoryRepairOutcome_def
        category_repair_outcome_enum.of_value [simplified] str_enum_of_def)

lemma introduced_iff:
  "n \<in> set (concat (map (\<lambda>c. filter (\<lambda>n. n \<notin> set blocked) (group_names kw after c))
       (filter (introduced_in (group_names kw before) (group_names kw after) blocked) CATEGORY_ORDER))) \<longleftrightarrow>
   n \<in> set (stripped_names after) \<and> n \<notin> set blocked \<and> group_names kw before (categorize_name kw n) = []"
  using categorize_order [of kw n]
  by (auto simp: group_names_def introduced_in_def list_ex_iff order_iff filter_empty_conv)

definition settled_item ::
  "(repair_category \<Rightarrow> string list) \<Rightarrow> repair_item list \<Rightarrow> repair_category list \<Rightarrow> dict list \<Rightarrow> int \<Rightarrow> string \<Rightarrow> string \<Rightarrow>
   failure_explanation list \<Rightarrow> category_repair_result list \<Rightarrow> int option \<Rightarrow> string option \<Rightarrow> repair_category \<Rightarrow> repair_item"
where
  "settled_item kw previous_items effective jobs pid sha error explanations results rpid rsha c =
     (let previous = by_category (filter (\<lambda>i. ri_category i \<noteq> RC_PIPELINE) previous_items);
          latest = by_category (repair_items_for_failed_jobs kw jobs pid sha) in
      (reconcile_item (case previous c of Some i \<Rightarrow> i | None \<Rightarrow> or_else (latest c) (new_item c pid sha)) (latest c)
         (find (\<lambda>r. crr_category r = repair_category_value c) (rev results)) (c \<in> set effective) error explanations)
      \<lparr>ri_pipeline_id := pid, ri_pipeline_sha := sha, ri_result_pipeline_id := or_else rpid pid,
       ri_result_pipeline_sha := or_else rsha sha\<rparr>)"

lemma reconcile_shape:
  assumes "those_map RepairCategory selected = Some sel" "those_map RepairCategory effective = Some given"
  shows "reconcile_batch_repair_items kw previous selected effective jobs pid sha error explanations results rpid rsha =
    Some (map (settled_item kw previous (if given = [] then sel else given) jobs pid sha error explanations results rpid rsha)
      (filter (\<lambda>c. by_category (filter (\<lambda>i. ri_category i \<noteq> RC_PIPELINE) previous) c \<noteq> None \<or>
          by_category (repair_items_for_failed_jobs kw jobs pid sha) c \<noteq> None \<or> c \<in> set sel \<or>
          c \<in> set (if given = [] then sel else given)) CATEGORY_ORDER))"
  unfolding reconcile_batch_repair_items_def assms settled_item_def Let_def bind.simps ..

lemma settled_item_category: "ri_category (settled_item kw previous effective jobs pid sha error explanations results rpid rsha c) = c"
  using by_category_some
  by (auto simp: settled_item_def Let_def reconcile_item_facts or_else_def split: option.split)

lemma settled_item_failing:
  assumes "by_category (repair_items_for_failed_jobs kw jobs pid sha) c = Some l"
  shows "ri_status (settled_item kw previous effective jobs pid sha error explanations results rpid rsha c) \<in> {RI_FAILED, RI_PENDING, RI_BLOCKED}"
    "ri_failed_job_names (settled_item kw previous effective jobs pid sha error explanations results rpid rsha c) = ri_failed_job_names l"
  using assms reconcile_item_facts(2,3) by (simp_all add: settled_item_def Let_def del: insert_iff)

subsection \<open>Properties\<close>

text \<open>
  C25: a repair attempt is judged successful exactly when the validation result is reliable, at
  least one category was selected, no job of a selected category still fails, and no failure was
  introduced; and the introduced failures are exactly the non-blocked failing jobs of categories
  that had no failing job before.
\<close>

theorem evaluate_repair_outcome_exact:
  assumes "evaluate_repair_outcome kw source_names jobs selected effective reliable blocked = Some v"
  shows "(rv_outcome v = RO_SUCCESS \<longleftrightarrow>
      rv_introduced_failed_job_names v = [] \<and> reliable \<and>
      (\<exists>c. c \<noteq> RC_PIPELINE \<and> repair_category_value c \<in> set selected) \<and>
      (\<forall>c. c \<noteq> RC_PIPELINE \<and> repair_category_value c \<in> set selected \<longrightarrow> group_names kw (map job_name jobs) c = [])) \<and>
    (n \<in> set (rv_introduced_failed_job_names v) \<longleftrightarrow>
      n \<in> set (stripped_names (map job_name jobs)) \<and> n \<notin> set (stripped_names blocked) \<and>
      group_names kw source_names (categorize_name kw n) = [])"
proof -
  obtain sel eff where sel: "those_map RepairCategory selected = Some sel" "those_map RepairCategory effective = Some eff"
    using assms by (auto simp: evaluate_repair_outcome_def bind_eq_Some_conv)
  note v = assms [unfolded evaluate_repair_outcome_def sel Let_def, simplified, symmetric]
  have "repair_category_value c \<in> set selected \<longleftrightarrow> c \<in> set sel" for c
    using those_categories [OF sel(1)] by (simp add: category_value_in)
  then show ?thesis using introduced_iff unfolding v by (auto simp: aggregate_success)
qed

definition default_keywords :: "repair_category \<Rightarrow> string list" where
  "default_keywords c = or_else (job_keywords (\<lambda>_. None) c) []"

theorem evaluate_repair_outcome_exact_witness:
  "\<exists>v. evaluate_repair_outcome default_keywords [''build''] [] [''build''] [] True [] = Some v \<and> rv_outcome v = RO_SUCCESS"
proof -
  have some: "\<exists>v. evaluate_repair_outcome default_keywords [''build''] [] [''build''] [] True [] = Some v"
    by (simp add: evaluate_repair_outcome_def RepairCategory_def str_enum_of_def RepairCategory_members_def Let_def)
  then obtain v where v: "evaluate_repair_outcome default_keywords [''build''] [] [''build''] [] True [] = Some v" ..
  then have "rv_introduced_failed_job_names v = []"
    by (auto simp: evaluate_repair_outcome_def bind_eq_Some_conv Let_def group_names_def stripped_names_def introduced_in_def)
  then have "rv_outcome v = RO_SUCCESS"
    using evaluate_repair_outcome_exact [OF v] exI [of "\<lambda>c. c \<noteq> RC_PIPELINE \<and> repair_category_value c = ''build''" RC_BUILD]
    by (simp add: group_names_def stripped_names_def)
  then show ?thesis using v by blast
qed

text \<open>
  Settling the items of a card loses no failure: every failing job a repair may work on is
  listed in an item of its category that is failed, pending or blocked, and an item shown as
  succeeded or resolved has no such job.
\<close>

theorem reconcile_keeps_failures:
  assumes "reconcile_batch_repair_items kw previous selected effective jobs pid sha error explanations results rpid rsha = Some items"
    and "j \<in> set jobs" "auto_repair_job kw j" "job_name j \<noteq> []"
  shows "(\<exists>i\<in>set items. ri_category i = categorize_failed_job kw j \<and> job_name j \<in> set (ri_failed_job_names i) \<and>
        ri_status i \<in> {RI_FAILED, RI_PENDING, RI_BLOCKED}) \<and>
    (\<forall>i\<in>set items. ri_status i \<in> {RI_SUCCEEDED, RI_RESOLVED} \<longrightarrow> ri_category i \<noteq> categorize_failed_job kw j)"
proof -
  let ?c = "categorize_failed_job kw j"
  let ?latest = "by_category (repair_items_for_failed_jobs kw jobs pid sha)"
  have c: "?c \<noteq> RC_PIPELINE" "?c \<in> set CATEGORY_ORDER"
    using categorize_order by (simp_all add: categorize_failed_job_def order_iff)
  let ?js = "filter (\<lambda>j'. categorize_failed_job kw j' = ?c) (filter (auto_repair_job kw) jobs)"
  have "j \<in> set ?js" using assms by simp
  then have "?js \<noteq> []" by (metis empty_iff empty_set)
  then have "?latest ?c = Some ((new_item ?c pid sha)\<lparr>ri_failed_job_names := named_jobs ?js\<rparr>)"
    unfolding latest_item [OF c(1)] Let_def by (rule if_not_P)
  moreover have "job_name j \<in> set (named_jobs ?js)" using assms by (simp add: named_jobs_def)
  ultimately obtain l where l: "?latest ?c = Some l" "job_name j \<in> set (ri_failed_job_names l)" by simp
  obtain sel given where "those_map RepairCategory selected = Some sel" "those_map RepairCategory effective = Some given"
    using assms(1) by (auto simp: reconcile_batch_repair_items_def bind_eq_Some_conv)
  note items = assms(1) [unfolded reconcile_shape [OF this], simplified, symmetric]
  show ?thesis
    using settled_item_failing [OF l(1), of previous "if given = [] then sel else given" error explanations results rpid rsha] l(1,2) c(2)
    unfolding items by (auto simp: settled_item_category simp del: insert_iff)
qed

theorem reconcile_keeps_failures_witness:
  "\<exists>items. reconcile_batch_repair_items default_keywords [] [''build''] [] [[(''name'', JStr ''build'')]] 7 ''s'' [] [] [] None None = Some items \<and>
     (\<exists>i\<in>set items. ''build'' \<in> set (ri_failed_job_names i) \<and> ri_status i \<in> {RI_FAILED, RI_PENDING, RI_BLOCKED})"
proof -
  have "\<exists>items. reconcile_batch_repair_items default_keywords [] [''build''] [] [[(''name'', JStr ''build'')]] 7 ''s'' [] [] [] None None = Some items"
    by (simp add: reconcile_batch_repair_items_def RepairCategory_def str_enum_of_def RepairCategory_members_def Let_def)
  then obtain items where items: "reconcile_batch_repair_items default_keywords [] [''build''] [] [[(''name'', JStr ''build'')]] 7 ''s'' [] [] []
      None None = Some items" ..
  have "job_name [(''name'', JStr ''build'')] = ''build''" "auto_repair_job default_keywords [(''name'', JStr ''build'')]"
    by (simp_all add: job_name_def get_str_def dget_def auto_repair_job_def)
  then show ?thesis
    using reconcile_keeps_failures [OF items, of "[(''name'', JStr ''build'')]"] items by (auto simp del: insert_iff)
qed

end
