(* ===== verification/Pipeline_Policy.thy ===== *)
theory Pipeline_Policy
  imports Complex_Main Repair_Manifest Repair_Categories
begin

text \<open>
  What the runtime concludes from GitLab pipelines: the failed jobs of a pipeline and the
  pipelines below it (\<open>collect_failed_jobs\<close>), whether a pipeline is still the current one of its
  merge request (\<open>pipeline_freshness.py\<close>), whether a group of pipelines has finished
  (\<open>pipeline_completion.py\<close>), which pipeline validated a repair (\<open>repair_result_identity.py\<close>) and
  whether a coverage round may follow (\<open>coverage_continuation.py\<close>). GitLab is an argument;
  \<open>None\<close> is a Python exception.
\<close>

subsection \<open>Failed jobs of a pipeline tree\<close>

definition failed_job :: "dict \<Rightarrow> bool option" where
  "failed_job job = map_option (\<lambda>s. lower s = ''failed'') (get_str job ''status'' [])"

text \<open>The id of the pipeline a bridge triggered: absent or zero when there is none.\<close>

definition downstream_id :: "dict \<Rightarrow> int option option" where
  "downstream_id bridge =
     (case dget bridge ''downstream_pipeline'' of
        Some (JObj d) \<Rightarrow> if get_bool d ''id'' then map_option Some (get_int d ''id'' 0) else Some None
      | _ \<Rightarrow> Some None)"

text \<open>
  \<open>api p\<close> gives the jobs and the bridges of pipeline \<open>p\<close>. The pipelines visited are threaded
  through the calls as the shared set of the source is. A call goes one level deeper only with a
  pipeline more in that set, which is bounded by 21, so 22 levels of fuel are enough.
\<close>

fun collect_from :: "(int \<Rightarrow> (dict list \<times> dict list) option) \<Rightarrow> nat \<Rightarrow> int \<Rightarrow> int list \<Rightarrow> (dict list \<times> int list) option"
  and collect_below :: "(int \<Rightarrow> (dict list \<times> dict list) option) \<Rightarrow> nat \<Rightarrow> dict list \<Rightarrow> int list \<Rightarrow> (dict list \<times> int list) option"
where
  "collect_from api 0 pid visited = None"
| "collect_from api (Suc n) pid visited =
     (if pid \<in> set visited \<or> 20 < length visited then Some ([], visited) else
      do { (jobs, bridges) \<leftarrow> api pid;
           failed \<leftarrow> filter_option failed_job jobs;
           (below, visited') \<leftarrow> collect_below api n bridges (pid # visited);
           Some (failed @ below, visited') })"
| "collect_below api n [] visited = Some ([], visited)"
| "collect_below api n (b # bs) visited =
     do { child \<leftarrow> downstream_id b;
          (here, visited') \<leftarrow> (case child of None \<Rightarrow> Some ([], visited) | Some c \<Rightarrow> collect_from api n c visited);
          (rest, visited'') \<leftarrow> collect_below api n bs visited';
          Some (here @ rest, visited'') }"

definition collect_failed_jobs :: "(int \<Rightarrow> (dict list \<times> dict list) option) \<Rightarrow> int \<Rightarrow> dict list option" where
  "collect_failed_jobs api pid = map_option fst (collect_from api 22 pid [])"

subsection \<open>Freshness\<close>

datatype pipeline_freshness_state = FR_CURRENT | FR_STALE_HEAD | FR_STALE_PIPELINE | FR_UNKNOWN

record pipeline_freshness =
  pf_state :: pipeline_freshness_state
  pf_head_sha :: string
  pf_latest_pipeline_id :: int
  pf_latest_pipeline_status :: string
  pf_reason :: string

definition freshness_current :: "pipeline_freshness \<Rightarrow> bool" where
  "freshness_current f \<longleftrightarrow> pf_state f = FR_CURRENT"

definition freshness_unknown :: "string \<Rightarrow> string \<Rightarrow> pipeline_freshness" where
  "freshness_unknown head reason =
     \<lparr>pf_state = FR_UNKNOWN, pf_head_sha = head, pf_latest_pipeline_id = 0, pf_latest_pipeline_status = [], pf_reason = reason\<rparr>"

definition extract_head_sha :: "dict \<Rightarrow> string option" where
  "extract_head_sha d =
     (if get_bool d ''sha'' then get_str d ''sha'' []
      else case dget d ''diff_refs'' of Some (JObj refs) \<Rightarrow> get_str refs ''head_sha'' [] | _ \<Rightarrow> Some [])"

text \<open>
  The answer to a request: none or one that is not \<open>ok\<close> or has no JSON body, or the body. A
  request is numbered within the attempts for its path, since a repeated one may be answered
  differently.
\<close>

datatype api_response = AR_FAILED | AR_JSON json

fun request_attempts :: "(nat \<Rightarrow> api_response) \<Rightarrow> nat \<Rightarrow> nat \<Rightarrow> json option" where
  "request_attempts response i 0 = None"
| "request_attempts response i (Suc n) =
     (case response i of AR_FAILED \<Rightarrow> request_attempts response (Suc i) n | AR_JSON j \<Rightarrow> Some j)"

definition request_json :: "(nat \<Rightarrow> api_response) \<Rightarrow> int \<Rightarrow> json option" where
  "request_json response attempts = request_attempts response 0 (nat (max 1 attempts))"

definition mr_path :: "string \<Rightarrow> int \<Rightarrow> string" where
  "mr_path project mr_iid = ''/api/v4/projects/'' @ quote project @ ''/merge_requests/'' @ show_int mr_iid"

definition top_level_pipeline :: "string \<Rightarrow> dict \<Rightarrow> bool option" where
  "top_level_pipeline sha item =
     do { src \<leftarrow> get_str item ''source'' [];
          if src = ''parent_pipeline'' then Some False else
          do { s \<leftarrow> get_str item ''sha'' sha; Some (s = sha) } }"

definition dicts :: "json list \<Rightarrow> dict list" where
  "dicts xs = List.map_filter (\<lambda>x. case x of JObj d \<Rightarrow> Some d | _ \<Rightarrow> None) xs"

text \<open>\<open>max(items, key=...)\<close>: the first item with the greatest id.\<close>

fun latest_pipeline :: "dict list \<Rightarrow> (int \<times> dict) option" where
  "latest_pipeline [] = None"
| "latest_pipeline [p] = map_option (\<lambda>n. (n, p)) (get_int p ''id'' 0)"
| "latest_pipeline (p # ps) =
     do { n \<leftarrow> get_int p ''id'' 0; (m, q) \<leftarrow> latest_pipeline ps; Some (if m > n then (m, q) else (n, p)) }"

text \<open>The verdict once the pipeline's commit is known to be the head commit, from the listing of pipelines.\<close>

definition judge_pipelines :: "string \<Rightarrow> string \<Rightarrow> int \<Rightarrow> json option \<Rightarrow> pipeline_freshness option" where
  "judge_pipelines head_sha sha pid listing =
     (case listing of
        Some (JArr xs) \<Rightarrow>
          do { top_level \<leftarrow> filter_option (top_level_pipeline sha) (dicts xs);
               if top_level = [] then Some (freshness_unknown head_sha ''pipeline_missing'') else
               do { (latest_id, latest) \<leftarrow> latest_pipeline top_level;
                    if latest_id \<le> 0 then Some (freshness_unknown head_sha ''pipeline_id_missing'') else
                    do { st \<leftarrow> get_str latest ''status'' [];
                         Some \<lparr>pf_state = (if latest_id = pid then FR_CURRENT else FR_STALE_PIPELINE), pf_head_sha = head_sha,
                           pf_latest_pipeline_id = latest_id, pf_latest_pipeline_status = st,
                           pf_reason = (if latest_id = pid then [] else ''newer_pipeline_exists'')\<rparr> } } }
      | _ \<Rightarrow> Some (freshness_unknown head_sha ''pipeline_lookup_failed''))"

definition check_pipeline_freshness ::
  "(string \<Rightarrow> nat \<Rightarrow> api_response) \<Rightarrow> string \<Rightarrow> int \<Rightarrow> int \<Rightarrow> string \<Rightarrow> dict \<Rightarrow> int \<Rightarrow> pipeline_freshness option"
where
  "check_pipeline_freshness api_get project mr_iid pid sha mr_payload attempts =
     do { given \<leftarrow> extract_head_sha mr_payload;
          looked \<leftarrow>
            (if given \<noteq> [] then Some (Some given) else
             (case request_json (api_get (mr_path project mr_iid)) attempts of
                Some (JObj d) \<Rightarrow> map_option Some (extract_head_sha d)
              | _ \<Rightarrow> Some None));
          case looked of
            None \<Rightarrow> Some (freshness_unknown [] ''mr_lookup_failed'')
          | Some head \<Rightarrow>
              if head = [] then Some (freshness_unknown [] ''head_sha_missing'')
              else if sha \<noteq> head then
                Some \<lparr>pf_state = FR_STALE_HEAD, pf_head_sha = head, pf_latest_pipeline_id = 0, pf_latest_pipeline_status = [],
                  pf_reason = ''head_sha_changed''\<rparr>
              else judge_pipelines head sha pid (request_json (api_get (mr_path project mr_iid @ ''/pipelines'')) attempts) }"

subsection \<open>Completion\<close>

record pipeline_group =
  pg_root_pipeline_id :: int
  pg_validation_pipeline_id :: "int option"
  pg_sha :: string
  pg_jobs :: "(int \<times> dict) list"
  pg_pipelines :: "dict list"

record pipeline_completion_snapshot =
  cs_terminal :: bool
  cs_root_pipeline_id :: int
  cs_validation_pipeline_id :: int
  cs_sha :: string
  cs_pipeline_statuses :: "(int \<times> string) list"
  cs_nonterminal_job_names :: "string list"
  cs_digest :: string
  cs_reason :: string

definition NONTERMINAL_STATUSES :: "string list" where
  "NONTERMINAL_STATUSES = [''created'', ''pending'', ''preparing'', ''waiting_for_resource'', ''scheduled'', ''running'']"

definition TERMINAL_STATUSES :: "string list" where
  "TERMINAL_STATUSES = [''success'', ''failed'', ''canceled'', ''skipped'']"

definition unfinished :: "string \<Rightarrow> bool" where
  "unfinished st \<longleftrightarrow> st \<in> set NONTERMINAL_STATUSES \<or> st \<notin> set TERMINAL_STATUSES"

definition pipeline_status_pair :: "dict \<Rightarrow> (int \<times> string) option" where
  "pipeline_status_pair p =
     do { n \<leftarrow> get_int p ''id'' 0; st \<leftarrow> get_str p ''status'' ''unknown''; Some (n, lower st) }"

text \<open>\<open>sorted\<close> on pairs: by the first component, then by the second.\<close>

definition sort_pairs :: "(int \<times> string) list \<Rightarrow> (int \<times> string) list" where
  "sort_pairs ps = sort_key fst (sort_key snd ps)"

text \<open>The name of a job the group waits for: \<open>Some None\<close> when it waits for no more of it.\<close>

definition waiting_job :: "string list \<Rightarrow> dict \<Rightarrow> string option option" where
  "waiting_job patterns job =
     do { name \<leftarrow> get_str job ''name'' [];
          st \<leftarrow> get_str job ''status'' ''unknown'';
          Some (if patterns \<noteq> [] \<and> \<not> list_ex (\<lambda>p. contains (lower name) p) patterns then None
                else if lower st = ''manual'' then None
                else if unfinished (lower st) then Some (if name = [] then ''unknown'' else name)
                else None) }"

definition wait_for_validation :: string where
  "wait_for_validation =
     [CHR 0xE7, CHR 0xAD, CHR 0x89, CHR 0xE5, CHR 0xBE, CHR 0x85, CHR 0xE9, CHR 0xAA, CHR 0x8C, CHR 0xE8,
      CHR 0xAF, CHR 0x81, CHR 0xE6, CHR 0xB5, CHR 0x81, CHR 0xE6, CHR 0xB0, CHR 0xB4, CHR 0xE7, CHR 0xBA,
      CHR 0xBF, CHR 0xE5, CHR 0x88, CHR 0x9B, CHR 0xE5, CHR 0xBB, CHR 0xBA]"

definition still_running :: string where
  "still_running =
     [CHR 0xE4, CHR 0xBB, CHR 0x8D, CHR 0xE6, CHR 0x9C, CHR 0x89, CHR 0xE6, CHR 0xB5, CHR 0x81, CHR 0xE6,
      CHR 0xB0, CHR 0xB4, CHR 0xE7, CHR 0xBA, CHR 0xBF, CHR 0xE6, CHR 0x88, CHR 0x96, CHR 0xE5, CHR 0x85,
      CHR 0xB3, CHR 0xE9, CHR 0x94, CHR 0xAE, CHR 0x20, CHR 0x4A, CHR 0x6F, CHR 0x62, CHR 0x20, CHR 0xE6,
      CHR 0xAD, CHR 0xA3, CHR 0xE5, CHR 0x9C, CHR 0xA8, CHR 0xE8, CHR 0xBF, CHR 0x90, CHR 0xE8, CHR 0xA1,
      CHR 0x8C]"

definition completion_snapshot_from_group ::
  "(string \<Rightarrow> string) \<Rightarrow> pipeline_group \<Rightarrow> string list \<Rightarrow> pipeline_completion_snapshot option"
where
  "completion_snapshot_from_group sha256_hex g required =
     do { pairs \<leftarrow> those_map pipeline_status_pair (pg_pipelines g);
          waiting \<leftarrow> those_map (waiting_job (map lower (filter (\<lambda>p. strip p \<noteq> []) required))) (map snd (pg_jobs g));
          let statuses = sort_pairs pairs;
              jobs = List.map_filter id waiting;
              validation = or_else (pg_validation_pipeline_id g) 0;
              running = filter (\<lambda>(p, st). unfinished st) statuses;
              identity = dumps (JObj
                [(''root'', JInt (pg_root_pipeline_id g)), (''validation'', JInt validation), (''sha'', JStr (pg_sha g)),
                 (''pipelines'', JArr (map (\<lambda>(p, st). JArr [JInt p, JStr st]) statuses)),
                 (''nonterminal_jobs'', JArr (map JStr (sort jobs)))]) in
          Some \<lparr>cs_terminal = (validation \<noteq> 0 \<and> running = [] \<and> jobs = []),
            cs_root_pipeline_id = pg_root_pipeline_id g, cs_validation_pipeline_id = validation, cs_sha = pg_sha g,
            cs_pipeline_statuses = statuses, cs_nonterminal_job_names = sort jobs, cs_digest = take 24 (sha256_hex identity),
            cs_reason = (if validation = 0 then wait_for_validation else if running \<noteq> [] \<or> jobs \<noteq> [] then still_running else [])\<rparr> }"

subsection \<open>The pipeline that validated a repair\<close>

record repair_action =
  act_commit_sha :: string
  act_validation_pipeline_id :: int
  act_validation_status :: string

record repair_result_identity =
  id_pipeline_id :: int
  id_commit_sha :: string
  id_pipeline_status :: string

definition identity_exists :: "repair_result_identity \<Rightarrow> bool" where
  "identity_exists r \<longleftrightarrow> id_pipeline_id r \<noteq> 0 \<and> id_commit_sha r \<noteq> []"

definition no_identity :: repair_result_identity where
  "no_identity = \<lparr>id_pipeline_id = 0, id_commit_sha = [], id_pipeline_status = []\<rparr>"

definition resolve_repair_result_identity ::
  "repair_commit_manifest option \<Rightarrow> repair_action list \<Rightarrow> int \<Rightarrow> string \<Rightarrow> string \<Rightarrow> repair_result_identity"
where
  "resolve_repair_result_identity manifest actions current_id current_sha current_status =
     (let manifest_sha = (case manifest of None \<Rightarrow> [] | Some m \<Rightarrow> final_repair_sha m);
          candidates = filter (\<lambda>a. act_commit_sha a \<noteq> [] \<and> (manifest_sha = [] \<or> act_commit_sha a = manifest_sha)) actions;
          action = (if candidates = [] then None else Some (last candidates));
          commit_sha = (if manifest_sha \<noteq> [] then manifest_sha else case action of None \<Rightarrow> [] | Some a \<Rightarrow> act_commit_sha a);
          action_id = (case action of None \<Rightarrow> 0 | Some a \<Rightarrow> act_validation_pipeline_id a)
      in if commit_sha = [] then no_identity
         else if action_id \<noteq> 0 then
           \<lparr>id_pipeline_id = action_id, id_commit_sha = commit_sha,
            id_pipeline_status = (case action of None \<Rightarrow> [] | Some a \<Rightarrow> act_validation_status a)\<rparr>
         else if current_id \<noteq> 0 \<and> current_sha = commit_sha then
           \<lparr>id_pipeline_id = current_id, id_commit_sha = commit_sha, id_pipeline_status = current_status\<rparr>
         else no_identity)"

subsection \<open>A coverage round\<close>

text \<open>A Python float; the finite ones are rational numbers.\<close>

datatype py_float = Finite rat | PosInf | NegInf | NaN

definition is_coverage_job :: "dict \<Rightarrow> bool" where
  "is_coverage_job job \<longleftrightarrow> contains (lower (job_name job)) ''coverage''"

definition non_coverage_jobs :: "dict list \<Rightarrow> dict list" where
  "non_coverage_jobs jobs = filter (\<lambda>j. \<not> is_coverage_job j) jobs"

definition finite_percentage :: "py_float option \<Rightarrow> rat option" where
  "finite_percentage v = (case v of Some (Finite q) \<Rightarrow> if 0 \<le> q \<and> q \<le> 100 then Some q else None | _ \<Rightarrow> None)"

text \<open>
  The code of the decision; \<open>eligible\<close> is its only accepting value. The state's selected
  categories, baseline commit and number of attempts are the arguments the decision reads of it.
\<close>

definition decide_coverage_continuation ::
  "string list \<Rightarrow> string \<Rightarrow> int \<Rightarrow> dict list \<Rightarrow> py_float option \<Rightarrow> py_float option \<Rightarrow> bool \<Rightarrow> int \<Rightarrow> bool \<Rightarrow> int \<Rightarrow> string"
where
  "decide_coverage_continuation selected baseline_sha attempts jobs coverage_value coverage_threshold report_available uncovered
     is_enabled max_attempts =
     (if \<not> is_enabled \<or> max_attempts \<le> 0 then ''disabled''
      else if selected = [] \<or> \<not> set selected \<subseteq> {''clang'', ''build''} then ''unsupported_selection''
      else if length baseline_sha \<noteq> 40 then ''baseline_missing''
      else if non_coverage_jobs jobs \<noteq> [] then ''non_coverage_failure_remains''
      else if \<not> list_ex is_coverage_job jobs then ''coverage_job_missing''
      else if \<not> report_available then ''coverage_report_missing''
      else case finite_percentage coverage_value of
        None \<Rightarrow> ''coverage_value_missing''
      | Some q \<Rightarrow>
          (case finite_percentage coverage_threshold of
             None \<Rightarrow> ''coverage_threshold_missing''
           | Some th \<Rightarrow>
               if q \<ge> th then ''coverage_already_sufficient''
               else if uncovered \<le> 0 then ''uncovered_lines_empty''
               else if attempts \<ge> min (max 0 max_attempts) 1 then ''attempt_limit_reached''
               else ''eligible''))"

subsection \<open>Lemmas\<close>

definition readable_pipeline :: "dict list \<times> dict list \<Rightarrow> bool" where
  "readable_pipeline v \<longleftrightarrow> list_all (\<lambda>j. failed_job j \<noteq> None) (fst v) \<and> list_all (\<lambda>b. downstream_id b \<noteq> None) (snd v)"

lemma filter_option_total: "list_all (\<lambda>x. P x \<noteq> None) xs \<Longrightarrow> \<exists>ys. filter_option P xs = Some ys"
  by (induction xs) auto

definition collect_ok :: "int list \<Rightarrow> (dict list \<times> int list) option \<Rightarrow> bool" where
  "collect_ok visited r \<longleftrightarrow> (\<exists>js v. r = Some (js, v) \<and> distinct v \<and> length v \<le> 21 \<and> length visited \<le> length v)"

lemma collect_below_ok:
  assumes "\<And>pid visited. distinct visited \<Longrightarrow> length visited \<le> 21 \<Longrightarrow> 22 \<le> n + length visited \<Longrightarrow>
    collect_ok visited (collect_from api n pid visited)"
  shows "distinct visited \<Longrightarrow> length visited \<le> 21 \<Longrightarrow> 22 \<le> n + length visited \<Longrightarrow> list_all (\<lambda>b. downstream_id b \<noteq> None) bs \<Longrightarrow>
    collect_ok visited (collect_below api n bs visited)"
proof (induction bs arbitrary: visited)
  case (Cons b bs)
  then obtain child where child: "downstream_id b = Some child" by auto
  have "collect_ok visited (case child of None \<Rightarrow> Some ([], visited) | Some c \<Rightarrow> collect_from api n c visited)"
    using Cons.prems assms by (auto simp: collect_ok_def split: option.split)
  then obtain js v where here: "(case child of None \<Rightarrow> Some ([], visited) | Some c \<Rightarrow> collect_from api n c visited) = Some (js, v)"
    "distinct v" "length v \<le> 21" "length visited \<le> length v"
    by (auto simp: collect_ok_def)
  have "collect_ok v (collect_below api n bs v)" using Cons.IH [of v] Cons.prems here by auto
  then show ?case using child here(1,4) by (auto simp: collect_ok_def)
qed (simp add: collect_ok_def)

lemma collect_from_ok:
  assumes "\<And>p. \<exists>v. api p = Some v \<and> readable_pipeline v"
  shows "distinct visited \<Longrightarrow> length visited \<le> 21 \<Longrightarrow> 22 \<le> n + length visited \<Longrightarrow> collect_ok visited (collect_from api n pid visited)"
proof (induction n arbitrary: pid visited)
  case (Suc n)
  show ?case
  proof (cases "pid \<in> set visited \<or> 20 < length visited")
    case True
    then show ?thesis using Suc.prems by (auto simp: collect_ok_def)
  next
    case False
    obtain jobs bridges where api: "api pid = Some (jobs, bridges)" "readable_pipeline (jobs, bridges)"
      using assms [of pid] by (metis surj_pair)
    obtain failed where failed: "filter_option failed_job jobs = Some failed"
      using api(2) filter_option_total by (auto simp: readable_pipeline_def)
    have "collect_ok (pid # visited) (collect_below api n bridges (pid # visited))"
      using api(2) False Suc.prems by (intro collect_below_ok Suc.IH) (simp_all add: readable_pipeline_def)
    then show ?thesis using False api(1) failed by (auto simp: collect_ok_def)
  qed
qed simp

lemma latest_pipeline_Cons:
  "ps \<noteq> [] \<Longrightarrow> latest_pipeline (p # ps) =
     do { n \<leftarrow> get_int p ''id'' 0; (m, q) \<leftarrow> latest_pipeline ps; Some (if m > n then (m, q) else (n, p)) }"
  by (cases ps) simp_all

lemma latest_pipeline_max:
  "latest_pipeline ps = Some (n, q) \<Longrightarrow>
   q \<in> set ps \<and> get_int q ''id'' 0 = Some n \<and> (\<forall>p\<in>set ps. \<exists>k\<le>n. get_int p ''id'' 0 = Some k)"
proof (induction ps arbitrary: n q)
  case (Cons p ps)
  show ?case
  proof (cases "ps = []")
    case True
    then show ?thesis using Cons.prems by auto
  next
    case False
    obtain k m r where kmr: "get_int p ''id'' 0 = Some k" "latest_pipeline ps = Some (m, r)"
      "(n, q) = (if m > k then (m, r) else (k, p))"
      using Cons.prems unfolding latest_pipeline_Cons [OF False]
      by (cases "get_int p ''id'' 0"; cases "latest_pipeline ps") auto
    note rest = Cons.IH [OF kmr(2)]
    show ?thesis
    proof (cases "m > k")
      case True
      then show ?thesis using rest kmr by auto
    next
      case False
      then have "\<exists>j\<le>k. get_int p' ''id'' 0 = Some j" if "p' \<in> set ps" for p' using rest that by (meson not_less order_trans)
      then show ?thesis using False kmr by auto
    qed
  qed
qed simp

lemma filter_option_set: "filter_option P xs = Some ys \<Longrightarrow> set ys = {x \<in> set xs. P x = Some True}"
  by (induction xs arbitrary: ys) (auto simp: bind_eq_Some_conv split: if_splits)

text \<open>The newest of the merge request's own pipelines for the commit, as listed.\<close>

definition newest_listed :: "json option \<Rightarrow> string \<Rightarrow> int \<Rightarrow> bool" where
  "newest_listed listing sha pid \<longleftrightarrow>
     (\<exists>xs. listing = Some (JArr xs) \<and>
       (\<exists>d\<in>set (dicts xs). top_level_pipeline sha d = Some True \<and> get_int d ''id'' 0 = Some pid) \<and>
       (\<forall>d\<in>set (dicts xs). top_level_pipeline sha d = Some True \<longrightarrow> (\<exists>n\<le>pid. get_int d ''id'' 0 = Some n)))"

lemma judge_current:
  assumes "judge_pipelines head_sha sha pid listing = Some f"
  shows "(freshness_current f \<longleftrightarrow> 0 < pid \<and> newest_listed listing sha pid) \<and> pf_head_sha f = head_sha \<and>
    (freshness_current f \<longrightarrow> pf_latest_pipeline_id f = pid)"
proof (cases "\<exists>xs. listing = Some (JArr xs)")
  case False
  then have "judge_pipelines head_sha sha pid listing = Some (freshness_unknown head_sha ''pipeline_lookup_failed'')"
    by (auto simp: judge_pipelines_def split: option.split json.split)
  then show ?thesis using assms False by (auto simp: freshness_current_def freshness_unknown_def newest_listed_def)
next
  case True
  then obtain xs where xs: "listing = Some (JArr xs)" ..
  obtain top where top: "filter_option (top_level_pipeline sha) (dicts xs) = Some top"
    using assms(1) by (cases "filter_option (top_level_pipeline sha) (dicts xs)") (simp_all add: judge_pipelines_def xs)
  have listed: "newest_listed listing sha pid \<longleftrightarrow>
      (\<exists>d\<in>set top. get_int d ''id'' 0 = Some pid) \<and> (\<forall>d\<in>set top. \<exists>n\<le>pid. get_int d ''id'' 0 = Some n)"
    using filter_option_set [OF top] by (auto simp: newest_listed_def xs)
  show ?thesis
  proof (cases "top = []")
    case True
    then show ?thesis using assms top listed by (auto simp: judge_pipelines_def xs freshness_current_def freshness_unknown_def)
  next
    case False
    then obtain n d where nd: "latest_pipeline top = Some (n, d)"
      using assms(1) top by (cases "latest_pipeline top") (auto simp: judge_pipelines_def xs)
    have "newest_listed listing sha pid \<longleftrightarrow> n = pid"
    proof
      assume "newest_listed listing sha pid"
      then obtain d' where d': "d' \<in> set top" "get_int d' ''id'' 0 = Some pid" "\<forall>d\<in>set top. \<exists>n\<le>pid. get_int d ''id'' 0 = Some n"
        using listed by blast
      have "n \<le> pid" "pid \<le> n" using latest_pipeline_max [OF nd] d' by fastforce+
      then show "n = pid" by simp
    next
      assume "n = pid"
      then show "newest_listed listing sha pid" using latest_pipeline_max [OF nd] listed by blast
    qed
    moreover have "(freshness_current f \<longleftrightarrow> 0 < n \<and> n = pid) \<and> pf_head_sha f = head_sha \<and> (freshness_current f \<longrightarrow> pf_latest_pipeline_id f = n)"
      using assms top False nd
      by (auto simp: judge_pipelines_def xs bind_eq_Some_conv freshness_current_def freshness_unknown_def split: if_splits)
    ultimately show ?thesis by auto
  qed
qed

lemma those_map_all: "those_map f xs = Some ys \<Longrightarrow> list_all P ys \<longleftrightarrow> list_all (\<lambda>x. \<exists>y. f x = Some y \<and> P y) xs"
  by (induction xs arbitrary: ys) (auto simp: bind_eq_Some_conv)

lemma map_filter_id_Nil: "List.map_filter id xs = [] \<longleftrightarrow> list_all (\<lambda>x. x = None) xs"
  by (induction xs) (auto simp: List.map_filter_def)

lemma set_sort_pairs [simp]: "set (sort_pairs ps) = set ps"
  by (simp add: sort_pairs_def)

subsection \<open>Properties\<close>

text \<open>
  C27: on any graph of pipelines, cyclic ones included, \<open>collect_failed_jobs\<close> returns: it visits no
  pipeline twice and at most 21 pipelines.
\<close>

theorem collect_failed_jobs_terminates:
  assumes "\<And>p. \<exists>v. api p = Some v \<and> readable_pipeline v"
  shows "\<exists>jobs visited. collect_from api 22 pid [] = Some (jobs, visited) \<and> collect_failed_jobs api pid = Some jobs \<and>
    distinct visited \<and> length visited \<le> 21"
  using collect_from_ok [where api = api and visited = "[]" and n = 22 and pid = pid, OF assms] by (auto simp: collect_ok_def collect_failed_jobs_def)

text \<open>Two pipelines that trigger each other.\<close>

definition cyclic_api :: "int \<Rightarrow> (dict list \<times> dict list) option" where
  "cyclic_api p = Some ([[(''status'', JStr ''failed'')]], [[(''downstream_pipeline'', JObj [(''id'', JInt (3 - p))])]])"

lemma cyclic_api_readable: "\<exists>v. cyclic_api p = Some v \<and> readable_pipeline v"
  by (cases "p = 3") (simp_all add: cyclic_api_def readable_pipeline_def failed_job_def downstream_id_def read_defs dget_def)

theorem collect_failed_jobs_terminates_witness: "\<exists>jobs. collect_failed_jobs cyclic_api 1 = Some jobs"
  using collect_failed_jobs_terminates [where api = cyclic_api and pid = 1, OF cyclic_api_readable] by blast

text \<open>
  C26: a pipeline is reported as current exactly when its commit is the head commit of the merge
  request (as the given payload names it, or GitLab when the payload names none) and it is the
  newest of the merge request's own pipelines that GitLab lists for that commit. The head commit is
  compared in full and is the one reported.
\<close>

theorem freshness_current_sound:
  assumes "check_pipeline_freshness api_get project mr_iid pid sha mr_payload attempts = Some f"
  shows "(freshness_current f \<longleftrightarrow>
      sha \<noteq> [] \<and> 0 < pid \<and>
      (extract_head_sha mr_payload = Some sha \<or>
       extract_head_sha mr_payload = Some [] \<and>
       (\<exists>d. request_json (api_get (mr_path project mr_iid)) attempts = Some (JObj d) \<and> extract_head_sha d = Some sha)) \<and>
      newest_listed (request_json (api_get (mr_path project mr_iid @ ''/pipelines'')) attempts) sha pid) \<and>
    (freshness_current f \<longrightarrow> pf_head_sha f = sha \<and> pf_latest_pipeline_id f = pid)"
proof -
  let ?listing = "request_json (api_get (mr_path project mr_iid @ ''/pipelines'')) attempts"
  let ?mr = "request_json (api_get (mr_path project mr_iid)) attempts"
  obtain given looked where look: "extract_head_sha mr_payload = Some given"
    "(if given \<noteq> [] then Some (Some given) else case ?mr of Some (JObj d) \<Rightarrow> map_option Some (extract_head_sha d) | _ \<Rightarrow> Some None) = Some looked"
    and rest: "(case looked of
        None \<Rightarrow> Some (freshness_unknown [] ''mr_lookup_failed'')
      | Some head \<Rightarrow>
          if head = [] then Some (freshness_unknown [] ''head_sha_missing'')
          else if sha \<noteq> head then
            Some \<lparr>pf_state = FR_STALE_HEAD, pf_head_sha = head, pf_latest_pipeline_id = 0, pf_latest_pipeline_status = [],
              pf_reason = ''head_sha_changed''\<rparr>
          else judge_pipelines head sha pid ?listing) = Some f"
    using assms unfolding check_pipeline_freshness_def bind_eq_Some_conv by blast
  have head: "looked = Some sha \<and> sha \<noteq> [] \<longleftrightarrow> sha \<noteq> [] \<and>
      (extract_head_sha mr_payload = Some sha \<or> extract_head_sha mr_payload = Some [] \<and> (\<exists>d. ?mr = Some (JObj d) \<and> extract_head_sha d = Some sha))"
    using look by (auto split: if_splits option.splits json.splits)
  show ?thesis
  proof (cases "looked = Some sha \<and> sha \<noteq> []")
    case True
    then have "judge_pipelines sha sha pid ?listing = Some f" using rest by simp
    from judge_current [OF this] show ?thesis using head True by blast
  next
    case False
    then have "\<not> freshness_current f"
      using rest by (auto simp: freshness_current_def freshness_unknown_def split: option.splits if_splits)
    then show ?thesis using head False by blast
  qed
qed

theorem freshness_current_sound_witness:
  "\<exists>f. check_pipeline_freshness (\<lambda>path n. AR_JSON (JArr [JObj [(''id'', JInt 9)]])) ''7'' 3 9 ''s'' [(''sha'', JStr ''s'')] 2 = Some f \<and>
     pf_latest_pipeline_id f = 9 \<and> pf_head_sha f = ''s''"
proof -
  obtain f where f: "check_pipeline_freshness (\<lambda>path n. AR_JSON (JArr [JObj [(''id'', JInt 9)]])) ''7'' 3 9 ''s'' [(''sha'', JStr ''s'')] 2 = Some f"
    "freshness_current f"
    by (simp add: check_pipeline_freshness_def extract_head_sha_def read_defs dget_def request_json_def judge_pipelines_def
        top_level_pipeline_def dicts_def List.map_filter_def freshness_current_def numeral_2_eq_2)
  then show ?thesis using freshness_current_sound [OF f(1)] by blast
qed

text \<open>
  A group of pipelines counts as finished exactly when it has a validation pipeline, every
  pipeline of it has a terminal status and every job it waits for (of the required patterns, not
  manual) has a terminal status.
\<close>

theorem completion_terminal_exact:
  assumes "completion_snapshot_from_group sha256_hex g required = Some s"
  shows "cs_terminal s \<longleftrightarrow> or_else (pg_validation_pipeline_id g) 0 \<noteq> 0 \<and>
    list_all (\<lambda>p. \<exists>n st. pipeline_status_pair p = Some (n, st) \<and> st \<in> set TERMINAL_STATUSES) (pg_pipelines g) \<and>
    list_all (\<lambda>(n, j). waiting_job (map lower (filter (\<lambda>p. strip p \<noteq> []) required)) j = Some None) (pg_jobs g)"
proof -
  let ?wait = "waiting_job (map lower (filter (\<lambda>p. strip p \<noteq> []) required))"
  obtain pairs waiting where m: "those_map pipeline_status_pair (pg_pipelines g) = Some pairs"
    "those_map ?wait (map snd (pg_jobs g)) = Some waiting"
    using assms by (auto simp: completion_snapshot_from_group_def bind_eq_Some_conv)
  have "cs_terminal s \<longleftrightarrow> or_else (pg_validation_pipeline_id g) 0 \<noteq> 0 \<and> list_all (\<lambda>(n, st). st \<in> set TERMINAL_STATUSES) pairs \<and>
      list_all (\<lambda>x. x = None) waiting"
    using assms [unfolded completion_snapshot_from_group_def m Let_def, simplified, symmetric]
    by (auto simp: map_filter_id_Nil filter_empty_conv list_all_iff unfinished_def TERMINAL_STATUSES_def NONTERMINAL_STATUSES_def)
  then show ?thesis
    unfolding those_map_all [OF m(1)] those_map_all [OF m(2)] by (simp add: list_all_iff case_prod_unfold)
qed

definition finished_group :: pipeline_group where
  "finished_group = \<lparr>pg_root_pipeline_id = 5, pg_validation_pipeline_id = Some 5, pg_sha = ''s'', pg_jobs = [],
     pg_pipelines = [[(''id'', JInt 5), (''status'', JStr ''success'')]]\<rparr>"

theorem completion_terminal_exact_witness:
  "\<exists>s. completion_snapshot_from_group (\<lambda>t. t) finished_group [''build''] = Some s \<and> cs_terminal s"
proof -
  obtain s where s: "completion_snapshot_from_group (\<lambda>t. t) finished_group [''build''] = Some s"
    by (simp add: completion_snapshot_from_group_def finished_group_def pipeline_status_pair_def read_defs dget_def Let_def)
  then show ?thesis
    using completion_terminal_exact [OF s]
    by (simp add: finished_group_def pipeline_status_pair_def read_defs dget_def lower_def to_lower_def TERMINAL_STATUSES_def)
qed

text \<open>
  The pipeline named as the validation of a repair belongs to a commit of that repair: with a
  manifest it is the manifest's last commit, and the pipeline is one an action recorded for that
  commit or the current pipeline when it ran on that commit.
\<close>

theorem result_identity_proven:
  fixes m actions current_id current_sha current_status
  defines "r \<equiv> resolve_repair_result_identity (Some m) actions current_id current_sha current_status"
  assumes "identity_exists r" "final_repair_sha m \<noteq> []"
  shows "id_commit_sha r = final_repair_sha m \<and>
    ((\<exists>a\<in>set actions. act_commit_sha a = final_repair_sha m \<and> act_validation_pipeline_id a = id_pipeline_id r \<and>
        act_validation_status a = id_pipeline_status r) \<or>
     (id_pipeline_id r = current_id \<and> current_sha = final_repair_sha m \<and> id_pipeline_status r = current_status))"
proof -
  let ?cs = "filter (\<lambda>a. act_commit_sha a \<noteq> [] \<and> act_commit_sha a = final_repair_sha m) actions"
  have "last ?cs \<in> set actions \<and> act_commit_sha (last ?cs) = final_repair_sha m" if "?cs \<noteq> []"
    using last_in_set [OF that] by simp
  then show ?thesis
    using assms by (auto simp: resolve_repair_result_identity_def Let_def no_identity_def identity_exists_def split: if_splits)
qed

theorem result_identity_proven_witness:
  "id_commit_sha (resolve_repair_result_identity (Some example_manifest) [] 9 (final_repair_sha example_manifest) ''success'') =
     final_repair_sha example_manifest"
proof -
  have sha: "final_repair_sha example_manifest \<noteq> []"
    by (simp add: final_repair_sha_def example_entry_def)
  then have "identity_exists (resolve_repair_result_identity (Some example_manifest) [] 9 (final_repair_sha example_manifest) ''success'')"
    by (simp add: resolve_repair_result_identity_def identity_exists_def)
  then show ?thesis using result_identity_proven [OF _ sha] by blast
qed

text \<open>
  A coverage round is started only after a clang or build repair whose baseline commit is
  known, when only coverage jobs still fail, the measured coverage is below the threshold, both
  within 0 and 100 percent, and no round was made before: a second round is never eligible.
\<close>

theorem coverage_continuation_exact:
  "decide_coverage_continuation selected baseline_sha attempts jobs coverage_value coverage_threshold report_available uncovered
     is_enabled max_attempts = ''eligible'' \<longleftrightarrow>
   is_enabled \<and> 0 < max_attempts \<and> attempts < 1 \<and> selected \<noteq> [] \<and> set selected \<subseteq> {''clang'', ''build''} \<and>
   length baseline_sha = 40 \<and> jobs \<noteq> [] \<and> list_all is_coverage_job jobs \<and> report_available \<and> 0 < uncovered \<and>
   (\<exists>q th. coverage_value = Some (Finite q) \<and> coverage_threshold = Some (Finite th) \<and> 0 \<le> q \<and> q < th \<and> th \<le> 100)"
proof -
  have "non_coverage_jobs jobs = [] \<and> list_ex is_coverage_job jobs \<longleftrightarrow> jobs \<noteq> [] \<and> list_all is_coverage_job jobs"
    by (cases jobs) (auto simp: non_coverage_jobs_def filter_empty_conv list_all_iff list_ex_iff)
  moreover have "(\<exists>q th. finite_percentage coverage_value = Some q \<and> finite_percentage coverage_threshold = Some th \<and> q < th) \<longleftrightarrow>
      (\<exists>q th. coverage_value = Some (Finite q) \<and> coverage_threshold = Some (Finite th) \<and> 0 \<le> q \<and> q < th \<and> th \<le> 100)"
    by (auto simp: finite_percentage_def split: option.splits py_float.splits if_splits)
  ultimately show ?thesis
    unfolding decide_coverage_continuation_def by (auto split: option.splits)
qed

end
