(* ===== verification/Streams.thy ===== *)
theory Streams
  imports Auto_Triage
begin

text \<open>
  Delivery over Redis streams: the consumer-group commands the broker uses and its methods that
  read and acknowledge the ingress streams, the inboxes of the workers and the notification
  stream, with the scripts that put notifications there. Messages are delivered at least once:
  what is read stays pending until it is acknowledged, and is claimed again when its reader is
  silent for too long.
\<close>

subsection \<open>Consumer groups\<close>

text \<open>\<open>XGROUP CREATE stream group 0 MKSTREAM\<close>; \<open>BUSYGROUP\<close> is ignored by the caller.\<close>

definition ensure_group :: "string \<Rightarrow> stream \<Rightarrow> stream" where
  "ensure_group g s =
     (if map_of (groups s) g = None then s\<lparr>groups := AList.update g \<lparr>last_delivered = 0, pending = []\<rparr> (groups s)\<rparr> else s)"

definition group_of :: "string \<Rightarrow> stream \<Rightarrow> group" where
  "group_of g s = or_else (map_of (groups s) g) \<lparr>last_delivered = 0, pending = []\<rparr>"

definition set_group :: "string \<Rightarrow> group \<Rightarrow> stream \<Rightarrow> stream" where
  "set_group g gr s = s\<lparr>groups := AList.update g gr (groups s)\<rparr>"

text \<open>
  \<open>XAUTOCLAIM\<close> from id 0: the pending messages in the order of their ids, at most \<open>attempts\<close> of
  them looked at; one whose message was deleted is dropped, one that is idle long enough is taken
  over, both counting against \<open>quota\<close>.
\<close>

fun autoclaim_scan ::
  "(nat \<times> (string \<times> string) list) list \<Rightarrow> string \<Rightarrow> int \<Rightarrow> int \<Rightarrow> nat \<Rightarrow> nat \<Rightarrow> (nat \<times> string \<times> int) list \<Rightarrow>
   (nat \<times> (string \<times> string) list) list \<times> (nat \<times> string \<times> int) list"
where
  "autoclaim_scan es consumer min_idle now attempts quota [] = ([], [])"
| "autoclaim_scan es consumer min_idle now attempts quota ((i, c, at) # ps) =
     (if attempts = 0 \<or> quota = 0 then ([], (i, c, at) # ps) else
      case map_of es i of
        None \<Rightarrow> autoclaim_scan es consumer min_idle now (attempts - 1) (quota - 1) ps
      | Some fs \<Rightarrow>
          if now - at < min_idle then
            (case autoclaim_scan es consumer min_idle now (attempts - 1) quota ps of (ms, qs) \<Rightarrow> (ms, (i, c, at) # qs))
          else
            (case autoclaim_scan es consumer min_idle now (attempts - 1) (quota - 1) ps of
               (ms, qs) \<Rightarrow> ((i, fs) # ms, (i, consumer, now) # qs)))"

definition autoclaim ::
  "string \<Rightarrow> string \<Rightarrow> int \<Rightarrow> int \<Rightarrow> nat \<Rightarrow> stream \<Rightarrow> (nat \<times> (string \<times> string) list) list \<times> stream"
where
  "autoclaim g consumer min_idle now quota s =
     (let gr = group_of g s in
      case autoclaim_scan (entries s) consumer min_idle now (10 * quota) quota (pending gr) of
        (ms, ps) \<Rightarrow> (ms, set_group g (gr\<lparr>pending := ps\<rparr>) s))"

text \<open>\<open>XREADGROUP ... >\<close>: the first \<open>quota\<close> messages the group has not seen become pending.\<close>

definition readgroup :: "string \<Rightarrow> string \<Rightarrow> int \<Rightarrow> nat \<Rightarrow> stream \<Rightarrow> (nat \<times> (string \<times> string) list) list \<times> stream" where
  "readgroup g consumer now quota s =
     (let gr = group_of g s;
          ms = take quota (filter (\<lambda>(i, fs). i > last_delivered gr) (entries s))
      in (ms, if ms = [] then s else
              set_group g (gr\<lparr>last_delivered := fst (last ms), pending := pending gr @ map (\<lambda>(i, fs). (i, consumer, now)) ms\<rparr>) s))"

definition ack_delete :: "string \<Rightarrow> nat \<Rightarrow> stream \<Rightarrow> stream" where
  "ack_delete g i s =
     (let s1 = (case map_of (groups s) g of
                  None \<Rightarrow> s
                | Some gr \<Rightarrow> set_group g (gr\<lparr>pending := filter (\<lambda>(j, c, at). j \<noteq> i) (pending gr)\<rparr>) s)
      in s1\<lparr>entries := filter (\<lambda>(j, fs). j \<noteq> i) (entries s1)\<rparr>)"

subsection \<open>Reading and acknowledging\<close>

definition put_stream :: "redis \<Rightarrow> rkey \<Rightarrow> stream \<Rightarrow> redis" where
  "put_stream db k s = put db k (RStream s)"

definition ensure_stream_group :: "redis \<Rightarrow> rkey \<Rightarrow> string \<Rightarrow> redis option" where
  "ensure_stream_group db k g = (if type_ok db k KStream then Some (put_stream db k (ensure_group g (stream_at db k))) else None)"

text \<open>
  The reading part of \<open>read_ingress_group\<close> and \<open>read_report_ingress_group\<close>: abandoned messages
  first, then new ones. A blocking read that times out returns nothing.
\<close>

definition read_group ::
  "redis \<Rightarrow> rkey \<Rightarrow> string \<Rightarrow> string \<Rightarrow> nat \<Rightarrow> int \<Rightarrow> (nat \<times> (string \<times> string) list) list reply"
where
  "read_group db k g consumer limit block_ms =
     do { db1 \<leftarrow> ensure_stream_group db k g;
          (claimed, s1) \<leftarrow> Some (autoclaim g consumer (max block_ms 1000) (clock db) limit (stream_at db1 k));
          (new, s2) \<leftarrow> Some (if limit - length claimed = 0 then ([], s1)
                          else readgroup g consumer (clock db) (limit - length claimed) s1);
          Some (claimed @ new, put_stream db1 k s2) }"

definition ingress_deliveries :: "(nat \<times> (string \<times> string) list) list \<Rightarrow> (broker_error + (string \<times> string) list)" where
  "ingress_deliveries ms =
     (case those_map (\<lambda>(i, fs). map_option (Pair (show_nat i)) (map_of fs ''task_id'')) ms of
        None \<Rightarrow> Inl (KeyErr ''task_id'')
      | Some ds \<Rightarrow> Inr ds)"

definition read_ingress_group :: "redis \<Rightarrow> string \<Rightarrow> nat \<Rightarrow> int \<Rightarrow> (string \<times> string) list answer" where
  "read_ingress_group db consumer limit block_ms =
     on_reply db (read_group db K_ingress_stream ''scheduler'' consumer limit block_ms) ingress_deliveries"

definition read_report_ingress_group :: "redis \<Rightarrow> string \<Rightarrow> nat \<Rightarrow> int \<Rightarrow> (string \<times> string) list answer" where
  "read_report_ingress_group db consumer limit block_ms =
     on_reply db (read_group db K_report_ingress_stream ''report-scheduler'' consumer limit block_ms) ingress_deliveries"

definition ack_group :: "redis \<Rightarrow> rkey \<Rightarrow> string \<Rightarrow> nat \<Rightarrow> redis option" where
  "ack_group db k g i =
     (if \<not> type_ok db k KStream then None
      else if \<not> exists_key db k then Some db
      else Some (put_stream db k (ack_delete g i (stream_at db k))))"

definition ack_ingress :: "redis \<Rightarrow> nat \<Rightarrow> redis option" where
  "ack_ingress db i = ack_group db K_ingress_stream ''scheduler'' i"

definition ack_report_ingress :: "redis \<Rightarrow> nat \<Rightarrow> redis option" where
  "ack_report_ingress db i = ack_group db K_report_ingress_stream ''report-scheduler'' i"

text \<open>
  Reading an inbox: the messages the worker has in hand (\<open>_local_inbox_messages\<close>) are not taken
  again. The reply is the message to work on, if any, with its fields.
\<close>

definition take_inbox ::
  "nat \<Rightarrow> redis \<Rightarrow> string \<Rightarrow> int \<Rightarrow> nat list \<Rightarrow> ((nat \<times> (string \<times> string) list) option \<times> nat list) reply"
where
  "take_inbox prefetch db w block_ms active =
     do { db1 \<leftarrow> ensure_stream_group db (K_worker_inbox w) ''agent'';
          (claimed, s1) \<leftarrow> Some (autoclaim ''agent'' w (max block_ms 1000) (clock db) (max 32 prefetch) (stream_at db1 (K_worker_inbox w)));
          let free = filter (\<lambda>(i, fs). i \<notin> set active) claimed in
          do { (ms, s2) \<leftarrow> Some (if free \<noteq> [] then (free, s1) else readgroup ''agent'' w (clock db) 1 s1);
               let db2 = put_stream db1 (K_worker_inbox w) s2 in
               case ms of
                 [] \<Rightarrow> Some ((None, active), db2)
               | m # _ \<Rightarrow> Some ((Some m, List.insert (fst m) active), db2) } }"

definition ack_worker_inbox :: "redis \<Rightarrow> string \<Rightarrow> nat \<Rightarrow> nat list \<Rightarrow> (nat list \<times> redis) option" where
  "ack_worker_inbox db w i active =
     map_option (\<lambda>db1. (removeAll i active, db1)) (ack_group db (K_worker_inbox w) ''agent'' i)"

record inbox_delivery =
  ib_message_id :: nat
  ib_task :: task_envelope
  ib_kind :: delivery_kind
  ib_payload :: json

text \<open>The delivery for the message taken: one without a stored task is acknowledged and dropped.\<close>

definition read_worker_inbox ::
  "nat \<Rightarrow> redis \<Rightarrow> string \<Rightarrow> int \<Rightarrow> nat list \<Rightarrow> (broker_error + inbox_delivery option) \<times> nat list \<times> redis"
where
  "read_worker_inbox prefetch db w block_ms active =
     (case take_inbox prefetch db w block_ms active of
        None \<Rightarrow> (Inl RedisError, active, db)
      | Some ((None, active1), db1) \<Rightarrow> (Inr None, active1, db1)
      | Some ((Some (i, fs), active1), db1) \<Rightarrow>
          (case map_of fs ''task_id'' of
             None \<Rightarrow> (Inl (KeyErr ''task_id''), active1, db1)
           | Some tid \<Rightarrow>
               (case stored_envelope db1 tid of
                  Inl e \<Rightarrow> (Inl e, active1, db1)
                | Inr None \<Rightarrow>
                    (case ack_worker_inbox db1 w i active1 of
                       None \<Rightarrow> (Inl RedisError, active1, db1)
                     | Some (active2, db2) \<Rightarrow> (Inr None, active2, db2))
                | Inr (Some t) \<Rightarrow>
                    (case (loads (or_else (map_of fs ''payload'') ''{}''),
                           DeliveryKind (or_else (map_of fs ''delivery_kind'') (delivery_kind_value DK_EXECUTE))) of
                       (Some pl, Some kd) \<Rightarrow>
                         (Inr (Some \<lparr>ib_message_id = i, ib_task = t, ib_kind = kd, ib_payload = pl\<rparr>), active1, db1)
                     | _ \<Rightarrow> (Inl (ValueError ''delivery''), active1, db1)))))"

subsection \<open>Notifications\<close>

definition notification_fields :: "string \<Rightarrow> string \<Rightarrow> (string \<times> string) list" where
  "notification_fields body created =
     [(''payload'', body), (''status'', ''queued''), (''attempt'', ''0''), (''created_at'', created), (''updated_at'', created)]"

definition ENQUEUE_NOTIFICATION_LUA ::
  "redis \<Rightarrow> rkey \<Rightarrow> rkey \<Rightarrow> rkey \<Rightarrow> int \<Rightarrow> lua_arg \<Rightarrow> lua_arg \<Rightarrow> lua_arg \<Rightarrow> int reply"
where
  "ENQUEUE_NOTIFICATION_LUA db dedup_k stream_k notification_k ttl body nid created =
     (case set_nx_ex db dedup_k ''1'' ttl of
        (False, db1) \<Rightarrow> Some (0, db1)
      | (True, db1) \<Rightarrow>
          do { db2 \<leftarrow> hset db1 notification_k (notification_fields body created);
               (_, db3) \<leftarrow> xadd db2 stream_k [(''notification_id'', nid)];
               Some (1, db3) })"

definition ENQUEUE_CARD_FALLBACK_LUA ::
  "redis \<Rightarrow> rkey \<Rightarrow> rkey \<Rightarrow> rkey \<Rightarrow> rkey \<Rightarrow> int \<Rightarrow> lua_arg \<Rightarrow> lua_arg \<Rightarrow> lua_arg \<Rightarrow> lua_arg \<Rightarrow> int reply"
where
  "ENQUEUE_CARD_FALLBACK_LUA db card_k dedup_k stream_k notification_k ttl body nid created now =
     (if \<not> exists_key db card_k then Some (-1, db) else
      do { sent \<leftarrow> hget db card_k ''fallback_sent'';
           if sent = Some ''1'' then Some (0, db) else
           (case set_nx_ex db dedup_k ''1'' ttl of
              (False, db1) \<Rightarrow>
                do { db2 \<leftarrow> hset db1 card_k [(''fallback_sent'', ''1''), (''updated_at'', now)]; Some (0, db2) }
            | (True, db1) \<Rightarrow>
                do { db2 \<leftarrow> hset db1 notification_k (notification_fields body created);
                     (_, db3) \<leftarrow> xadd db2 stream_k [(''notification_id'', nid)];
                     db4 \<leftarrow> hset db3 card_k [(''fallback_sent'', ''1''), (''updated_at'', now)];
                     Some (1, db4) }) })"

definition enqueue_notification ::
  "(string \<Rightarrow> string) \<Rightarrow> int \<Rightarrow> int \<Rightarrow> redis \<Rightarrow> notification_envelope \<Rightarrow> int \<Rightarrow> bool answer"
where
  "enqueue_notification sha256_hex dedup_ttl event_ttl db n now =
     (case ENQUEUE_NOTIFICATION_LUA db (K_notification_dedup (ne_notification_id n)) K_notification_stream
             (K_notification (ne_notification_id n)) dedup_ttl (notification_envelope_to_json n) (ne_notification_id n) (ne_created_at n) of
        None \<Rightarrow> (Inl RedisError, db)
      | Some (r, db1) \<Rightarrow>
          if r \<noteq> 0 \<and> ne_task_id n \<noteq> [] then
            (case lifecycle_event_new sha256_hex now (ne_task_id n) ''notification'' ''start'' (ne_notification_id n) None [] of
               None \<Rightarrow> (Inl (ValueError ''lifecycle event''), db1)
             | Some ev \<Rightarrow>
                 (case record_lifecycle_event db1 event_ttl ev of
                    None \<Rightarrow> (Inl RedisError, db1)
                  | Some (_, db2) \<Rightarrow> (Inr True, db2)))
          else (Inr (r \<noteq> 0), db1))"

definition enqueue_card_fallback :: "int \<Rightarrow> redis \<Rightarrow> string \<Rightarrow> notification_envelope \<Rightarrow> int \<Rightarrow> bool answer" where
  "enqueue_card_fallback dedup_ttl db card_id n now =
     on_reply db
       (ENQUEUE_CARD_FALLBACK_LUA db (K_triage_card card_id) (K_notification_dedup (ne_notification_id n)) K_notification_stream
          (K_notification (ne_notification_id n)) dedup_ttl (notification_envelope_to_json n) (ne_notification_id n) (ne_created_at n)
          (show_int now))
       (\<lambda>r. if r = -1 then Inl (ValueError (''unknown triage card: '' @ card_id)) else Inr (r \<noteq> 0))"

definition ack_notification :: "redis \<Rightarrow> nat \<Rightarrow> redis option" where
  "ack_notification db i = ack_group db K_notification_stream ''feishu'' i"

definition take_notification :: "redis \<Rightarrow> string \<Rightarrow> int \<Rightarrow> (nat \<times> (string \<times> string) list) option reply" where
  "take_notification db consumer block_ms =
     do { db1 \<leftarrow> ensure_stream_group db K_notification_stream ''feishu'';
          (claimed, s1) \<leftarrow> Some (autoclaim ''feishu'' consumer (max block_ms 1000) (clock db) 1 (stream_at db1 K_notification_stream));
          (ms, s2) \<leftarrow> Some (if claimed \<noteq> [] then (claimed, s1) else readgroup ''feishu'' consumer (clock db) 1 s1);
          Some (case ms of [] \<Rightarrow> None | m # _ \<Rightarrow> Some m, put_stream db1 K_notification_stream s2) }"

definition read_notification :: "redis \<Rightarrow> string \<Rightarrow> int \<Rightarrow> (nat \<times> notification_envelope) option answer" where
  "read_notification db consumer block_ms =
     (case take_notification db consumer block_ms of
        None \<Rightarrow> (Inl RedisError, db)
      | Some (None, db1) \<Rightarrow> (Inr None, db1)
      | Some (Some (i, fs), db1) \<Rightarrow>
          (case map_of fs ''notification_id'' of
             None \<Rightarrow> (Inl (KeyErr ''notification_id''), db1)
           | Some nid \<Rightarrow>
               (case hget db1 (K_notification nid) ''payload'' of
                  None \<Rightarrow> (Inl RedisError, db1)
                | Some text \<Rightarrow>
                    if or_else text [] = [] then
                      (case ack_notification db1 i of None \<Rightarrow> (Inl RedisError, db1) | Some db2 \<Rightarrow> (Inr None, db2))
                    else
                      (case notification_envelope_from_json (or_else text []) of
                         None \<Rightarrow> (Inl (ValueError ''notification''), db1)
                       | Some n \<Rightarrow> (Inr (Some (i, n)), db1)))))"

definition complete_notification :: "redis \<Rightarrow> string \<Rightarrow> string \<Rightarrow> int \<Rightarrow> redis option" where
  "complete_notification db nid message_id now =
     hset db (K_notification nid) [(''status'', ''completed''), (''message_id'', message_id), (''updated_at'', show_int now)]"

definition fail_notification_attempt :: "redis \<Rightarrow> string \<Rightarrow> string \<Rightarrow> int \<Rightarrow> int reply" where
  "fail_notification_attempt db nid error now =
     do { db1 \<leftarrow> hincrby db (K_notification nid) ''attempt'' 1;
          n \<leftarrow> hget db1 (K_notification nid) ''attempt'';
          i \<leftarrow> parse_int (or_else n ''0'');
          db2 \<leftarrow> hset db1 (K_notification nid) [(''status'', ''retrying''), (''error'', error), (''updated_at'', show_int now)];
          Some (i, db2) }"

definition dead_letter_notification :: "redis \<Rightarrow> string \<Rightarrow> string \<Rightarrow> int \<Rightarrow> redis option" where
  "dead_letter_notification db nid error now =
     hset db (K_notification nid) [(''status'', ''dead''), (''error'', error), (''updated_at'', show_int now)]"

subsection \<open>Nothing is lost\<close>

definition has_id :: "(nat \<times> 'a) list \<Rightarrow> nat \<Rightarrow> bool" where
  "has_id xs i \<longleftrightarrow> i \<in> fst ` set xs"

lemma has_id_simps [simp]: "\<not> has_id [] i" "has_id ((j, x) # xs) i \<longleftrightarrow> i = j \<or> has_id xs i"
    "has_id (xs @ ys) i \<longleftrightarrow> has_id xs i \<or> has_id ys i"
  by (auto simp: has_id_def)

lemma has_id_map_of: "has_id xs i \<longleftrightarrow> map_of xs i \<noteq> None"
  by (simp add: has_id_def map_of_eq_None_iff)

lemma has_id_mem: "(i, x) \<in> set xs \<Longrightarrow> has_id xs i"
  by (force simp: has_id_def)

text \<open>
  A stream and one of its groups in order: ids grow, the group has been given no id beyond its
  mark, and every message it was given and that still exists is pending.
\<close>

definition stream_inv :: "string \<Rightarrow> stream \<Rightarrow> bool" where
  "stream_inv g s \<longleftrightarrow> sorted_wrt (<) (map fst (entries s)) \<and> last_delivered (group_of g s) \<le> last_id s \<and>
     (\<forall>i. has_id (entries s) i \<longrightarrow>
        i \<le> last_id s \<and> (i \<le> last_delivered (group_of g s) \<longrightarrow> has_id (pending (group_of g s)) i))"

lemma group_of_set [simp]: "group_of g (set_group g gr s) = gr"
  by (simp add: group_of_def set_group_def update_conv')

lemma set_group_simps [simp]: "entries (set_group g gr s) = entries s" "last_id (set_group g gr s) = last_id s"
  by (simp_all add: set_group_def)

lemma ensure_group_simps [simp]: "entries (ensure_group g s) = entries s" "last_id (ensure_group g s) = last_id s"
    "group_of g (ensure_group g s) = group_of g s"
  by (auto simp: ensure_group_def group_of_def update_conv')

lemma stream_inv_ensure [simp]: "stream_inv g (ensure_group g s) = stream_inv g s"
  by (simp add: stream_inv_def)

lemma scan_pending:
  "autoclaim_scan es consumer min_idle now attempts quota ps = (ms, qs) \<Longrightarrow> has_id ps i \<Longrightarrow> has_id es i \<Longrightarrow>
   has_id qs i"
proof (induction es consumer min_idle now attempts quota ps arbitrary: ms qs rule: autoclaim_scan.induct)
  case (2 es consumer min_idle now attempts quota j c at ps)
  show ?case
  proof (cases "attempts = 0 \<or> quota = 0")
    case True
    then show ?thesis using "2.prems" by auto
  next
    case False
    show ?thesis
    proof (cases "map_of es j")
      case None
      then have "j \<noteq> i" using "2.prems"(3) by (auto simp: has_id_map_of)
      then show ?thesis using 2(1) [OF False None] "2.prems" False None by auto
    next
      case (Some fs)
      then show ?thesis
        using 2(2) [OF False Some] 2(3) [OF False Some] "2.prems" False
        by (cases "now - at < min_idle") (auto split: prod.splits)
    qed
  qed
qed simp

lemma scan_claims:
  "autoclaim_scan es consumer min_idle now attempts quota ps = (ms, qs) \<Longrightarrow> length ps \<le> attempts \<Longrightarrow> length ps \<le> quota \<Longrightarrow>
   list_all (\<lambda>(i, c, at). min_idle \<le> now - at) ps \<Longrightarrow>
   length ms \<le> length ps \<and> (\<forall>i fs. has_id ps i \<longrightarrow> map_of es i = Some fs \<longrightarrow> (i, fs) \<in> set ms)"
proof (induction es consumer min_idle now attempts quota ps arbitrary: ms qs rule: autoclaim_scan.induct)
  case (2 es consumer min_idle now attempts quota j c at ps)
  then have nz: "\<not> (attempts = 0 \<or> quota = 0)" by auto
  show ?case
  proof (cases "map_of es j")
    case None
    then show ?thesis using 2(1) [OF nz None, of ms qs] "2.prems" nz by fastforce
  next
    case (Some fs)
    obtain ms' qs' where rest: "autoclaim_scan es consumer min_idle now (attempts - 1) (quota - 1) ps = (ms', qs')"
      by (rule prod.exhaust)
    have "length ms' \<le> length ps \<and> (\<forall>i fs. has_id ps i \<longrightarrow> map_of es i = Some fs \<longrightarrow> (i, fs) \<in> set ms')"
      using 2(3) [OF nz Some _ rest] "2.prems" by auto
    then show ?thesis using "2.prems" nz Some rest by auto
  qed
qed simp

lemma autoclaim_simps:
  assumes "autoclaim g consumer min_idle now quota s = (ms, s')"
  shows "entries s' = entries s" "last_id s' = last_id s" "last_delivered (group_of g s') = last_delivered (group_of g s)"
    "has_id (pending (group_of g s)) i \<Longrightarrow> has_id (entries s) i \<Longrightarrow> has_id (pending (group_of g s')) i"
  using assms scan_pending by (auto simp: autoclaim_def Let_def split: prod.splits)

lemma stream_inv_autoclaim:
  assumes "autoclaim g consumer min_idle now quota s = (ms, s')" "stream_inv g s"
  shows "stream_inv g s'"
  using assms(2) autoclaim_simps [OF assms(1)] by (auto simp: stream_inv_def)

lemma readgroup_simps:
  assumes "readgroup g consumer now quota s = (ms, s')"
  shows "entries s' = entries s" "last_id s' = last_id s"
    "ms = take quota (filter (\<lambda>(i, fs). i > last_delivered (group_of g s)) (entries s))"
  using assms by (auto simp: readgroup_def Let_def split: if_splits)

lemma sorted_take_last:
  assumes "sorted_wrt (<) (map fst xs)" "ms = take n xs" "ms \<noteq> []" "has_id xs i" "i \<le> fst (last ms)"
  shows "has_id ms i"
proof -
  have split: "xs = ms @ drop n xs" using assms(2) by simp
  have "fst (last ms) < j" if "has_id (drop n xs) j" for j
  proof -
    have "sorted_wrt (<) (map fst ms @ map fst (drop n xs))" using assms(1) split by (metis map_append)
    then show ?thesis using that assms(3) by (auto simp: sorted_wrt_append has_id_def)
  qed
  then show ?thesis using assms(4,5) split by (metis has_id_simps(3) leD)
qed

lemma has_id_filter: "has_id (filter (\<lambda>(i, fs). P i) xs) i \<longleftrightarrow> has_id xs i \<and> P i"
  by (auto simp: has_id_def)

lemma has_id_filter_pending: "has_id (filter (\<lambda>(j, c, at). j \<noteq> k) xs) i \<longleftrightarrow> has_id xs i \<and> i \<noteq> k"
  by (force simp: has_id_def)

lemma has_id_take: "has_id (take n xs) i \<Longrightarrow> has_id xs i"
  by (auto simp: has_id_def dest: in_set_takeD)

lemma stream_inv_readgroup:
  assumes "readgroup g consumer now quota s = (ms, s')" "stream_inv g s"
  shows "stream_inv g s'"
proof (cases "ms = []")
  case True
  then show ?thesis using assms by (auto simp: readgroup_def Let_def split: if_splits)
next
  case False
  let ?gr = "group_of g s" and ?xs = "filter (\<lambda>(i, fs). i > last_delivered (group_of g s)) (entries s)"
  note ms = readgroup_simps(3) [OF assms(1)]
  have sorted: "sorted_wrt (<) (map fst ?xs)"
    using assms(2) by (simp add: stream_inv_def sorted_wrt_map sorted_wrt_filter)
  have s': "s' = set_group g (?gr\<lparr>last_delivered := fst (last ms), pending := pending ?gr @ map (\<lambda>(i, fs). (i, consumer, now)) ms\<rparr>) s"
    using assms(1) False by (auto simp: readgroup_def Let_def split: if_splits)
  have pend: "has_id (map (\<lambda>(i, fs). (i, consumer, now)) ms) i \<longleftrightarrow> has_id ms i" for i by (force simp: has_id_def)
  have "has_id (pending ?gr) i \<or> has_id ms i" if "has_id (entries s) i" "i \<le> fst (last ms)" for i
  proof (cases "i \<le> last_delivered ?gr")
    case True
    then show ?thesis using that assms(2) by (simp add: stream_inv_def)
  next
    case False
    then show ?thesis using sorted_take_last [OF sorted ms \<open>ms \<noteq> []\<close>, of i] that by (simp add: has_id_filter)
  qed
  moreover have "has_id (entries s) (fst (last ms))"
  proof -
    have "has_id ms (fst (last ms))" using last_in_set [OF False] by (auto simp: has_id_def)
    then show ?thesis using ms by (auto dest: has_id_take simp: has_id_filter)
  qed
  ultimately show ?thesis using assms(2) by (auto simp: stream_inv_def s' pend)
qed

lemma ack_delete_simps:
  "last_id (ack_delete g i s) = last_id s" "last_delivered (group_of g (ack_delete g i s)) = last_delivered (group_of g s)"
  "entries (ack_delete g i s) = filter (\<lambda>(j, fs). j \<noteq> i) (entries s)"
  "pending (group_of g (ack_delete g i s)) = filter (\<lambda>(j, c, at). j \<noteq> i) (pending (group_of g s))"
  by (auto simp: ack_delete_def Let_def group_of_def set_group_def update_conv' split: option.split)

lemma stream_inv_ack: "stream_inv g s \<Longrightarrow> stream_inv g (ack_delete g i s)"
  by (auto simp: stream_inv_def ack_delete_simps sorted_wrt_map sorted_wrt_filter has_id_filter has_id_filter_pending)

lemma stream_inv_add:
  assumes "stream_inv g s"
  shows "stream_inv g (s\<lparr>entries := entries s @ [(Suc (last_id s), fs)], last_id := Suc (last_id s)\<rparr>)"
proof -
  have "i < Suc (last_id s)" if "i \<in> set (map fst (entries s))" for i
    using that assms by (auto simp: stream_inv_def has_id_def le_imp_less_Suc)
  then show ?thesis using assms by (auto simp: stream_inv_def group_of_def sorted_wrt_append le_Suc_eq)
qed

subsection \<open>The interface: a queue that delivers at least once\<close>

text \<open>A history of operations with the set of messages acknowledged in it.\<close>

inductive acked_run :: "('s \<Rightarrow> 'i set \<Rightarrow> 's \<Rightarrow> bool) \<Rightarrow> 's \<Rightarrow> 'i set \<Rightarrow> 's \<Rightarrow> bool" for step where
  refl: "acked_run step s {} s"
| trans: "acked_run step s A s' \<Longrightarrow> step s' B s'' \<Longrightarrow> acked_run step s (A \<union> B) s''"

locale at_least_once =
  fixes step :: "'s \<Rightarrow> 'i set \<Rightarrow> 's \<Rightarrow> bool"
    and inv :: "'s \<Rightarrow> bool"
    and outstanding :: "'s \<Rightarrow> 'i set"
    and redelivered :: "'s \<Rightarrow> 'i \<Rightarrow> bool"
  assumes step_inv: "inv s \<Longrightarrow> step s A s' \<Longrightarrow> inv s'"
    and step_keeps: "inv s \<Longrightarrow> step s A s' \<Longrightarrow> i \<in> outstanding s \<Longrightarrow> i \<notin> A \<Longrightarrow> i \<in> outstanding s'"
    and redelivery: "inv s \<Longrightarrow> i \<in> outstanding s \<Longrightarrow> redelivered s i"
begin

lemma run_keeps: "acked_run step s A s' \<Longrightarrow> inv s \<Longrightarrow> i \<in> outstanding s \<Longrightarrow> i \<notin> A \<Longrightarrow> inv s' \<and> i \<in> outstanding s'"
  by (induction rule: acked_run.induct) (auto intro: step_inv step_keeps)

lemma not_lost: "acked_run step s A s' \<Longrightarrow> inv s \<Longrightarrow> i \<in> outstanding s \<Longrightarrow> i \<notin> A \<Longrightarrow> redelivered s' i"
  using run_keeps redelivery by blast

end

subsection \<open>The broker's streams deliver at least once\<close>

text \<open>The operations on stream \<open>k\<close> and group \<open>g\<close>; the last rule is everything that leaves the stream alone.\<close>

inductive stream_step :: "rkey \<Rightarrow> string \<Rightarrow> redis \<Rightarrow> nat set \<Rightarrow> redis \<Rightarrow> bool" for k g where
  read: "read_group db k g consumer limit block_ms = Some (ms, db') \<Longrightarrow> stream_step k g db {} db'"
| inbox: "k = K_worker_inbox w \<Longrightarrow> g = ''agent'' \<Longrightarrow> take_inbox prefetch db w block_ms active = Some (r, db') \<Longrightarrow> stream_step k g db {} db'"
| notification: "k = K_notification_stream \<Longrightarrow> g = ''feishu'' \<Longrightarrow> take_notification db consumer block_ms = Some (r, db') \<Longrightarrow>
    stream_step k g db {} db'"
| ack: "ack_group db k g i = Some db' \<Longrightarrow> stream_step k g db {i} db'"
| add: "xadd db k fs = Some (mid, db') \<Longrightarrow> stream_step k g db {} db'"
| other: "well_typed db' \<Longrightarrow> stream_at db' k = stream_at db k \<Longrightarrow> stream_step k g db {} db'"

definition group_inv :: "rkey \<Rightarrow> string \<Rightarrow> redis \<Rightarrow> bool" where
  "group_inv k g db \<longleftrightarrow> key_kind k = KStream \<and> well_typed db \<and> stream_inv g (stream_at db k)"

definition outstanding_messages :: "rkey \<Rightarrow> redis \<Rightarrow> nat set" where
  "outstanding_messages k db = {i. has_id (entries (stream_at db k)) i}"

definition all_idle :: "rkey \<Rightarrow> string \<Rightarrow> redis \<Rightarrow> int \<Rightarrow> bool" where
  "all_idle k g db block_ms \<longleftrightarrow> list_all (\<lambda>(i, c, at). max block_ms 1000 \<le> clock db - at) (pending (group_of g (stream_at db k)))"

definition handed_out :: "rkey \<Rightarrow> string \<Rightarrow> redis \<Rightarrow> nat \<Rightarrow> bool" where
  "handed_out k g db i \<longleftrightarrow>
     (\<forall>consumer limit block_ms. all_idle k g db block_ms \<longrightarrow>
        length (pending (group_of g (stream_at db k))) + length (entries (stream_at db k)) \<le> limit \<longrightarrow>
        (\<exists>ms db'. read_group db k g consumer limit block_ms = Some (ms, db') \<and> has_id ms i))"

lemma stream_at_put [simp]: "stream_at (put_stream db k s) k = s"
  by (simp add: put_stream_def stream_at_def put_def)

lemma well_typed_put_stream: "well_typed db \<Longrightarrow> key_kind k = KStream \<Longrightarrow> well_typed (put_stream db k s)"
  by (simp add: put_stream_def well_typed_put)

lemma ensure_stream_group_wt:
  "well_typed db \<Longrightarrow> key_kind k = KStream \<Longrightarrow> ensure_stream_group db k g = Some (put_stream db k (ensure_group g (stream_at db k)))"
  by (simp add: ensure_stream_group_def)

text \<open>A stream after reading: both commands keep the messages and the order of the stream.\<close>

definition reads_to :: "string \<Rightarrow> stream \<Rightarrow> stream \<Rightarrow> bool" where
  "reads_to g s s' \<longleftrightarrow> entries s' = entries s \<and> (stream_inv g s \<longrightarrow> stream_inv g s')"

lemma reads_to_parts:
  "autoclaim g consumer min_idle now quota (ensure_group g s) = (ms, s') \<Longrightarrow> reads_to g s s'"
  "readgroup g consumer now quota s = (ms, s') \<Longrightarrow> reads_to g s s'" "reads_to g s s"
  "reads_to g s s' \<Longrightarrow> reads_to g s' s'' \<Longrightarrow> reads_to g s s''"
  using autoclaim_simps(1) readgroup_simps(1) stream_inv_autoclaim stream_inv_readgroup
  by (fastforce simp: reads_to_def)+

lemma reads_to_both:
  "autoclaim g consumer min_idle now quota (ensure_group g s) = (ms, s1) \<Longrightarrow> readgroup g consumer' now' quota' s1 = (ms', s2) \<Longrightarrow>
   reads_to g s s2"
  by (rule reads_to_parts(4) [OF reads_to_parts(1) reads_to_parts(2)])

lemma read_effects:
  assumes "well_typed db"
  shows "key_kind k = KStream \<Longrightarrow> read_group db k g consumer limit block_ms = Some (ms, db') \<Longrightarrow>
      \<exists>s. stream_at db' k = s \<and> reads_to g (stream_at db k) s \<and> well_typed db'"
    "take_inbox prefetch db w block_ms active = Some (r, db') \<Longrightarrow>
      \<exists>s. stream_at db' (K_worker_inbox w) = s \<and> reads_to ''agent'' (stream_at db (K_worker_inbox w)) s \<and> well_typed db'"
    "take_notification db consumer block_ms = Some (r', db') \<Longrightarrow>
      \<exists>s. stream_at db' K_notification_stream = s \<and> reads_to ''feishu'' (stream_at db K_notification_stream) s \<and> well_typed db'"
  using assms
  by (auto simp: read_group_def take_inbox_def take_notification_def ensure_stream_group_wt well_typed_put_stream Let_def
      bind_eq_Some_conv split: if_splits prod.splits list.splits intro: reads_to_parts(1) reads_to_both)

lemma stream_step_effect:
  assumes "stream_step k g db A db'" "group_inv k g db"
  shows "group_inv k g db' \<and> (\<forall>i. has_id (entries (stream_at db k)) i \<and> i \<notin> A \<longrightarrow> has_id (entries (stream_at db' k)) i)"
  using assms(1)
proof cases
  case (read consumer limit block_ms ms)
  then show ?thesis using read_effects(1) [of db k g consumer limit block_ms ms db'] assms(2)
    by (auto simp: group_inv_def reads_to_def)
next
  case (inbox w prefetch block_ms active r)
  then show ?thesis using read_effects(2) [of db prefetch w block_ms active r db'] assms(2)
    by (auto simp: group_inv_def reads_to_def)
next
  case (notification consumer block_ms r)
  then show ?thesis using read_effects(3) [of db consumer block_ms r db'] assms(2)
    by (auto simp: group_inv_def reads_to_def)
next
  case (ack i)
  then show ?thesis using assms(2)
    by (auto simp: group_inv_def ack_group_def stream_inv_ack well_typed_put_stream ack_delete_simps has_id_filter split: if_splits)
next
  case (add fs mid)
  then show ?thesis using assms(2) stream_inv_add [of g "stream_at db k" fs]
    by (auto simp: group_inv_def xadd_def view_simps redis_simps next_id_def split: if_splits)
next
  case other
  then show ?thesis using assms(2) by (simp add: group_inv_def)
qed

lemma read_all:
  assumes "group_inv k g db" "has_id (entries (stream_at db k)) i" "all_idle k g db block_ms"
    and "length (pending (group_of g (stream_at db k))) + length (entries (stream_at db k)) \<le> limit"
  shows "\<exists>ms db'. read_group db k g consumer limit block_ms = Some (ms, db') \<and> has_id ms i"
proof -
  let ?s = "stream_at db k" and ?gr = "group_of g (stream_at db k)"
  obtain claimed s1 where claim: "autoclaim g consumer (max block_ms 1000) (clock db) limit (ensure_group g ?s) = (claimed, s1)"
    by (rule prod.exhaust)
  obtain fs where fs: "map_of (entries ?s) i = Some fs" using assms(2) by (auto simp: has_id_map_of)
  obtain qs where "autoclaim_scan (entries ?s) consumer (max block_ms 1000) (clock db) (10 * limit) limit (pending ?gr) = (claimed, qs)"
    using claim by (auto simp: autoclaim_def Let_def split: prod.splits)
  from scan_claims [OF this] have scan: "length claimed \<le> length (pending ?gr)" "has_id (pending ?gr) i \<Longrightarrow> has_id claimed i"
    using assms(3,4) fs has_id_mem [of i fs claimed] by (simp_all add: all_idle_def)
  have len: "length (entries ?s) \<le> limit - length claimed" using scan(1) assms(4) by linarith
  have "0 < limit - length claimed" using len assms(2) by (cases "entries ?s") auto
  then obtain new s2 where new: "readgroup g consumer (clock db) (limit - length claimed) s1 = (new, s2)"
    "read_group db k g consumer limit block_ms = Some (claimed @ new, put_stream (put_stream db k (ensure_group g ?s)) k s2)"
    using claim assms(1)
    by (cases "readgroup g consumer (clock db) (limit - length claimed) s1")
      (simp add: read_group_def ensure_stream_group_wt group_inv_def)
  have "has_id claimed i \<or> has_id new i"
  proof (cases "i \<le> last_delivered ?gr")
    case True
    then show ?thesis using assms(1,2) scan(2) by (simp add: group_inv_def stream_inv_def)
  next
    case False
    have "new = filter (\<lambda>(i, fs). i > last_delivered ?gr) (entries ?s)"
      using readgroup_simps(3) [OF new(1)] autoclaim_simps(1,3) [OF claim] len
      by (simp add: le_trans [OF length_filter_le])
    then show ?thesis using False assms(2) by (simp add: has_id_filter)
  qed
  then show ?thesis using new(2) by auto
qed

interpretation group_stream: at_least_once "stream_step k g" "group_inv k g" "outstanding_messages k" "handed_out k g" for k g
proof unfold_locales
  show "group_inv k g db'" if "group_inv k g db" "stream_step k g db A db'" for db A db'
    using stream_step_effect [OF that(2,1)] by blast
  show "i \<in> outstanding_messages k db'"
    if "group_inv k g db" "stream_step k g db A db'" "i \<in> outstanding_messages k db" "i \<notin> A" for db A db' i
    using stream_step_effect [OF that(2,1)] that(3,4) by (auto simp: outstanding_messages_def)
  show "handed_out k g db i" if "group_inv k g db" "i \<in> outstanding_messages k db" for db i
    using read_all [OF that(1)] that(2) by (auto simp: handed_out_def outstanding_messages_def)
qed

subsection \<open>Properties\<close>

text \<open>
  C28: a message in a stream of the broker is not lost. Whatever reads, acknowledgements of other
  messages, additions and unrelated operations follow, by whichever consumers, the message is still
  there and a consumer that reads when the others have gone silent, with room for what is there,
  is given it.
\<close>

theorem stream_message_not_lost:
  assumes "acked_run (stream_step k g) db acked db'" "group_inv k g db" "has_id (entries (stream_at db k)) i" "i \<notin> acked"
    and "all_idle k g db' block_ms"
    and "length (pending (group_of g (stream_at db' k))) + length (entries (stream_at db' k)) \<le> limit"
  shows "\<exists>ms db''. read_group db' k g consumer limit block_ms = Some (ms, db'') \<and> has_id ms i"
  using group_stream.not_lost [OF assms(1,2) _ assms(4)] assms(3,5,6)
  by (auto simp: outstanding_messages_def handed_out_def)

definition queued_stream_db :: redis where
  "queued_stream_db = xadd_w empty_redis K_ingress_stream [(''task_id'', ''t'')]"

theorem stream_message_not_lost_witness:
  "\<exists>ms db. read_group (redis_tick 5000 queued_stream_db) K_ingress_stream ''scheduler'' ''c'' 10 1000 = Some (ms, db) \<and> has_id ms 1"
proof -
  let ?db = "redis_tick 5000 queued_stream_db"
  have at: "stream_at queued_stream_db K_ingress_stream = \<lparr>entries = [(1, [(''task_id'', ''t'')])], last_id = 1, groups = []\<rparr>"
    by (simp add: queued_stream_db_def view_simps next_id_def empty_stream_def)
  have tick: "stream_at ?db K_ingress_stream = stream_at queued_stream_db K_ingress_stream"
    by (simp add: redis_tick_def queued_stream_db_def stream_at_def xadd_w_def put_def empty_redis_def Let_def)
  have wt: "well_typed queued_stream_db" by (simp add: queued_stream_db_def redis_simps)
  then have inv: "group_inv K_ingress_stream ''scheduler'' queued_stream_db"
    by (simp add: group_inv_def stream_inv_def at group_of_def)
  have "stream_step K_ingress_stream ''scheduler'' queued_stream_db {} ?db"
    using tick wt by (intro stream_step.other) (simp_all add: redis_simps)
  from acked_run.trans [where step = "stream_step K_ingress_stream ''scheduler''", OF acked_run.refl this] show ?thesis
    by (rule stream_message_not_lost [OF _ inv]) (simp_all add: at tick all_idle_def group_of_def)
qed

end
