(* ===== verification/Script_Types.thy ===== *)
theory Script_Types
  imports Streams
begin

text \<open>
  The typing discipline of the keyspace: every key the runtime uses holds one type of value
  (\<open>well_typed\<close>), and the scripts neither meet nor leave a value of another type.
\<close>

definition type_safe :: "'a reply \<Rightarrow> bool" where
  "type_safe r \<longleftrightarrow> (\<exists>v db'. r = Some (v, db') \<and> well_typed db')"

lemma type_safe_Some [simp]: "type_safe (Some (v, db')) = well_typed db'"
  by (simp add: type_safe_def)

lemma type_safe_if [simp]: "type_safe (if b then x else y) \<longleftrightarrow> (if b then type_safe x else type_safe y)"
  by simp

lemma lease_scripts_typed:
  assumes "well_typed db"
  shows "type_safe (RENEW_MR_LUA db (K_mr_lease m) w tok ms)" "type_safe (RELEASE_MR_LUA db (K_mr_lease m) w tok)"
    "type_safe (ASSERT_FENCE_LUA db (K_mr_lease m) w tok)" "type_safe (REVOKE_MR_LUA db (K_mr_lease m) w tok)"
  using assms
  by (simp_all add: RENEW_MR_LUA_def RELEASE_MR_LUA_def ASSERT_FENCE_LUA_def REVOKE_MR_LUA_def redis_simps cong: bind_head_cong)

lemma effect_scripts_typed:
  assumes "well_typed db" "key_kind lease_k = KHash"
  shows "type_safe (CLAIM_EFFECT_LUA db (K_effect e) lease_k (K_task t) w tok md now ek)"
    "type_safe (UPDATE_EFFECT_LUA db (K_effect e) lease_k w tok md now)"
    "type_safe (COMPLETE_EFFECT_LUA db (K_effect e) lease_k (K_task t) w tok res now ek)"
  using assms
  by (simp_all add: CLAIM_EFFECT_LUA_def UPDATE_EFFECT_LUA_def COMPLETE_EFFECT_LUA_def redis_simps cong: bind_head_cong
      split: option.split)

lemma task_scripts_typed:
  assumes "well_typed db" "key_kind lease_k = KHash"
  shows "type_safe (TRANSITION_TASK_LUA db (K_task t) lease_k K_active_repairs ex tg w tok now t extra)"
    "type_safe (HEARTBEAT_TASK_LUA db (K_task t) w tok now)"
    "type_safe (ASSIGN_TASK_LUA db (K_task t) lease_k (K_worker_tasks w) (K_worker_inbox w) w tok now t)"
    "type_safe (TRANSFER_ORPHANED_TASK_LUA db (K_task t) lease_k (K_worker_tasks w') (K_worker_tasks w) (K_worker_inbox w) w' w tok now t ev)"
    "type_safe (ACQUIRE_LEADER_LUA db K_scheduler_leader who ttl)"
  using assms
  by (simp_all add: TRANSITION_TASK_LUA_def HEARTBEAT_TASK_LUA_def ASSIGN_TASK_LUA_def TRANSFER_ORPHANED_TASK_LUA_def
      ACQUIRE_LEADER_LUA_def redis_simps set_nx_ex_def cong: bind_head_cong)

lemma notification_scripts_typed:
  assumes "well_typed db"
  shows "type_safe (ENQUEUE_NOTIFICATION_LUA db (K_notification_dedup n) K_notification_stream (K_notification n) ttl body n created)"
    "type_safe (ENQUEUE_CARD_FALLBACK_LUA db (K_triage_card c) (K_notification_dedup n) K_notification_stream (K_notification n) ttl body n
       created now)"
  using assms
  by (simp_all add: ENQUEUE_NOTIFICATION_LUA_def ENQUEUE_CARD_FALLBACK_LUA_def redis_simps set_nx_ex_def cong: bind_head_cong)

lemma auto_scripts_typed:
  assumes "well_typed db"
  shows "type_safe (RECORD_AUTO_COMMAND_COMPLETED_LUA db (K_task t) (K_mr_lease m) w tok ni cs sha now)"
    "type_safe (PAUSE_AUTO_FOR_TRIAGE_LUA db (K_task t) (K_mr_lease m) (K_mr_triage_active m) (K_mr_paused_auto m) w tok tr t ni cs sha now mi)"
    "type_safe (RESUME_AUTO_AFTER_TRIAGE_LUA db (K_mr_triage_active m) (K_mr_paused_auto m) (K_mr_lease m) (K_task tr) (K_worker_tasks w)
       (K_worker_inbox w) tr w tok now dl)"
  using assms
  by (simp_all add: RECORD_AUTO_COMMAND_COMPLETED_LUA_def PAUSE_AUTO_FOR_TRIAGE_LUA_def RESUME_AUTO_AFTER_TRIAGE_LUA_def redis_simps
      cong: bind_head_cong split: option.split)

text \<open>
  The scripts that compute with stored text need it to be numbers: the counter of fencing tokens,
  and the times and the attempt of the task. A stored payload is an object or does not decode.
\<close>

definition numeric :: "string option \<Rightarrow> bool" where
  "numeric v \<longleftrightarrow> (\<forall>s. v = Some s \<longrightarrow> tonumber s \<noteq> None)"

definition stored_numbers :: "redis \<Rightarrow> string \<Rightarrow> bool" where
  "stored_numbers db t \<longleftrightarrow>
     numeric (hash_at db (K_task t) ''attempt'') \<and> numeric (hash_at db (K_task t) ''heartbeat_at'') \<and>
     numeric (hash_at db (K_task t) ''updated_at'') \<and>
     (\<forall>j. loads (or_else (hash_at db (K_task t) ''payload'') []) = Some j \<longrightarrow> (\<exists>d. j = JObj d))"

lemma numeric_default: "numeric v \<Longrightarrow> \<exists>n. tonumber (or_else v ''0'') = Some n"
  by (cases v) (auto simp: numeric_def)

lemma claim_typed:
  assumes "well_typed db" "\<And>s. str_at db (K_mr_fence m) = Some s \<Longrightarrow> parse_int s \<noteq> None"
  shows "type_safe (CLAIM_MR_LUA db (K_mr_lease m) (K_mr_fence m) w ms)"
proof -
  obtain n where "incr db (K_mr_fence m) = Some (n + 1, put db (K_mr_fence m) (RStr (show_int (n + 1))))"
    using assms by (cases "str_at db (K_mr_fence m)") (auto simp: incr_def)
  then show ?thesis using assms(1) by (simp add: CLAIM_MR_LUA_def redis_simps well_typed_put)
qed

lemma stale_scripts_typed:
  assumes "well_typed db" "stored_numbers db t" "tonumber cutoff = Some c" "tonumber limit = Some n"
  shows "type_safe (FAIL_STALE_RUNNING_TASK_LUA db (K_task t) (K_mr_lease m) K_active_repairs t w tok cutoff err now)"
    "type_safe (REQUEUE_STALE_REPAIR_LUA db (K_task t) K_ingress_stream ex cutoff t now)"
    "type_safe (REQUEUE_STALE_AUTO_WORKFLOW_LUA db (K_task t) K_ingress_stream cutoff t limit now)"
    "type_safe (RECOVER_DEAD_TASK_LUA db (K_task t) (K_worker_tasks w) K_ingress_stream w t limit now)"
proof -
  obtain a b where ab: "tonumber (or_else (hash_at db (K_task t) ''attempt'') ''0'') = Some a"
    "tonumber (or_else (hash_at db (K_task t) ''updated_at'') ''0'') = Some b"
    using assms(2) numeric_default unfolding stored_numbers_def by metis
  obtain h where h: "tonumber (or_else (hash_at db (K_task t) ''heartbeat_at'') (or_else (hash_at db (K_task t) ''updated_at'') ''0'')) = Some h"
    using assms(2) ab(2) by (cases "hash_at db (K_task t) ''heartbeat_at''") (auto simp: stored_numbers_def numeric_def)
  show "type_safe (FAIL_STALE_RUNNING_TASK_LUA db (K_task t) (K_mr_lease m) K_active_repairs t w tok cutoff err now)"
    using assms(1,3) h by (simp add: FAIL_STALE_RUNNING_TASK_LUA_def redis_simps)
  show "type_safe (REQUEUE_STALE_REPAIR_LUA db (K_task t) K_ingress_stream ex cutoff t now)"
    using assms(1,3) ab by (simp add: REQUEUE_STALE_REPAIR_LUA_def redis_simps cong: bind_head_cong)
  show "type_safe (RECOVER_DEAD_TASK_LUA db (K_task t) (K_worker_tasks w) K_ingress_stream w t limit now)"
    using assms(1,4) ab by (simp add: RECOVER_DEAD_TASK_LUA_def redis_simps)
  show "type_safe (REQUEUE_STALE_AUTO_WORKFLOW_LUA db (K_task t) K_ingress_stream cutoff t limit now)"
  proof (cases "loads (or_else (hash_at db (K_task t) ''payload'') [])")
    case None
    then show ?thesis using assms(1,3) ab by (simp add: REQUEUE_STALE_AUTO_WORKFLOW_LUA_def redis_simps)
  next
    case (Some j)
    then obtain d where "j = JObj d" using assms(2) by (auto simp: stored_numbers_def)
    then show ?thesis using assms(1,3,4) ab Some by (simp add: REQUEUE_STALE_AUTO_WORKFLOW_LUA_def redis_simps)
  qed
qed

text \<open>
  C29: the scripts neither meet nor leave a value of the wrong type. On a keyspace whose keys hold
  values of their types, in which the fencing counter and the times and the attempt of the task are
  decimal numbers and its payload is an object or no JSON, none of the following scripts is refused
  by Redis or stops in Lua, and each leaves a keyspace whose keys hold values of their types: of the
  leases \<open>CLAIM_MR\<close>, \<open>RENEW_MR\<close>, \<open>RELEASE_MR\<close>, \<open>ASSERT_FENCE\<close> and \<open>REVOKE_MR\<close>; of the effects
  \<open>CLAIM_EFFECT\<close>, \<open>UPDATE_EFFECT\<close> and \<open>COMPLETE_EFFECT\<close>; of the tasks \<open>TRANSITION_TASK\<close>,
  \<open>HEARTBEAT_TASK\<close>, \<open>ASSIGN_TASK\<close>, \<open>TRANSFER_ORPHANED_TASK\<close>, \<open>FAIL_STALE_RUNNING_TASK\<close>,
  \<open>REQUEUE_STALE_REPAIR\<close>, \<open>REQUEUE_STALE_AUTO_WORKFLOW\<close>, \<open>RECOVER_DEAD_TASK\<close> and \<open>ACQUIRE_LEADER\<close>; of
  the notifications \<open>ENQUEUE_NOTIFICATION\<close> and \<open>ENQUEUE_CARD_FALLBACK\<close>; and of the automatic workflows
  \<open>RECORD_AUTO_COMMAND_COMPLETED\<close>, \<open>PAUSE_AUTO_FOR_TRIAGE\<close> and \<open>RESUME_AUTO_AFTER_TRIAGE\<close>.
\<close>

theorem scripts_type_safe:
  assumes "well_typed db" "\<And>s. str_at db (K_mr_fence m) = Some s \<Longrightarrow> parse_int s \<noteq> None" "stored_numbers db t"
    and "tonumber cutoff = Some c" "tonumber limit = Some n"
  shows "type_safe (CLAIM_MR_LUA db (K_mr_lease m) (K_mr_fence m) w ms) \<and>
    type_safe (RENEW_MR_LUA db (K_mr_lease m) w tok ms) \<and> type_safe (RELEASE_MR_LUA db (K_mr_lease m) w tok) \<and>
    type_safe (ASSERT_FENCE_LUA db (K_mr_lease m) w tok) \<and> type_safe (REVOKE_MR_LUA db (K_mr_lease m) w tok) \<and>
    type_safe (CLAIM_EFFECT_LUA db (K_effect e) (lease_key_of l) (K_task t) w tok md now e) \<and>
    type_safe (UPDATE_EFFECT_LUA db (K_effect e) (lease_key_of l) w tok md now) \<and>
    type_safe (COMPLETE_EFFECT_LUA db (K_effect e) (lease_key_of l) (K_task t) w tok res now e) \<and>
    type_safe (TRANSITION_TASK_LUA db (K_task t) (lease_key_of l) K_active_repairs ex tg w tok now t extra) \<and>
    type_safe (HEARTBEAT_TASK_LUA db (K_task t) w tok now) \<and>
    type_safe (ASSIGN_TASK_LUA db (K_task t) (lease_key_of l) (K_worker_tasks w) (K_worker_inbox w) w tok now t) \<and>
    type_safe (TRANSFER_ORPHANED_TASK_LUA db (K_task t) (lease_key_of l) (K_worker_tasks w') (K_worker_tasks w) (K_worker_inbox w)
      w' w tok now t ev) \<and>
    type_safe (FAIL_STALE_RUNNING_TASK_LUA db (K_task t) (K_mr_lease m) K_active_repairs t w tok cutoff err now) \<and>
    type_safe (REQUEUE_STALE_REPAIR_LUA db (K_task t) K_ingress_stream ex cutoff t now) \<and>
    type_safe (REQUEUE_STALE_AUTO_WORKFLOW_LUA db (K_task t) K_ingress_stream cutoff t limit now) \<and>
    type_safe (RECOVER_DEAD_TASK_LUA db (K_task t) (K_worker_tasks w) K_ingress_stream w t limit now) \<and>
    type_safe (ACQUIRE_LEADER_LUA db K_scheduler_leader w ttl) \<and>
    type_safe (ENQUEUE_NOTIFICATION_LUA db (K_notification_dedup k) K_notification_stream (K_notification k) ttl body k created) \<and>
    type_safe (ENQUEUE_CARD_FALLBACK_LUA db (K_triage_card cd) (K_notification_dedup k) K_notification_stream (K_notification k) ttl
      body k created now) \<and>
    type_safe (RECORD_AUTO_COMMAND_COMPLETED_LUA db (K_task t) (K_mr_lease m) w tok ni cs sha now) \<and>
    type_safe (PAUSE_AUTO_FOR_TRIAGE_LUA db (K_task t) (K_mr_lease m) (K_mr_triage_active m) (K_mr_paused_auto m) w tok tr t ni cs sha
      now mi) \<and>
    type_safe (RESUME_AUTO_AFTER_TRIAGE_LUA db (K_mr_triage_active m) (K_mr_paused_auto m) (K_mr_lease m) (K_task tr) (K_worker_tasks w)
      (K_worker_inbox w) tr w tok now dl)"
  by (intro conjI claim_typed [OF assms(1,2)] lease_scripts_typed [OF assms(1)] effect_scripts_typed [OF assms(1) key_kind_lease_key_of]
      task_scripts_typed [OF assms(1) key_kind_lease_key_of] stale_scripts_typed [OF assms(1,3,4,5)]
      notification_scripts_typed [OF assms(1)] auto_scripts_typed [OF assms(1)])

text \<open>A queued task that has been tried once, on a merge request whose third lease was released.\<close>

definition typed_db :: redis where
  "typed_db = set_w (hset_w empty_redis (K_task ''t'') [(''status'', ''queued''), (''attempt'', show_int 1), (''updated_at'', show_int 10),
     (''payload'', dumps (JObj []))]) (K_mr_fence \<lparr>project_id = ''7'', iid = 3\<rparr>) (show_int 3)"

theorem scripts_type_safe_witness:
  "type_safe (ASSIGN_TASK_LUA typed_db (K_task ''t'') K_no_lease (K_worker_tasks ''w'') (K_worker_inbox ''w'') ''w'' [] ''0'' ''t'') \<and>
   type_safe (CLAIM_MR_LUA typed_db (K_mr_lease \<lparr>project_id = ''7'', iid = 3\<rparr>) (K_mr_fence \<lparr>project_id = ''7'', iid = 3\<rparr>) ''w'' 30000) \<and>
   type_safe (REQUEUE_STALE_AUTO_WORKFLOW_LUA typed_db (K_task ''t'') K_ingress_stream (show_int 60) ''t'' (show_int 3) ''0'')"
proof -
  let ?m = "\<lparr>project_id = ''7'', iid = 3\<rparr>"
  have wt: "well_typed typed_db" by (simp add: typed_db_def redis_simps)
  have task: "hash_at typed_db (K_task ''t'') ''attempt'' = Some (show_int 1)" "hash_at typed_db (K_task ''t'') ''updated_at'' = Some (show_int 10)"
    "hash_at typed_db (K_task ''t'') ''heartbeat_at'' = None" "hash_at typed_db (K_task ''t'') ''payload'' = Some (dumps (JObj []))"
    "str_at typed_db (K_mr_fence ?m) = Some (show_int 3)"
    by (simp_all add: typed_db_def view_simps)
  then have "stored_numbers typed_db ''t''" by (simp add: stored_numbers_def numeric_def loads_dumps_obj)
  from scripts_type_safe [OF wt _ this, of ?m "show_int 60" 60 "show_int 3" 3 "''w''" 30000 "[]" _ None _ "''0''"] task show ?thesis
    by (simp add: lease_key_of_def)
qed

end
