(* ===== verification/Stored_Task.thy ===== *)
theory Stored_Task
  imports Repair_Manifest
begin

text \<open>
  The record \<open>get_task\<close> of \<open>pr_agent/distributed/broker.py\<close> reads from a task hash. Timestamps
  are whole seconds and are read from text by a parameter; whether the two nested documents
  \<open>pipeline_repair_state\<close> and \<open>final_repair_report_state\<close> can be decoded is a parameter as well,
  so what is shown here holds whatever their readers accept.
\<close>

record task_readers =
  read_timestamp :: "string \<Rightarrow> int"
  nested_readable :: "string \<Rightarrow> string \<Rightarrow> bool"

record stored_task =
  st_envelope :: task_envelope
  st_status :: task_status
  st_attempt :: int
  st_worker_id :: string
  st_fencing_token :: "int option"
  st_result :: string
  st_error :: string
  st_pipeline_project_id :: string
  st_pipeline_sha :: string
  st_pipeline_attempt_id :: string
  st_pipeline_id :: "int option"
  st_auto_next_command_index :: int
  st_auto_completed_commands :: "string list"
  st_auto_workflow_head_sha :: string
  st_paused_by_triage_task_id :: string
  st_wait_kind :: string
  st_wait_identity :: string
  st_pipeline_repair_state :: string  \<comment> \<open>the text of the nested document\<close>
  st_created_at :: int
  st_updated_at :: int
  st_heartbeat_at :: int
  st_cancel_requested :: bool
  st_delivery_attempt :: int
  st_admission_state :: string
  st_ingress_message_id :: string
  st_admission_context :: dict
  st_repair_commit_manifest :: "repair_commit_manifest option"
  st_repair_rollback_state :: "repair_rollback_state option"
  st_final_repair_report_state :: string  \<comment> \<open>the text of the nested document\<close>

definition admission_complete :: "stored_task \<Rightarrow> bool" where
  "admission_complete t \<longleftrightarrow> st_admission_state t = ''enqueued'' \<and> st_ingress_message_id t \<noteq> []"

subsection \<open>Reading the fields\<close>

definition stored_timestamp :: "task_readers \<Rightarrow> string option \<Rightarrow> int" where
  "stored_timestamp rd v = (case v of None \<Rightarrow> 0 | Some s \<Rightarrow> if s = [] then 0 else read_timestamp rd s)"

text \<open>\<open>_completed_commands\<close>: anything but a JSON list counts as no command.\<close>

definition completed_commands :: "string \<Rightarrow> string list option" where
  "completed_commands s =
     (if s = [] then Some [] else
      case loads s of Some (JArr xs) \<Rightarrow> those_map py_str xs | _ \<Rightarrow> Some [])"

definition json_object :: "string option \<Rightarrow> dict" where
  "json_object v =
     (if or_else v [] = [] then [] else
      case loads (or_else v []) of Some (JObj d) \<Rightarrow> d | _ \<Rightarrow> [])"

text \<open>\<open>int(value[f]) if value.get(f) else None\<close>, and a nested document read the same way.\<close>

definition field_unless_empty :: "(string \<Rightarrow> 'a option) \<Rightarrow> string option \<Rightarrow> 'a option option" where
  "field_unless_empty read v = (if or_else v [] = [] then Some None else map_option Some (read (or_else v [])))"

definition decode_task :: "task_readers \<Rightarrow> (string \<Rightarrow> string option) \<Rightarrow> task_envelope \<Rightarrow> task_status \<Rightarrow> stored_task option" where
  "decode_task rd h env st =
     do { attempt \<leftarrow> py_int_text (or_else (h ''attempt'') ''0'');
          token \<leftarrow> field_unless_empty py_int_text (h ''fencing_token'');
          pid \<leftarrow> field_unless_empty py_int_text (h ''pipeline_id'');
          next_index \<leftarrow> py_int_text (or_else (h ''auto_next_command_index'') ''0'');
          commands \<leftarrow> completed_commands (or_else (h ''auto_completed_commands'') []);
          deliveries \<leftarrow> (if or_else (h ''delivery_attempt'') [] = [] then Some 0 else py_int_text (or_else (h ''delivery_attempt'') []));
          manifest \<leftarrow> field_unless_empty repair_commit_manifest_from_json (h ''repair_commit_manifest'');
          rollback \<leftarrow> field_unless_empty repair_rollback_state_from_json (h ''repair_rollback_state'');
          if \<not> nested_readable rd (or_else (h ''pipeline_repair_state'') []) (or_else (h ''final_repair_report_state'') []) then None else
          Some \<lparr>st_envelope = env, st_status = st, st_attempt = attempt, st_worker_id = or_else (h ''worker_id'') [],
            st_fencing_token = token, st_result = or_else (h ''result'') [], st_error = or_else (h ''error'') [],
            st_pipeline_project_id = or_else (h ''pipeline_project_id'') [], st_pipeline_sha = or_else (h ''pipeline_sha'') [],
            st_pipeline_attempt_id = or_else (h ''pipeline_attempt_id'') [], st_pipeline_id = pid,
            st_auto_next_command_index = next_index, st_auto_completed_commands = commands,
            st_auto_workflow_head_sha = or_else (h ''auto_workflow_head_sha'') [],
            st_paused_by_triage_task_id = or_else (h ''paused_by_triage_task_id'') [], st_wait_kind = or_else (h ''wait_kind'') [],
            st_wait_identity = or_else (h ''wait_identity'') [], st_pipeline_repair_state = or_else (h ''pipeline_repair_state'') [],
            st_created_at = stored_timestamp rd (h ''created_at''), st_updated_at = stored_timestamp rd (h ''updated_at''),
            st_heartbeat_at = stored_timestamp rd (h ''heartbeat_at''), st_cancel_requested = (h ''cancel_requested'' = Some ''1''),
            st_delivery_attempt = deliveries, st_admission_state = or_else (h ''admission_state'') [],
            st_ingress_message_id = or_else (h ''ingress_message_id'') [], st_admission_context = json_object (h ''admission_context''),
            st_repair_commit_manifest = manifest, st_repair_rollback_state = rollback,
            st_final_repair_report_state = or_else (h ''final_repair_report_state'') []\<rparr> }"

definition get_task :: "task_readers \<Rightarrow> redis \<Rightarrow> string \<Rightarrow> broker_error + stored_task option" where
  "get_task rd db tid =
     (case stored_envelope db tid of
        Inl e \<Rightarrow> Inl e
      | Inr None \<Rightarrow> Inr None
      | Inr (Some env) \<Rightarrow>
          (case task_status_of db tid of
             None \<Rightarrow> Inl (KeyErr ''status'')
           | Some s \<Rightarrow>
               (case TaskStatus s of
                  None \<Rightarrow> Inl (ValueError ''task status'')
                | Some st \<Rightarrow>
                    (case decode_task rd (hash_at db (K_task tid)) env st of
                       None \<Rightarrow> Inl (ValueError ''stored task'')
                     | Some t \<Rightarrow> Inr (Some t)))))"

lemma decode_task_head: "decode_task rd h env st = Some t \<Longrightarrow> st_envelope t = env \<and> st_status t = st"
  by (auto simp: decode_task_def bind_eq_Some_conv split: if_splits)

text \<open>A task that is read has its status in the hash; one that is not there has none.\<close>

lemma get_task_status:
  assumes "get_task rd db tid = Inr (Some t)"
  shows "task_status_of db tid = Some (task_status_value (st_status t)) \<and> stored_envelope db tid = Inr (Some (st_envelope t))"
  using assms by (auto simp: get_task_def TaskStatus_value dest: decode_task_head split: sum.splits option.splits)

lemma get_task_missing:
  assumes "get_task rd db tid = Inr None"
  shows "task_status_of db tid = None"
  using assms
  by (auto simp: get_task_def stored_envelope_def hash_at_def split: sum.splits option.splits if_splits)

end
