(* ===== verification/Scheduler.thy ===== *)
theory Scheduler
  imports Stored_Task Streams Pipeline_Wait
begin

text \<open>
  The scheduler of \<open>pr_agent/distributed/scheduler.py\<close>: how it picks a worker for a task, hands
  queued tasks and repair reports out, and moves the tasks of a dead worker. A method is run by the
  elected leader; the model runs it without another process between its commands, and the time
  is one value for the whole call.
\<close>

record scheduler_settings =
  worker_dead_seconds :: int
  mr_lease_seconds :: int
  report_max_active_per_worker :: int
  lifecycle_ttl_seconds :: int

text \<open>A call followed by the rest of the method; an exception ends it.\<close>

definition on_answer :: "'a answer \<Rightarrow> ('a \<Rightarrow> redis \<Rightarrow> 'b answer) \<Rightarrow> 'b answer" where
  "on_answer x f = (case x of (Inl e, db) \<Rightarrow> (Inl e, db) | (Inr v, db) \<Rightarrow> f v db)"

lemma on_answer_simps [simp]: "on_answer (Inl e, db) f = (Inl e, db)" "on_answer (Inr v, db) f = f v db"
  by (simp_all add: on_answer_def)

subsection \<open>Choosing a worker\<close>

text \<open>Python's \<open>min\<close> with a key: the first of the smallest.\<close>

fun min_by :: "('a \<Rightarrow> 'b :: linorder) \<Rightarrow> 'a list \<Rightarrow> 'a option" where
  "min_by f [] = None"
| "min_by f (x # xs) = (case min_by f xs of None \<Rightarrow> Some x | Some y \<Rightarrow> Some (if f y < f x then y else x))"

definition least_loaded :: "worker_state list \<Rightarrow> worker_state option" where
  "least_loaded = min_by (\<lambda>v. (ws_active_tasks v, ws_owned_mrs v, ws_worker_id v))"

definition usable_workers :: "scheduler_settings \<Rightarrow> int \<Rightarrow> redis \<Rightarrow> worker_state list answer" where
  "usable_workers cfg now db =
     on_reply db (list_live_workers (worker_dead_seconds cfg) now db) (\<lambda>vs. Inr (filter (\<lambda>v. \<not> ws_degraded v) vs))"

text \<open>\<open>workers_by_id.get(w)\<close>.\<close>

definition worker_by_id :: "worker_state list \<Rightarrow> string \<Rightarrow> worker_state option" where
  "worker_by_id vs = map_of (rev (map (\<lambda>v. (ws_worker_id v, v)) vs))"

record worker_selection =
  sel_worker :: worker_state
  sel_lease :: "mr_lease option"

definition owner_of_lease :: "worker_state list \<Rightarrow> mr_lease \<Rightarrow> worker_selection option" where
  "owner_of_lease vs l =
     map_option (\<lambda>v. \<lparr>sel_worker = v, sel_lease = Some l\<rparr>) (worker_by_id vs (lease_worker_id l))"

definition owner_or_least_loaded_worker ::
  "scheduler_settings \<Rightarrow> int \<Rightarrow> redis \<Rightarrow> stored_task \<Rightarrow> worker_selection option answer"
where
  "owner_or_least_loaded_worker cfg now db t =
     on_answer (usable_workers cfg now db) (\<lambda>vs db1.
       case least_loaded vs of
         None \<Rightarrow> (Inr None, db1)
       | Some candidate \<Rightarrow>
           (case mr (st_envelope t) of
              None \<Rightarrow> (Inr (Some \<lparr>sel_worker = candidate, sel_lease = None\<rparr>), db1)
            | Some m \<Rightarrow>
                (case get_mr_lease db1 m of
                   Inl e \<Rightarrow> (Inl e, db1)
                 | Inr (Some l) \<Rightarrow> (Inr (owner_of_lease vs l), db1)
                 | Inr None \<Rightarrow>
                     on_answer (claim_mr db1 m (ws_worker_id candidate) (mr_lease_seconds cfg))
                       (\<lambda>l db2. (Inr (owner_of_lease vs l), db2)))))"

subsection \<open>Handing out tasks\<close>

definition acknowledge :: "(redis \<Rightarrow> nat \<Rightarrow> redis option) \<Rightarrow> redis \<Rightarrow> string \<Rightarrow> unit answer" where
  "acknowledge ack db mid =
     (case parse_nat mid of
        None \<Rightarrow> (Inl RedisError, db)
      | Some i \<Rightarrow> (case ack db i of None \<Rightarrow> (Inl RedisError, db) | Some db1 \<Rightarrow> (Inr (), db1)))"

definition get_task_answer :: "task_readers \<Rightarrow> redis \<Rightarrow> string \<Rightarrow> stored_task option answer" where
  "get_task_answer rd db tid = (get_task rd db tid, db)"

text \<open>The task of a delivery, where it is there and queued.\<close>

definition if_queued :: "stored_task option \<Rightarrow> stored_task option" where
  "if_queued stored = (case stored of Some t \<Rightarrow> if st_status t = TS_QUEUED then Some t else None | None \<Rightarrow> None)"

fun dispatch_loop ::
  "(string \<Rightarrow> string) \<Rightarrow> task_readers \<Rightarrow> scheduler_settings \<Rightarrow> int \<Rightarrow> (string \<times> string) list \<Rightarrow> nat \<Rightarrow> redis \<Rightarrow> nat answer"
where
  "dispatch_loop h rd cfg now [] n db = (Inr n, db)"
| "dispatch_loop h rd cfg now ((mid, tid) # ds) n db =
     on_answer (get_task_answer rd db tid) (\<lambda>stored db.
       case if_queued stored of
         None \<Rightarrow> on_answer (acknowledge ack_ingress db mid) (\<lambda>_. dispatch_loop h rd cfg now ds n)
       | Some t \<Rightarrow>
           on_answer (owner_or_least_loaded_worker cfg now db t) (\<lambda>selection db1.
             case selection of
               None \<Rightarrow> dispatch_loop h rd cfg now ds n db1
             | Some sel \<Rightarrow>
                 on_answer (assign_to_worker h (lifecycle_ttl_seconds cfg) db1 (task_id (st_envelope t)) (sel_lease sel)
                     (ws_worker_id (sel_worker sel)) now) (\<lambda>_ db2.
                   on_answer (acknowledge ack_ingress db2 mid) (\<lambda>_. dispatch_loop h rd cfg now ds (Suc n)))))"

subsection \<open>Handing out repair reports\<close>

text \<open>The workers the scheduler has given report tasks to (\<open>_report_reservations\<close>), by task.\<close>

type_synonym reservations = "(string \<times> string) list"

fun refresh_loop :: "task_readers \<Rightarrow> redis \<Rightarrow> string list \<Rightarrow> reservations \<Rightarrow> (broker_error + unit) \<times> reservations" where
  "refresh_loop rd db [] rs = (Inr (), rs)"
| "refresh_loop rd db (tid # ids) rs =
     (case get_task rd db tid of
        Inl e \<Rightarrow> (Inl e, rs)
      | Inr stored \<Rightarrow>
          refresh_loop rd db ids
            (if (case stored of None \<Rightarrow> True | Some t \<Rightarrow> st_status t \<in> set TERMINAL_TASK_STATUSES)
             then AList.delete tid rs else rs))"

definition refresh_report_reservations :: "task_readers \<Rightarrow> redis \<Rightarrow> reservations \<Rightarrow> (broker_error + unit) \<times> reservations" where
  "refresh_report_reservations rd db rs = refresh_loop rd db (map fst rs) rs"

definition reserved :: "reservations \<Rightarrow> string \<Rightarrow> int" where
  "reserved rs w = int (length (filter (\<lambda>(t, v). v = w) rs))"

definition report_candidates :: "scheduler_settings \<Rightarrow> reservations \<Rightarrow> worker_state list \<Rightarrow> worker_state list" where
  "report_candidates cfg rs vs =
     filter (\<lambda>v. ws_active_report_tasks v + reserved rs (ws_worker_id v) < report_max_active_per_worker cfg) vs"

definition report_worker :: "worker_state list \<Rightarrow> worker_state option" where
  "report_worker = min_by (\<lambda>v. (ws_active_report_tasks v, ws_active_tasks v, ws_worker_id v))"

fun report_loop ::
  "(string \<Rightarrow> string) \<Rightarrow> task_readers \<Rightarrow> scheduler_settings \<Rightarrow> int \<Rightarrow> (string \<times> string) list \<Rightarrow> nat \<times> reservations \<Rightarrow> redis \<Rightarrow>
   (broker_error + nat) \<times> reservations \<times> redis"
where
  "report_loop h rd cfg now [] (n, rs) db = (Inr n, rs, db)"
| "report_loop h rd cfg now ((mid, tid) # ds) (n, rs) db =
     (case get_task rd db tid of
        Inl e \<Rightarrow> (Inl e, rs, db)
      | Inr stored \<Rightarrow>
          (case if_queued stored of
             None \<Rightarrow>
               (case acknowledge ack_report_ingress db mid of
                  (Inl e, db1) \<Rightarrow> (Inl e, rs, db1)
                | (Inr _, db1) \<Rightarrow> report_loop h rd cfg now ds (n, rs) db1)
           | Some t \<Rightarrow>
               (case usable_workers cfg now db of
                  (Inl e, db1) \<Rightarrow> (Inl e, rs, db1)
                | (Inr vs, db1) \<Rightarrow>
                    (case report_worker (report_candidates cfg rs vs) of
                       None \<Rightarrow> report_loop h rd cfg now ds (n, rs) db1
                     | Some v \<Rightarrow>
                         (case assign_to_worker h (lifecycle_ttl_seconds cfg) db1 (task_id (st_envelope t)) None (ws_worker_id v) now of
                            (Inl e, db2) \<Rightarrow> (Inl e, rs, db2)
                          | (Inr False, db2) \<Rightarrow> report_loop h rd cfg now ds (n, rs) db2
                          | (Inr True, db2) \<Rightarrow>
                              let rs1 = AList.update (task_id (st_envelope t)) (ws_worker_id v) rs in
                              (case acknowledge ack_report_ingress db2 mid of
                                 (Inl e, db3) \<Rightarrow> (Inl e, rs1, db3)
                               | (Inr _, db3) \<Rightarrow> report_loop h rd cfg now ds (Suc n, rs1) db3))))))"

definition dispatch_reports ::
  "(string \<Rightarrow> string) \<Rightarrow> task_readers \<Rightarrow> scheduler_settings \<Rightarrow> int \<Rightarrow> string \<Rightarrow> nat \<Rightarrow> reservations \<Rightarrow> redis \<Rightarrow>
   (broker_error + nat) \<times> reservations \<times> redis"
where
  "dispatch_reports h rd cfg now scheduler_id limit rs db =
     (case refresh_report_reservations rd db rs of
        (Inl e, rs1) \<Rightarrow> (Inl e, rs1, db)
      | (Inr _, rs1) \<Rightarrow>
          (case read_report_ingress_group db scheduler_id (max 1 (min limit 1)) 0 of
             (Inl e, db1) \<Rightarrow> (Inl e, rs1, db1)
           | (Inr ds, db1) \<Rightarrow> report_loop h rd cfg now ds (0, rs1) db1))"

definition dispatch_available ::
  "(string \<Rightarrow> string) \<Rightarrow> task_readers \<Rightarrow> scheduler_settings \<Rightarrow> int \<Rightarrow> string \<Rightarrow> nat \<Rightarrow> reservations \<Rightarrow> redis \<Rightarrow>
   (broker_error + nat) \<times> reservations \<times> redis"
where
  "dispatch_available h rd cfg now scheduler_id limit rs db =
     (case read_ingress_group db scheduler_id limit 1000 of
        (Inl e, db1) \<Rightarrow> (Inl e, rs, db1)
      | (Inr ds, db1) \<Rightarrow>
          (case dispatch_loop h rd cfg now ds 0 db1 of
             (Inl e, db2) \<Rightarrow> (Inl e, rs, db2)
           | (Inr n, db2) \<Rightarrow>
               if ds \<noteq> [] then (Inr n, rs, db2) else
               (case dispatch_reports h rd cfg now scheduler_id 1 rs db2 of
                  (Inl e, rs1, db3) \<Rightarrow> (Inl e, rs1, db3)
                | (Inr k, rs1, db3) \<Rightarrow> (Inr (n + k), rs1, db3))))"

subsection \<open>Moving the tasks of a dead worker\<close>

text \<open>\<open>_transfer_orphaned_task\<close>: the dead worker loses the merge request, the least loaded worker gets it and the task.\<close>

definition move_orphaned_task ::
  "task_readers \<Rightarrow> scheduler_settings \<Rightarrow> int \<Rightarrow> redis \<Rightarrow> string \<Rightarrow> string \<Rightarrow> string \<Rightarrow> bool answer"
where
  "move_orphaned_task rd cfg now db old_w tid status =
     on_answer (get_task_answer rd db tid) (\<lambda>stored db.
       case stored of
         None \<Rightarrow> (Inr False, db)
       | Some t \<Rightarrow>
           (case (mr (st_envelope t), st_fencing_token t) of
              (Some m, Some token) \<Rightarrow>
                on_answer (revoke_mr_if_owner db \<lparr>lease_mr = m, lease_worker_id = old_w, lease_fencing_token = token\<rparr>) (\<lambda>revoked db1.
                  if \<not> revoked then (Inr False, db1) else
                  on_answer (usable_workers cfg now db1) (\<lambda>vs db2.
                    case least_loaded vs of
                      None \<Rightarrow> (Inr False, db2)
                    | Some candidate \<Rightarrow>
                        on_answer (claim_mr db2 m (ws_worker_id candidate) (mr_lease_seconds cfg)) (\<lambda>l db3.
                          case (if status = ''waiting_pipeline'' \<and> st_pipeline_project_id t \<noteq> [] \<and> st_pipeline_sha t \<noteq> []
                                then get_cached_pipeline_event db3 (st_pipeline_project_id t) (st_pipeline_sha t) (st_pipeline_id t)
                                else Inr None) of
                            Inl e \<Rightarrow> (Inl e, db3)
                          | Inr event \<Rightarrow> transfer_orphaned_task db3 (task_id (st_envelope t)) old_w l event now)))
            | _ \<Rightarrow> (Inr False, db)))"


subsection \<open>What the parts leave alone\<close>

lemma min_by_None [simp]: "min_by f xs = None \<longleftrightarrow> xs = []"
  by (cases xs) (auto split: option.splits)

lemma min_by_least: "min_by f xs = Some x \<Longrightarrow> x \<in> set xs \<and> (\<forall>y\<in>set xs. f x \<le> f y)"
proof (induction xs arbitrary: x)
  case (Cons z xs)
  show ?case
  proof (cases "min_by f xs")
    case None
    then show ?thesis using Cons.prems by auto
  next
    case (Some y)
    then show ?thesis using Cons.IH [OF Some] Cons.prems by (auto split: if_splits)
  qed
qed simp

text \<open>Everything but the tasks and the ingress stream may have changed.\<close>

definition calm :: "redis \<Rightarrow> redis \<Rightarrow> bool" where
  "calm db db' \<longleftrightarrow> well_typed db' \<and> (\<forall>t. untouched (K_task t) db db') \<and> untouched K_ingress_stream db db'"

lemma calm_refl: "well_typed db \<Longrightarrow> calm db db"
  by (simp add: calm_def)

lemma calm_trans: "calm db db' \<Longrightarrow> calm db' db'' \<Longrightarrow> calm db db''"
  by (auto simp: calm_def untouched_def)

text \<open>Listing the live workers only drops registry entries: those of the workers without a record.\<close>

lemma live_workers_loop_frame:
  "live_workers_loop dead now ids db = Some (vs, db') \<Longrightarrow> well_typed db \<Longrightarrow>
   well_typed db' \<and> (\<forall>k. k \<noteq> K_worker_registry \<longrightarrow> untouched k db db') \<and>
   set (set_at db' K_worker_registry) = set (set_at db K_worker_registry) - {w \<in> set ids. hash_list db (K_worker w) = []} \<and>
   (\<forall>v\<in>set vs. now - ws_last_seen v \<le> dead \<and> read_worker db (ws_worker_id v) = Some v)"
proof (induction ids arbitrary: db vs)
  case (Cons w others)
  show ?case
  proof (cases "hash_list db (K_worker w) = []")
    case True
    let ?db = "srem_w db K_worker_registry w"
    have "untouched (K_worker v) db ?db" for v by (simp add: view_simps)
    then have at: "hash_list ?db (K_worker v) = hash_list db (K_worker v)" "read_worker ?db v = read_worker db v" for v
      by (simp_all add: untouched_def hash_list_def read_worker_def hash_int_def hash_at_def)
    have "live_workers_loop dead now others ?db = Some (vs, db')" "well_typed ?db"
      using Cons.prems True by (simp_all add: redis_simps)
    from Cons.IH [OF this] have IH: "well_typed db'" "\<And>k. k \<noteq> K_worker_registry \<Longrightarrow> untouched k ?db db'"
      "set (set_at db' K_worker_registry) = set (set_at ?db K_worker_registry) - {v \<in> set others. hash_list db (K_worker v) = []}"
      "\<forall>v\<in>set vs. now - ws_last_seen v \<le> dead \<and> read_worker db (ws_worker_id v) = Some v"
      by (simp_all add: at)
    moreover have "untouched k db ?db" if "k \<noteq> K_worker_registry" for k using that by (simp add: view_simps)
    then have "untouched k db db'" if "k \<noteq> K_worker_registry" for k using that IH(2) [OF that] by (simp add: untouched_def)
    ultimately show ?thesis using True by (auto simp: view_simps)
  next
    case False
    then obtain st rest where r: "read_worker db w = Some st" "live_workers_loop dead now others db = Some (rest, db')"
      "vs = (if now - ws_last_seen st > dead then rest else st # rest)"
      using Cons.prems by (auto simp: bind_eq_Some_conv split: if_splits)
    moreover have "ws_worker_id st = w" using r(1) by (auto simp: read_worker_def bind_eq_Some_conv)
    ultimately show ?thesis using Cons.IH [OF r(2) Cons.prems(2)] False by auto
  qed
qed auto

lemma usable_workers_frame:
  assumes "usable_workers cfg now db = (r, db')" "well_typed db"
  shows "well_typed db'" "k \<noteq> K_worker_registry \<Longrightarrow> untouched k db db'"
    "r = Inr vs \<Longrightarrow> v \<in> set vs \<Longrightarrow> \<not> ws_degraded v \<and> now - ws_last_seen v \<le> worker_dead_seconds cfg \<and> read_worker db (ws_worker_id v) = Some v"
  using assms live_workers_loop_frame [of "worker_dead_seconds cfg" now _ db]
  by (auto simp: usable_workers_def on_reply_def list_live_workers_def redis_simps split: option.splits)

lemma usable_workers_calm: "usable_workers cfg now db = (r, db') \<Longrightarrow> well_typed db \<Longrightarrow> calm db db'"
  using usable_workers_frame(1,2) [of cfg now db r db'] by (simp add: calm_def)

lemma claim_mr_calm: "claim_mr db m w secs = (r, db') \<Longrightarrow> well_typed db \<Longrightarrow> calm db db'"
  by (auto simp: claim_mr_def on_reply_def CLAIM_MR_LUA_def incr_def redis_simps calm_refl bind_eq_Some_conv
      calm_def view_simps well_typed_put split: option.splits if_splits prod.splits)

lemma owner_or_least_loaded_calm:
  assumes "owner_or_least_loaded_worker cfg now db t = (r, db')" "well_typed db"
  shows "calm db db'"
proof -
  obtain r1 db1 where u: "usable_workers cfg now db = (r1, db1)" by (rule prod.exhaust)
  have c1: "calm db db1" by (rule usable_workers_calm [OF u assms(2)])
  then have wt: "well_typed db1" by (simp add: calm_def)
  show ?thesis
  proof (cases r1)
    case (Inl e)
    then show ?thesis using assms(1) u c1 by (simp add: owner_or_least_loaded_worker_def)
  next
    case (Inr vs)
    have "calm db1 db'"
      using assms(1) u Inr wt claim_mr_calm [OF _ wt]
      by (auto simp: owner_or_least_loaded_worker_def calm_refl on_answer_def
          split: option.splits sum.splits prod.splits)
    with c1 show ?thesis by (rule calm_trans)
  qed
qed

lemma untouched_put_stream: "k \<noteq> k' \<Longrightarrow> untouched k db (put_stream db' k' s) = untouched k db db'"
  by (simp add: put_stream_def view_simps)

lemma calm_put_stream: "well_typed db \<Longrightarrow> k \<noteq> K_ingress_stream \<Longrightarrow> key_kind k = KStream \<Longrightarrow> calm db (put_stream db k s)"
  using well_typed_put_stream [of db k s] by (auto simp: calm_def put_stream_def untouched_def put_def)

lemma report_stream_calm:
  assumes "well_typed db"
  shows "read_report_ingress_group db consumer limit block_ms = (r, db') \<Longrightarrow> calm db db'"
    and "acknowledge ack_report_ingress db mid = (r', db') \<Longrightarrow> calm db db'"
proof -
  let ?k = K_report_ingress_stream
  have put: "calm db (put_stream (put_stream db ?k s) ?k s')" "calm db (put_stream db ?k s)" for s s'
    using calm_put_stream [OF assms, of ?k s] calm_put_stream [of "put_stream db ?k s" ?k s']
    by (auto intro: calm_trans simp: well_typed_put_stream assms)
  show "calm db db'" if "read_report_ingress_group db consumer limit block_ms = (r, db')"
    using that assms put(1)
    by (auto simp: read_report_ingress_group_def on_reply_def read_group_def ensure_stream_group_wt calm_refl
        bind_eq_Some_conv split: option.splits prod.splits if_splits)
  show "calm db db'" if "acknowledge ack_report_ingress db mid = (r', db')"
    using that assms put(2)
    by (auto simp: acknowledge_def ack_report_ingress_def ack_group_def calm_refl split: option.splits if_splits)
qed

subsection \<open>No queued task is lost\<close>

text \<open>The payload stored for a task is the task's own.\<close>

definition names_itself :: "redis \<Rightarrow> bool" where
  "names_itself db \<longleftrightarrow> (\<forall>tid env. stored_envelope db tid = Inr (Some env) \<longrightarrow> task_id env = tid)"

definition names_task :: "(string \<times> string) list \<Rightarrow> string \<Rightarrow> bool" where
  "names_task fs t \<longleftrightarrow> map_of fs ''task_id'' = Some t"

abbreviation ingress_entries :: "redis \<Rightarrow> (nat \<times> (string \<times> string) list) set" where
  "ingress_entries db \<equiv> set (entries (stream_at db K_ingress_stream))"

abbreviation is_queued :: "redis \<Rightarrow> string \<Rightarrow> bool" where
  "is_queued db t \<equiv> task_status_of db t = Some ''queued''"

definition dispatch_inv :: "redis \<Rightarrow> bool" where
  "dispatch_inv db \<longleftrightarrow> group_inv K_ingress_stream ''scheduler'' db \<and> names_itself db"

text \<open>
  The promise of each part of the scheduler: no task becomes queued, the ingress stream gains
  nothing, and a message leaves it only if its task is not queued any more.
\<close>

definition keeps_queued :: "redis \<Rightarrow> redis \<Rightarrow> bool" where
  "keeps_queued db db' \<longleftrightarrow> dispatch_inv db' \<and> (\<forall>t. is_queued db' t \<longrightarrow> is_queued db t) \<and>
     ingress_entries db' \<subseteq> ingress_entries db \<and>
     (\<forall>i fs t. (i, fs) \<in> ingress_entries db \<longrightarrow> names_task fs t \<longrightarrow> is_queued db' t \<longrightarrow> (i, fs) \<in> ingress_entries db')"

lemma keeps_queued_refl: "dispatch_inv db \<Longrightarrow> keeps_queued db db"
  by (simp add: keeps_queued_def)

lemma keeps_queued_trans: "keeps_queued db db' \<Longrightarrow> keeps_queued db' db'' \<Longrightarrow> keeps_queued db db''"
  unfolding keeps_queued_def by blast

lemma keeps_queued_wt: "dispatch_inv db \<Longrightarrow> well_typed db"
  by (simp add: dispatch_inv_def group_inv_def)

lemma calm_keeps_queued:
  assumes "calm db db'" "dispatch_inv db"
  shows "keeps_queued db db'"
proof -
  have t: "data db' (K_task t) = data db (K_task t)" for t using assms(1) by (simp add: calm_def untouched_def)
  have "stored_envelope db' tid = stored_envelope db tid" for tid
    using t [of tid] by (simp add: stored_envelope_def type_ok_def hash_list_def hash_at_def)
  moreover have "task_status_of db' t = task_status_of db t" for t using t [of t] by (simp add: hash_at_def hash_list_def)
  moreover have "stream_at db' K_ingress_stream = stream_at db K_ingress_stream"
    using assms(1) by (simp add: calm_def untouched_def stream_at_def)
  moreover have "well_typed db'" using assms(1) by (simp add: calm_def)
  ultimately show ?thesis using assms(2) by (simp add: keeps_queued_def dispatch_inv_def group_inv_def names_itself_def)
qed

text \<open>An assignment takes the task out of the queue or fails.\<close>

lemma stored_envelope_cong:
  assumes "well_typed db" "well_typed db'" "hash_at db' (K_task tid) ''payload'' = hash_at db (K_task tid) ''payload''"
    "stored_envelope db' tid = Inr (Some env)"
  shows "stored_envelope db tid = Inr (Some env)"
  using assms by (auto simp: stored_envelope_def redis_simps hash_at_def split: if_splits option.splits)

lemma ASSIGN_keeps_queued:
  assumes "ASSIGN_TASK_LUA db (K_task tid) lk (K_worker_tasks w) (K_worker_inbox w) w tok now tid = Some (k, db')"
    "dispatch_inv db" "key_kind lk = KHash"
  shows "keeps_queued db db' \<and> (k \<noteq> -1 \<longrightarrow> \<not> is_queued db' tid)"
proof (cases "k = 1")
  case False
  then show ?thesis
    using assms keeps_queued_wt [OF assms(2)]
    by (auto simp: keeps_queued_refl ASSIGN_TASK_LUA_def redis_simps split: if_splits)
next
  case True
  let ?db = "xadd_w (sadd_w (hset_w db (K_task tid) [(''status'', ''assigned''), (''worker_id'', w), (''fencing_token'', tok),
      (''updated_at'', now)]) (K_worker_tasks w) tid) (K_worker_inbox w)
      [(''task_id'', tid), (''delivery_kind'', ''execute''), (''payload'', ''{}'')]"
  note wt = keeps_queued_wt [OF assms(2)]
  have db': "db' = ?db" using assms(1,3) wt True by (auto simp: ASSIGN_TASK_LUA_def redis_simps split: if_splits)
  have wt': "well_typed ?db" using wt by (simp add: redis_simps)
  have "hash_at ?db (K_task t) ''payload'' = hash_at db (K_task t) ''payload''" for t by (simp add: view_simps)
  from stored_envelope_cong [OF wt wt' this] have "names_itself ?db"
    using assms(2) by (auto simp: dispatch_inv_def names_itself_def)
  then show ?thesis using assms(2) wt' unfolding db'
    by (auto simp: keeps_queued_def dispatch_inv_def group_inv_def view_simps split: if_splits)
qed

lemma record_lifecycle_event_calm:
  assumes "record_lifecycle_event db ttl ev = Some (b, db')" "well_typed db"
  shows "calm db db'"
  using record_lifecycle_event_wt [OF assms(2), of ttl ev] assms(1) by (auto simp: calm_def)

lemma assign_keeps_queued:
  assumes "assign_to_worker h ttl db tid l w now = (r, db')" "dispatch_inv db"
  shows "keeps_queued db db' \<and> (\<forall>b. r = Inr b \<longrightarrow> \<not> is_queued db' tid)"
proof (cases "ASSIGN_TASK_LUA db (K_task tid) (lease_key_of l) (K_worker_tasks w) (K_worker_inbox w)
    w (snd (lease_args l)) (show_int now) tid")
  case None
  then show ?thesis using assms keeps_queued_refl [OF assms(2)] by (simp add: assign_to_worker_def split: if_splits) auto
next
  case (Some kdb)
  obtain k db1 where kdb: "kdb = (k, db1)" by (rule prod.exhaust)
  have k: "keeps_queued db db1" "k \<noteq> -1 \<Longrightarrow> \<not> is_queued db1 tid"
    using ASSIGN_keeps_queued [OF Some [unfolded kdb] assms(2)] by simp_all
  have inv1: "dispatch_inv db1" using k(1) by (simp add: keeps_queued_def)
  consider "r = Inl (LostLeaseError tid)" "db' = db" | "k = -1" "r = Inl (LostLeaseError tid)" "db' = db1" | "k \<noteq> -1" "db' = db1"
    | b ev where "k = 1" "record_lifecycle_event db1 ttl ev = Some (b, db')"
  proof (cases "case l of None \<Rightarrow> False | Some l \<Rightarrow> lease_worker_id l \<noteq> w")
    case True
    then show thesis using assms(1) that(1) by (simp add: assign_to_worker_def)
  next
    case fits: False
    let ?ev = "lifecycle_event_new h now tid ''queue'' ''end'' ''initial'' None []"
    have eval: "(r, db') = (if k = -1 then (Inl (LostLeaseError tid), db1)
        else if k = 1 then (case ?ev of None \<Rightarrow> (Inl (ValueError ''lifecycle event''), db1)
          | Some ev \<Rightarrow> on_reply db1 (record_lifecycle_event db1 ttl ev) (\<lambda>_. Inr True))
        else (Inr False, db1))"
      unfolding assms(1) [symmetric] assign_to_worker_def Some kdb option.case prod.case if_not_P [OF fits] ..
    show thesis
    proof (cases ?ev)
      case None
      with eval have "k \<noteq> -1 \<Longrightarrow> db' = db1" by (simp split: if_splits)
      then show thesis using eval that(2,3) by (cases "k = -1") simp_all
    next
      case ev: (Some ev)
      show thesis
      proof (cases "record_lifecycle_event db1 ttl ev")
        case None
        then show thesis using eval ev that(2,3) by (cases "k = -1"; cases "k = 1") (simp_all add: on_reply_def)
      next
        case (Some x)
        then show thesis using eval ev that(2,3) that(4) [of ev "fst x"]
          by (cases "k = -1"; cases "k = 1"; cases x) simp_all
      qed
    qed
  qed
  then show ?thesis
  proof cases
    case 1
    then show ?thesis using keeps_queued_refl [OF assms(2)] by simp
  next
    case (4 b ev)
    have keeps: "keeps_queued db1 db'"
      using calm_keeps_queued [OF record_lifecycle_event_calm [OF 4(2) keeps_queued_wt [OF inv1]] inv1] .
    have "\<not> is_queued db1 tid" using k(2) 4(1) by simp
    then have "\<not> is_queued db' tid" using keeps unfolding keeps_queued_def by blast
    then show ?thesis using keeps_queued_trans [OF k(1) keeps] by simp
  qed (use k in simp_all)
qed

text \<open>Acknowledging a message whose task is not queued.\<close>

lemma ack_keeps_queued:
  assumes "acknowledge ack_ingress db mid = (r, db')" "dispatch_inv db" "mid = show_nat i"
    and "\<And>fs t. (i, fs) \<in> ingress_entries db \<Longrightarrow> names_task fs t \<Longrightarrow> \<not> is_queued db t"
  shows "keeps_queued db db'"
proof (cases "ack_ingress db i")
  case None
  then show ?thesis using assms(1-3) keeps_queued_refl [OF assms(2)] by (simp add: acknowledge_def)
next
  case (Some db1)
  then have db': "db' = db1" using assms(1,3) by (simp add: acknowledge_def)
  have g: "group_inv K_ingress_stream ''scheduler'' db" using assms(2) by (simp add: dispatch_inv_def)
  have "group_inv K_ingress_stream ''scheduler'' db1"
    using stream_step_effect [OF stream_step.ack g] Some by (auto simp: ack_ingress_def)
  moreover have "data db1 (K_task t) = data db (K_task t)" for t
    using Some by (auto simp: ack_ingress_def ack_group_def put_stream_def put_def split: if_splits)
  then have "stored_envelope db1 t = stored_envelope db t" "hash_at db1 (K_task t) = hash_at db (K_task t)" for t
    by (simp_all add: stored_envelope_def type_ok_def hash_list_def hash_at_def)
  moreover have "ingress_entries db1 = {(j, fs). (j, fs) \<in> ingress_entries db \<and> (j \<noteq> i \<or> db1 = db)}"
    using Some by (auto simp: ack_ingress_def ack_group_def ack_delete_simps split: if_splits)
  ultimately show ?thesis
    using assms(2,4) unfolding db' keeps_queued_def dispatch_inv_def names_itself_def by auto
qed

text \<open>The parts put together: a method keeps the promise if its calls do.\<close>

lemma on_answer_keeps:
  assumes "keeps_queued db (snd x)" "\<And>v db1. x = (Inr v, db1) \<Longrightarrow> keeps_queued db1 (snd (f v db1))"
  shows "keeps_queued db (snd (on_answer x f))"
proof (cases x)
  case (Pair r db1)
  then show ?thesis using assms keeps_queued_trans by (cases r) auto
qed

lemma keeps_queued_inv: "keeps_queued db db' \<Longrightarrow> dispatch_inv db'"
  by (simp add: keeps_queued_def)

definition delivered :: "(string \<times> string) list \<Rightarrow> redis \<Rightarrow> bool" where
  "delivered ds db \<longleftrightarrow> (\<forall>(mid, tid) \<in> set ds. \<exists>i. mid = show_nat i \<and>
     (\<forall>fs t. (i, fs) \<in> ingress_entries db \<longrightarrow> names_task fs t \<longrightarrow> t = tid))"

lemma delivered_mono: "delivered (d # ds) db \<Longrightarrow> keeps_queued db db' \<Longrightarrow> delivered ds db'"
  unfolding delivered_def keeps_queued_def by fastforce

lemma delivered_ack:
  assumes "delivered ((mid, tid) # ds) db" "keeps_queued db db'" "\<not> is_queued db' tid"
  shows "keeps_queued db' (snd (acknowledge ack_ingress db' mid))"
proof -
  obtain i where i: "mid = show_nat i" "\<And>fs t. (i, fs) \<in> ingress_entries db \<Longrightarrow> names_task fs t \<Longrightarrow> t = tid"
    using assms(1) by (auto simp: delivered_def)
  have "ingress_entries db' \<subseteq> ingress_entries db" using assms(2) by (simp add: keeps_queued_def)
  then show ?thesis
    using ack_keeps_queued [OF surjective_pairing keeps_queued_inv [OF assms(2)] i(1)] i(2) assms(3) by blast
qed

lemma not_if_queued: "get_task rd db tid = Inr stored \<Longrightarrow> if_queued stored = None \<Longrightarrow> \<not> is_queued db tid"
  using get_task_missing [of rd db tid] get_task_status [of rd db tid] task_status_enum.value_inject [of _ TS_QUEUED]
  by (cases stored) (auto simp: if_queued_def split: if_splits)

lemma if_queued_named:
  assumes "get_task rd db tid = Inr stored" "if_queued stored = Some t" "dispatch_inv db"
  shows "task_id (st_envelope t) = tid"
  using assms get_task_status [of rd db tid t]
  by (auto simp: if_queued_def dispatch_inv_def names_itself_def split: option.splits if_splits)

text \<open>Acknowledging and going on, after the task was found settled or was assigned.\<close>

lemma ack_then_keeps:
  assumes "delivered ((mid, tid) # ds) db" "keeps_queued db db1" "\<not> is_queued db1 tid"
    and "\<And>db'. keeps_queued db db' \<Longrightarrow> keeps_queued db' (snd (f db'))"
  shows "keeps_queued db1 (snd (on_answer (acknowledge ack_ingress db1 mid) (\<lambda>_. f)))"
proof (rule on_answer_keeps [OF delivered_ack [OF assms(1-3)]])
  show "keeps_queued db2 (snd (f db2))" if "acknowledge ack_ingress db1 mid = (Inr v, db2)" for v db2
    using delivered_ack [OF assms(1-3)] that keeps_queued_trans [OF assms(2)] assms(4) by simp
qed

lemma assign_then_keeps:
  assumes "delivered ((mid, tid) # ds) db" "keeps_queued db db1"
    and "\<And>db'. keeps_queued db db' \<Longrightarrow> keeps_queued db' (snd (f db'))"
  shows "keeps_queued db1 (snd (on_answer (assign_to_worker h ttl db1 tid l w now)
    (\<lambda>_ db2. on_answer (acknowledge ack_ingress db2 mid) (\<lambda>_. f))))"
proof (rule on_answer_keeps)
  note assign = assign_keeps_queued [OF _ keeps_queued_inv [OF assms(2)]]
  show "keeps_queued db1 (snd (assign_to_worker h ttl db1 tid l w now))" using assign [OF surjective_pairing] by blast
  show "keeps_queued db2 (snd (on_answer (acknowledge ack_ingress db2 mid) (\<lambda>_. f)))"
    if "assign_to_worker h ttl db1 tid l w now = (Inr v, db2)" for v db2
    using ack_then_keeps [OF assms(1) keeps_queued_trans [OF assms(2)] _ assms(3)] assign [OF that] by blast
qed

lemma dispatch_loop_keeps:
  "dispatch_inv db \<Longrightarrow> delivered ds db \<Longrightarrow> keeps_queued db (snd (dispatch_loop h rd cfg now ds n db))"
proof (induction ds arbitrary: n db)
  case Nil
  then show ?case by (simp add: keeps_queued_refl)
next
  case (Cons d ds)
  obtain mid tid where d: "d = (mid, tid)" by (rule prod.exhaust)
  note del = Cons.prems(2) [unfolded d] and refl = keeps_queued_refl [OF Cons.prems(1)]
  have rest: "keeps_queued db' (snd (dispatch_loop h rd cfg now ds m db'))" if "keeps_queued db db'" for m db'
    using Cons.IH [OF keeps_queued_inv [OF that] delivered_mono [OF del that]] .
  show ?case
  proof (cases "get_task rd db tid")
    case (Inl e)
    then show ?thesis using refl by (simp add: d get_task_answer_def)
  next
    case (Inr stored)
    show ?thesis
    proof (cases "if_queued stored")
      case None
      then show ?thesis
        using ack_then_keeps [OF del refl not_if_queued [OF Inr None] rest] Inr by (simp add: d get_task_answer_def)
    next
      case (Some t)
      have calm: "keeps_queued db (snd (owner_or_least_loaded_worker cfg now db t))"
        using owner_or_least_loaded_calm [OF surjective_pairing keeps_queued_wt [OF Cons.prems(1)]]
        by (rule calm_keeps_queued [OF _ Cons.prems(1)])
      show ?thesis
        using if_queued_named [OF Inr Some Cons.prems(1)] Inr Some calm rest assign_then_keeps [OF del _ rest]
        by (auto simp: d get_task_answer_def intro!: on_answer_keeps [OF calm] split: option.split)
    qed
  qed
qed

text \<open>What a read hands out are messages of the stream.\<close>

lemma scan_from:
  "autoclaim_scan es consumer min_idle now attempts quota ps = (ms, qs) \<Longrightarrow> (i, fs) \<in> set ms \<Longrightarrow> map_of es i = Some fs"
proof (induction es consumer min_idle now attempts quota ps arbitrary: ms qs rule: autoclaim_scan.induct)
  case (2 es consumer min_idle now attempts quota j c at ps)
  then show ?case by (auto split: if_splits option.splits prod.splits)
qed simp

lemma distinct_ids: "stream_inv g s \<Longrightarrow> distinct (map fst (entries s))"
  by (auto simp: stream_inv_def strict_sorted_iff)

lemma read_group_from:
  assumes "read_group db k g consumer limit block_ms = Some (ms, db')" "group_inv k g db" "(i, fs) \<in> set ms"
  shows "map_of (entries (stream_at db k)) i = Some fs"
proof -
  let ?s = "stream_at db k"
  have wt: "well_typed db" "key_kind k = KStream" "distinct (map fst (entries ?s))"
    using assms(2) distinct_ids by (auto simp: group_inv_def)
  obtain claimed s1 where claim: "autoclaim g consumer (max block_ms 1000) (clock db) limit (ensure_group g ?s) = (claimed, s1)"
    by (rule prod.exhaust)
  have "map_of (entries ?s) i = Some fs" if "(i, fs) \<in> set claimed"
    using claim that by (auto simp: autoclaim_def Let_def split: prod.splits dest: scan_from)
  moreover have "map_of (entries ?s) i = Some fs" if "readgroup g consumer (clock db) q s1 = (new, s2)" "(i, fs) \<in> set new" for q new s2
    using that readgroup_simps(3) [OF that(1)] autoclaim_simps(1) [OF claim] wt(3) by (auto dest: in_set_takeD)
  ultimately show ?thesis
    using assms(1,3) wt claim
    by (auto simp: read_group_def ensure_stream_group_wt split: if_splits prod.splits)
qed

lemma those_map_from: "those_map f xs = Some ys \<Longrightarrow> y \<in> set ys \<Longrightarrow> \<exists>x\<in>set xs. f x = Some y"
  by (induction xs arbitrary: ys) (auto simp: bind_eq_Some_conv)

lemma read_ingress_keeps:
  assumes "read_ingress_group db consumer limit block_ms = (r, db')" "dispatch_inv db"
  shows "keeps_queued db db' \<and> (\<forall>ds. r = Inr ds \<longrightarrow> delivered ds db')"
proof (cases "read_group db K_ingress_stream ''scheduler'' consumer limit block_ms")
  case None
  then show ?thesis using assms keeps_queued_refl by (auto simp: read_ingress_group_def on_reply_def)
next
  case (Some x)
  obtain ms where x: "x = (ms, db')" and r: "r = ingress_deliveries ms"
    using assms(1) Some by (cases x) (auto simp: read_ingress_group_def)
  have g: "group_inv K_ingress_stream ''scheduler'' db" using assms(2) by (simp add: dispatch_inv_def)
  note step = stream_step.read [OF Some [unfolded x]]
  have "group_inv K_ingress_stream ''scheduler'' db'" using stream_step_effect [OF step g] by simp
  moreover have es: "entries (stream_at db' K_ingress_stream) = entries (stream_at db K_ingress_stream)"
    using read_effects(1) [OF keeps_queued_wt [OF assms(2)] _ Some [unfolded x]] by (auto simp: reads_to_def)
  moreover have "data db' (K_task t) = data db (K_task t)" for t
    using Some x by (auto simp: read_group_def ensure_stream_group_def put_stream_def put_def bind_eq_Some_conv split: if_splits prod.splits)
  then have "stored_envelope db' t = stored_envelope db t" "hash_at db' (K_task t) = hash_at db (K_task t)" for t
    by (simp_all add: stored_envelope_def type_ok_def hash_list_def hash_at_def)
  ultimately have "keeps_queued db db'"
    using assms(2) by (simp add: keeps_queued_def dispatch_inv_def names_itself_def)
  moreover have "delivered ds db'" if "r = Inr ds" for ds
  proof -
    have "\<exists>(i, fs)\<in>set ms. mid = show_nat i \<and> map_of fs ''task_id'' = Some tid" if "(mid, tid) \<in> set ds" for mid tid
      using \<open>r = Inr ds\<close> r that by (auto simp: ingress_deliveries_def dest!: those_map_from split: option.splits)
    moreover have "fs = fs'" if "(i, fs) \<in> set ms" "(i, fs') \<in> ingress_entries db'" for i fs fs'
      using read_group_from [OF Some [unfolded x] g that(1)] that(2) distinct_ids [of "''scheduler''"] g es
      by (auto simp: group_inv_def)
    ultimately show ?thesis unfolding delivered_def names_task_def by fastforce
  qed
  ultimately show ?thesis by simp
qed

lemma report_loop_keeps:
  "dispatch_inv db \<Longrightarrow> keeps_queued db (snd (snd (report_loop h rd cfg now ds (n, rs) db)))"
proof (induction ds arbitrary: n rs db)
  case Nil
  then show ?case by (simp add: keeps_queued_refl)
next
  case (Cons d ds)
  note refl = keeps_queued_refl [OF Cons.prems]
  have step: "keeps_queued db (snd (snd (report_loop h rd cfg now ds nr db')))" if "keeps_queued db db'" for nr db'
    using Cons.IH [OF keeps_queued_inv [OF that], of "fst nr" "snd nr"] keeps_queued_trans [OF that] by simp
  have ack: "keeps_queued db db2" if "acknowledge ack_report_ingress db1 mid = (r, db2)" "keeps_queued db db1" for db1 db2 mid r
    using calm_keeps_queued [OF report_stream_calm(2) [OF keeps_queued_wt [OF keeps_queued_inv [OF that(2)]] that(1)]]
      keeps_queued_inv [OF that(2)] keeps_queued_trans [OF that(2)] by blast
  have usable: "keeps_queued db db1" if "usable_workers cfg now db = (r, db1)" for r db1
    using calm_keeps_queued [OF usable_workers_calm [OF that keeps_queued_wt [OF Cons.prems]] Cons.prems] .
  have assign: "keeps_queued db db2" if "assign_to_worker h ttl db1 tid l w now = (r, db2)" "keeps_queued db db1" for ttl db1 tid l w r db2
    using assign_keeps_queued [OF that(1) keeps_queued_inv [OF that(2)]] keeps_queued_trans [OF that(2)] by blast
  show ?case
    using refl usable assign ack step by (cases d) (auto simp: Let_def split: sum.split option.split prod.split bool.split)
qed

lemma dispatch_reports_keeps:
  assumes "dispatch_inv db"
  shows "keeps_queued db (snd (snd (dispatch_reports h rd cfg now sid limit rs db)))"
proof -
  obtain r1 rs1 where fresh: "refresh_report_reservations rd db rs = (r1, rs1)" by (rule prod.exhaust)
  obtain r2 db1 where read: "read_report_ingress_group db sid (max 1 (min limit 1)) 0 = (r2, db1)" by (rule prod.exhaust)
  have k: "keeps_queued db db1"
    using calm_keeps_queued [OF report_stream_calm(1) [OF keeps_queued_wt [OF assms] read] assms] .
  then show ?thesis
    using fresh read keeps_queued_refl [OF assms] keeps_queued_trans [OF k report_loop_keeps [OF keeps_queued_inv [OF k]]]
    by (cases r1; cases r2) (simp_all add: dispatch_reports_def)
qed

lemma dispatch_available_keeps:
  assumes "dispatch_inv db"
  shows "keeps_queued db (snd (snd (dispatch_available h rd cfg now sid limit rs db)))"
proof -
  obtain r1 db1 where read: "read_ingress_group db sid limit 1000 = (r1, db1)" by (rule prod.exhaust)
  note k1 = read_ingress_keeps [OF read assms]
  show ?thesis
  proof (cases r1)
    case (Inl e)
    then show ?thesis using read k1 by (simp add: dispatch_available_def)
  next
    case (Inr ds)
    obtain r2 db2 where loop: "dispatch_loop h rd cfg now ds 0 db1 = (r2, db2)" by (rule prod.exhaust)
    have k2: "keeps_queued db db2"
      using k1 Inr keeps_queued_trans [OF _ dispatch_loop_keeps] keeps_queued_inv loop by (metis snd_conv)
    obtain r3 rs3 db3 where reports: "dispatch_reports h rd cfg now sid 1 rs db2 = (r3, rs3, db3)" by (metis prod_cases3)
    have "keeps_queued db db3"
      using keeps_queued_trans [OF k2 dispatch_reports_keeps [OF keeps_queued_inv [OF k2]]] reports by (metis snd_conv)
    then show ?thesis using read Inr loop reports k2 by (cases r2; cases r3) (simp_all add: dispatch_available_def)
  qed
qed

subsection \<open>The chosen worker can have the task\<close>

lemma worker_by_id_Some: "worker_by_id vs w = Some v \<Longrightarrow> v \<in> set vs \<and> ws_worker_id v = w"
  by (auto simp: worker_by_id_def dest!: map_of_SomeD)

lemma get_mr_lease_held:
  assumes "get_mr_lease db m = Inr (Some l)" "lease_ok m db"
  shows "lease_mr l = m \<and> holds_lease db (K_mr_lease m) (lease_worker_id l) (show_int (lease_fencing_token l))"
proof -
  have "exists_key db (K_mr_lease m)"
    using assms(1) by (auto simp: get_mr_lease_def exists_key_def hash_list_def split: if_splits option.splits)
  then obtain w n where h: "holder_of db m = Some (w, show_int n)" using assms(2) by (auto simp: lease_ok_def lease_inv_def)
  then have "hash_at db (K_mr_lease m) ''worker_id'' = Some w" "hash_at db (K_mr_lease m) ''fencing_token'' = Some (show_int n)"
    by (simp_all add: holder_holds holds_lease_def)
  moreover have "py_int_text (show_int n) = Some n" using tonumber_show_int [of n] by (simp add: tonumber_def)
  ultimately show ?thesis using assms(1) by (auto simp: get_mr_lease_def holds_lease_def split: if_splits)
qed

lemma get_mr_lease_none: "get_mr_lease db m = Inr None \<Longrightarrow> lease_ok m db \<Longrightarrow> \<not> exists_key db (K_mr_lease m)"
  by (auto simp: get_mr_lease_def lease_ok_def lease_inv_def holder_of_def hash_at_def split: if_splits option.splits)

lemma claim_mr_held:
  assumes "claim_mr db m w secs = (Inr l, db')" "lease_ok m db" "\<not> exists_key db (K_mr_lease m)" "0 < secs"
  shows "lease_mr l = m \<and> holds_lease db' (K_mr_lease m) (lease_worker_id l) (show_int (lease_fencing_token l))"
proof -
  obtain db2 where claim: "CLAIM_MR_LUA db (K_mr_lease m) (K_mr_fence m) w (secs * 1000) =
      Some ((Some w, Some (show_int (fence_of db m + 1))), pexpire_w db2 (K_mr_lease m) (secs * 1000))"
    and held: "holder_of db2 m = Some (w, show_int (fence_of db m + 1))"
    using claim_fresh [OF assms(2,3)] by blast
  have "py_int_text (show_int n) = Some n" for n using tonumber_show_int [of n] by (simp add: tonumber_def)
  then show ?thesis
    using assms(1,4) claim held by (auto simp: claim_mr_def on_reply_def holder_holds holds_lease_def view_simps)
qed

lemma selection_holds_lease:
  assumes "owner_or_least_loaded_worker cfg now db t = (Inr (Some sel), db')" "well_typed db" "0 < mr_lease_seconds cfg"
    and inv: "\<And>m. mr (st_envelope t) = Some m \<Longrightarrow> lease_inv db m"
  shows "\<not> ws_degraded (sel_worker sel) \<and> now - ws_last_seen (sel_worker sel) \<le> worker_dead_seconds cfg"
    and "map_option lease_mr (sel_lease sel) = mr (st_envelope t)"
    and "sel_lease sel = Some l \<Longrightarrow> lease_worker_id l = ws_worker_id (sel_worker sel) \<and>
       holds_lease db' (K_mr_lease (lease_mr l)) (lease_worker_id l) (show_int (lease_fencing_token l))"
proof -
  obtain vs db1 where u: "usable_workers cfg now db = (Inr vs, db1)"
    using assms(1) by (cases "usable_workers cfg now db"; cases "fst (usable_workers cfg now db)")
      (auto simp: owner_or_least_loaded_worker_def)
  note frame = usable_workers_frame [OF u assms(2)]
  obtain c where c: "least_loaded vs = Some c"
    using assms(1) u by (cases "least_loaded vs") (simp_all add: owner_or_least_loaded_worker_def)
  then have "c \<in> set vs" by (auto simp: least_loaded_def dest: min_by_least)
  have ok: "lease_ok m db1" if "mr (st_envelope t) = Some m" for m
    using inv [OF that] untouched_views [OF frame(2) [of "K_mr_lease m"]] untouched_views [OF frame(2) [of "K_mr_fence m"]]
      frame(1) frame(2) [of "K_mr_fence m"] lease_inv_cong(1) [of db1 m db]
    by (simp add: lease_ok_def untouched_def)
  have "sel_worker sel \<in> set vs \<and> map_option lease_mr (sel_lease sel) = mr (st_envelope t) \<and>
    (\<forall>l. sel_lease sel = Some l \<longrightarrow> lease_worker_id l = ws_worker_id (sel_worker sel) \<and>
       holds_lease db' (K_mr_lease (lease_mr l)) (lease_worker_id l) (show_int (lease_fencing_token l)))"
  proof (cases "mr (st_envelope t)")
    case None
    then show ?thesis using assms(1) u c \<open>c \<in> set vs\<close> by (auto simp: owner_or_least_loaded_worker_def)
  next
    case (Some m)
    note step = assms(1) [unfolded owner_or_least_loaded_worker_def u on_answer_simps c Some option.case]
    consider l where "get_mr_lease db1 m = Inr (Some l)" "db' = db1" "owner_of_lease vs l = Some sel"
      | l where "get_mr_lease db1 m = Inr None" "claim_mr db1 m (ws_worker_id c) (mr_lease_seconds cfg) = (Inr l, db')"
          "owner_of_lease vs l = Some sel"
      using step by (auto simp: on_answer_def split: sum.splits option.splits prod.splits)
    then obtain l where "owner_of_lease vs l = Some sel" "lease_mr l = m"
      "holds_lease db' (K_mr_lease m) (lease_worker_id l) (show_int (lease_fencing_token l))"
      using get_mr_lease_held [OF _ ok [OF Some]] claim_mr_held [OF _ ok [OF Some] _ assms(3)]
        get_mr_lease_none [OF _ ok [OF Some]] by metis
    then show ?thesis using Some worker_by_id_Some by (auto simp: owner_of_lease_def)
  qed
  then show "\<not> ws_degraded (sel_worker sel) \<and> now - ws_last_seen (sel_worker sel) \<le> worker_dead_seconds cfg"
    "map_option lease_mr (sel_lease sel) = mr (st_envelope t)"
    "sel_lease sel = Some l \<Longrightarrow> lease_worker_id l = ws_worker_id (sel_worker sel) \<and>
       holds_lease db' (K_mr_lease (lease_mr l)) (lease_worker_id l) (show_int (lease_fencing_token l))"
    using frame(3) by blast+
qed

subsection \<open>Reports in flight\<close>

definition workers_kept :: "redis \<Rightarrow> redis \<Rightarrow> bool" where
  "workers_kept db db' \<longleftrightarrow> well_typed db' \<and> (\<forall>w. read_worker db' w = read_worker db w)"

lemma workers_keptI: "well_typed db' \<Longrightarrow> (\<And>w. untouched (K_worker w) db db') \<Longrightarrow> workers_kept db db'"
  by (simp add: workers_kept_def untouched_def read_worker_def hash_int_def hash_at_def hash_list_def)

lemma workers_kept_trans: "workers_kept db db' \<Longrightarrow> workers_kept db' db'' \<Longrightarrow> workers_kept db db''"
  by (simp add: workers_kept_def)

lemma usable_workers_kept: "usable_workers cfg now db = (r, db') \<Longrightarrow> well_typed db \<Longrightarrow> workers_kept db db'"
  using usable_workers_frame(1,2) [of cfg now db r db'] by (intro workers_keptI) auto

lemma report_stream_kept:
  assumes "well_typed db"
  shows "read_report_ingress_group db consumer limit block_ms = (r, db') \<Longrightarrow> workers_kept db db'"
    and "acknowledge ack_report_ingress db mid = (r', db') \<Longrightarrow> workers_kept db db'"
proof -
  show "workers_kept db db'" if "read_report_ingress_group db consumer limit block_ms = (r, db')"
    using that report_stream_calm(1) [OF assms that] assms
    by (intro workers_keptI) (auto simp: calm_def read_report_ingress_group_def on_reply_def read_group_def ensure_stream_group_wt
        put_stream_def view_simps split: option.splits prod.splits if_splits)
  show "workers_kept db db'" if "acknowledge ack_report_ingress db mid = (r', db')"
    using that report_stream_calm(2) [OF assms that]
    by (intro workers_keptI) (auto simp: calm_def acknowledge_def ack_report_ingress_def ack_group_def put_stream_def view_simps
        split: option.splits if_splits)
qed

lemma assign_eval:
  assumes "well_typed db" "task_status_of db tid = Some ''queued''"
    and "\<And>l. lease = Some l \<Longrightarrow> lease_worker_id l = w \<and>
           holds_lease db (K_mr_lease (lease_mr l)) w (show_int (lease_fencing_token l))"
  shows "\<exists>db'. assign_to_worker h ttl db tid lease w now = (Inr True, db') \<and> workers_kept db db' \<and>
    task_status_of db' tid = Some ''assigned'' \<and> hash_at db' (K_task tid) ''worker_id'' = Some w \<and>
    hash_at db' (K_task tid) ''fencing_token'' = Some (snd (lease_args lease)) \<and> tracked db' tid w"
proof -
  let ?db = "xadd_w (sadd_w (hset_w db (K_task tid) [(''status'', ''assigned''), (''worker_id'', w),
      (''fencing_token'', snd (lease_args lease)), (''updated_at'', show_int now)]) (K_worker_tasks w) tid) (K_worker_inbox w)
      [(''task_id'', tid), (''delivery_kind'', ''execute''), (''payload'', ''{}'')]"
  have assign: "ASSIGN_TASK_LUA db (K_task tid) (lease_key_of lease) (K_worker_tasks w) (K_worker_inbox w) w (snd (lease_args lease))
      (show_int now) tid = Some (1, ?db)"
    using assms by (cases lease) (simp_all add: ASSIGN_TASK_LUA_def redis_simps lease_args_def lease_key_of_def)
  have wt: "well_typed ?db" using assms(1) by (simp add: redis_simps)
  obtain ev where ev: "lifecycle_event_new h now tid ''queue'' ''end'' ''initial'' None [] = Some ev"
    using lifecycle_readers(1) [of LP_QUEUE] lifecycle_readers(2) [of LK_END] by (auto simp: lifecycle_event_new_def Let_def)
  obtain b db' where rec: "record_lifecycle_event ?db ttl ev = Some (b, db')" "well_typed db'"
    "\<And>k. k \<noteq> K_lifecycle (le_task_id ev) \<Longrightarrow> k \<noteq> K_lifecycle_events (le_task_id ev) \<Longrightarrow> untouched k ?db db'"
    using record_lifecycle_event_wt [OF wt, of ttl ev] by blast
  have "workers_kept ?db db'" using rec by (intro workers_keptI) auto
  moreover have "workers_kept db ?db" using wt by (intro workers_keptI) (simp_all add: view_simps)
  moreover have "assign_to_worker h ttl db tid lease w now = (Inr True, db')"
    using assms(3) assign ev rec(1) by (cases lease) (simp_all add: assign_to_worker_def)
  ultimately show ?thesis
    using untouched_views [OF rec(3), of "K_task tid"] untouched_views [OF rec(3), of "K_worker_tasks w"]
    by (auto simp: tracked_def view_simps intro: workers_kept_trans)
qed

lemma assign_no_lease_kept:
  assumes "assign_to_worker h ttl db tid None w now = (r, db')" "well_typed db"
  shows "workers_kept db db'"
proof (cases "task_status_of db tid = Some ''queued''")
  case True
  from assign_eval [OF assms(2) this, of None w h ttl now] show ?thesis using assms(1) by auto
next
  case False
  then have "db' = db"
    using assms by (simp add: assign_to_worker_def ASSIGN_TASK_LUA_def lease_key_of_def lease_args_def redis_simps)
  then show ?thesis using assms(2) by (simp add: workers_kept_def)
qed

lemma reserved_update: "reserved (AList.update t v rs) w \<le> reserved rs w + (if w = v then 1 else 0)"
  by (induction rs) (auto simp: reserved_def)

lemma reserved_delete: "reserved (AList.delete t rs) w \<le> reserved rs w"
  by (induction rs) (auto simp: reserved_def AList.delete_eq)

definition within_limit :: "scheduler_settings \<Rightarrow> reservations \<Rightarrow> bool" where
  "within_limit cfg rs \<longleftrightarrow> (\<forall>w. reserved rs w \<le> report_max_active_per_worker cfg)"

definition reports_counted :: "redis \<Rightarrow> bool" where
  "reports_counted db \<longleftrightarrow> well_typed db \<and> (\<forall>w v. read_worker db w = Some v \<longrightarrow> 0 \<le> ws_active_report_tasks v)"

lemma workers_kept_counted: "workers_kept db db' \<Longrightarrow> reports_counted db \<Longrightarrow> reports_counted db'"
  by (auto simp: workers_kept_def reports_counted_def)

lemma refresh_loop_within: "refresh_loop rd db ids rs = (r, rs') \<Longrightarrow> within_limit cfg rs \<Longrightarrow> within_limit cfg rs'"
proof (induction ids arbitrary: rs)
  case (Cons t ids)
  have "within_limit cfg (AList.delete t rs)"
    using Cons.prems(2) reserved_delete order_trans unfolding within_limit_def by blast
  then show ?case using Cons by (auto split: sum.splits if_splits)
qed simp

lemma report_worker_reserved:
  assumes "usable_workers cfg now db = (Inr vs, db')" "reports_counted db" "within_limit cfg rs"
    "report_worker (report_candidates cfg rs vs) = Some v"
  shows "within_limit cfg (AList.update t (ws_worker_id v) rs)"
proof -
  have v: "v \<in> set (report_candidates cfg rs vs)"
    using min_by_least [OF assms(4) [unfolded report_worker_def]] by simp
  then have "v \<in> set vs" by (simp add: report_candidates_def)
  then have "read_worker db (ws_worker_id v) = Some v"
    using usable_workers_frame(3) [OF assms(1) _ HOL.refl] assms(2) by (simp add: reports_counted_def)
  then have "0 \<le> ws_active_report_tasks v" using assms(2) by (simp add: reports_counted_def)
  then have limit: "reserved rs (ws_worker_id v) + 1 \<le> report_max_active_per_worker cfg"
    using v by (simp add: report_candidates_def)
  have "reserved (AList.update t (ws_worker_id v) rs) w \<le> report_max_active_per_worker cfg" for w
    using reserved_update [of t "ws_worker_id v" rs w] limit assms(3) [unfolded within_limit_def, rule_format, of w]
    by (cases "w = ws_worker_id v") simp_all
  then show ?thesis by (simp add: within_limit_def)
qed

lemma report_loop_within:
  "reports_counted db \<Longrightarrow> within_limit cfg rs \<Longrightarrow> within_limit cfg (fst (snd (report_loop h rd cfg now ds (n, rs) db)))"
proof (induction ds arbitrary: n rs db)
  case (Cons d ds)
  have wt: "well_typed db" using Cons.prems(1) by (simp add: reports_counted_def)
  have ack: "reports_counted db2" if "acknowledge ack_report_ingress db1 mid = (r, db2)" "reports_counted db1" for db1 db2 mid r
    using workers_kept_counted [OF report_stream_kept(2) [OF _ that(1)] that(2)] that(2) by (simp add: reports_counted_def)
  have usable: "reports_counted db1" if "usable_workers cfg now db = (r, db1)" for r db1
    using workers_kept_counted [OF usable_workers_kept [OF that wt] Cons.prems(1)] .
  have assign: "reports_counted db2" if "assign_to_worker h ttl db1 tid None w now = (r, db2)" "reports_counted db1" for ttl db1 tid w r db2
    using workers_kept_counted [OF assign_no_lease_kept [OF that(1)] that(2)] that(2) by (simp add: reports_counted_def)
  obtain mid tid where d: "d = (mid, tid)" by (rule prod.exhaust)
  have step: "within_limit cfg (fst (snd (case acknowledge ack_report_ingress db1 mid of
      (Inl e, db2) \<Rightarrow> (Inl e, rs1, db2) | (Inr _, db2) \<Rightarrow> report_loop h rd cfg now ds (k, rs1) db2)))"
    if "reports_counted db1" "within_limit cfg rs1" for db1 rs1 k
  proof -
    obtain r2 db2 where a: "acknowledge ack_report_ingress db1 mid = (r2, db2)" by (rule prod.exhaust)
    show ?thesis using Cons.IH [OF ack [OF a that(1)] that(2), of k] that(2) by (cases r2) (simp_all add: a)
  qed
  show ?case
  proof (cases "\<exists>stored t. get_task rd db tid = Inr stored \<and> if_queued stored = Some t")
    case False
    then show ?thesis
      using step [OF Cons.prems] Cons.prems(2) by (cases "get_task rd db tid"; cases "if_queued (projr (get_task rd db tid))") (simp_all add: d)
  next
    case True
    then obtain stored t where t: "get_task rd db tid = Inr stored" "if_queued stored = Some t" by blast
    obtain r1 db1 where u: "usable_workers cfg now db = (r1, db1)" by (rule prod.exhaust)
    have c1: "reports_counted db1" by (rule usable [OF u])
    show ?thesis
    proof (cases "\<exists>vs v. r1 = Inr vs \<and> report_worker (report_candidates cfg rs vs) = Some v")
      case False
      then show ?thesis
        using Cons.IH [OF c1 Cons.prems(2)] Cons.prems(2) t u
        by (cases r1; cases "report_worker (report_candidates cfg rs (projr r1))") (simp_all add: d)
    next
      case True
      then obtain vs v where v: "r1 = Inr vs" "report_worker (report_candidates cfg rs vs) = Some v" by blast
      obtain r2 db2 where a: "assign_to_worker h (lifecycle_ttl_seconds cfg) db1 (task_id (st_envelope t)) None (ws_worker_id v) now = (r2, db2)"
        by (rule prod.exhaust)
      note c2 = assign [OF a c1]
      note lim = report_worker_reserved [OF u [unfolded v(1)] Cons.prems v(2)]
      show ?thesis
        using step [OF c2 lim] Cons.IH [OF c2 Cons.prems(2)] Cons.prems(2) t u v a
        by (cases r2; cases "projr r2") (simp_all add: d Let_def)
    qed
  qed
qed simp

subsection \<open>Properties\<close>

text \<open>
  C30: the scheduler loses no task. Whatever \<open>dispatch_available\<close> returns or raises, a task that
  is still queued after it and had a message in the ingress stream has that message there, and
  the stream is in order, so the message is handed out again.
\<close>

theorem queued_task_keeps_message:
  assumes "dispatch_available h rd cfg now sid limit rs db = (r, rs', db')"
    and "group_inv K_ingress_stream ''scheduler'' db" "names_itself db"
    and "(i, fs) \<in> set (entries (stream_at db K_ingress_stream))" "map_of fs ''task_id'' = Some t"
    and "task_status_of db' t = Some ''queued''"
  shows "(i, fs) \<in> set (entries (stream_at db' K_ingress_stream)) \<and> group_inv K_ingress_stream ''scheduler'' db'"
proof -
  have "keeps_queued db db'"
    using dispatch_available_keeps [of db h rd cfg now sid limit rs] assms(1-3) by (simp add: dispatch_inv_def)
  then show ?thesis using assms(4-6) by (auto simp: keeps_queued_def dispatch_inv_def names_task_def)
qed

definition example_readers :: task_readers where
  "example_readers = \<lparr>read_timestamp = (\<lambda>_. 0), nested_readable = (\<lambda>_ _. True)\<rparr>"

definition scheduling :: scheduler_settings where
  "scheduling = \<lparr>worker_dead_seconds = 30, mr_lease_seconds = 60, report_max_active_per_worker = 1, lifecycle_ttl_seconds = 60\<rparr>"

definition idle_db :: redis where
  "idle_db = xadd_w (hset_w empty_redis (K_task ''n'') [(''status'', ''queued''), (''payload'', task_envelope_to_json example_triage)])
     K_ingress_stream [(''task_id'', ''n'')]"

lemma py_int_zero [simp]: "py_int_text ''0'' = Some 0"
  using tonumber_zero by (simp add: tonumber_def)

lemma idle_task:
  assumes "well_typed db" "untouched (K_task ''n'') idle_db db"
  shows "\<exists>t. get_task example_readers db ''n'' = Inr (Some t) \<and> st_status t = TS_QUEUED \<and> mr (st_envelope t) = Some example_mr \<and>
    task_id (st_envelope t) = ''n''"
proof -
  have h: "hash_at db (K_task ''n'') = [''status'' \<mapsto> ''queued'', ''payload'' \<mapsto> task_envelope_to_json example_triage]"
    using untouched_views(2) [OF assms(2)] by (simp add: idle_db_def view_simps)
  then have "hash_at db (K_task ''n'') ''status'' \<noteq> None" by simp
  then have "hash_list db (K_task ''n'') \<noteq> []" by (auto simp: hash_at_def)
  then have "stored_envelope db ''n'' = Inr (Some (example_triage\<lparr>payload := stored_dict (payload example_triage)\<rparr>))"
    using assms(1) h task_envelope_from_to_json [OF example_triage_facts(1)] by (simp add: stored_envelope_def redis_simps)
  then show ?thesis
    by (simp add: get_task_def h decode_task_def field_unless_empty_def completed_commands_def example_readers_def example_triage_def)
qed

lemma idle_facts: "well_typed idle_db" "stream_at idle_db K_ingress_stream = \<lparr>entries = [(1, [(''task_id'', ''n'')])], last_id = 1, groups = []\<rparr>"
    "group_inv K_ingress_stream ''scheduler'' idle_db" "names_itself idle_db"
proof -
  show wt: "well_typed idle_db" by (simp add: idle_db_def redis_simps)
  show at: "stream_at idle_db K_ingress_stream = \<lparr>entries = [(1, [(''task_id'', ''n'')])], last_id = 1, groups = []\<rparr>"
    by (simp add: idle_db_def view_simps next_id_def empty_stream_def)
  show "group_inv K_ingress_stream ''scheduler'' idle_db" using wt by (simp add: group_inv_def stream_inv_def at group_of_def)
  obtain t where "get_task example_readers idle_db ''n'' = Inr (Some t)" "task_id (st_envelope t) = ''n''"
    using idle_task [OF wt] by auto
  then have "stored_envelope idle_db ''n'' = Inr (Some e) \<Longrightarrow> task_id e = ''n''" for e using get_task_status by fastforce
  moreover have "tid \<noteq> ''n'' \<Longrightarrow> stored_envelope idle_db tid \<noteq> Inr (Some e)" for tid e
    by (simp add: stored_envelope_def idle_db_def hash_list_def type_ok_def xadd_w_def hset_w_def put_def empty_redis_def Let_def)
  ultimately show "names_itself idle_db" unfolding names_itself_def by metis
qed

theorem queued_task_keeps_message_witness:
  "\<exists>r rs db. dispatch_available (\<lambda>s. s) example_readers scheduling 5 ''s'' 10 [] idle_db = (r, rs, db) \<and>
     (1, [(''task_id'', ''n'')]) \<in> set (entries (stream_at db K_ingress_stream))"
proof -
  obtain ds db1 where read: "read_ingress_group idle_db ''s'' 10 1000 = (Inr ds, db1)" "ds = [(show_nat 1, ''n'')]"
      "\<And>k. k \<noteq> K_ingress_stream \<Longrightarrow> untouched k idle_db db1" "well_typed db1"
    using idle_facts(1)
    by (auto simp: read_ingress_group_def read_group_def ensure_stream_group_wt autoclaim_def readgroup_def Let_def idle_facts(2)
        ensure_group_def group_of_def set_group_def ingress_deliveries_def well_typed_put_stream untouched_put_stream)
  obtain t where t: "get_task example_readers db1 ''n'' = Inr (Some t)" "st_status t = TS_QUEUED"
    using idle_task [OF read(4) read(3)] by auto
  have "set_at db1 K_worker_registry = []"
    using untouched_views(3) [OF read(3), of K_worker_registry] by (simp add: idle_db_def view_simps)
  then have "owner_or_least_loaded_worker scheduling 5 db1 t = (Inr None, db1)"
    using read(4) by (simp add: owner_or_least_loaded_worker_def usable_workers_def list_live_workers_def redis_simps least_loaded_def)
  then have run: "dispatch_available (\<lambda>s. s) example_readers scheduling 5 ''s'' 10 [] idle_db = (Inr 0, [], db1)"
    using read(1,2) t by (simp add: dispatch_available_def get_task_answer_def if_queued_def)
  moreover have "task_status_of db1 ''n'' = Some ''queued''"
    using untouched_views(2) [OF read(3), of "K_task ''n''"] by (simp add: idle_db_def view_simps)
  ultimately show ?thesis
    using queued_task_keeps_message [OF run idle_facts(3,4), of 1 "[(''task_id'', ''n'')]"] idle_facts(2) by simp
qed

text \<open>
  The worker chosen for a task can have it. The worker was seen recently and is not degraded;
  a task of a merge request goes to the holder of its lease, under the token of the lease, a task
  without one to a worker without a lease; and giving a queued task to that worker is never
  refused: the task is assigned and among the tasks of the worker.
\<close>

theorem chosen_worker_gets_task:
  assumes "owner_or_least_loaded_worker cfg now db t = (Inr (Some sel), db')" "well_typed db" "0 < mr_lease_seconds cfg"
    and "\<And>m. mr (st_envelope t) = Some m \<Longrightarrow> lease_inv db m"
    and "task_status_of db tid = Some ''queued''"
  shows "\<not> ws_degraded (sel_worker sel) \<and> now - ws_last_seen (sel_worker sel) \<le> worker_dead_seconds cfg \<and>
    map_option lease_mr (sel_lease sel) = mr (st_envelope t) \<and>
    (\<exists>db2. assign_to_worker h ttl db' tid (sel_lease sel) (ws_worker_id (sel_worker sel)) now = (Inr True, db2) \<and>
       task_status_of db2 tid = Some ''assigned'' \<and> tracked db2 tid (ws_worker_id (sel_worker sel)) \<and>
       hash_at db2 (K_task tid) ''fencing_token'' = Some (snd (lease_args (sel_lease sel))))"
proof -
  note sel = selection_holds_lease [OF assms(1-3), OF assms(4)]
  have calm: "calm db db'" by (rule owner_or_least_loaded_calm [OF assms(1,2)])
  then have "well_typed db'" "task_status_of db' tid = Some ''queued''"
    using assms(5) untouched_views(2) [of "K_task tid" db db'] by (simp_all add: calm_def)
  moreover have "lease_worker_id l = ws_worker_id (sel_worker sel) \<and>
      holds_lease db' (K_mr_lease (lease_mr l)) (ws_worker_id (sel_worker sel)) (show_int (lease_fencing_token l))"
    if "sel_lease sel = Some l" for l
    using sel(3) [OF _ that] by auto
  ultimately show ?thesis
    using sel(1,2) assign_eval [of db' tid "sel_lease sel" "ws_worker_id (sel_worker sel)" h ttl now] by blast
qed

definition staffed_db :: redis where
  "staffed_db = sadd_w (hset_w idle_db (K_worker ''w'') [(''last_seen'', show_int 5)]) K_worker_registry ''w''"

theorem chosen_worker_gets_task_witness:
  "\<exists>t sel db db2. get_task example_readers staffed_db ''n'' = Inr (Some t) \<and>
     owner_or_least_loaded_worker scheduling 5 staffed_db t = (Inr (Some sel), db) \<and> ws_worker_id (sel_worker sel) = ''w'' \<and>
     assign_to_worker (\<lambda>s. s) 60 db ''n'' (sel_lease sel) ''w'' 5 = (Inr True, db2)"
proof -
  have wt: "well_typed staffed_db" using idle_facts(1) by (simp add: staffed_db_def redis_simps)
  have task: "untouched (K_task ''n'') idle_db staffed_db" by (simp add: staffed_db_def view_simps)
  obtain t where t: "get_task example_readers staffed_db ''n'' = Inr (Some t)" "mr (st_envelope t) = Some example_mr"
    using idle_task [OF wt task] by blast
  have queued: "task_status_of staffed_db ''n'' = Some ''queued''"
    using untouched_views(2) [OF task] by (simp add: idle_db_def view_simps)
  let ?v = "\<lparr>ws_worker_id = ''w'', ws_last_seen = 5, ws_active_tasks = 0, ws_owned_mrs = 0, ws_degraded = False, ws_active_report_tasks = 0\<rparr>"
  have at: "hash_at staffed_db (K_worker ''w'') = [''last_seen'' \<mapsto> show_int 5]" "set_at staffed_db K_worker_registry = [''w'']"
    by (simp_all add: staffed_db_def idle_db_def view_simps)
  then have "hash_at staffed_db (K_worker ''w'') ''last_seen'' \<noteq> None" by simp
  then have "hash_list staffed_db (K_worker ''w'') \<noteq> []" by (auto simp: hash_at_def)
  moreover have "py_int_text (show_int 5) = Some 5" using tonumber_show_int [of 5] by (simp add: tonumber_def)
  then have "read_worker staffed_db ''w'' = Some ?v" by (simp add: read_worker_def at hash_int_def)
  ultimately have "usable_workers scheduling 5 staffed_db = (Inr [?v], staffed_db)"
    using wt by (simp add: usable_workers_def list_live_workers_def redis_simps at scheduling_def)
  moreover have none: "\<not> exists_key staffed_db (K_mr_lease example_mr)" "str_at staffed_db (K_mr_fence example_mr) = None"
    by (simp_all add: staffed_db_def idle_db_def view_simps)
  have inv: "lease_inv staffed_db example_mr"
    using none by (simp add: lease_inv_def staffed_db_def idle_db_def write_defs empty_redis_def Let_def)
  have "get_mr_lease staffed_db example_mr = Inr None"
    using wt none(1) by (simp add: get_mr_lease_def redis_simps hash_list_def exists_key_def)
  moreover obtain l db where claim: "claim_mr staffed_db example_mr ''w'' 60 = (Inr l, db)" "lease_worker_id l = ''w''"
    using claim_fresh [of example_mr staffed_db "''w''" "60 * 1000"] wt inv none(1)
    by (auto simp: claim_mr_def lease_ok_def tonumber_show_int [unfolded tonumber_def])
  ultimately have sel: "owner_or_least_loaded_worker scheduling 5 staffed_db t =
      (Inr (Some \<lparr>sel_worker = ?v, sel_lease = Some l\<rparr>), db)"
    by (simp add: owner_or_least_loaded_worker_def t(2) least_loaded_def owner_of_lease_def worker_by_id_def scheduling_def)
  from chosen_worker_gets_task [OF sel wt _ _ queued, of "\<lambda>s. s" 60] show ?thesis
    using t sel inv by (auto simp: scheduling_def)
qed

text \<open>
  No worker gets more repair reports than the limit. If the scheduler has given no worker more
  unfinished report tasks than \<open>report_max_active_per_worker\<close> and the workers report no negative
  numbers, then this holds after \<open>dispatch_reports\<close> too, also when it raises.
\<close>

theorem reports_within_limit:
  assumes "dispatch_reports h rd cfg now sid limit rs db = (r, rs', db')" "well_typed db"
    and "\<And>w. reserved rs w \<le> report_max_active_per_worker cfg"
    and "\<And>w v. read_worker db w = Some v \<Longrightarrow> 0 \<le> ws_active_report_tasks v"
  shows "reserved rs' w \<le> report_max_active_per_worker cfg"
proof -
  obtain r1 rs1 where fresh: "refresh_report_reservations rd db rs = (r1, rs1)" by (rule prod.exhaust)
  obtain r2 db1 where read: "read_report_ingress_group db sid (max 1 (min limit 1)) 0 = (r2, db1)" by (rule prod.exhaust)
  have lim: "within_limit cfg rs1"
    using refresh_loop_within [OF fresh [unfolded refresh_report_reservations_def]] assms(3) by (simp add: within_limit_def)
  have "reports_counted db1"
    using workers_kept_counted [OF report_stream_kept(1) [OF assms(2) read]] assms(2,4) by (simp add: reports_counted_def)
  from report_loop_within [OF this lim] have "within_limit cfg rs'"
    using assms(1) fresh read lim unfolding dispatch_reports_def
    by (cases r1; cases r2) (auto, metis fst_conv snd_conv)
  then show ?thesis by (simp add: within_limit_def)
qed

theorem reports_within_limit_witness:
  "\<exists>r rs db. dispatch_reports (\<lambda>s. s) example_readers scheduling 5 ''s'' 1 [(''r'', ''w'')] empty_redis = (r, rs, db) \<and>
     reserved rs ''w'' \<le> 1"
proof -
  obtain r rs db where run: "dispatch_reports (\<lambda>s. s) example_readers scheduling 5 ''s'' 1 [(''r'', ''w'')] empty_redis = (r, rs, db)"
    by (rule prod_cases3)
  have "reserved rs ''w'' \<le> report_max_active_per_worker scheduling"
    by (rule reports_within_limit [OF run well_typed_empty])
      (simp_all add: reserved_def scheduling_def read_worker_def hash_at_def hash_list_def empty_redis_def)
  then show ?thesis using run by (auto simp: scheduling_def)
qed

lemma those_map_flagged: "those_map f xs = Some ys \<Longrightarrow> (x, True) \<in> set (zip xs ys) \<longleftrightarrow> x \<in> set xs \<and> f x = Some True"
  by (induction xs arbitrary: ys) (auto simp: bind_eq_Some_conv)

lemma list_dead_iff:
  assumes "list_dead_worker_ids dead now db = Some ids" "well_typed db"
  shows "w \<in> set ids \<longleftrightarrow> w \<in> set (set_at db K_worker_registry) \<and> worker_dead dead now db w = Some True"
proof -
  obtain flags where flags: "those_map (worker_dead dead now db) (set_at db K_worker_registry) = Some flags"
    "ids = map fst (filter snd (zip (set_at db K_worker_registry) flags))"
    using assms by (auto simp: list_dead_worker_ids_def redis_simps bind_eq_Some_conv)
  have "w \<in> set ids \<longleftrightarrow> (w, True) \<in> set (zip (set_at db K_worker_registry) flags)" unfolding flags(2) by force
  with those_map_flagged [OF flags(1)] show ?thesis by simp
qed

text \<open>
  C40: listing the live workers forgets a registered worker whose record has expired. A list of dead
  workers read before names the worker, so that its tasks would be recovered. After the live workers
  are listed, a list of dead workers that is read from any keyspace with the registry left by the
  listing does not name it, whatever the time and the time-out, while its set of tasks is as it was.
\<close>

theorem expired_worker_forgotten:
  assumes "well_typed db" "w \<in> set (set_at db K_worker_registry)" "hash_list db (K_worker w) = []"
    and "list_live_workers dead now db = Some (vs, db')"
  shows "(\<forall>dead' now' ids. list_dead_worker_ids dead' now' db = Some ids \<longrightarrow> w \<in> set ids) \<and>
    (\<forall>db'' dead' now' ids. well_typed db'' \<and> set_at db'' K_worker_registry = set_at db' K_worker_registry \<and>
       list_dead_worker_ids dead' now' db'' = Some ids \<longrightarrow> w \<notin> set ids) \<and>
    get_worker_task_ids db' w = get_worker_task_ids db w"
proof -
  have loop: "live_workers_loop dead now (set_at db K_worker_registry) db = Some (vs, db')"
    using assms(1,4) by (simp add: list_live_workers_def redis_simps)
  note frame = live_workers_loop_frame [OF loop assms(1)]
  have "worker_dead dead' now' db w = Some True" for dead' now'
    using assms(1,3) by (simp add: worker_dead_def redis_simps hash_at_def)
  moreover have "w \<notin> set (set_at db' K_worker_registry)" using frame assms(3) by simp
  moreover have "get_worker_task_ids db' w = get_worker_task_ids db w"
    using frame assms(1) untouched_views(3) [of "K_worker_tasks w" db db'] by (simp add: get_worker_task_ids_def redis_simps)
  ultimately show ?thesis using list_dead_iff assms(1,2) by metis
qed

definition abandoned_db :: redis where
  "abandoned_db = sadd_w (sadd_w empty_redis K_worker_registry ''w'') (K_worker_tasks ''w'') ''t''"

theorem expired_worker_forgotten_witness:
  "\<exists>vs db. list_live_workers 30 5 abandoned_db = Some (vs, db) \<and> get_worker_task_ids db ''w'' = Some [''t''] \<and>
     (\<forall>ids. list_dead_worker_ids 30 5 db = Some ids \<longrightarrow> ''w'' \<notin> set ids)"
proof -
  have wt: "well_typed abandoned_db" by (simp add: abandoned_db_def redis_simps)
  have at: "set_at abandoned_db K_worker_registry = [''w'']" "set_at abandoned_db (K_worker_tasks ''w'') = [''t'']"
    by (simp_all add: abandoned_db_def view_simps)
  have rec: "hash_list abandoned_db (K_worker ''w'') = []"
    by (simp add: abandoned_db_def hash_list_def sadd_w_def put_def empty_redis_def)
  then have "list_live_workers 30 5 abandoned_db = Some ([], srem_w abandoned_db K_worker_registry ''w'')"
    using wt by (simp add: list_live_workers_def redis_simps at)
  moreover have "well_typed (srem_w abandoned_db K_worker_registry ''w'')" using wt by (simp add: redis_simps)
  moreover have "get_worker_task_ids abandoned_db ''w'' = Some [''t'']" using wt at by (simp add: get_worker_task_ids_def redis_simps)
  ultimately show ?thesis using expired_worker_forgotten [OF wt _ rec] at by (metis list.set_intros(1))
qed

end
