(* ===== verification/Repair_Rollback.thy ===== *)
theory Repair_Rollback
  imports Repair_Manifest
begin

text \<open>
  Taking a repair back: the scripts \<open>ADMIT_REPAIR_ROLLBACK_LUA\<close> and \<open>COMPLETE_REPAIR_ROLLBACK_LUA\<close> of
  \<open>pr_agent/distributed/broker.py\<close>, with the keys that \<open>request_repair_rollback\<close> and
  \<open>complete_repair_rollback\<close> give them. The rollback of a repair is a task of its own, whose id is
  derived from the id of the repair; its state is kept with both tasks and shown on the card of
  the repair.
\<close>

subsection \<open>Admission\<close>

text \<open>The arguments of the admission; the keys are those of the tasks, the card and the merge request.\<close>

record rollback_request =
  rq_repair_task_id :: string
  rq_task_id :: string
  rq_mr :: mr_key
  rq_payload :: string
  rq_context :: string
  rq_state :: string
  rq_card_id :: string
  rq_open_message_id :: string
  rq_sender_id :: string
  rq_revision :: int
  rq_trigger :: string
  rq_now :: int
  rq_status_markdown :: string
  rq_ttl :: int
  rq_auto_result :: string

text \<open>A decoded manifest that is frozen and has entries.\<close>

definition frozen_manifest :: "json \<Rightarrow> (dict \<times> json list) option option" where
  "frozen_manifest j =
     do { fz \<leftarrow> lua_field j ''frozen'';
          if \<not> lua_truthy fz then Some None else
          do { m \<leftarrow> read_manifest j;
               Some (case m of Some (d, xs) \<Rightarrow> if xs = [] then None else Some (d, xs) | None \<Rightarrow> None) } }"

text \<open>The unit-test record of the card, and whether it belongs to a task.\<close>

definition ut_of_card :: "redis \<Rightarrow> string \<Rightarrow> json option option" where
  "ut_of_card db card_id = do { raw \<leftarrow> hget db (K_triage_card card_id) ''post_repair_ut''; Some (loads (or_else raw ''{}'')) }"

definition ut_belongs :: "redis \<Rightarrow> string \<Rightarrow> json \<Rightarrow> bool option" where
  "ut_belongs db card_id owner =
     do { decoded \<leftarrow> ut_of_card db card_id;
          case decoded of
            None \<Rightarrow> Some False
          | Some ut \<Rightarrow> do { t \<leftarrow> lua_field ut ''task_id''; Some (or_value t [] = owner) } }"

text \<open>Assigning members of a decoded table; the empty array is the empty table.\<close>

fun lua_members :: "json \<Rightarrow> dict option" where
  "lua_members (JObj d) = Some d"
| "lua_members (JArr []) = Some []"
| "lua_members _ = None"

definition auto_failure_fits :: "redis \<Rightarrow> string \<Rightarrow> bool option" where
  "auto_failure_fits db tid =
     do { st \<leftarrow> hget db (K_task tid) ''status'';
          raw \<leftarrow> hget db (K_task tid) ''pipeline_repair_state'';
          if or_else st [] \<noteq> ''running'' then Some False else
          case loads (or_else raw []) of
            None \<Rightarrow> Some False
          | Some rs \<Rightarrow>
              do { req \<leftarrow> lua_field rs ''auto_rollback_required'';
                   verified \<leftarrow> lua_field rs ''verified_selected_success_count'';
                   Some (req = Some (JBool True) \<and> lua_tonumber (Some (or_value verified ''-1'')) = Some 0) } }"

text \<open>Whether the repair is in a state in which the trigger may take it back.\<close>

definition trigger_fits :: "redis \<Rightarrow> rollback_request \<Rightarrow> bool option" where
  "trigger_fits db q =
     do { st \<leftarrow> hget db (K_task (rq_repair_task_id q)) ''status'';
          canceled \<leftarrow> hget db (K_task (rq_repair_task_id q)) ''cancel_requested'';
          let ended = (or_else st [] = ''completed'' \<or> or_else st [] = ''failed'') in
          if rq_trigger q = ''post_repair'' then Some ended
          else if rq_trigger q = ''cancel'' then Some (canceled = Some ''1'' \<and> \<not> ended)
          else if rq_trigger q = ''auto_failure'' then auto_failure_fits db (rq_repair_task_id q)
          else if rq_trigger q = ''post_repair_ut_failure'' then
            (if or_else st [] \<noteq> ''running'' \<and> or_else st [] \<noteq> ''publishing'' then Some False
             else ut_belongs db (rq_card_id q) (JStr (rq_repair_task_id q)))
          else if rq_trigger q = ''post_repair_ut_cancel'' then
            (if canceled \<noteq> Some ''1'' \<or> ended then Some False
             else ut_belongs db (rq_card_id q) (JStr (rq_repair_task_id q)))
          else Some False }"

text \<open>Ending the repair task: its status and fields, its place in its worker's set.\<close>

definition end_repair :: "redis \<Rightarrow> rollback_request \<Rightarrow> (string \<times> string) list \<Rightarrow> redis option" where
  "end_repair db q kvs =
     do { w \<leftarrow> hget db (K_task (rq_repair_task_id q)) ''worker_id'';
          db1 \<leftarrow> hset db (K_task (rq_repair_task_id q)) (kvs @ [(''error'', []), (''updated_at'', show_int (rq_now q))]);
          if or_else w [] \<noteq> [] then srem db1 (K_worker_tasks (or_else w [])) (rq_repair_task_id q) else Some db1 }"

text \<open>A workflow paused by the repair is handed to the rollback.\<close>

definition hand_over_paused :: "redis \<Rightarrow> rollback_request \<Rightarrow> redis option" where
  "hand_over_paused db q =
     do { auto \<leftarrow> get db (K_mr_paused_auto (rq_mr q));
          if or_else auto [] = [] then Some db else
          do { p \<leftarrow> hget db (K_task (or_else auto [])) ''paused_by_triage_task_id'';
               if p = Some (rq_repair_task_id q)
               then hset db (K_task (or_else auto [])) [(''paused_by_triage_task_id'', rq_task_id q), (''updated_at'', show_int (rq_now q))]
               else Some db } }"

definition settle_repair :: "redis \<Rightarrow> rollback_request \<Rightarrow> redis option" where
  "settle_repair db q =
     (if rq_trigger q = ''cancel'' then
        do { db1 \<leftarrow> end_repair db q [(''status'', ''canceled''), (''result'', rq_status_markdown q)];
             db2 \<leftarrow> zrem db1 K_pipeline_waiting (rq_repair_task_id q);
             hand_over_paused db2 q }
      else if rq_trigger q = ''auto_failure'' then
        do { db1 \<leftarrow> end_repair db q [(''status'', ''completed''), (''result'', rq_auto_result q)];
             db2 \<leftarrow> zrem db1 K_active_repairs (rq_repair_task_id q);
             db3 \<leftarrow> zrem db2 K_pipeline_waiting (rq_repair_task_id q);
             hand_over_paused db3 q }
      else if rq_trigger q = ''post_repair_ut_failure'' \<or> rq_trigger q = ''post_repair_ut_cancel'' then
        do { db1 \<leftarrow> end_repair db q [(''status'', if rq_trigger q = ''post_repair_ut_cancel'' then ''canceled'' else ''failed'')];
             zrem db1 K_pipeline_waiting (rq_repair_task_id q) }
      else Some db)"

text \<open>The card of the repair after the admission.\<close>

definition rollback_card :: "redis \<Rightarrow> rollback_request \<Rightarrow> nat \<Rightarrow> redis option" where
  "rollback_card db q commits =
     (if rq_trigger q = ''post_repair_ut_failure'' \<or> rq_trigger q = ''post_repair_ut_cancel'' then
        do { decoded \<leftarrow> ut_of_card db (rq_card_id q);
             ut \<leftarrow> decoded;
             d \<leftarrow> lua_members ut;
             hset db (K_triage_card (rq_card_id q))
               [(''post_repair_ut'', cjson_encode (JObj
                   (AList.update ''rollback_status'' (JStr ''queued'')
                     (AList.update ''rollback_task_id'' (JStr (rq_task_id q))
                       (AList.update ''status_markdown'' (JStr (rq_status_markdown q))
                         (AList.update ''status'' (JStr (if rq_trigger q = ''post_repair_ut_cancel'' then ''canceling'' else ''failed'')) d)))))),
                (''active_task_id'', rq_task_id q), (''active_category'', ''unit_test''),
                (''revision'', show_int (rq_revision q + 1)), (''updated_at'', show_int (rq_now q))] }
      else
        hset db (K_triage_card (rq_card_id q))
          [(''state'', ''rollback_queued''), (''status_markdown'', rq_status_markdown q), (''active_task_id'', rq_task_id q),
           (''active_category'', []), (''rollback_repair_task_id'', rq_repair_task_id q), (''rollback_commit_count'', show_nat commits),
           (''rollback_task_id'', rq_task_id q), (''rollback_status'', ''queued''), (''rollback_commit_sha'', []),
           (''rollback_trigger'', rq_trigger q), (''revision'', show_int (rq_revision q + 1)), (''updated_at'', show_int (rq_now q))])"

definition enqueue_rollback :: "redis \<Rightarrow> rollback_request \<Rightarrow> redis option" where
  "enqueue_rollback db q =
     do { db1 \<leftarrow> hset db (K_task (rq_repair_task_id q)) [(''repair_rollback_state'', rq_state q), (''updated_at'', show_int (rq_now q))];
          db2 \<leftarrow> hset db1 (K_task (rq_task_id q))
            [(''payload'', rq_payload q), (''status'', ''queued''), (''attempt'', ''0''), (''created_at'', show_int (rq_now q)),
             (''updated_at'', show_int (rq_now q)), (''admission_state'', ''enqueued''), (''admission_context'', rq_context q),
             (''repair_rollback_state'', rq_state q)];
          (mid, db3) \<leftarrow> xadd db2 K_ingress_stream [(''task_id'', rq_task_id q)];
          db4 \<leftarrow> hset db3 (K_task (rq_task_id q)) [(''ingress_message_id'', mid)];
          db5 \<leftarrow> Some (set_w db4 (K_mr_triage_active (rq_mr q)) (rq_task_id q));
          db6 \<leftarrow> zadd db5 K_active_repairs (rq_now q) (rq_task_id q);
          db7 \<leftarrow> sadd db6 (K_mr_tasks (rq_mr q)) (rq_task_id q);
          Some (set_ex_w db7 (K_task_triage_card (rq_task_id q)) (rq_card_id q) (rq_ttl q)) }"

definition ADMIT_REPAIR_ROLLBACK_LUA :: "redis \<Rightarrow> rollback_request \<Rightarrow> (int \<times> string) reply" where
  "ADMIT_REPAIR_ROLLBACK_LUA db q =
     (if \<not> exists_key db (K_task (rq_repair_task_id q)) \<or> \<not> exists_key db (K_triage_card (rq_card_id q)) then Some ((-1, []), db) else
      do { raw \<leftarrow> hget db (K_task (rq_repair_task_id q)) ''repair_commit_manifest'';
           manifest \<leftarrow> (case loads (or_else raw []) of None \<Rightarrow> Some None | Some j \<Rightarrow> frozen_manifest j);
           case manifest of
             None \<Rightarrow> Some ((-2, []), db)
           | Some (d, xs) \<Rightarrow>
               do { cid \<leftarrow> hget db (K_triage_card (rq_card_id q)) ''card_id'';
                    mid \<leftarrow> hget db (K_triage_card (rq_card_id q)) ''open_message_id'';
                    rid \<leftarrow> hget db (K_triage_card (rq_card_id q)) ''receive_id'';
                    rev \<leftarrow> hget db (K_triage_card (rq_card_id q)) ''revision'';
                    if cid \<noteq> Some (rq_card_id q) \<or> mid \<noteq> Some (rq_open_message_id q) \<or> rid \<noteq> Some (rq_sender_id q)
                       \<or> dget d ''authorized_actor_id'' \<noteq> Some (JStr (rq_sender_id q))
                    then Some ((-3, []), db)
                    else if exists_key db (K_task (rq_task_id q)) then Some ((0, rq_task_id q), db)
                    else if tonumber (or_else rev ''-1'') \<noteq> Some (rq_revision q) then Some ((-3, []), db)
                    else
                    do { fits \<leftarrow> trigger_fits db q;
                         if \<not> fits then Some ((-4, []), db) else
                         do { active \<leftarrow> get db (K_mr_triage_active (rq_mr q));
                              if or_else active [] \<notin> {[], rq_repair_task_id q, rq_task_id q} then Some ((-5, or_else active []), db) else
                              do { db1 \<leftarrow> settle_repair db q;
                                   db2 \<leftarrow> enqueue_rollback db1 q;
                                   db3 \<leftarrow> rollback_card db2 q (length xs);
                                   Some ((1, rq_task_id q), db3) } } } } })"

subsection \<open>Completion\<close>

record rollback_completion =
  rc_task_id :: string
  rc_repair_task_id :: string
  rc_card_id :: string
  rc_mr :: mr_key
  rc_worker :: string
  rc_token :: string
  rc_status :: string
  rc_state :: string
  rc_result :: string
  rc_error :: string
  rc_now :: int
  rc_card_state :: string
  rc_status_markdown :: string
  rc_rollback_status :: string
  rc_commit_sha :: string

definition completion_fenced :: "redis \<Rightarrow> rollback_completion \<Rightarrow> bool option" where
  "completion_fenced db c =
     (if rc_worker c = [] then Some True else
      do { owner \<leftarrow> hget db (K_mr_lease (rc_mr c)) ''worker_id'';
           token \<leftarrow> hget db (K_mr_lease (rc_mr c)) ''fencing_token'';
           Some (or_else owner [] = rc_worker c \<and> or_else token [] = rc_token c) })"

text \<open>A rollback task that has ended with a final state; only then is a completion a repetition.\<close>

definition rollback_ended :: "redis \<Rightarrow> string \<Rightarrow> bool option" where
  "rollback_ended db tid =
     do { current \<leftarrow> hget db (K_task tid) ''status'';
          raw \<leftarrow> hget db (K_task tid) ''repair_rollback_state'';
          if or_else current [] \<noteq> ''completed'' \<and> or_else current [] \<noteq> ''failed'' then Some False else
          case loads (or_else raw []) of
            None \<Rightarrow> Some False
          | Some st \<Rightarrow> do { s \<leftarrow> lua_field st ''status''; Some (s = Some (JStr ''succeeded'') \<or> s = Some (JStr ''failed'')) } }"

text \<open>The card after the completion; \<open>ut_trigger\<close> is the trigger of a rollback of unit tests.\<close>

definition completed_card :: "redis \<Rightarrow> rollback_completion \<Rightarrow> json \<Rightarrow> bool \<Rightarrow> redis option" where
  "completed_card db c state ut_rollback =
     (let card = K_triage_card (rc_card_id c) in
      do { rev \<leftarrow> hget db card ''revision'';
           n \<leftarrow> tonumber (or_else rev ''0'');
           if ut_rollback then
             do { decoded \<leftarrow> ut_of_card db (rc_card_id c);
                  ut \<leftarrow> decoded;
                  d \<leftarrow> lua_members ut;
                  trigger \<leftarrow> lua_field state ''trigger'';
                  status \<leftarrow> lua_field state ''status'';
                  sha \<leftarrow> lua_field state ''rollback_commit_sha'';
                  hset db card
                    [(''post_repair_ut'', cjson_encode (JObj
                        (AList.update ''rollback_commit_sha'' (or_value sha [])
                          (set_member ''rollback_status'' status
                            (AList.update ''outcome_reason'' (JStr (rc_status_markdown c))
                              (AList.update ''status_markdown'' (JStr (rc_status_markdown c))
                                (AList.update ''status''
                                   (JStr (if status = Some (JStr ''succeeded'')
                                          then (if trigger = Some (JStr ''post_repair_ut_cancel'') then ''canceled'' else ''failed'')
                                          else ''rollback_failed'')) d))))))),
                     (''active_task_id'', []), (''active_category'', []), (''revision'', show_int (n + 1)),
                     (''updated_at'', show_int (rc_now c))] }
           else
             hset db card
               [(''state'', rc_card_state c), (''status_markdown'', rc_status_markdown c), (''active_task_id'', []), (''active_category'', []),
                (''rollback_status'', rc_rollback_status c), (''rollback_commit_sha'', rc_commit_sha c), (''revision'', show_int (n + 1)),
                (''updated_at'', show_int (rc_now c))] })"

definition finish_rollback :: "redis \<Rightarrow> rollback_completion \<Rightarrow> json \<Rightarrow> bool \<Rightarrow> redis option" where
  "finish_rollback db c state ut_rollback =
     do { db1 \<leftarrow> hset db (K_task (rc_task_id c))
            [(''status'', rc_status c), (''repair_rollback_state'', rc_state c), (''result'', rc_result c), (''error'', rc_error c),
             (''updated_at'', show_int (rc_now c))];
          db2 \<leftarrow> hset db1 (K_task (rc_repair_task_id c)) [(''repair_rollback_state'', rc_state c), (''updated_at'', show_int (rc_now c))];
          db3 \<leftarrow> completed_card db2 c state ut_rollback;
          db4 \<leftarrow> zrem db3 K_active_repairs (rc_task_id c);
          w \<leftarrow> hget db4 (K_task (rc_task_id c)) ''worker_id'';
          if or_else w [] \<noteq> [] then srem db4 (K_worker_tasks (or_else w [])) (rc_task_id c) else Some db4 }"

definition COMPLETE_REPAIR_ROLLBACK_LUA :: "redis \<Rightarrow> rollback_completion \<Rightarrow> int reply" where
  "COMPLETE_REPAIR_ROLLBACK_LUA db c =
     (if \<not> exists_key db (K_task (rc_task_id c)) \<or> \<not> exists_key db (K_task (rc_repair_task_id c)) \<or>
         \<not> exists_key db (K_triage_card (rc_card_id c)) then Some (-1, db) else
      do { fenced \<leftarrow> completion_fenced db c;
           if \<not> fenced then Some (-2, db) else
           do { st \<leftarrow> hget db (K_task (rc_task_id c)) ''status'';
                case loads (rc_state c) of
                  None \<Rightarrow> Some (-3, db)
                | Some state \<Rightarrow>
                    do { trigger \<leftarrow> lua_field state ''trigger'';
                         owner \<leftarrow> lua_field state ''repair_task_id'';
                         let ut_rollback = (trigger = Some (JStr ''post_repair_ut_failure'') \<or> trigger = Some (JStr ''post_repair_ut_cancel'')) in
                         do { mine \<leftarrow> (if ut_rollback then ut_belongs db (rc_card_id c) (or_value owner []) else Some True);
                              if \<not> mine then Some (-3, db) else
                              do { ended \<leftarrow> rollback_ended db (rc_task_id c);
                                   if ended then Some (0, db)
                                   else if or_else st [] \<notin> {''running'', ''publishing'', ''assigned'', ''failed''} then Some (-3, db)
                                   else
                                   do { db1 \<leftarrow> finish_rollback db c state ut_rollback; Some (1, db1) } } } } } })"

subsection \<open>What the parts of the admission do\<close>

lemma frozen_manifest_Some:
  "frozen_manifest j = Some (Some (d, xs)) \<Longrightarrow> j = JObj d \<and> lua_truthy (dget d ''frozen'') \<and> xs \<noteq> [] \<and> dget d ''entries'' = Some (JArr xs)"
  by (cases j) (auto simp: frozen_manifest_def read_manifest_def bind_eq_Some_conv split: if_splits option.splits json.splits)

definition same_statuses :: "redis \<Rightarrow> redis \<Rightarrow> bool" where
  "same_statuses db db' \<longleftrightarrow> well_typed db' \<and> stream_at db' K_ingress_stream = stream_at db K_ingress_stream \<and>
     (\<forall>t. task_status_of db' t = task_status_of db t)"

lemma same_statuses_trans: "same_statuses db db' \<Longrightarrow> same_statuses db' db'' \<Longrightarrow> same_statuses db db''"
  by (simp add: same_statuses_def)

lemma hand_over_paused_same: "hand_over_paused db q = Some db' \<Longrightarrow> well_typed db \<Longrightarrow> same_statuses db db'"
  by (auto simp: hand_over_paused_def same_statuses_def redis_simps view_simps split: if_splits)

lemma zrem_same:
  "zrem db K_pipeline_waiting x = Some db' \<Longrightarrow> well_typed db \<Longrightarrow> same_statuses db db'"
  "zrem db K_active_repairs x = Some db' \<Longrightarrow> well_typed db \<Longrightarrow> same_statuses db db'"
  by (auto simp: same_statuses_def redis_simps view_simps)

lemma end_repair_status:
  assumes "end_repair db q ((''status'', st) # kvs) = Some db1" "well_typed db" "kvs = [] \<or> kvs = [(''result'', r)]"
  shows "well_typed db1 \<and> stream_at db1 K_ingress_stream = stream_at db K_ingress_stream \<and>
    task_status_of db1 (rq_repair_task_id q) = Some st"
  using assms by (auto simp: end_repair_def redis_simps view_simps split: if_splits)

text \<open>After it a repair is over, whatever the trigger.\<close>

lemma settle_repair_shape:
  assumes "settle_repair db q = Some db'" "well_typed db" "trigger_fits db q = Some True"
  obtains (ended) db1 st kvs r where "end_repair db q ((''status'', st) # kvs) = Some db1" "kvs = [] \<or> kvs = [(''result'', r)]"
      "st \<in> {''completed'', ''failed'', ''canceled''}" "well_typed db1 \<longrightarrow> same_statuses db1 db'"
    | (over) "db' = db" "terminal_status (task_status_of db (rq_repair_task_id q))"
proof -
  let ?t = "rq_repair_task_id q"
  consider "rq_trigger q = ''cancel''" | "rq_trigger q = ''auto_failure''"
    | "rq_trigger q = ''post_repair_ut_failure''" | "rq_trigger q = ''post_repair_ut_cancel''" | "rq_trigger q = ''post_repair''"
    using assms(2,3) by (auto simp: trigger_fits_def redis_simps Let_def split: if_splits)
  then show thesis
  proof cases
    case 1
    then obtain db1 db2 where s: "end_repair db q [(''status'', ''canceled''), (''result'', rq_status_markdown q)] = Some db1"
      "zrem db1 K_pipeline_waiting ?t = Some db2" "hand_over_paused db2 q = Some db'"
      using assms(1) by (auto simp: settle_repair_def bind_eq_Some_conv)
    then have "well_typed db1 \<longrightarrow> same_statuses db1 db'"
      using zrem_same(1) hand_over_paused_same same_statuses_trans same_statuses_def by blast
    with s(1) show thesis by (intro ended) auto
  next
    case 2
    then obtain db1 db2 db3 where s: "end_repair db q [(''status'', ''completed''), (''result'', rq_auto_result q)] = Some db1"
      "zrem db1 K_active_repairs ?t = Some db2" "zrem db2 K_pipeline_waiting ?t = Some db3" "hand_over_paused db3 q = Some db'"
      using assms(1) by (auto simp: settle_repair_def bind_eq_Some_conv)
    then have "well_typed db1 \<longrightarrow> same_statuses db1 db'"
      using zrem_same hand_over_paused_same same_statuses_trans same_statuses_def by metis
    with s(1) show thesis by (intro ended) auto
  next
    case 3
    then obtain db1 where "end_repair db q [(''status'', ''failed'')] = Some db1" "zrem db1 K_pipeline_waiting ?t = Some db'"
      using assms(1) by (auto simp: settle_repair_def bind_eq_Some_conv)
    then show thesis using zrem_same(1) by (intro ended) auto
  next
    case 4
    then obtain db1 where "end_repair db q [(''status'', ''canceled'')] = Some db1" "zrem db1 K_pipeline_waiting ?t = Some db'"
      using assms(1) by (auto simp: settle_repair_def bind_eq_Some_conv)
    then show thesis using zrem_same(1) by (intro ended) auto
  next
    case 5
    then show thesis
      using assms by (intro over; cases "task_status_of db ?t") (auto simp: settle_repair_def trigger_fits_def terminal_status_def redis_simps Let_def)
  qed
qed

lemma settle_repair_effect:
  assumes "settle_repair db q = Some db'" "well_typed db" "trigger_fits db q = Some True"
  shows "well_typed db' \<and> stream_at db' K_ingress_stream = stream_at db K_ingress_stream \<and>
    terminal_status (task_status_of db' (rq_repair_task_id q))"
proof (rule settle_repair_shape [OF assms])
  fix db1 st kvs r
  assume step: "end_repair db q ((''status'', st) # kvs) = Some db1" and kvs: "kvs = [] \<or> kvs = [(''result'', r)]"
    and st: "st \<in> {''completed'', ''failed'', ''canceled''}" and rest: "well_typed db1 \<longrightarrow> same_statuses db1 db'"
  show ?thesis using end_repair_status [OF step assms(2) kvs] rest st by (auto simp: same_statuses_def terminal_status_def)
qed (use assms(2) in simp)

lemma enqueue_rollback_effect:
  assumes "enqueue_rollback db q = Some db'" "well_typed db" "rq_task_id q \<noteq> rq_repair_task_id q"
  shows "well_typed db' \<and> task_status_of db' (rq_repair_task_id q) = task_status_of db (rq_repair_task_id q) \<and>
    task_status_of db' (rq_task_id q) = Some ''queued'' \<and> str_at db' (K_mr_triage_active (rq_mr q)) = Some (rq_task_id q) \<and>
    entries (stream_at db' K_ingress_stream) = entries (stream_at db K_ingress_stream) @ [(next_id db K_ingress_stream, [(''task_id'', rq_task_id q)])]"
  using assms by (auto simp: enqueue_rollback_def redis_simps view_simps next_id_def)

lemma rollback_card_effect:
  assumes "rollback_card db q n = Some db'" "well_typed db"
  shows "\<exists>kvs. db' = hset_w db (K_triage_card (rq_card_id q)) kvs"
  using assms by (auto simp: rollback_card_def redis_simps bind_eq_Some_conv split: if_splits)

text \<open>The checks an admission has passed.\<close>

lemma admission_checks:
  assumes "ADMIT_REPAIR_ROLLBACK_LUA db q = Some ((1, x), db')" "well_typed db"
  obtains d xs db1 db2 where
    "loads (or_else (hash_at db (K_task (rq_repair_task_id q)) ''repair_commit_manifest'') []) = Some (JObj d)"
    "lua_truthy (dget d ''frozen'')" "dget d ''entries'' = Some (JArr xs)" "xs \<noteq> []"
    "dget d ''authorized_actor_id'' = Some (JStr (rq_sender_id q))"
    "hash_at db (K_triage_card (rq_card_id q)) ''receive_id'' = Some (rq_sender_id q)"
    "exists_key db (K_task (rq_repair_task_id q))" "\<not> exists_key db (K_task (rq_task_id q))" "trigger_fits db q = Some True"
    "settle_repair db q = Some db1" "enqueue_rollback db1 q = Some db2" "rollback_card db2 q (length xs) = Some db'" "x = rq_task_id q"
proof -
  let ?raw = "or_else (hash_at db (K_task (rq_repair_task_id q)) ''repair_commit_manifest'') []"
  obtain manifest where m: "(case loads ?raw of None \<Rightarrow> Some None | Some j \<Rightarrow> frozen_manifest j) = Some manifest"
    using assms by (auto simp: ADMIT_REPAIR_ROLLBACK_LUA_def redis_simps bind_eq_Some_conv split: if_splits)
  then obtain d xs where dx: "manifest = Some (d, xs)"
    using assms by (cases manifest) (auto simp: ADMIT_REPAIR_ROLLBACK_LUA_def redis_simps split: if_splits)
  with m have "frozen_manifest (the (loads ?raw)) = Some (Some (d, xs))" "loads ?raw \<noteq> None" by (auto split: option.splits)
  then have "loads ?raw = Some (JObj d)" "lua_truthy (dget d ''frozen'')" "dget d ''entries'' = Some (JArr xs)" "xs \<noteq> []"
    using frozen_manifest_Some by fastforce+
  moreover have "dget d ''authorized_actor_id'' = Some (JStr (rq_sender_id q))"
    "hash_at db (K_triage_card (rq_card_id q)) ''receive_id'' = Some (rq_sender_id q)"
    "exists_key db (K_task (rq_repair_task_id q))" "\<not> exists_key db (K_task (rq_task_id q))" "trigger_fits db q = Some True" "x = rq_task_id q"
    "\<exists>db1 db2. settle_repair db q = Some db1 \<and> enqueue_rollback db1 q = Some db2 \<and> rollback_card db2 q (length xs) = Some db'"
    using assms(1) unfolding ADMIT_REPAIR_ROLLBACK_LUA_def
    using assms(2) m dx
    by (simp_all add: redis_simps bind_eq_Some_conv split: if_splits) auto
  ultimately show thesis using that by blast
qed

lemma admission_keeps:
  "ADMIT_REPAIR_ROLLBACK_LUA db q = Some ((c, x), db') \<Longrightarrow> exists_key db (K_task (rq_task_id q)) \<Longrightarrow> c \<noteq> 1 \<and> db' = db"
  by (auto simp: ADMIT_REPAIR_ROLLBACK_LUA_def bind_eq_Some_conv split: if_splits option.splits)

text \<open>A completion that went through, and what it leaves of the rollback task.\<close>

lemma completed_card_effect:
  assumes "completed_card db c state u = Some db'" "well_typed db"
  shows "\<exists>kvs. db' = hset_w db (K_triage_card (rc_card_id c)) kvs"
  using assms by (auto simp: completed_card_def redis_simps Let_def bind_eq_Some_conv split: if_splits)

lemma finish_rollback_effect:
  assumes "finish_rollback db c state u = Some db'" "well_typed db" "rc_task_id c \<noteq> rc_repair_task_id c"
  shows "well_typed db' \<and> task_status_of db' (rc_task_id c) = Some (rc_status c) \<and>
    hash_at db' (K_task (rc_task_id c)) ''repair_rollback_state'' = Some (rc_state c) \<and>
    hash_at db' (K_task (rc_repair_task_id c)) ''repair_rollback_state'' = Some (rc_state c)"
proof -
  let ?t = "K_task (rc_task_id c)"
  let ?db = "hset_w (hset_w db ?t [(''status'', rc_status c), (''repair_rollback_state'', rc_state c), (''result'', rc_result c),
      (''error'', rc_error c), (''updated_at'', show_int (rc_now c))]) (K_task (rc_repair_task_id c))
      [(''repair_rollback_state'', rc_state c), (''updated_at'', show_int (rc_now c))]"
  have wt: "well_typed ?db" using assms(2) by (simp add: redis_simps)
  obtain db3 where card: "completed_card ?db c state u = Some db3"
    using assms(1,2) by (auto simp: finish_rollback_def redis_simps bind_eq_Some_conv)
  obtain kvs where db3: "db3 = hset_w ?db (K_triage_card (rc_card_id c)) kvs" using completed_card_effect [OF card wt] by blast
  have "\<exists>w. db' = zrem_w db3 K_active_repairs (rc_task_id c) \<or>
      db' = srem_w (zrem_w db3 K_active_repairs (rc_task_id c)) (K_worker_tasks w) (rc_task_id c)"
    using assms(1,2) card wt unfolding finish_rollback_def db3 by (auto simp: redis_simps split: if_splits)
  then show ?thesis using wt assms(3) unfolding db3 by (auto simp: redis_simps view_simps)
qed

lemma completion_effect:
  assumes "COMPLETE_REPAIR_ROLLBACK_LUA db c = Some (1, db')" "well_typed db"
  shows "(\<exists>state u. finish_rollback db c state u = Some db') \<and>
    (rc_worker c = [] \<or> rc_token c = [] \<or> holds_lease db (K_mr_lease (rc_mr c)) (rc_worker c) (rc_token c))"
proof
  show "\<exists>state u. finish_rollback db c state u = Some db'"
    using assms(1) by (auto simp: COMPLETE_REPAIR_ROLLBACK_LUA_def bind_eq_Some_conv Let_def split: if_splits option.splits)
  have "completion_fenced db c = Some True"
    using assms(1) by (auto simp: COMPLETE_REPAIR_ROLLBACK_LUA_def bind_eq_Some_conv split: if_splits)
  then show "rc_worker c = [] \<or> rc_token c = [] \<or> holds_lease db (K_mr_lease (rc_mr c)) (rc_worker c) (rc_token c)"
    using assms(2) by (cases "hash_at db (K_mr_lease (rc_mr c)) ''worker_id''"; cases "hash_at db (K_mr_lease (rc_mr c)) ''fencing_token''")
      (auto simp: completion_fenced_def holds_lease_def redis_simps split: if_splits)
qed

lemma rollback_ended_wt:
  "well_typed db \<Longrightarrow> rollback_ended db t = Some True \<longleftrightarrow>
     (task_status_of db t = Some ''completed'' \<or> task_status_of db t = Some ''failed'') \<and>
     (\<exists>j s. loads (or_else (hash_at db (K_task t) ''repair_rollback_state'') []) = Some j \<and> lua_field j ''status'' = Some (Some (JStr s)) \<and>
        (s = ''succeeded'' \<or> s = ''failed''))"
  by (cases "task_status_of db t") (auto simp: rollback_ended_def redis_simps bind_eq_Some_conv split: option.splits)

lemma ended_completion: "COMPLETE_REPAIR_ROLLBACK_LUA db c = Some (r, db') \<Longrightarrow> rollback_ended db (rc_task_id c) = Some True \<Longrightarrow>
  r \<noteq> 1 \<and> db' = db"
  by (auto simp: COMPLETE_REPAIR_ROLLBACK_LUA_def bind_eq_Some_conv Let_def split: if_splits option.splits)

subsection \<open>Properties\<close>

text \<open>
  C31: what an admitted rollback needs and does. The repair has a frozen manifest with commits, the
  sender is the actor the manifest authorises and the receiver of the card, and there is no
  rollback task of the repair yet. Afterwards the repair is over, whatever triggered the rollback, the
  rollback task is queued with exactly one new message in the ingress stream, and it holds the
  gate of the merge request.
\<close>

theorem rollback_admission:
  assumes "well_typed db" "ADMIT_REPAIR_ROLLBACK_LUA db q = Some ((1, x), db')"
  shows "x = rq_task_id q \<and> \<not> exists_key db (K_task (rq_task_id q)) \<and>
    (\<exists>d commits. loads (or_else (hash_at db (K_task (rq_repair_task_id q)) ''repair_commit_manifest'') []) = Some (JObj d) \<and>
       lua_truthy (dget d ''frozen'') \<and> dget d ''entries'' = Some (JArr commits) \<and> commits \<noteq> [] \<and>
       dget d ''authorized_actor_id'' = Some (JStr (rq_sender_id q))) \<and>
    hash_at db (K_triage_card (rq_card_id q)) ''receive_id'' = Some (rq_sender_id q) \<and>
    terminal_status (task_status_of db' (rq_repair_task_id q)) \<and> task_status_of db' (rq_task_id q) = Some ''queued'' \<and>
    str_at db' (K_mr_triage_active (rq_mr q)) = Some (rq_task_id q) \<and>
    entries (stream_at db' K_ingress_stream) =
      entries (stream_at db K_ingress_stream) @ [(next_id db K_ingress_stream, [(''task_id'', rq_task_id q)])]"
proof (rule admission_checks [OF assms(2,1)])
  fix d xs db1 db2
  assume manifest: "loads (or_else (hash_at db (K_task (rq_repair_task_id q)) ''repair_commit_manifest'') []) = Some (JObj d)"
      "lua_truthy (dget d ''frozen'')" "dget d ''entries'' = Some (JArr xs)" "xs \<noteq> []"
      "dget d ''authorized_actor_id'' = Some (JStr (rq_sender_id q))"
    and card: "hash_at db (K_triage_card (rq_card_id q)) ''receive_id'' = Some (rq_sender_id q)"
    and keys: "exists_key db (K_task (rq_repair_task_id q))" "\<not> exists_key db (K_task (rq_task_id q))"
    and fits: "trigger_fits db q = Some True"
    and steps: "settle_repair db q = Some db1" "enqueue_rollback db1 q = Some db2" "rollback_card db2 q (length xs) = Some db'"
    and x: "x = rq_task_id q"
  have s: "well_typed db1" "stream_at db1 K_ingress_stream = stream_at db K_ingress_stream"
    "terminal_status (task_status_of db1 (rq_repair_task_id q))"
    using settle_repair_effect [OF steps(1) assms(1) fits] by simp_all
  have "rq_task_id q \<noteq> rq_repair_task_id q" using keys by auto
  note e = enqueue_rollback_effect [OF steps(2) s(1) this]
  obtain kvs where "db' = hset_w db2 (K_triage_card (rq_card_id q)) kvs" using rollback_card_effect [OF steps(3)] e by blast
  then have "terminal_status (task_status_of db' (rq_repair_task_id q))" "task_status_of db' (rq_task_id q) = Some ''queued''"
    "str_at db' (K_mr_triage_active (rq_mr q)) = Some (rq_task_id q)"
    "stream_at db' K_ingress_stream = stream_at db2 K_ingress_stream"
    using e s(3) by (simp_all add: view_simps)
  moreover have "next_id db1 K_ingress_stream = next_id db K_ingress_stream" by (simp add: next_id_def s(2))
  ultimately show ?thesis using e manifest card keys(2) x s(2) by auto
qed

definition repaired_db :: redis where
  "repaired_db = hset_w (hset_w empty_redis (K_task ''t'') [(''status'', ''completed''), (''repair_commit_manifest'',
       dumps (JObj [(''authorized_actor_id'', JStr ''u''), (''entries'', JArr [JObj []]), (''frozen'', JBool True)]))])
     (K_triage_card ''c'') [(''card_id'', ''c''), (''open_message_id'', ''m''), (''receive_id'', ''u''), (''revision'', ''0'')]"

definition example_rollback :: rollback_request where
  "example_rollback = \<lparr>rq_repair_task_id = ''t'', rq_task_id = ''r'', rq_mr = example_mr, rq_payload = [], rq_context = [], rq_state = [],
     rq_card_id = ''c'', rq_open_message_id = ''m'', rq_sender_id = ''u'', rq_revision = 0, rq_trigger = ''post_repair'', rq_now = 5,
     rq_status_markdown = [], rq_ttl = 60, rq_auto_result = []\<rparr>"

lemma rollback_manifest_text:
  "loads (dumps (JObj [(''authorized_actor_id'', JStr ''u''), (''entries'', JArr [JObj []]), (''frozen'', JBool True)])) =
   Some (JObj [(''authorized_actor_id'', JStr ''u''), (''entries'', JArr [JObj []]), (''frozen'', JBool True)])"
  by (subst loads_dumps_obj) (simp_all add: stored_dict_def)

lemma repaired_db_admits: "\<exists>db. ADMIT_REPAIR_ROLLBACK_LUA repaired_db example_rollback = Some ((1, ''r''), db)"
proof -
  have wt: "well_typed repaired_db" by (simp add: repaired_db_def redis_simps)
  have t: "hash_at repaired_db (K_task ''t'') ''status'' = Some ''completed''"
    "loads (or_else (hash_at repaired_db (K_task ''t'') ''repair_commit_manifest'') []) =
       Some (JObj [(''authorized_actor_id'', JStr ''u''), (''entries'', JArr [JObj []]), (''frozen'', JBool True)])"
    by (simp_all add: repaired_db_def view_simps rollback_manifest_text)
  have c: "hash_at repaired_db (K_triage_card ''c'') = [''card_id'' \<mapsto> ''c'', ''open_message_id'' \<mapsto> ''m'', ''receive_id'' \<mapsto> ''u'', ''revision'' \<mapsto> ''0'']"
    "exists_key repaired_db (K_task ''t'')" "exists_key repaired_db (K_triage_card ''c'')" "\<not> exists_key repaired_db (K_task ''r'')"
    "str_at repaired_db (K_mr_triage_active example_mr) = None"
    by (simp_all add: repaired_db_def view_simps)
  show ?thesis
    using wt by (simp add: ADMIT_REPAIR_ROLLBACK_LUA_def example_rollback_def redis_simps t c frozen_manifest_def read_manifest_def dget_def
        trigger_fits_def Let_def settle_repair_def enqueue_rollback_def rollback_card_def)
qed

theorem rollback_admission_witness:
  "\<exists>db. ADMIT_REPAIR_ROLLBACK_LUA repaired_db example_rollback = Some ((1, ''r''), db) \<and> task_status_of db ''r'' = Some ''queued'' \<and>
     str_at db (K_mr_triage_active example_mr) = Some ''r''"
proof -
  obtain db where run: "ADMIT_REPAIR_ROLLBACK_LUA repaired_db example_rollback = Some ((1, ''r''), db)" using repaired_db_admits by blast
  have "well_typed repaired_db" by (simp add: repaired_db_def redis_simps)
  from rollback_admission [OF this run] run show ?thesis by (simp add: example_rollback_def)
qed

text \<open>
  A rollback is admitted once, and a failed one is never tried again. Where the rollback task of a
  repair exists, no request for it does anything; and to the authorised sender the reply is the
  one for a rollback that is already on its way, also when the rollback has failed.
\<close>

theorem rollback_not_retried:
  assumes "well_typed db" "exists_key db (K_task (rq_task_id q))"
    and "loads (or_else (hash_at db (K_task (rq_repair_task_id q)) ''repair_commit_manifest'') []) = Some (JObj d)"
    and "lua_truthy (dget d ''frozen'')" "dget d ''entries'' = Some (JArr (c # cs))"
    and "dget d ''authorized_actor_id'' = Some (JStr (rq_sender_id q))"
    and "hash_at db (K_triage_card (rq_card_id q)) ''card_id'' = Some (rq_card_id q)"
    and "hash_at db (K_triage_card (rq_card_id q)) ''open_message_id'' = Some (rq_open_message_id q)"
    and "hash_at db (K_triage_card (rq_card_id q)) ''receive_id'' = Some (rq_sender_id q)"
  shows "ADMIT_REPAIR_ROLLBACK_LUA db q = Some ((0, rq_task_id q), db)"
proof -
  have "loads [] = None" by (simp add: loads_def ws_def)
  with assms(3) have "hash_at db (K_task (rq_repair_task_id q)) \<noteq> Map.empty" by auto
  then have "exists_key db (K_task (rq_repair_task_id q))" using hash_absent by blast
  moreover have "exists_key db (K_triage_card (rq_card_id q))" using assms(7) by (metis hash_absent option.distinct(1))
  ultimately show ?thesis
    using assms by (simp add: ADMIT_REPAIR_ROLLBACK_LUA_def redis_simps frozen_manifest_def read_manifest_def)
qed

theorem rollback_not_retried_witness:
  "ADMIT_REPAIR_ROLLBACK_LUA (hset_w repaired_db (K_task ''r'') [(''status'', ''failed'')]) example_rollback =
     Some ((0, ''r''), hset_w repaired_db (K_task ''r'') [(''status'', ''failed'')])"
proof -
  let ?db = "hset_w repaired_db (K_task ''r'') [(''status'', ''failed'')]"
  have "ADMIT_REPAIR_ROLLBACK_LUA ?db example_rollback = Some ((0, rq_task_id example_rollback), ?db)"
    by (rule rollback_not_retried [where d = "[(''authorized_actor_id'', JStr ''u''), (''entries'', JArr [JObj []]), (''frozen'', JBool True)]"])
      (simp_all add: example_rollback_def repaired_db_def redis_simps view_simps rollback_manifest_text dget_def)
  then show ?thesis by (simp add: example_rollback_def)
qed

text \<open>
  C32: the outcome of a rollback is recorded once. A completion that succeeds is fenced by the lease
  it names and stores the same final state with the rollback task and with the repair; while the
  record of the rollback task stays as it is, no other completion of it succeeds or changes
  anything.
\<close>

theorem rollback_completed_once:
  assumes "well_typed db" "COMPLETE_REPAIR_ROLLBACK_LUA db c = Some (1, db1)" "rc_task_id c \<noteq> rc_repair_task_id c"
    and "rc_status c = ''completed'' \<or> rc_status c = ''failed''"
    and "loads (rc_state c) = Some (JObj d)" "dget d ''status'' = Some (JStr s)" "s = ''succeeded'' \<or> s = ''failed''"
    and "well_typed db2" "hash_at db2 (K_task (rc_task_id c)) = hash_at db1 (K_task (rc_task_id c))"
    and "rc_task_id c' = rc_task_id c" "COMPLETE_REPAIR_ROLLBACK_LUA db2 c' = Some (r, db3)"
  shows "(rc_worker c \<noteq> [] \<longrightarrow> rc_token c \<noteq> [] \<longrightarrow> holds_lease db (K_mr_lease (rc_mr c)) (rc_worker c) (rc_token c)) \<and>
    hash_at db1 (K_task (rc_task_id c)) ''repair_rollback_state'' = Some (rc_state c) \<and>
    hash_at db1 (K_task (rc_repair_task_id c)) ''repair_rollback_state'' = Some (rc_state c) \<and>
    r \<noteq> 1 \<and> db3 = db2"
proof -
  obtain state u where fin: "finish_rollback db c state u = Some db1" using completion_effect [OF assms(2,1)] by blast
  note f = finish_rollback_effect [OF fin assms(1,3)]
  have "rollback_ended db2 (rc_task_id c') = Some True"
    using f assms(4-10) by (auto simp: rollback_ended_wt)
  from ended_completion [OF assms(11) this] show ?thesis using f completion_effect [OF assms(2,1)] by blast
qed

definition rolling_db :: redis where
  "rolling_db = hset_w (hset_w repaired_db (K_triage_card ''c'') [(''state'', ''rollback_running'')]) (K_task ''r'') [(''status'', ''running'')]"

definition example_completion :: rollback_completion where
  "example_completion = \<lparr>rc_task_id = ''r'', rc_repair_task_id = ''t'', rc_card_id = ''c'', rc_mr = example_mr, rc_worker = [], rc_token = [],
     rc_status = ''completed'', rc_state = dumps (JObj [(''status'', JStr ''succeeded''), (''trigger'', JStr ''post_repair'')]),
     rc_result = [], rc_error = [], rc_now = 9, rc_card_state = ''rollback_succeeded'', rc_status_markdown = [],
     rc_rollback_status = ''succeeded'', rc_commit_sha = ''s''\<rparr>"

lemma example_state:
  "loads (dumps (JObj [(''status'', JStr ''succeeded''), (''trigger'', JStr ''post_repair'')])) =
   Some (JObj [(''status'', JStr ''succeeded''), (''trigger'', JStr ''post_repair'')])"
  by (subst loads_dumps_obj) (simp_all add: stored_dict_def)

lemma rolling_db_completes: "\<exists>db. COMPLETE_REPAIR_ROLLBACK_LUA rolling_db example_completion = Some (1, db)"
proof -
  have wt: "well_typed rolling_db" by (simp add: rolling_db_def repaired_db_def redis_simps)
  have t: "hash_at rolling_db (K_task ''r'') = [''status'' \<mapsto> ''running'']"
    "hash_at rolling_db (K_triage_card ''c'') ''revision'' = Some ''0''"
    "exists_key rolling_db (K_task ''t'')" "exists_key rolling_db (K_task ''r'')" "exists_key rolling_db (K_triage_card ''c'')"
    by (simp_all add: rolling_db_def repaired_db_def view_simps)
  have n: "tonumber ''0'' = Some 0" using tonumber_show_int [of 0] by simp
  show ?thesis
    using wt by (simp add: COMPLETE_REPAIR_ROLLBACK_LUA_def example_completion_def redis_simps view_simps t n example_state dget_def completion_fenced_def
        rollback_ended_def finish_rollback_def completed_card_def Let_def)
qed

theorem rollback_completed_once_witness:
  "\<exists>db. COMPLETE_REPAIR_ROLLBACK_LUA rolling_db example_completion = Some (1, db) \<and>
     (\<forall>r db'. COMPLETE_REPAIR_ROLLBACK_LUA db example_completion = Some (r, db') \<longrightarrow> db' = db)"
proof -
  obtain db where run: "COMPLETE_REPAIR_ROLLBACK_LUA rolling_db example_completion = Some (1, db)" using rolling_db_completes by blast
  have wt: "well_typed rolling_db" by (simp add: rolling_db_def repaired_db_def redis_simps)
  have wt': "well_typed db"
    using completion_effect [OF run wt] finish_rollback_effect [OF _ wt] by (auto simp: example_completion_def)
  have "db' = db" if "COMPLETE_REPAIR_ROLLBACK_LUA db example_completion = Some (r, db')" for r db'
    using rollback_completed_once [OF wt run _ _ _ _ _ wt' HOL.refl HOL.refl that]
    by (simp add: example_completion_def example_state dget_def)
  with run show ?thesis by blast
qed

end
