(* ===== verification/Checkpoint.thy ===== *)
theory Checkpoint
  imports Redis_Store "HOL-Library.Product_Lexorder" "HOL-Library.Countable"
begin

text \<open>
  The checkpoints of the repair graph (\<open>pr_agent/distributed/checkpoint.py\<close>):
  \<open>CoreRedisCheckpointSaver\<close> keeps the checkpoints of a thread, the values of their channels and
  the pending writes under keys of its own in Redis. The store is indexed by the names the code
  writes. What the class takes from LangGraph is a parameter: the serializer, the reader of the
  checkpoint id of a configuration, the metadata of a checkpoint and the indices of the special
  channels. Python values are JSON values here; the serializer may be any that reads back what it
  wrote. \<open>None\<close> is a Python exception.
\<close>

subsection \<open>Base64\<close>

definition b64_char :: "nat \<Rightarrow> char" where
  "b64_char n =
     (if n < 26 then char_of (65 + n) else if n < 52 then char_of (71 + n) else if n < 62 then char_of (n - 4)
      else if n = 62 then CHR ''+'' else CHR ''/'')"

definition b64_value :: "char \<Rightarrow> nat option" where
  "b64_value c = (let n = (of_char c :: nat) in
     if 65 \<le> n \<and> n \<le> 90 then Some (n - 65) else if 97 \<le> n \<and> n \<le> 122 then Some (n - 71)
     else if 48 \<le> n \<and> n \<le> 57 then Some (n + 4) else if c = CHR ''+'' then Some 62 else if c = CHR ''/'' then Some 63 else None)"

fun b64encode :: "string \<Rightarrow> string" where
  "b64encode [] = []"
| "b64encode [a] = (let x = of_char a in [b64_char (x div 4), b64_char (16 * (x mod 4)), CHR ''='', CHR ''=''])"
| "b64encode [a, b] = (let x = of_char a; y = of_char b in
     [b64_char (x div 4), b64_char (16 * (x mod 4) + y div 16), b64_char (4 * (y mod 16)), CHR ''=''])"
| "b64encode (a # b # c # r) = (let x = of_char a; y = of_char b; z = of_char c in
     [b64_char (x div 4), b64_char (16 * (x mod 4) + y div 16), b64_char (4 * (y mod 16) + z div 64), b64_char (z mod 64)] @ b64encode r)"

text \<open>Texts of the alphabet with their padding; other texts, which the code never writes, are \<open>None\<close>.\<close>

fun b64decode :: "string \<Rightarrow> string option" where
  "b64decode [] = Some []"
| "b64decode (a # b # c # d # r) =
     do { i \<leftarrow> b64_value a;
          j \<leftarrow> b64_value b;
          if d = CHR ''='' then
            (if r \<noteq> [] then None
             else if c = CHR ''='' then Some [char_of (4 * i + j div 16)]
             else do { k \<leftarrow> b64_value c; Some [char_of (4 * i + j div 16), char_of (16 * (j mod 16) + k div 4)] })
          else
            do { k \<leftarrow> b64_value c;
                 l \<leftarrow> b64_value d;
                 s \<leftarrow> b64decode r;
                 Some (char_of (4 * i + j div 16) # char_of (16 * (j mod 16) + k div 4) # char_of (64 * (k mod 4) + l) # s) } }"
| "b64decode _ = None"

lemma b64_value_char: "n < 64 \<Longrightarrow> b64_value (b64_char n) = Some n"
  by (auto simp: b64_value_def b64_char_def Let_def)

lemma b64_char_not_pad: "n < 64 \<Longrightarrow> b64_char n \<noteq> CHR ''=''"
  using b64_value_char [of n] by (auto simp: b64_value_def)

lemma byte_bounds: "(of_char c :: nat) div 4 < 64" "(of_char c :: nat) div 16 < 16" "(of_char c :: nat) div 64 < 4"
proof -
  have "(of_char c :: nat) < 256" by simp
  then show "(of_char c :: nat) div 4 < 64" "(of_char c :: nat) div 16 < 16" "(of_char c :: nat) div 64 < 4" by linarith+
qed

lemma b64_value_parts [simp]:
  "b64_value (b64_char (of_char a div 4)) = Some (of_char a div 4)"
  "b64_value (b64_char (16 * (of_char a mod 4))) = Some (16 * (of_char a mod 4))"
  "b64_value (b64_char (16 * (of_char a mod 4) + of_char b div 16)) = Some (16 * (of_char a mod 4) + of_char b div 16)"
  "b64_value (b64_char (4 * (of_char b mod 16))) = Some (4 * (of_char b mod 16))"
  "b64_value (b64_char (4 * (of_char b mod 16) + of_char c div 64)) = Some (4 * (of_char b mod 16) + of_char c div 64)"
  "b64_value (b64_char (of_char c mod 64)) = Some (of_char c mod 64)"
proof -
  have m: "(of_char a :: nat) mod 4 < 4" "(of_char b :: nat) mod 16 < 16" "(of_char c :: nat) mod 64 < 64" by simp_all
  note d = byte_bounds [of a] byte_bounds [of b] byte_bounds [of c]
  show "b64_value (b64_char (of_char a div 4)) = Some (of_char a div 4)"
    "b64_value (b64_char (16 * (of_char a mod 4))) = Some (16 * (of_char a mod 4))"
    "b64_value (b64_char (16 * (of_char a mod 4) + of_char b div 16)) = Some (16 * (of_char a mod 4) + of_char b div 16)"
    "b64_value (b64_char (4 * (of_char b mod 16))) = Some (4 * (of_char b mod 16))"
    "b64_value (b64_char (4 * (of_char b mod 16) + of_char c div 64)) = Some (4 * (of_char b mod 16) + of_char c div 64)"
    "b64_value (b64_char (of_char c mod 64)) = Some (of_char c mod 64)"
    by (rule b64_value_char; use m d in linarith)+
qed

lemma b64_not_pad [simp]: "b64_char (of_char c mod 64) \<noteq> CHR ''=''" "b64_char (4 * (of_char b mod 16)) \<noteq> CHR ''=''"
  using b64_value_parts(4) [of b] b64_value_parts(6) [of c] by (auto simp: b64_value_def)

lemma b64decode_encode [simp]: "b64decode (b64encode s) = Some s"
  by (induction s rule: b64encode.induct) (simp_all add: Let_def byte_bounds)

subsection \<open>Key names\<close>

text \<open>The name made of colon-separated parts after the prefix; no part that the code quotes holds a colon.\<close>

definition named :: "string \<Rightarrow> string list \<Rightarrow> string" where
  "named p parts = p @ CHR '':'' # join '':'' parts"

definition threads_key :: "string \<Rightarrow> string" where
  "threads_key p = p @ '':threads''"

definition namespaces_key :: "string \<Rightarrow> string \<Rightarrow> string" where
  "namespaces_key p t = p @ '':'' @ quote t @ '':namespaces''"

definition base_key :: "string \<Rightarrow> string \<Rightarrow> string \<Rightarrow> string" where
  "base_key p t ns = p @ '':'' @ quote t @ '':'' @ quote ns"

definition index_key :: "string \<Rightarrow> string \<Rightarrow> string \<Rightarrow> string" where
  "index_key p t ns = base_key p t ns @ '':index''"

definition sequence_key :: "string \<Rightarrow> string \<Rightarrow> string \<Rightarrow> string" where
  "sequence_key p t ns = base_key p t ns @ '':sequence''"

definition checkpoint_key :: "string \<Rightarrow> string \<Rightarrow> string \<Rightarrow> string \<Rightarrow> string" where
  "checkpoint_key p t ns c = base_key p t ns @ '':'' @ quote c"

definition writes_key :: "string \<Rightarrow> string \<Rightarrow> string \<Rightarrow> string \<Rightarrow> string" where
  "writes_key p t ns c = checkpoint_key p t ns c @ '':writes''"

definition blob_key :: "string \<Rightarrow> string \<Rightarrow> string \<Rightarrow> string \<Rightarrow> string \<Rightarrow> string" where
  "blob_key p t ns channel version = base_key p t ns @ '':blob:'' @ quote channel @ '':'' @ quote version"

lemma key_names:
  "threads_key p = named p [''threads'']"
  "namespaces_key p t = named p [quote t, ''namespaces'']"
  "index_key p t ns = named p [quote t, quote ns, ''index'']"
  "sequence_key p t ns = named p [quote t, quote ns, ''sequence'']"
  "checkpoint_key p t ns c = named p [quote t, quote ns, quote c]"
  "writes_key p t ns c = named p [quote t, quote ns, quote c, ''writes'']"
  "blob_key p t ns ch v = named p [quote t, quote ns, ''blob'', quote ch, quote v]"
  by (simp_all add: threads_key_def namespaces_key_def index_key_def sequence_key_def checkpoint_key_def writes_key_def
      blob_key_def base_key_def named_def)

definition colon_free :: "string \<Rightarrow> bool" where
  "colon_free s \<longleftrightarrow> CHR '':'' \<notin> set s"

lemma colon_free_parts [simp]: "colon_free (quote s)" "colon_free ''threads''" "colon_free ''namespaces''" "colon_free ''index''"
  "colon_free ''sequence''" "colon_free ''writes''" "colon_free ''blob''"
  by (simp_all add: colon_free_def)

lemma named_inject [simp]:
  assumes "list_all colon_free xs" "list_all colon_free ys" "xs \<noteq> []" "ys \<noteq> []"
  shows "named p xs = named p ys \<longleftrightarrow> xs = ys"
proof
  assume "named p xs = named p ys"
  then have "split_on (CHR '':'') (join '':'' xs) = split_on (CHR '':'') (join '':'' ys)" by (simp add: named_def)
  then show "xs = ys" using assms by (simp add: split_on_join list_all_iff colon_free_def)
qed simp

lemma quote_words: "quote c = ''index'' \<longleftrightarrow> c = ''index''" "quote c = ''sequence'' \<longleftrightarrow> c = ''sequence''"
  "''index'' = quote c \<longleftrightarrow> c = ''index''" "''sequence'' = quote c \<longleftrightarrow> c = ''sequence''"
proof -
  have "quote ''index'' = ''index''" "quote ''sequence'' = ''sequence''" by (simp_all add: quote_def quote_char_def unreserved_def)
  then show "quote c = ''index'' \<longleftrightarrow> c = ''index''" "quote c = ''sequence'' \<longleftrightarrow> c = ''sequence''"
    "''index'' = quote c \<longleftrightarrow> c = ''index''" "''sequence'' = quote c \<longleftrightarrow> c = ''sequence''"
    by (metis quote_inject)+
qed

lemmas key_simps = key_names quote_words

subsection \<open>Redis commands on named keys\<close>

type_synonym cstore = "string \<Rightarrow> rvalue option"

definition kind_at :: "cstore \<Rightarrow> string \<Rightarrow> rkind \<Rightarrow> bool" where
  "kind_at db k kd = (case db k of None \<Rightarrow> True | Some v \<Rightarrow> kind_of v = kd)"

definition text_at :: "cstore \<Rightarrow> string \<Rightarrow> string option" where
  "text_at db k = (case db k of Some (RStr s) \<Rightarrow> Some s | _ \<Rightarrow> None)"

definition fields_at :: "cstore \<Rightarrow> string \<Rightarrow> (string \<times> string) list" where
  "fields_at db k = (case db k of Some (RHash h) \<Rightarrow> h | _ \<Rightarrow> [])"

definition members_at :: "cstore \<Rightarrow> string \<Rightarrow> string list" where
  "members_at db k = (case db k of Some (RSet s) \<Rightarrow> s | _ \<Rightarrow> [])"

definition scores_at :: "cstore \<Rightarrow> string \<Rightarrow> (string \<times> int) list" where
  "scores_at db k = (case db k of Some (RZset z) \<Rightarrow> z | _ \<Rightarrow> [])"

lemmas at_defs = kind_at_def text_at_def fields_at_def members_at_def scores_at_def

definition c_incr :: "cstore \<Rightarrow> string \<Rightarrow> (int \<times> cstore) option" where
  "c_incr db k =
     (if \<not> kind_at db k KStr then None else
      case (case text_at db k of None \<Rightarrow> Some 0 | Some s \<Rightarrow> parse_int s) of
        None \<Rightarrow> None
      | Some n \<Rightarrow> Some (n + 1, db(k \<mapsto> RStr (show_int (n + 1)))))"

definition c_get :: "cstore \<Rightarrow> string \<Rightarrow> string option option" where
  "c_get db k = (if kind_at db k KStr then Some (text_at db k) else None)"

definition c_set :: "cstore \<Rightarrow> string \<Rightarrow> string \<Rightarrow> cstore" where
  "c_set db k v = db(k \<mapsto> RStr v)"

definition c_hset :: "cstore \<Rightarrow> string \<Rightarrow> (string \<times> string) list \<Rightarrow> cstore option" where
  "c_hset db k kvs = (if kind_at db k KHash then Some (db(k \<mapsto> RHash (fold (\<lambda>(f, v). AList.update f v) kvs (fields_at db k)))) else None)"

definition c_hsetnx :: "cstore \<Rightarrow> string \<Rightarrow> string \<Rightarrow> string \<Rightarrow> cstore option" where
  "c_hsetnx db k f v =
     (if \<not> kind_at db k KHash then None
      else if map_of (fields_at db k) f \<noteq> None then Some db
      else Some (db(k \<mapsto> RHash (AList.update f v (fields_at db k)))))"

definition c_hgetall :: "cstore \<Rightarrow> string \<Rightarrow> (string \<times> string) list option" where
  "c_hgetall db k = (if kind_at db k KHash then Some (fields_at db k) else None)"

definition c_smembers :: "cstore \<Rightarrow> string \<Rightarrow> string list option" where
  "c_smembers db k = (if kind_at db k KSet then Some (members_at db k) else None)"

definition c_sadd :: "cstore \<Rightarrow> string \<Rightarrow> string \<Rightarrow> cstore option" where
  "c_sadd db k x = (if kind_at db k KSet then Some (db(k \<mapsto> RSet (List.insert x (members_at db k)))) else None)"

definition c_srem :: "cstore \<Rightarrow> string \<Rightarrow> string \<Rightarrow> cstore option" where
  "c_srem db k x =
     (if \<not> kind_at db k KSet then None
      else let s = removeAll x (members_at db k) in Some (db(k := if s = [] then None else Some (RSet s))))"

definition c_zadd :: "cstore \<Rightarrow> string \<Rightarrow> string \<Rightarrow> int \<Rightarrow> cstore option" where
  "c_zadd db k x score = (if kind_at db k KZset then Some (db(k \<mapsto> RZset (AList.update x score (scores_at db k)))) else None)"

definition c_zrem :: "cstore \<Rightarrow> string \<Rightarrow> string \<Rightarrow> cstore option" where
  "c_zrem db k x =
     (if \<not> kind_at db k KZset then None
      else let z = AList.delete x (scores_at db k) in Some (db(k := if z = [] then None else Some (RZset z))))"

text \<open>\<open>ZREVRANGE k 0 -1\<close>: by falling score, members of the same score in falling order.\<close>

definition by_rank :: "(string \<times> int) list \<Rightarrow> string list" where
  "by_rank z = rev (map fst (sort_key (\<lambda>(x, n). (n, x)) z))"

definition c_zrevrange :: "cstore \<Rightarrow> string \<Rightarrow> string list option" where
  "c_zrevrange db k = (if kind_at db k KZset then Some (by_rank (scores_at db k)) else None)"

lemmas c_defs = c_incr_def c_get_def c_set_def c_hset_def c_hsetnx_def c_hgetall_def c_smembers_def c_sadd_def c_srem_def
  c_zadd_def c_zrem_def c_zrevrange_def

subsection \<open>What LangGraph provides\<close>

record langgraph =
  dumps_typed :: "json \<Rightarrow> string \<times> string"
  loads_typed :: "string \<times> string \<Rightarrow> json option"
  get_checkpoint_id :: "dict \<Rightarrow> string option"
  get_checkpoint_metadata :: "dict \<Rightarrow> json \<Rightarrow> json"
  WRITES_IDX_MAP :: "string \<Rightarrow> int option"

definition json_text :: "dict \<Rightarrow> string" where
  "json_text d = print_json py_escape (JObj d)"

definition encode :: "langgraph \<Rightarrow> json \<Rightarrow> string" where
  "encode lg v = (let (kd, bytes) = dumps_typed lg v in json_text [(''kind'', JStr kd), (''data'', JStr (b64encode bytes))])"

definition decode :: "langgraph \<Rightarrow> string \<Rightarrow> json option" where
  "decode lg text =
     (case loads text of
        Some (JObj raw) \<Rightarrow>
          (case (dget raw ''kind'', dget raw ''data'') of
             (Some (JStr kd), Some (JStr s)) \<Rightarrow> do { bytes \<leftarrow> b64decode s; loads_typed lg (kd, bytes) }
           | _ \<Rightarrow> None)
      | _ \<Rightarrow> None)"

definition EMPTY_BLOB :: string where
  "EMPTY_BLOB = json_text [(''kind'', JStr ''empty''), (''data'', JStr [])]"

subsection \<open>The operations\<close>

definition config_parts :: "langgraph \<Rightarrow> dict \<Rightarrow> (string \<times> string \<times> string option) option" where
  "config_parts lg config =
     (case dget config ''configurable'' of
        Some (JObj d) \<Rightarrow>
          do { t \<leftarrow> req_str d ''thread_id'';
               ns \<leftarrow> opt_str d ''checkpoint_ns'' [];
               Some (t, ns, get_checkpoint_id lg config) }
      | _ \<Rightarrow> None)"

definition result_config :: "string \<Rightarrow> string \<Rightarrow> string \<Rightarrow> dict" where
  "result_config t ns c =
     [(''configurable'', JObj [(''thread_id'', JStr t), (''checkpoint_ns'', JStr ns), (''checkpoint_id'', JStr c)])]"

text \<open>The blobs of a checkpoint: one per channel of \<open>new_versions\<close>, the empty one for a channel without a value.\<close>

fun put_blobs :: "langgraph \<Rightarrow> string \<Rightarrow> string \<Rightarrow> string \<Rightarrow> dict \<Rightarrow> dict \<Rightarrow> cstore \<Rightarrow> cstore option" where
  "put_blobs lg p t ns values [] db = Some db"
| "put_blobs lg p t ns values ((channel, version) # vs) db =
     do { v \<leftarrow> py_str version;
          let payload = (case dget values channel of Some x \<Rightarrow> encode lg x | None \<Rightarrow> EMPTY_BLOB) in
          put_blobs lg p t ns values vs (c_set db (blob_key p t ns channel v) payload) }"

definition values_of :: "dict \<Rightarrow> dict option" where
  "values_of checkpoint = (case dget checkpoint ''channel_values'' of None \<Rightarrow> Some [] | Some (JObj d) \<Rightarrow> Some d | Some _ \<Rightarrow> None)"

text \<open>The transaction of \<open>put\<close>, with the number the sequence gave.\<close>

definition put_commit ::
  "langgraph \<Rightarrow> string \<Rightarrow> dict \<Rightarrow> dict \<Rightarrow> json \<Rightarrow> dict \<Rightarrow> int \<Rightarrow> cstore \<Rightarrow> (dict \<times> cstore) option" where
  "put_commit lg p config checkpoint metadata new_versions n db =
     do { (t, ns, parent) \<leftarrow> config_parts lg config;
          c \<leftarrow> req_str checkpoint ''id'';
          values \<leftarrow> values_of checkpoint;
          db1 \<leftarrow> put_blobs lg p t ns values new_versions db;
          db2 \<leftarrow> c_hset db1 (checkpoint_key p t ns c)
            [(''checkpoint'', encode lg (JObj (AList.delete ''channel_values'' checkpoint))),
             (''metadata'', encode lg (get_checkpoint_metadata lg config metadata)),
             (''parent'', or_else parent [])];
          db3 \<leftarrow> c_zadd db2 (index_key p t ns) c n;
          db4 \<leftarrow> c_sadd db3 (threads_key p) t;
          db5 \<leftarrow> c_sadd db4 (namespaces_key p t) ns;
          Some (result_config t ns c, db5) }"

definition put_checkpoint ::
  "langgraph \<Rightarrow> string \<Rightarrow> cstore \<Rightarrow> dict \<Rightarrow> dict \<Rightarrow> json \<Rightarrow> dict \<Rightarrow> (dict \<times> cstore) option" where
  "put_checkpoint lg p db config checkpoint metadata new_versions =
     do { (t, ns, parent) \<leftarrow> config_parts lg config;
          (n, db1) \<leftarrow> c_incr db (sequence_key p t ns);
          put_commit lg p config checkpoint metadata new_versions n db1 }"

record checkpoint_tuple =
  ct_config :: dict
  ct_checkpoint :: dict
  ct_metadata :: json
  ct_parent_config :: "dict option"
  ct_pending_writes :: "(string \<times> string \<times> json) list"

text \<open>The values of the channels of a stored checkpoint, read from their blobs.\<close>

fun load_values :: "langgraph \<Rightarrow> string \<Rightarrow> cstore \<Rightarrow> string \<Rightarrow> string \<Rightarrow> dict \<Rightarrow> dict option" where
  "load_values lg p db t ns [] = Some []"
| "load_values lg p db t ns ((channel, version) # vs) =
     do { v \<leftarrow> py_str version;
          payload \<leftarrow> c_get db (blob_key p t ns channel v);
          if or_else payload [] = [] \<or> or_else payload [] = EMPTY_BLOB then load_values lg p db t ns vs
          else do { x \<leftarrow> decode lg (or_else payload []);
                    d \<leftarrow> load_values lg p db t ns vs;
                    Some ((channel, x) # d) } }"

definition versions_of :: "dict \<Rightarrow> dict option" where
  "versions_of checkpoint = (case dget checkpoint ''channel_versions'' of None \<Rightarrow> Some [] | Some (JObj d) \<Rightarrow> Some d | Some _ \<Rightarrow> None)"

text \<open>A stored write: the key it is sorted by, and the entry of the list of pending writes.\<close>

definition decode_write :: "langgraph \<Rightarrow> string \<Rightarrow> ((string \<times> string \<times> int) \<times> string \<times> string \<times> json) option" where
  "decode_write lg text =
     (case loads text of
        Some (JObj item) \<Rightarrow>
          (case (dget item ''task_path'', dget item ''task_id'', dget item ''index'', dget item ''channel'', dget item ''value'') of
             (Some (JStr path), Some (JStr tid), Some (JInt i), Some (JStr channel), Some (JStr v)) \<Rightarrow>
               do { x \<leftarrow> decode lg v; Some ((path, tid, i), tid, channel, x) }
           | _ \<Rightarrow> None)
      | _ \<Rightarrow> None)"

definition decode_writes :: "langgraph \<Rightarrow> string list \<Rightarrow> (string \<times> string \<times> json) list option" where
  "decode_writes lg vs = map_option (\<lambda>xs. map snd (sort_key fst xs)) (those_map (decode_write lg) vs)"

definition pending_writes :: "langgraph \<Rightarrow> string \<Rightarrow> cstore \<Rightarrow> string \<Rightarrow> string \<Rightarrow> string \<Rightarrow> (string \<times> string \<times> json) list option" where
  "pending_writes lg p db t ns c = do { h \<leftarrow> c_hgetall db (writes_key p t ns c); decode_writes lg (map snd h) }"

definition tuple_from_parts ::
  "string \<Rightarrow> string \<Rightarrow> string \<Rightarrow> dict \<Rightarrow> dict \<Rightarrow> json \<Rightarrow> string \<Rightarrow> (string \<times> string \<times> json) list \<Rightarrow> checkpoint_tuple" where
  "tuple_from_parts t ns c checkpoint values metadata parent pw =
     \<lparr>ct_config = result_config t ns c, ct_checkpoint = AList.update ''channel_values'' (JObj values) checkpoint, ct_metadata = metadata,
      ct_parent_config = (if parent = [] then None else Some (result_config t ns parent)), ct_pending_writes = pw\<rparr>"

fun dict_value :: "json \<Rightarrow> dict option" where
  "dict_value (JObj d) = Some d"
| "dict_value _ = None"

definition build_tuple ::
  "langgraph \<Rightarrow> string \<Rightarrow> cstore \<Rightarrow> string \<Rightarrow> string \<Rightarrow> string \<Rightarrow> (string \<times> string) list \<Rightarrow> checkpoint_tuple option" where
  "build_tuple lg p db t ns c value =
     do { raw \<leftarrow> map_of value ''checkpoint'';
          decoded \<leftarrow> decode lg raw;
          checkpoint \<leftarrow> dict_value decoded;
          versions \<leftarrow> versions_of checkpoint;
          values \<leftarrow> load_values lg p db t ns versions;
          raw_metadata \<leftarrow> map_of value ''metadata'';
          metadata \<leftarrow> decode lg raw_metadata;
          pw \<leftarrow> pending_writes lg p db t ns c;
          Some (tuple_from_parts t ns c checkpoint values metadata (or_else (map_of value ''parent'') []) pw) }"

definition latest_id :: "string \<Rightarrow> cstore \<Rightarrow> string \<Rightarrow> string \<Rightarrow> string option option" where
  "latest_id p db t ns = map_option (\<lambda>ids. case ids of [] \<Rightarrow> None | c # _ \<Rightarrow> Some c) (c_zrevrange db (index_key p t ns))"

definition get_tuple :: "langgraph \<Rightarrow> string \<Rightarrow> cstore \<Rightarrow> dict \<Rightarrow> checkpoint_tuple option option" where
  "get_tuple lg p db config =
     do { (t, ns, given) \<leftarrow> config_parts lg config;
          found \<leftarrow> (if or_else given [] \<noteq> [] then Some given else latest_id p db t ns);
          if or_else found [] = [] then Some None else
          do { value \<leftarrow> c_hgetall db (checkpoint_key p t ns (or_else found []));
               if value = [] then Some None
               else map_option Some (build_tuple lg p db t ns (or_else found []) value) } }"

definition write_payload :: "langgraph \<Rightarrow> string \<Rightarrow> string \<Rightarrow> json \<Rightarrow> string \<Rightarrow> int \<Rightarrow> string" where
  "write_payload lg tid channel v path i =
     json_text [(''task_id'', JStr tid), (''channel'', JStr channel), (''value'', JStr (encode lg v)), (''task_path'', JStr path),
       (''index'', JInt i)]"

fun write_loop :: "langgraph \<Rightarrow> string \<Rightarrow> string \<Rightarrow> string \<Rightarrow> nat \<Rightarrow> (string \<times> json) list \<Rightarrow> cstore \<Rightarrow> cstore option" where
  "write_loop lg k tid path i [] db = Some db"
| "write_loop lg k tid path i ((channel, v) # pw) db =
     (let j = or_else (WRITES_IDX_MAP lg channel) (int i);
          f = quote tid @ '':'' @ show_int j;
          payload = write_payload lg tid channel v path j
      in do { db1 \<leftarrow> (if j < 0 then c_hset db k [(f, payload)] else c_hsetnx db k f payload);
              write_loop lg k tid path (Suc i) pw db1 })"

definition put_writes :: "langgraph \<Rightarrow> string \<Rightarrow> cstore \<Rightarrow> dict \<Rightarrow> (string \<times> json) list \<Rightarrow> string \<Rightarrow> string \<Rightarrow> cstore option" where
  "put_writes lg p db config pw tid path =
     do { (t, ns, given) \<leftarrow> config_parts lg config;
          if or_else given [] = [] then None
          else write_loop lg (writes_key p t ns (or_else given [])) tid path 0 pw db }"

text \<open>
  Listing. The methods are generators; every caller in the class reads them to the end before it
  writes, so the list is taken from one state of the store. The members of a set come in the order
  of the model's list.
\<close>

definition keeps_id :: "string option \<Rightarrow> string option \<Rightarrow> string \<Rightarrow> bool" where
  "keeps_id configured before c \<longleftrightarrow>
     (or_else configured [] = [] \<or> c = or_else configured []) \<and> (or_else before [] = [] \<or> c < or_else before [])"

definition ids_in :: "string \<Rightarrow> cstore \<Rightarrow> string option \<Rightarrow> string option \<Rightarrow> string \<times> string \<Rightarrow> (string \<times> string \<times> string) list option" where
  "ids_in p db configured before = (\<lambda>(t, ns).
     do { ids \<leftarrow> c_zrevrange db (index_key p t ns); Some (map (\<lambda>c. (t, ns, c)) (filter (keeps_id configured before) ids)) })"

definition list_ids :: "langgraph \<Rightarrow> string \<Rightarrow> cstore \<Rightarrow> dict \<Rightarrow> dict \<Rightarrow> (string \<times> string \<times> string) list option" where
  "list_ids lg p db config before =
     (let before_id = (if before = [] then None else get_checkpoint_id lg before) in
      if config \<noteq> [] then
        do { (t, ns, configured) \<leftarrow> config_parts lg config; ids_in p db configured before_id (t, ns) }
      else
        do { threads \<leftarrow> c_smembers db (threads_key p);
             spaces \<leftarrow> those_map (\<lambda>t. map_option (map (Pair t)) (c_smembers db (namespaces_key p t))) threads;
             ids \<leftarrow> those_map (ids_in p db None before_id) (concat spaces);
             Some (concat ids) })"

definition matches :: "dict \<Rightarrow> json \<Rightarrow> bool option" where
  "matches wanted metadata =
     (if wanted = [] then Some True else
      case metadata of
        JObj d \<Rightarrow> Some (list_all (\<lambda>(k, v). or_else (dget d k) JNull = v) wanted)
      | _ \<Rightarrow> None)"

fun list_loop ::
  "langgraph \<Rightarrow> string \<Rightarrow> cstore \<Rightarrow> dict \<Rightarrow> int option \<Rightarrow> (string \<times> string \<times> string) list \<Rightarrow> checkpoint_tuple list option" where
  "list_loop lg p db wanted limit [] = Some []"
| "list_loop lg p db wanted limit ((t, ns, c) # ids) =
     do { item \<leftarrow> get_tuple lg p db (result_config t ns c);
          case item of
            None \<Rightarrow> list_loop lg p db wanted limit ids
          | Some it \<Rightarrow>
              do { ok \<leftarrow> matches wanted (ct_metadata it);
                   if \<not> ok then list_loop lg p db wanted limit ids else
                   case limit of
                     None \<Rightarrow> map_option (Cons it) (list_loop lg p db wanted None ids)
                   | Some n \<Rightarrow>
                       if n - 1 \<le> 0 then Some [it] else map_option (Cons it) (list_loop lg p db wanted (Some (n - 1)) ids) } }"

definition list_checkpoints ::
  "langgraph \<Rightarrow> string \<Rightarrow> cstore \<Rightarrow> dict \<Rightarrow> dict \<Rightarrow> dict \<Rightarrow> int option \<Rightarrow> checkpoint_tuple list option" where
  "list_checkpoints lg p db config wanted before limit =
     do { ids \<leftarrow> list_ids lg p db config before; list_loop lg p db wanted limit ids }"

text \<open>\<open>SCAN\<close> with the pattern of a thread; the quoted id has no pattern characters, and neither has the prefix.\<close>

definition delete_thread :: "string \<Rightarrow> cstore \<Rightarrow> string \<Rightarrow> cstore option" where
  "delete_thread p db t =
     c_srem (\<lambda>k. if startswith k (p @ '':'' @ quote t @ '':'') then None else db k) (threads_key p) t"

definition delete_checkpoint :: "langgraph \<Rightarrow> string \<Rightarrow> cstore \<Rightarrow> dict \<Rightarrow> cstore option" where
  "delete_checkpoint lg p db config =
     do { (t, ns, given) \<leftarrow> config_parts lg config;
          if or_else given [] = [] then Some db
          else c_zrem (db(checkpoint_key p t ns (or_else given []) := None, writes_key p t ns (or_else given []) := None))
                 (index_key p t ns) (or_else given []) }"

fun delete_loop :: "langgraph \<Rightarrow> string \<Rightarrow> string list \<Rightarrow> checkpoint_tuple list \<Rightarrow> cstore \<Rightarrow> cstore option" where
  "delete_loop lg p runs [] db = Some db"
| "delete_loop lg p runs (it # items) db =
     (case ct_metadata it of
        JObj d \<Rightarrow>
          do { run \<leftarrow> opt_str d ''run_id'' [];
               db1 \<leftarrow> (if run \<in> set runs then delete_checkpoint lg p db (ct_config it) else Some db);
               delete_loop lg p runs items db1 }
      | _ \<Rightarrow> None)"

definition delete_for_runs :: "langgraph \<Rightarrow> string \<Rightarrow> cstore \<Rightarrow> string list \<Rightarrow> cstore option" where
  "delete_for_runs lg p db runs =
     do { items \<leftarrow> list_checkpoints lg p db [] [] [] None; delete_loop lg p runs items db }"

text \<open>The configuration under which a copied checkpoint is put; its parent id is the checkpoint id there.\<close>

definition copy_config :: "langgraph \<Rightarrow> string \<Rightarrow> checkpoint_tuple \<Rightarrow> dict option" where
  "copy_config lg target it =
     (case dget (ct_config it) ''configurable'' of
        Some (JObj d) \<Rightarrow>
          do { ns \<leftarrow> dget d ''checkpoint_ns'';
               let parent = or_else (case ct_parent_config it of None \<Rightarrow> None | Some c \<Rightarrow> get_checkpoint_id lg c) [] in
               Some [(''configurable'', JObj ([(''thread_id'', JStr target), (''checkpoint_ns'', ns)] @
                        (if parent = [] then [] else [(''checkpoint_id'', JStr parent)])))] }
      | _ \<Rightarrow> None)"

definition copy_item :: "langgraph \<Rightarrow> string \<Rightarrow> string \<Rightarrow> checkpoint_tuple \<Rightarrow> cstore \<Rightarrow> cstore option" where
  "copy_item lg p target it db =
     do { config \<leftarrow> copy_config lg target it;
          versions \<leftarrow> (case dget (ct_checkpoint it) ''channel_versions'' of Some (JObj d) \<Rightarrow> Some d | _ \<Rightarrow> None);
          (saved, db1) \<leftarrow> put_checkpoint lg p db config (ct_checkpoint it) (ct_metadata it) versions;
          if ct_pending_writes it = [] then Some db1
          else put_writes lg p db1 saved (map snd (ct_pending_writes it)) ''copied'' [] }"

fun copy_loop :: "langgraph \<Rightarrow> string \<Rightarrow> string \<Rightarrow> checkpoint_tuple list \<Rightarrow> cstore \<Rightarrow> cstore option" where
  "copy_loop lg p target [] db = Some db"
| "copy_loop lg p target (it # items) db = do { db1 \<leftarrow> copy_item lg p target it db; copy_loop lg p target items db1 }"

definition copy_thread :: "langgraph \<Rightarrow> string \<Rightarrow> cstore \<Rightarrow> string \<Rightarrow> string \<Rightarrow> cstore option" where
  "copy_thread lg p db source_id target =
     do { items \<leftarrow> list_checkpoints lg p db [(''configurable'', JObj [(''thread_id'', JStr source_id)])] [] [] None;
          copy_loop lg p target (rev items) db }"

fun delete_threads :: "string \<Rightarrow> string list \<Rightarrow> cstore \<Rightarrow> cstore option" where
  "delete_threads p [] db = Some db"
| "delete_threads p (t # ts) db = do { db1 \<leftarrow> delete_thread p db t; delete_threads p ts db1 }"

definition prune :: "string \<Rightarrow> cstore \<Rightarrow> string list \<Rightarrow> string \<Rightarrow> cstore option" where
  "prune p db ts strategy =
     (if strategy = ''delete'' then delete_threads p ts db else if strategy \<noteq> ''keep_latest'' then None else Some db)"

text \<open>
  The asynchronous methods, translated from their own bodies. They share the loops over channels,
  writes and ids with the synchronous ones and call their asynchronous siblings; \<open>async_as_sync\<close>
  shows that both clients are sent the same commands.
\<close>

definition aput ::
  "langgraph \<Rightarrow> string \<Rightarrow> cstore \<Rightarrow> dict \<Rightarrow> dict \<Rightarrow> json \<Rightarrow> dict \<Rightarrow> (dict \<times> cstore) option" where
  "aput lg p db config checkpoint metadata new_versions =
     do { (t, ns, parent) \<leftarrow> config_parts lg config;
          (n, db0) \<leftarrow> c_incr db (sequence_key p t ns);
          c \<leftarrow> req_str checkpoint ''id'';
          values \<leftarrow> values_of checkpoint;
          db1 \<leftarrow> put_blobs lg p t ns values new_versions db0;
          db2 \<leftarrow> c_hset db1 (checkpoint_key p t ns c)
            [(''checkpoint'', encode lg (JObj (AList.delete ''channel_values'' checkpoint))),
             (''metadata'', encode lg (get_checkpoint_metadata lg config metadata)),
             (''parent'', or_else parent [])];
          db3 \<leftarrow> c_zadd db2 (index_key p t ns) c n;
          db4 \<leftarrow> c_sadd db3 (threads_key p) t;
          db5 \<leftarrow> c_sadd db4 (namespaces_key p t) ns;
          Some (result_config t ns c, db5) }"

definition latest_id_async :: "string \<Rightarrow> cstore \<Rightarrow> string \<Rightarrow> string \<Rightarrow> string option option" where
  "latest_id_async p db t ns =
     do { ids \<leftarrow> c_zrevrange db (index_key p t ns); Some (if ids = [] then None else Some (hd ids)) }"

definition writes_async :: "langgraph \<Rightarrow> string \<Rightarrow> cstore \<Rightarrow> string \<Rightarrow> string \<Rightarrow> string \<Rightarrow> (string \<times> string \<times> json) list option" where
  "writes_async lg p db t ns c = do { h \<leftarrow> c_hgetall db (writes_key p t ns c); decode_writes lg (map snd h) }"

definition build_tuple_async ::
  "langgraph \<Rightarrow> string \<Rightarrow> cstore \<Rightarrow> string \<Rightarrow> string \<Rightarrow> string \<Rightarrow> (string \<times> string) list \<Rightarrow> checkpoint_tuple option" where
  "build_tuple_async lg p db t ns c value =
     do { raw \<leftarrow> map_of value ''checkpoint'';
          decoded \<leftarrow> decode lg raw;
          checkpoint \<leftarrow> dict_value decoded;
          versions \<leftarrow> versions_of checkpoint;
          values \<leftarrow> load_values lg p db t ns versions;
          raw_metadata \<leftarrow> map_of value ''metadata'';
          metadata \<leftarrow> decode lg raw_metadata;
          pw \<leftarrow> writes_async lg p db t ns c;
          Some (tuple_from_parts t ns c checkpoint values metadata (or_else (map_of value ''parent'') []) pw) }"

definition aget_tuple :: "langgraph \<Rightarrow> string \<Rightarrow> cstore \<Rightarrow> dict \<Rightarrow> checkpoint_tuple option option" where
  "aget_tuple lg p db config =
     do { (t, ns, given) \<leftarrow> config_parts lg config;
          found \<leftarrow> (if or_else given [] \<noteq> [] then Some given else latest_id_async p db t ns);
          if or_else found [] = [] then Some None else
          do { value \<leftarrow> c_hgetall db (checkpoint_key p t ns (or_else found []));
               if value = [] then Some None
               else map_option Some (build_tuple_async lg p db t ns (or_else found []) value) } }"

definition aput_writes :: "langgraph \<Rightarrow> string \<Rightarrow> cstore \<Rightarrow> dict \<Rightarrow> (string \<times> json) list \<Rightarrow> string \<Rightarrow> string \<Rightarrow> cstore option" where
  "aput_writes lg p db config pw tid path =
     do { (t, ns, given) \<leftarrow> config_parts lg config;
          if or_else given [] = [] then None
          else write_loop lg (writes_key p t ns (or_else given [])) tid path 0 pw db }"

definition list_ids_async :: "langgraph \<Rightarrow> string \<Rightarrow> cstore \<Rightarrow> dict \<Rightarrow> dict \<Rightarrow> (string \<times> string \<times> string) list option" where
  "list_ids_async lg p db config before =
     (let before_id = (if before = [] then None else get_checkpoint_id lg before) in
      if config \<noteq> [] then
        do { (t, ns, configured) \<leftarrow> config_parts lg config; ids_in p db configured before_id (t, ns) }
      else
        do { threads \<leftarrow> c_smembers db (threads_key p);
             spaces \<leftarrow> those_map (\<lambda>t. map_option (map (Pair t)) (c_smembers db (namespaces_key p t))) threads;
             ids \<leftarrow> those_map (ids_in p db None before_id) (concat spaces);
             Some (concat ids) })"

fun alist_loop ::
  "langgraph \<Rightarrow> string \<Rightarrow> cstore \<Rightarrow> dict \<Rightarrow> int option \<Rightarrow> (string \<times> string \<times> string) list \<Rightarrow> checkpoint_tuple list option" where
  "alist_loop lg p db wanted limit [] = Some []"
| "alist_loop lg p db wanted limit ((t, ns, c) # ids) =
     do { item \<leftarrow> aget_tuple lg p db (result_config t ns c);
          case item of
            None \<Rightarrow> alist_loop lg p db wanted limit ids
          | Some it \<Rightarrow>
              do { ok \<leftarrow> matches wanted (ct_metadata it);
                   if \<not> ok then alist_loop lg p db wanted limit ids else
                   case limit of
                     None \<Rightarrow> map_option (Cons it) (alist_loop lg p db wanted None ids)
                   | Some n \<Rightarrow>
                       if n - 1 \<le> 0 then Some [it] else map_option (Cons it) (alist_loop lg p db wanted (Some (n - 1)) ids) } }"

definition alist :: "langgraph \<Rightarrow> string \<Rightarrow> cstore \<Rightarrow> dict \<Rightarrow> dict \<Rightarrow> dict \<Rightarrow> int option \<Rightarrow> checkpoint_tuple list option" where
  "alist lg p db config wanted before limit =
     do { ids \<leftarrow> list_ids_async lg p db config before; alist_loop lg p db wanted limit ids }"

definition adelete_thread :: "string \<Rightarrow> cstore \<Rightarrow> string \<Rightarrow> cstore option" where
  "adelete_thread p db t =
     c_srem (\<lambda>k. if startswith k (p @ '':'' @ quote t @ '':'') then None else db k) (threads_key p) t"

definition delete_checkpoint_async :: "langgraph \<Rightarrow> string \<Rightarrow> cstore \<Rightarrow> dict \<Rightarrow> cstore option" where
  "delete_checkpoint_async lg p db config =
     do { (t, ns, given) \<leftarrow> config_parts lg config;
          if or_else given [] = [] then Some db
          else c_zrem (db(checkpoint_key p t ns (or_else given []) := None, writes_key p t ns (or_else given []) := None))
                 (index_key p t ns) (or_else given []) }"

fun adelete_loop :: "langgraph \<Rightarrow> string \<Rightarrow> string list \<Rightarrow> checkpoint_tuple list \<Rightarrow> cstore \<Rightarrow> cstore option" where
  "adelete_loop lg p runs [] db = Some db"
| "adelete_loop lg p runs (it # items) db =
     (case ct_metadata it of
        JObj d \<Rightarrow>
          do { run \<leftarrow> opt_str d ''run_id'' [];
               db1 \<leftarrow> (if run \<in> set runs then delete_checkpoint_async lg p db (ct_config it) else Some db);
               adelete_loop lg p runs items db1 }
      | _ \<Rightarrow> None)"

definition adelete_for_runs :: "langgraph \<Rightarrow> string \<Rightarrow> cstore \<Rightarrow> string list \<Rightarrow> cstore option" where
  "adelete_for_runs lg p db runs = do { items \<leftarrow> alist lg p db [] [] [] None; adelete_loop lg p runs items db }"

fun acopy_loop :: "langgraph \<Rightarrow> string \<Rightarrow> string \<Rightarrow> checkpoint_tuple list \<Rightarrow> cstore \<Rightarrow> cstore option" where
  "acopy_loop lg p target [] db = Some db"
| "acopy_loop lg p target (it # items) db =
     do { config \<leftarrow> copy_config lg target it;
          versions \<leftarrow> (case dget (ct_checkpoint it) ''channel_versions'' of Some (JObj d) \<Rightarrow> Some d | _ \<Rightarrow> None);
          (saved, db1) \<leftarrow> aput lg p db config (ct_checkpoint it) (ct_metadata it) versions;
          db2 \<leftarrow> (if ct_pending_writes it = [] then Some db1
                  else aput_writes lg p db1 saved (map snd (ct_pending_writes it)) ''copied'' []);
          acopy_loop lg p target items db2 }"

definition acopy_thread :: "langgraph \<Rightarrow> string \<Rightarrow> cstore \<Rightarrow> string \<Rightarrow> string \<Rightarrow> cstore option" where
  "acopy_thread lg p db source_id target =
     do { items \<leftarrow> alist lg p db [(''configurable'', JObj [(''thread_id'', JStr source_id)])] [] [] None;
          acopy_loop lg p target (rev items) db }"

fun adelete_threads :: "string \<Rightarrow> string list \<Rightarrow> cstore \<Rightarrow> cstore option" where
  "adelete_threads p [] db = Some db"
| "adelete_threads p (t # ts) db = do { db1 \<leftarrow> adelete_thread p db t; adelete_threads p ts db1 }"

definition aprune :: "string \<Rightarrow> cstore \<Rightarrow> string list \<Rightarrow> string \<Rightarrow> cstore option" where
  "aprune p db ts strategy =
     (if strategy = ''delete'' then adelete_threads p ts db else if strategy \<noteq> ''keep_latest'' then None else Some db)"

lemma aput_as_put: "aput = put_checkpoint"
  by (intro ext) (auto simp: aput_def put_checkpoint_def put_commit_def split: option.splits Option.bind_splits)

lemma aget_tuple_as_get: "aget_tuple = get_tuple"
proof -
  have "latest_id_async = latest_id"
    by (intro ext) (simp add: latest_id_async_def latest_id_def bind_eq_Some_conv hd_def map_option_case split: Option.bind_splits list.splits)
  moreover have "build_tuple_async = build_tuple"
    by (intro ext) (simp add: build_tuple_async_def build_tuple_def writes_async_def pending_writes_def)
  ultimately show ?thesis by (intro ext) (simp add: aget_tuple_def get_tuple_def cong: if_cong)
qed

lemma aput_writes_as_put: "aput_writes = put_writes"
  by (intro ext) (simp add: aput_writes_def put_writes_def)

lemma alist_as_list: "alist = list_checkpoints"
proof -
  have "alist_loop lg p db wanted limit ids = list_loop lg p db wanted limit ids" for lg p db wanted limit ids
    by (induction lg p db wanted limit ids rule: list_loop.induct)
      (auto simp: aget_tuple_as_get split: option.splits Option.bind_splits)
  moreover have "list_ids_async = list_ids" by (intro ext) (simp add: list_ids_async_def list_ids_def)
  ultimately show ?thesis by (intro ext) (simp add: alist_def list_checkpoints_def)
qed

lemma adelete_for_runs_as_delete: "adelete_for_runs = delete_for_runs"
proof -
  have "delete_checkpoint_async = delete_checkpoint" by (intro ext) (simp add: delete_checkpoint_async_def delete_checkpoint_def)
  then have "adelete_loop lg p runs items db = delete_loop lg p runs items db" for lg p runs items db
    by (induction lg p runs items db rule: delete_loop.induct) (auto split: json.splits Option.bind_splits)
  then show ?thesis by (intro ext) (simp add: adelete_for_runs_def delete_for_runs_def alist_as_list)
qed

lemma acopy_thread_as_copy: "acopy_thread = copy_thread"
proof -
  have "acopy_loop lg p target items db = copy_loop lg p target items db" for lg p target items db
    by (induction lg p target items db rule: copy_loop.induct)
      (auto simp: copy_item_def aput_as_put aput_writes_as_put split: option.splits Option.bind_splits)
  then show ?thesis by (intro ext) (simp add: acopy_thread_def copy_thread_def alist_as_list)
qed

lemma aprune_as_prune: "aprune = prune"
proof -
  have "adelete_threads p ts db = delete_threads p ts db" for p ts db
    by (induction p ts db rule: delete_threads.induct) (auto simp: adelete_thread_def delete_thread_def split: Option.bind_splits)
  then show ?thesis by (intro ext) (simp add: aprune_def prune_def)
qed

text \<open>The two interfaces of the saver are the same, so what is shown below of one holds of the other.\<close>

theorem async_as_sync:
  "aput = put_checkpoint" "aget_tuple = get_tuple" "aput_writes = put_writes" "alist = list_checkpoints"
  "adelete_thread = delete_thread" "adelete_for_runs = delete_for_runs" "acopy_thread = copy_thread" "aprune = prune"
  by (simp_all add: fun_eq_iff aput_as_put aget_tuple_as_get aput_writes_as_put alist_as_list adelete_thread_def delete_thread_def
      adelete_for_runs_as_delete acopy_thread_as_copy aprune_as_prune)

subsection \<open>Encoding\<close>

text \<open>What the class relies on of LangGraph.\<close>

definition langgraph_ok :: "langgraph \<Rightarrow> bool" where
  "langgraph_ok lg \<longleftrightarrow>
     (\<forall>v. loads_typed lg (dumps_typed lg v) = Some v \<and> fst (dumps_typed lg v) \<noteq> ''empty'') \<and>
     (\<forall>config d. dget config ''configurable'' = Some (JObj d) \<longrightarrow>
        (dget d ''checkpoint_id'' = None \<longrightarrow> get_checkpoint_id lg config = None) \<and>
        (\<forall>c. dget d ''checkpoint_id'' = Some (JStr c) \<longrightarrow> get_checkpoint_id lg config = Some c))"

lemma langgraph_okD:
  assumes "langgraph_ok lg"
  shows "loads_typed lg (dumps_typed lg v) = Some v" "fst (dumps_typed lg v) \<noteq> ''empty''"
    "dget config ''configurable'' = Some (JObj d) \<Longrightarrow> dget d ''checkpoint_id'' = None \<Longrightarrow> get_checkpoint_id lg config = None"
    "dget config ''configurable'' = Some (JObj d) \<Longrightarrow> dget d ''checkpoint_id'' = Some (JStr c) \<Longrightarrow> get_checkpoint_id lg config = Some c"
  using assms by (auto simp: langgraph_ok_def)

lemma loads_json_text: "wf_json (JObj d) \<Longrightarrow> loads (json_text d) = Some (JObj d)"
  unfolding json_text_def by (rule py_text.loads_print)

lemma decode_encode: "langgraph_ok lg \<Longrightarrow> decode lg (encode lg v) = Some v"
  using langgraph_okD(1) [of lg v] by (cases "dumps_typed lg v") (simp add: decode_def encode_def loads_json_text dget_def)

lemma loads_EMPTY_BLOB: "loads EMPTY_BLOB = Some (JObj [(''kind'', JStr ''empty''), (''data'', JStr [])])"
  by (simp add: EMPTY_BLOB_def loads_json_text)

lemma encode_not_empty: "langgraph_ok lg \<Longrightarrow> encode lg v \<noteq> EMPTY_BLOB" "encode lg v \<noteq> []"
proof -
  assume ok: "langgraph_ok lg"
  show "encode lg v \<noteq> EMPTY_BLOB"
  proof
    assume "encode lg v = EMPTY_BLOB"
    then have "loads (encode lg v) = Some (JObj [(''kind'', JStr ''empty''), (''data'', JStr [])])" using loads_EMPTY_BLOB by simp
    with langgraph_okD(2) [OF ok, of v] show False by (cases "dumps_typed lg v") (simp add: encode_def loads_json_text)
  qed
next
  show "encode lg v \<noteq> []" by (simp add: encode_def json_text_def split: prod.splits)
qed

lemma decode_write_payload:
  "langgraph_ok lg \<Longrightarrow> decode_write lg (write_payload lg tid ch v path i) = Some ((path, tid, i), tid, ch, v)"
  by (simp add: decode_write_def write_payload_def loads_json_text decode_encode dget_def)

lemma config_parts_result: "langgraph_ok lg \<Longrightarrow> config_parts lg (result_config t ns c) = Some (t, ns, Some c)"
  by (simp add: config_parts_def langgraph_okD(4) [where d = "[(''thread_id'', JStr t), (''checkpoint_ns'', JStr ns), (''checkpoint_id'', JStr c)]"]
      result_config_def dget_def req_str_def opt_str_def)

subsection \<open>What a put writes\<close>

lemma put_blobs_elsewhere:
  "put_blobs lg p t ns vals nv db = Some db' \<Longrightarrow> (\<And>ch v. k \<noteq> blob_key p t ns ch v) \<Longrightarrow> db' k = db k"
  by (induction lg p t ns vals nv db rule: put_blobs.induct) (auto simp: bind_eq_Some_conv Let_def c_set_def)

text \<open>The blob a channel gets at a version.\<close>

definition new_blob :: "langgraph \<Rightarrow> dict \<Rightarrow> dict \<Rightarrow> string \<Rightarrow> string \<Rightarrow> string option" where
  "new_blob lg vals nv ch v =
     (case map_of nv ch of
        Some ver \<Rightarrow> if py_str ver = Some v then Some (case dget vals ch of Some x \<Rightarrow> encode lg x | None \<Rightarrow> EMPTY_BLOB) else None
      | None \<Rightarrow> None)"

lemma put_blobs_at:
  assumes "put_blobs lg p t ns vals nv db = Some db'" "distinct (map fst nv)"
  shows "db' (blob_key p t ns ch v) =
    (case new_blob lg vals nv ch v of Some s \<Rightarrow> Some (RStr s) | None \<Rightarrow> db (blob_key p t ns ch v))"
  using assms
proof (induction lg p t ns vals nv db rule: put_blobs.induct)
  case (1 lg p t ns vals db)
  then show ?case by (simp add: new_blob_def)
next
  case (2 lg p t ns vals channel version vs db)
  let ?payload = "case dget vals channel of Some x \<Rightarrow> encode lg x | None \<Rightarrow> EMPTY_BLOB"
  obtain w where w: "py_str version = Some w"
    "put_blobs lg p t ns vals vs (c_set db (blob_key p t ns channel w) ?payload) = Some db'"
    using "2.prems"(1) by (auto simp: bind_eq_Some_conv Let_def)
  have "map_of vs channel = None" using "2.prems"(2) by (simp add: map_of_eq_None_iff)
  moreover have "db' (blob_key p t ns ch v) = (case new_blob lg vals vs ch v of Some s \<Rightarrow> Some (RStr s)
      | None \<Rightarrow> c_set db (blob_key p t ns channel w) ?payload (blob_key p t ns ch v))"
    using "2.IH" [OF w(1) HOL.refl w(2)] "2.prems"(2) by simp
  ultimately show ?case using w(1) by (auto simp: new_blob_def c_set_def key_simps split: option.splits)
qed

definition seq_no :: "cstore \<Rightarrow> string \<Rightarrow> int" where
  "seq_no db k = (case text_at db k of None \<Rightarrow> 0 | Some s \<Rightarrow> or_else (parse_int s) 0)"

definition stored_fields :: "langgraph \<Rightarrow> dict \<Rightarrow> dict \<Rightarrow> json \<Rightarrow> string option \<Rightarrow> (string \<times> string) list" where
  "stored_fields lg config checkpoint metadata parent =
     [(''checkpoint'', encode lg (JObj (AList.delete ''channel_values'' checkpoint))),
      (''metadata'', encode lg (get_checkpoint_metadata lg config metadata)), (''parent'', or_else parent [])]"

lemma put_shape:
  assumes "put_checkpoint lg p db config checkpoint metadata nv = Some (saved, db')"
  obtains t ns parent c vals dbB ts nss where
    "config_parts lg config = Some (t, ns, parent)" "req_str checkpoint ''id'' = Some c" "values_of checkpoint = Some vals"
    "saved = result_config t ns c" "c \<noteq> ''index''" "c \<noteq> ''sequence''"
    "put_blobs lg p t ns vals nv (db(sequence_key p t ns \<mapsto> RStr (show_int (seq_no db (sequence_key p t ns) + 1)))) = Some dbB"
    "db' = dbB(checkpoint_key p t ns c \<mapsto>
          RHash (fold (\<lambda>(f, v). AList.update f v) (stored_fields lg config checkpoint metadata parent) (fields_at db (checkpoint_key p t ns c))),
        index_key p t ns \<mapsto> RZset (AList.update c (seq_no db (sequence_key p t ns) + 1) (scores_at db (index_key p t ns))),
        threads_key p \<mapsto> RSet ts, namespaces_key p t \<mapsto> RSet nss)"
proof -
  obtain t ns parent n db1 where parts: "config_parts lg config = Some (t, ns, parent)"
    and inc: "c_incr db (sequence_key p t ns) = Some (n, db1)"
    and commit: "put_commit lg p config checkpoint metadata nv n db1 = Some (saved, db')"
    using assms by (auto simp: put_checkpoint_def bind_eq_Some_conv)
  have n: "n = seq_no db (sequence_key p t ns) + 1" "db1 = db(sequence_key p t ns \<mapsto> RStr (show_int n))"
    using inc by (auto simp: c_incr_def seq_no_def split: if_splits option.splits)
  obtain c vals dbB db2 db3 db4 where id: "req_str checkpoint ''id'' = Some c" "values_of checkpoint = Some vals"
    and blobs: "put_blobs lg p t ns vals nv db1 = Some dbB"
    and cmds: "c_hset dbB (checkpoint_key p t ns c) (stored_fields lg config checkpoint metadata parent) = Some db2"
      "c_zadd db2 (index_key p t ns) c n = Some db3" "c_sadd db3 (threads_key p) t = Some db4"
      "c_sadd db4 (namespaces_key p t) ns = Some db'" and saved: "saved = result_config t ns c"
    using commit parts by (auto simp: put_commit_def bind_eq_Some_conv stored_fields_def)
  have same: "dbB k = db1 k" if "\<And>ch v. k \<noteq> blob_key p t ns ch v" for k
    using put_blobs_elsewhere [OF blobs] that by blast
  have keys: "dbB (checkpoint_key p t ns c) = db1 (checkpoint_key p t ns c)" "dbB (index_key p t ns) = db (index_key p t ns)"
    by (simp_all add: same key_simps n(2))
  have "c \<noteq> ''sequence''"
    using cmds(1) keys(1) by (auto simp: n(2) c_hset_def kind_at_def key_simps)
  moreover have "c \<noteq> ''index''"
    using cmds(1,2) by (auto simp: c_hset_def c_zadd_def kind_at_def key_simps split: if_splits)
  moreover have "db' = dbB(checkpoint_key p t ns c \<mapsto>
          RHash (fold (\<lambda>(f, v). AList.update f v) (stored_fields lg config checkpoint metadata parent) (fields_at db (checkpoint_key p t ns c))),
        index_key p t ns \<mapsto> RZset (AList.update c n (scores_at db (index_key p t ns))),
        threads_key p \<mapsto> RSet (List.insert t (members_at db3 (threads_key p))),
        namespaces_key p t \<mapsto> RSet (List.insert ns (members_at db4 (namespaces_key p t))))"
    using cmds keys calculation
    by (auto simp: c_hset_def c_zadd_def c_sadd_def fields_at_def scores_at_def key_simps n(2) split: if_splits)
  ultimately show ?thesis using that parts id saved blobs n by blast
qed

subsection \<open>The invariant of the store\<close>

text \<open>
  A checkpoint as LangGraph hands it over: it has an id, and the versions of its channels are a
  dictionary of printable vals.
\<close>

definition good_checkpoint :: "dict \<Rightarrow> bool" where
  "good_checkpoint cp \<longleftrightarrow>
     (\<exists>c. req_str cp ''id'' = Some c \<and> c \<noteq> []) \<and>
     (\<exists>vs. versions_of cp = Some vs \<and> distinct (map fst vs) \<and> list_all (\<lambda>(ch, v). py_str v \<noteq> None) vs)"

definition readable_hash :: "langgraph \<Rightarrow> (string \<times> string) list \<Rightarrow> bool" where
  "readable_hash lg h \<longleftrightarrow>
     (\<exists>cp md. map_of h ''checkpoint'' = Some (encode lg (JObj cp)) \<and> good_checkpoint cp \<and> map_of h ''metadata'' = Some (encode lg md))"

definition readable_write :: "langgraph \<Rightarrow> string \<Rightarrow> bool" where
  "readable_write lg s \<longleftrightarrow> (\<exists>tid ch v path i. s = write_payload lg tid ch v path i)"

definition blob_ok :: "langgraph \<Rightarrow> rvalue option \<Rightarrow> bool" where
  "blob_ok lg x \<longleftrightarrow> x = None \<or> (\<exists>s. x = Some (RStr s) \<and> (s = EMPTY_BLOB \<or> (\<exists>v. s = encode lg v)))"

definition writes_ok :: "langgraph \<Rightarrow> rvalue option \<Rightarrow> bool" where
  "writes_ok lg x \<longleftrightarrow> x = None \<or> (\<exists>h. x = Some (RHash h) \<and> (\<forall>s \<in> snd ` set h. readable_write lg s))"

definition entry_ok :: "langgraph \<Rightarrow> int \<Rightarrow> string \<Rightarrow> int \<Rightarrow> rvalue option \<Rightarrow> bool" where
  "entry_ok lg m c n x \<longleftrightarrow>
     c \<noteq> [] \<and> c \<noteq> ''index'' \<and> c \<noteq> ''sequence'' \<and> n \<le> m \<and> (\<exists>h. x = Some (RHash h) \<and> readable_hash lg h)"

definition space_ok :: "langgraph \<Rightarrow> string \<Rightarrow> string \<Rightarrow> string \<Rightarrow> cstore \<Rightarrow> bool" where
  "space_ok lg p t ns db \<longleftrightarrow>
     (db (sequence_key p t ns) = None \<or> (\<exists>n. db (sequence_key p t ns) = Some (RStr (show_int n)))) \<and>
     kind_at db (index_key p t ns) KZset \<and> distinct (map fst (scores_at db (index_key p t ns))) \<and>
     (\<forall>(c, n) \<in> set (scores_at db (index_key p t ns)). entry_ok lg (seq_no db (sequence_key p t ns)) c n (db (checkpoint_key p t ns c))) \<and>
     (\<forall>ch v. blob_ok lg (db (blob_key p t ns ch v))) \<and>
     (\<forall>c. writes_ok lg (db (writes_key p t ns c)))"

definition saver_ok :: "langgraph \<Rightarrow> string \<Rightarrow> cstore \<Rightarrow> bool" where
  "saver_ok lg p db \<longleftrightarrow> (\<forall>t ns. space_ok lg p t ns db)"

text \<open>The keys of one namespace of a thread.\<close>

definition same_space :: "string \<Rightarrow> string \<Rightarrow> string \<Rightarrow> cstore \<Rightarrow> cstore \<Rightarrow> bool" where
  "same_space p t ns db db' \<longleftrightarrow>
     db' (sequence_key p t ns) = db (sequence_key p t ns) \<and> db' (index_key p t ns) = db (index_key p t ns) \<and>
     (\<forall>c. db' (checkpoint_key p t ns c) = db (checkpoint_key p t ns c)) \<and>
     (\<forall>ch v. db' (blob_key p t ns ch v) = db (blob_key p t ns ch v)) \<and>
     (\<forall>c. db' (writes_key p t ns c) = db (writes_key p t ns c))"

lemma space_ok_cong: "same_space p t ns db db' \<Longrightarrow> space_ok lg p t ns db' = space_ok lg p t ns db"
  by (simp add: same_space_def space_ok_def seq_no_def at_defs)

lemma same_space_trans: "same_space p t ns db db1 \<Longrightarrow> same_space p t ns db1 db2 \<Longrightarrow> same_space p t ns db db2"
  by (simp add: same_space_def)

lemma put_other_space:
  assumes "put_checkpoint lg p db config checkpoint metadata nv = Some (saved, db')" "config_parts lg config = Some (t, ns, parent)"
    "(t', ns') \<noteq> (t, ns)"
  shows "same_space p t' ns' db db'"
  using assms(1)
proof (rule put_shape)
  fix t1 ns1 parent1 c vals dbB ts nss
  assume a: "config_parts lg config = Some (t1, ns1, parent1)"
    "put_blobs lg p t1 ns1 vals nv (db(sequence_key p t1 ns1 \<mapsto> RStr (show_int (seq_no db (sequence_key p t1 ns1) + 1)))) = Some dbB"
    "db' = dbB(checkpoint_key p t1 ns1 c \<mapsto>
          RHash (fold (\<lambda>(f, v). AList.update f v) (stored_fields lg config checkpoint metadata parent1) (fields_at db (checkpoint_key p t1 ns1 c))),
        index_key p t1 ns1 \<mapsto> RZset (AList.update c (seq_no db (sequence_key p t1 ns1) + 1) (scores_at db (index_key p t1 ns1))),
        threads_key p \<mapsto> RSet ts, namespaces_key p t1 \<mapsto> RSet nss)"
  have "t1 = t" "ns1 = ns" using a(1) assms(2) by simp_all
  then show ?thesis
    using assms(3) put_blobs_elsewhere [OF a(2)] unfolding a(3) same_space_def by (auto simp: key_simps)
qed

lemma in_scores_update:
  "distinct (map fst z) \<Longrightarrow> (x, m) \<in> set (AList.update c n z) \<longleftrightarrow> (if x = c then m = n else (x, m) \<in> set z)"
proof -
  assume "distinct (map fst z)"
  then have "(x, m) \<in> set (AList.update c n z) \<longleftrightarrow> map_of (AList.update c n z) x = Some m" "(x, m) \<in> set z \<longleftrightarrow> map_of z x = Some m"
    by (simp_all add: distinct_update)
  then show ?thesis by (auto simp: AList.update_conv)
qed

lemma in_scores_delete: "(x, m) \<in> set (AList.delete c z) \<longleftrightarrow> x \<noteq> c \<and> (x, m) \<in> set z"
  by (auto simp: AList.delete_eq)

lemma good_stripped: "good_checkpoint cp \<Longrightarrow> good_checkpoint (AList.delete ''channel_values'' cp)"
  by (simp add: good_checkpoint_def req_str_def versions_of_def dget_def AList.delete_conv)

lemma stored_hash:
  "map_of (fold (\<lambda>(f, v). AList.update f v) (stored_fields lg config cp md parent) h) f =
     (if f = ''checkpoint'' then Some (encode lg (JObj (AList.delete ''channel_values'' cp)))
      else if f = ''metadata'' then Some (encode lg (get_checkpoint_metadata lg config md))
      else if f = ''parent'' then Some (or_else parent []) else map_of h f)"
  by (simp add: stored_fields_def AList.update_conv)

lemma seq_no_next: "seq_no (db(k \<mapsto> RStr (show_int n))) k = n"
  by (simp add: seq_no_def text_at_def)

lemma seq_no_cong: "db' k = db k \<Longrightarrow> seq_no db' k = seq_no db k"
  by (simp add: seq_no_def text_at_def)

lemma put_facts:
  assumes put: "put_checkpoint lg p db config cp md nv = Some (saved, db')" and parts: "config_parts lg config = Some (t, ns, parent)"
    and dist: "distinct (map fst nv)"
  obtains c vals where "req_str cp ''id'' = Some c" "values_of cp = Some vals" "saved = result_config t ns c" "c \<noteq> ''index''" "c \<noteq> ''sequence''"
    "db' (sequence_key p t ns) = Some (RStr (show_int (seq_no db (sequence_key p t ns) + 1)))"
    "db' (index_key p t ns) = Some (RZset (AList.update c (seq_no db (sequence_key p t ns) + 1) (scores_at db (index_key p t ns))))"
    "db' (checkpoint_key p t ns c) =
       Some (RHash (fold (\<lambda>(f, v). AList.update f v) (stored_fields lg config cp md parent) (fields_at db (checkpoint_key p t ns c))))"
    "\<And>x. x \<noteq> c \<Longrightarrow> x \<noteq> ''index'' \<Longrightarrow> x \<noteq> ''sequence'' \<Longrightarrow> db' (checkpoint_key p t ns x) = db (checkpoint_key p t ns x)"
    "\<And>ch v. db' (blob_key p t ns ch v) = (case new_blob lg vals nv ch v of Some s \<Rightarrow> Some (RStr s) | None \<Rightarrow> db (blob_key p t ns ch v))"
    "\<And>x. db' (writes_key p t ns x) = db (writes_key p t ns x)"
  using put
proof (rule put_shape)
  fix t1 ns1 parent1 c vals dbB ts nss
  assume a: "config_parts lg config = Some (t1, ns1, parent1)" "req_str cp ''id'' = Some c" "values_of cp = Some vals"
    "saved = result_config t1 ns1 c" "c \<noteq> ''index''" "c \<noteq> ''sequence''"
    "put_blobs lg p t1 ns1 vals nv (db(sequence_key p t1 ns1 \<mapsto> RStr (show_int (seq_no db (sequence_key p t1 ns1) + 1)))) = Some dbB"
    "db' = dbB(checkpoint_key p t1 ns1 c \<mapsto>
          RHash (fold (\<lambda>(f, v). AList.update f v) (stored_fields lg config cp md parent1) (fields_at db (checkpoint_key p t1 ns1 c))),
        index_key p t1 ns1 \<mapsto> RZset (AList.update c (seq_no db (sequence_key p t1 ns1) + 1) (scores_at db (index_key p t1 ns1))),
        threads_key p \<mapsto> RSet ts, namespaces_key p t1 \<mapsto> RSet nss)"
  have [simp]: "t1 = t" "ns1 = ns" "parent1 = parent" using a(1) parts by simp_all
  note B = put_blobs_elsewhere [OF a(7)]
  have blob: "db' (blob_key p t ns ch v) = (case new_blob lg vals nv ch v of Some s \<Rightarrow> Some (RStr s) | None \<Rightarrow> db (blob_key p t ns ch v))" for ch v
    using put_blobs_at [OF a(7) dist, of ch v] by (cases "new_blob lg vals nv ch v") (simp_all add: a(8) key_simps)
  show ?thesis
    by (rule that [of c vals]) (use a(2-6) blob in \<open>simp_all add: a(8) B key_simps\<close>)
qed

lemma put_own_space:
  assumes put: "put_checkpoint lg p db config cp md nv = Some (saved, db')" and parts: "config_parts lg config = Some (t, ns, parent)"
    and ok: "space_ok lg p t ns db" and good: "good_checkpoint cp" "distinct (map fst nv)"
  shows "space_ok lg p t ns db'"
proof -
  let ?n = "seq_no db (sequence_key p t ns) + 1"
  let ?z = "scores_at db (index_key p t ns)"
  obtain c vals where f: "req_str cp ''id'' = Some c" "c \<noteq> ''index''" "c \<noteq> ''sequence''"
    and seq: "db' (sequence_key p t ns) = Some (RStr (show_int ?n))"
    and idx: "db' (index_key p t ns) = Some (RZset (AList.update c ?n ?z))"
    and hash: "db' (checkpoint_key p t ns c) =
       Some (RHash (fold (\<lambda>(f, v). AList.update f v) (stored_fields lg config cp md parent) (fields_at db (checkpoint_key p t ns c))))"
    and other: "\<And>x. x \<noteq> c \<Longrightarrow> x \<noteq> ''index'' \<Longrightarrow> x \<noteq> ''sequence'' \<Longrightarrow> db' (checkpoint_key p t ns x) = db (checkpoint_key p t ns x)"
    and blob: "\<And>ch v. db' (blob_key p t ns ch v) = (case new_blob lg vals nv ch v of Some s \<Rightarrow> Some (RStr s) | None \<Rightarrow> db (blob_key p t ns ch v))"
    and wr: "\<And>x. db' (writes_key p t ns x) = db (writes_key p t ns x)"
    by (rule put_facts [OF put parts good(2)]) (rule that)
  have c: "c \<noteq> []" using f(1) good(1) by (auto simp: good_checkpoint_def)
  have seqn: "seq_no db' (sequence_key p t ns) = ?n" using seq by (simp add: seq_no_def text_at_def)
  have own: "entry_ok lg ?n c ?n (db' (checkpoint_key p t ns c))"
    using f c good_stripped [OF good(1)] by (auto simp: entry_ok_def hash readable_hash_def stored_hash)
  have dist: "distinct (map fst ?z)" using ok by (simp add: space_ok_def)
  have members: "entry_ok lg ?n x m (db' (checkpoint_key p t ns x))" if "(x, m) \<in> set (AList.update c ?n ?z)" for x m
  proof (cases "x = c")
    case True
    then show ?thesis using that own by (simp add: in_scores_update [OF dist])
  next
    case False
    then have "(x, m) \<in> set ?z" using that by (simp add: in_scores_update [OF dist])
    then have "entry_ok lg (seq_no db (sequence_key p t ns)) x m (db (checkpoint_key p t ns x))" using ok by (auto simp: space_ok_def)
    then show ?thesis using other [OF False] by (simp add: entry_ok_def)
  qed
  have "blob_ok lg (db' (blob_key p t ns ch v))" for ch v
    using ok by (cases "new_blob lg vals nv ch v") (auto simp: blob blob_ok_def space_ok_def new_blob_def split: option.splits if_splits)
  then show ?thesis
    using ok members seq dist unfolding space_ok_def seqn
    by (auto simp: idx wr kind_at_def scores_at_def distinct_update)
qed

lemma put_ok:
  assumes "put_checkpoint lg p db config cp md nv = Some (saved, db')" "saver_ok lg p db" "good_checkpoint cp" "distinct (map fst nv)"
  shows "saver_ok lg p db'"
proof -
  obtain t ns parent where parts: "config_parts lg config = Some (t, ns, parent)"
    using assms(1) by (auto simp: put_checkpoint_def bind_eq_Some_conv)
  have "space_ok lg p t' ns' db'" for t' ns'
  proof (cases "(t', ns') = (t, ns)")
    case True
    then show ?thesis using put_own_space [OF assms(1) parts _ assms(3,4)] assms(2) by (simp add: saver_ok_def)
  next
    case False
    then show ?thesis using space_ok_cong [OF put_other_space [OF assms(1) parts False]] assms(2) by (simp add: saver_ok_def)
  qed
  then show ?thesis by (simp add: saver_ok_def)
qed

lemma writes_ok_hash: "writes_ok lg (Some (RHash h)) \<longleftrightarrow> (\<forall>s \<in> snd ` set h. readable_write lg s)"
  by (simp add: writes_ok_def)

lemma snd_update: "s \<in> snd ` set (AList.update f x h) \<Longrightarrow> s = x \<or> s \<in> snd ` set h"
  by (induction h) (auto split: if_splits)

lemma readable_payload: "readable_write lg (write_payload lg tid ch v path i)"
  unfolding readable_write_def by (intro exI) (rule HOL.refl)

lemma writes_ok_update:
  "writes_ok lg (Some (RHash h)) \<Longrightarrow> readable_write lg x \<Longrightarrow> writes_ok lg (Some (RHash (AList.update f x h)))"
  unfolding writes_ok_hash using snd_update [of _ f x h] by blast

lemma writes_ok_single: "readable_write lg x \<Longrightarrow> writes_ok lg (Some (RHash [(f, x)]))"
  by (simp add: writes_ok_hash)

lemma write_loop_effect:
  "write_loop lg k tid path i pw db = Some db' \<Longrightarrow> (\<forall>k'. k' \<noteq> k \<longrightarrow> db' k' = db k') \<and> (writes_ok lg (db k) \<longrightarrow> writes_ok lg (db' k))"
proof (induction pw arbitrary: i db)
  case Nil
  then show ?case by simp
next
  case (Cons w pw)
  obtain channel v where w: "w = (channel, v)" by (cases w)
  let ?j = "or_else (WRITES_IDX_MAP lg channel) (int i)"
  let ?f = "quote tid @ CHR '':'' # show_int ?j"
  let ?s = "write_payload lg tid channel v path ?j"
  obtain db1 where first: "(if ?j < 0 then c_hset db k [(?f, ?s)] else c_hsetnx db k ?f ?s) = Some db1"
    and rest: "write_loop lg k tid path (Suc i) pw db1 = Some db'"
    using Cons.prems w by (auto simp: Let_def bind_eq_Some_conv)
  have "(\<forall>k'. k' \<noteq> k \<longrightarrow> db1 k' = db k') \<and> (writes_ok lg (db k) \<longrightarrow> writes_ok lg (db1 k))"
  proof (cases "db k")
    case None
    then show ?thesis using first writes_ok_single [OF readable_payload] by (auto simp: c_hset_def c_hsetnx_def fields_at_def split: if_splits)
  next
    case (Some x)
    then show ?thesis using first writes_ok_update [OF _ readable_payload] by (cases x) (auto simp: c_hset_def c_hsetnx_def fields_at_def kind_at_def split: if_splits)
  qed
  with Cons.IH [OF rest] show ?case by simp
qed

lemma put_writes_elsewhere:
  assumes "put_writes lg p db config pw tid path = Some db'" "config_parts lg config = Some (t, ns, given)"
  shows "k \<noteq> writes_key p t ns (or_else given []) \<Longrightarrow> db' k = db k"
    "writes_ok lg (db (writes_key p t ns (or_else given []))) \<Longrightarrow> writes_ok lg (db' (writes_key p t ns (or_else given [])))"
proof -
  have "write_loop lg (writes_key p t ns (or_else given [])) tid path 0 pw db = Some db'"
    using assms by (auto simp: put_writes_def split: if_splits)
  from write_loop_effect [OF this] show "k \<noteq> writes_key p t ns (or_else given []) \<Longrightarrow> db' k = db k"
    "writes_ok lg (db (writes_key p t ns (or_else given []))) \<Longrightarrow> writes_ok lg (db' (writes_key p t ns (or_else given [])))" by blast+
qed

lemma put_writes_space:
  assumes run: "put_writes lg p db config pw tid path = Some db'" "config_parts lg config = Some (t, ns, given)"
  shows "space_ok lg p t' ns' db \<Longrightarrow> space_ok lg p t' ns' db'" "(t', ns') \<noteq> (t, ns) \<Longrightarrow> same_space p t' ns' db db'"
proof -
  note same = put_writes_elsewhere(1) [OF run]
  show "same_space p t' ns' db db'" if "(t', ns') \<noteq> (t, ns)"
    using that by (auto simp: same_space_def intro!: same simp: key_simps)
  assume ok: "space_ok lg p t' ns' db"
  have eqs: "db' (sequence_key p t' ns') = db (sequence_key p t' ns')" "db' (index_key p t' ns') = db (index_key p t' ns')"
    "\<And>c. db' (checkpoint_key p t' ns' c) = db (checkpoint_key p t' ns' c)" "\<And>ch v. db' (blob_key p t' ns' ch v) = db (blob_key p t' ns' ch v)"
    by (rule same; simp add: key_simps)+
  have all: "writes_ok lg (db (writes_key p t' ns' c))" for c using ok by (simp add: space_ok_def)
  have "writes_ok lg (db' (writes_key p t' ns' c))" for c
    using put_writes_elsewhere(2) [OF run] same [of "writes_key p t' ns' c"] all [of c]
    by (cases "writes_key p t' ns' c = writes_key p t ns (or_else given [])") simp_all
  with ok eqs show "space_ok lg p t' ns' db'" by (simp add: space_ok_def seq_no_def at_defs)
qed

lemma put_writes_ok: "put_writes lg p db config pw tid path = Some db' \<Longrightarrow> saver_ok lg p db \<Longrightarrow> saver_ok lg p db'"
proof -
  assume run: "put_writes lg p db config pw tid path = Some db'" and ok: "saver_ok lg p db"
  then obtain t ns given where "config_parts lg config = Some (t, ns, given)" by (auto simp: put_writes_def bind_eq_Some_conv)
  from put_writes_space(1) [OF run this] ok show ?thesis by (simp add: saver_ok_def)
qed

text \<open>Deleting a thread removes its keys and no others.\<close>

lemma startswith_thread:
  "startswith (named p (quote t' # part # parts)) (p @ CHR '':'' # quote t @ '':'') \<longleftrightarrow> t' = t"
proof
  assume "startswith (named p (quote t' # part # parts)) (p @ CHR '':'' # quote t @ '':'')"
  then have "named p (quote t' # part # parts) =
      (p @ CHR '':'' # quote t @ '':'') @ drop (length (p @ CHR '':'' # quote t @ '':'')) (named p (quote t' # part # parts))"
    unfolding startswith_def by (subst (1) append_take_drop_id [symmetric, of _ "length (p @ CHR '':'' # quote t @ '':'')"]) (simp only:)
  then obtain r where "named p (quote t' # part # parts) = (p @ CHR '':'' # quote t @ '':'') @ r" by blast
  then have "quote t' @ CHR '':'' # join '':'' (part # parts) = quote t @ CHR '':'' # r" by (simp add: named_def)
  then have "before_first (CHR '':'') (quote t' @ CHR '':'' # join '':'' (part # parts)) = before_first (CHR '':'') (quote t @ CHR '':'' # r)"
    by (rule arg_cong)
  then show "t' = t" by simp
qed (simp add: named_def startswith_def)

lemma delete_thread_keys:
  assumes "delete_thread p db t = Some db'" "list_all colon_free (part # parts)"
  shows "db' (named p (quote t' # part # parts)) = (if t' = t then None else db (named p (quote t' # part # parts)))"
proof -
  obtain v where "db' = (\<lambda>k. if startswith k (p @ CHR '':'' # quote t @ '':'') then None else db k)(threads_key p := v)"
    using assms(1) by (auto simp: delete_thread_def c_srem_def Let_def split: if_splits)
  then show ?thesis using assms(2) by (simp add: startswith_thread key_names(1))
qed

lemma delete_thread_defined: "kind_at db (threads_key p) KSet \<Longrightarrow> \<exists>db'. delete_thread p db t = Some db'"
  by (cases "startswith (threads_key p) (p @ CHR '':'' # quote t @ '':'')") (simp_all add: delete_thread_def c_srem_def kind_at_def Let_def)

lemma delete_thread_space:
  assumes "delete_thread p db t = Some db'"
  shows "t' \<noteq> t \<Longrightarrow> same_space p t' ns db db'" "space_ok lg p t ns db'"
proof -
  show "same_space p t' ns db db'" if "t' \<noteq> t" using that by (simp add: same_space_def key_simps delete_thread_keys [OF assms])
  show "space_ok lg p t ns db'" by (simp add: space_ok_def key_simps delete_thread_keys [OF assms] at_defs blob_ok_def writes_ok_def)
qed

lemma delete_thread_ok: "delete_thread p db t = Some db' \<Longrightarrow> saver_ok lg p db \<Longrightarrow> saver_ok lg p db'"
proof -
  assume run: "delete_thread p db t = Some db'" and ok: "saver_ok lg p db"
  have "space_ok lg p t' ns db'" for t' ns
    using delete_thread_space(2) [OF run] space_ok_cong [OF delete_thread_space(1) [OF run]] ok
    by (cases "t' = t") (simp_all add: saver_ok_def)
  then show ?thesis by (simp add: saver_ok_def)
qed

lemma delete_checkpoint_shape:
  assumes "delete_checkpoint lg p db config = Some db'" "config_parts lg config = Some (t, ns, Some c)" "c \<noteq> []" "c \<noteq> ''index''"
  shows "db' = (let z = AList.delete c (scores_at db (index_key p t ns)) in
    db(checkpoint_key p t ns c := None, writes_key p t ns c := None, index_key p t ns := if z = [] then None else Some (RZset z)))"
proof -
  let ?db = "db(checkpoint_key p t ns c := None, writes_key p t ns c := None)"
  have "c_zrem ?db (index_key p t ns) c = Some db'" using assms by (simp add: delete_checkpoint_def)
  moreover have "?db (index_key p t ns) = db (index_key p t ns)" using assms(4) by (simp add: key_simps)
  then have "scores_at ?db (index_key p t ns) = scores_at db (index_key p t ns)" unfolding scores_at_def by (rule arg_cong)
  ultimately show ?thesis unfolding c_zrem_def Let_def by (simp only: if_split option.inject) (auto split: if_splits)
qed

lemma delete_checkpoint_own:
  assumes "delete_checkpoint lg p db config = Some db'" "config_parts lg config = Some (t, ns, Some c)" "c \<noteq> []" "c \<noteq> ''index''"
    "c \<noteq> ''sequence''" and ok: "space_ok lg p t ns db"
  shows "space_ok lg p t ns db'"
proof -
  let ?z = "AList.delete c (scores_at db (index_key p t ns))"
  note db' = delete_checkpoint_shape [OF assms(1-4), unfolded Let_def]
  have z: "scores_at db' (index_key p t ns) = ?z" "kind_at db' (index_key p t ns) KZset" unfolding db' by (simp_all add: at_defs)
  have seq: "db' (sequence_key p t ns) = db (sequence_key p t ns)" unfolding db' using assms(5) by (simp add: key_simps)
  have same: "db' (checkpoint_key p t ns x) = db (checkpoint_key p t ns x)" if "x \<noteq> c" "x \<noteq> ''index''" for x
    unfolding db' using that by (simp add: key_simps)
  have rest: "db' (blob_key p t ns ch v) = db (blob_key p t ns ch v)" "db' (writes_key p t ns x) = (if x = c then None else db (writes_key p t ns x))"
    for ch v x unfolding db' by (simp_all add: key_simps)
  have "entry_ok lg (seq_no db (sequence_key p t ns)) x m (db' (checkpoint_key p t ns x))" if "(x, m) \<in> set ?z" for x m
  proof -
    have "x \<noteq> c" "(x, m) \<in> set (scores_at db (index_key p t ns))" using that by (simp_all add: in_scores_delete)
    then have "entry_ok lg (seq_no db (sequence_key p t ns)) x m (db (checkpoint_key p t ns x))" using ok by (auto simp: space_ok_def)
    then show ?thesis using same [OF \<open>x \<noteq> c\<close>] by (simp add: entry_ok_def)
  qed
  moreover have "blob_ok lg (db' (blob_key p t ns ch v))" "writes_ok lg (db' (writes_key p t ns x))" for ch v x
    using ok by (simp_all add: rest space_ok_def writes_ok_def)
  moreover have "distinct (map fst ?z)" using ok by (simp add: space_ok_def distinct_delete)
  ultimately show ?thesis using ok unfolding space_ok_def z(1) seq seq_no_cong [of db' "sequence_key p t ns" db, OF seq] using z(2) by blast
qed

lemma delete_checkpoint_ok:
  assumes run: "delete_checkpoint lg p db config = Some db'" and parts: "config_parts lg config = Some (t, ns, Some c)"
    and c: "c \<noteq> []" "c \<noteq> ''index''" "c \<noteq> ''sequence''" and ok: "saver_ok lg p db"
  shows "saver_ok lg p db'"
proof -
  have "space_ok lg p t' ns' db'" for t' ns'
  proof (cases "(t', ns') = (t, ns)")
    case True
    then show ?thesis using delete_checkpoint_own [OF run parts c] ok by (simp add: saver_ok_def)
  next
    case False
    then have "same_space p t' ns' db db'"
      unfolding same_space_def delete_checkpoint_shape [OF run parts c(1,2)] Let_def by (cases "t' = t") (simp_all add: key_simps)
    from space_ok_cong [OF this] ok show ?thesis by (simp add: saver_ok_def)
  qed
  then show ?thesis by (simp add: saver_ok_def)
qed

subsection \<open>Reading what the index names\<close>

lemma load_values_ok:
  assumes "langgraph_ok lg" "\<And>ch v. blob_ok lg (db (blob_key p t ns ch v))" "list_all (\<lambda>(ch, v). py_str v \<noteq> None) vs"
  shows "\<exists>d. load_values lg p db t ns vs = Some d"
  using assms(3)
proof (induction vs)
  case Nil
  then show ?case by simp
next
  case (Cons x vs)
  obtain ch ver v where x: "x = (ch, ver)" "py_str ver = Some v" using Cons.prems by (cases x) auto
  obtain d where d: "load_values lg p db t ns vs = Some d" using Cons by auto
  have "blob_ok lg (db (blob_key p t ns ch v))" by (rule assms(2))
  then consider "db (blob_key p t ns ch v) = None" | "db (blob_key p t ns ch v) = Some (RStr EMPTY_BLOB)"
    | y where "db (blob_key p t ns ch v) = Some (RStr (encode lg y))"
    by (auto simp: blob_ok_def)
  then show ?case
    by cases (simp_all add: x d c_get_def kind_at_def text_at_def decode_encode [OF assms(1)])
qed

lemma decode_writes_ok:
  assumes "langgraph_ok lg" "\<forall>s \<in> set vs. readable_write lg s"
  shows "\<exists>d. decode_writes lg vs = Some d"
proof -
  have "\<exists>d. those_map (decode_write lg) vs = Some d"
    using assms(2) by (induction vs) (auto simp: readable_write_def decode_write_payload [OF assms(1)])
  then show ?thesis by (auto simp: decode_writes_def)
qed

lemma good_with_values: "good_checkpoint cp \<Longrightarrow> good_checkpoint (AList.update ''channel_values'' v cp)"
  by (simp add: good_checkpoint_def req_str_def versions_of_def dget_def AList.update_conv)

lemma indexed_entry:
  assumes "saver_ok lg p db" "(c, n) \<in> set (scores_at db (index_key p t ns))"
  shows "entry_ok lg (seq_no db (sequence_key p t ns)) c n (db (checkpoint_key p t ns c))"
proof -
  have "space_ok lg p t ns db" using assms(1) by (simp add: saver_ok_def)
  then have "\<forall>(c, n) \<in> set (scores_at db (index_key p t ns)). entry_ok lg (seq_no db (sequence_key p t ns)) c n (db (checkpoint_key p t ns c))"
    by (simp add: space_ok_def)
  from bspec [OF this assms(2)] show ?thesis by simp
qed

lemma hash_readable:
  assumes lg: "langgraph_ok lg" and ok: "saver_ok lg p db" and c: "c \<noteq> []"
    and h: "db (checkpoint_key p t ns c) = Some (RHash h)" "map_of h ''checkpoint'' = Some (encode lg (JObj cp))"
      "map_of h ''metadata'' = Some (encode lg md)" and good: "good_checkpoint cp"
  obtains vs d wr where "versions_of cp = Some vs" "distinct (map fst vs)" "load_values lg p db t ns vs = Some d"
    "get_tuple lg p db (result_config t ns c) = Some (Some (tuple_from_parts t ns c cp d md (or_else (map_of h ''parent'') []) wr))"
proof -
  have sp: "space_ok lg p t ns db" using ok by (simp add: saver_ok_def)
  obtain vs where vs: "versions_of cp = Some vs" "distinct (map fst vs)" "list_all (\<lambda>(ch, v). py_str v \<noteq> None) vs"
    using good by (auto simp: good_checkpoint_def)
  have "blob_ok lg (db (blob_key p t ns ch v))" for ch v using sp by (simp add: space_ok_def)
  from load_values_ok [of lg db p t ns vs, OF lg this vs(3)] obtain d where d: "load_values lg p db t ns vs = Some d" ..
  have w: "writes_ok lg (db (writes_key p t ns c))" using sp by (simp add: space_ok_def)
  then have "\<forall>s \<in> set (map snd (fields_at db (writes_key p t ns c))). readable_write lg s" "kind_at db (writes_key p t ns c) KHash"
    by (force simp: writes_ok_def at_defs)+
  then obtain wr where wr: "pending_writes lg p db t ns c = Some wr"
    using decode_writes_ok [OF lg, of "map snd (fields_at db (writes_key p t ns c))"] by (auto simp: pending_writes_def c_hgetall_def)
  have "h \<noteq> []" using h(2) by auto
  then have "get_tuple lg p db (result_config t ns c) =
      Some (Some (tuple_from_parts t ns c cp d md (or_else (map_of h ''parent'') []) wr))"
    using c h vs(1) d wr by (simp add: get_tuple_def config_parts_result [OF lg] c_hgetall_def kind_at_def fields_at_def build_tuple_def decode_encode [OF lg])
  then show ?thesis using that vs(1,2) d by blast
qed

lemma indexed_readable:
  assumes lg: "langgraph_ok lg" and ok: "saver_ok lg p db" and c: "(c, n) \<in> set (scores_at db (index_key p t ns))"
  shows "\<exists>it. get_tuple lg p db (result_config t ns c) = Some (Some it) \<and> ct_config it = result_config t ns c \<and> good_checkpoint (ct_checkpoint it)"
proof -
  obtain h cp md where h: "c \<noteq> []" "db (checkpoint_key p t ns c) = Some (RHash h)" "map_of h ''checkpoint'' = Some (encode lg (JObj cp))"
    "map_of h ''metadata'' = Some (encode lg md)" "good_checkpoint cp"
    using indexed_entry [OF ok c] by (auto simp: entry_ok_def readable_hash_def)
  from hash_readable [OF lg ok h] obtain d wr where
    "get_tuple lg p db (result_config t ns c) = Some (Some (tuple_from_parts t ns c cp d md (or_else (map_of h ''parent'') []) wr))" by blast
  then show ?thesis using good_with_values [OF h(5)] by (simp add: tuple_from_parts_def)
qed

lemma set_by_rank: "set (by_rank z) = fst ` set z"
  by (simp add: by_rank_def)

lemma ids_in_indexed: "ids_in p db configured before (t, ns) = Some ids \<Longrightarrow> (t', ns', c) \<in> set ids \<Longrightarrow>
  t' = t \<and> ns' = ns \<and> (\<exists>n. (c, n) \<in> set (scores_at db (index_key p t ns)))"
  by (cases "kind_at db (index_key p t ns) KZset") (force simp: ids_in_def c_zrevrange_def set_by_rank)+

lemma those_map_member: "those_map f xs = Some ys \<Longrightarrow> y \<in> set ys \<Longrightarrow> \<exists>x \<in> set xs. f x = Some y"
  by (induction xs arbitrary: ys) (auto simp: bind_eq_Some_conv)

lemma listed_indexed:
  assumes "list_ids lg p db config before = Some ids" "(t, ns, c) \<in> set ids"
  shows "\<exists>n. (c, n) \<in> set (scores_at db (index_key p t ns))"
proof (cases "config = []")
  case False
  then obtain t' ns' configured b where "ids_in p db configured b (t', ns') = Some ids"
    using assms(1) by (auto simp: list_ids_def Let_def bind_eq_Some_conv)
  from ids_in_indexed [OF this assms(2)] show ?thesis by blast
next
  case True
  then obtain spaces idss b where "those_map (ids_in p db None b) (concat spaces) = Some idss" "ids = concat idss"
    using assms(1) by (auto simp: list_ids_def Let_def bind_eq_Some_conv)
  then obtain sp part where "ids_in p db None b sp = Some part" "(t, ns, c) \<in> set part"
    using assms(2) those_map_member by (metis UN_E set_concat)
  then show ?thesis using ids_in_indexed by (cases sp) blast
qed

lemma list_loop_member:
  "list_loop lg p db wanted limit ids = Some items \<Longrightarrow> it \<in> set items \<Longrightarrow>
     \<exists>(t, ns, c) \<in> set ids. get_tuple lg p db (result_config t ns c) = Some (Some it)"
proof (induction lg p db wanted limit ids arbitrary: items rule: list_loop.induct)
  case (1 lg p db wanted limit)
  then show ?case by simp
next
  case (2 lg p db wanted limit t ns c ids)
  obtain item where item: "get_tuple lg p db (result_config t ns c) = Some item" using "2.prems"(1) by (auto simp: bind_eq_Some_conv)
  show ?case
  proof (cases item)
    case None
    then have "list_loop lg p db wanted limit ids = Some items" using "2.prems"(1) item by simp
    from "2.IH"(1) [OF item None this "2.prems"(2)] show ?thesis by auto
  next
    case (Some x)
    obtain ok where ok: "matches wanted (ct_metadata x) = Some ok" using "2.prems"(1) item Some by (auto simp: bind_eq_Some_conv)
    show ?thesis
    proof (cases "it = x")
      case True
      then show ?thesis using item Some by auto
    next
      case False
      have "\<exists>l items'. list_loop lg p db wanted l ids = Some items' \<and> it \<in> set items' \<and> (\<not> ok \<and> l = limit \<or> ok \<and> limit = None \<and> l = None
          \<or> ok \<and> (\<exists>n. limit = Some n \<and> \<not> n - 1 \<le> 0 \<and> l = Some (n - 1)))"
        using "2.prems" item Some ok False by (auto split: if_splits option.splits)
      then show ?thesis using "2.IH"(2-4) [OF item Some ok] by auto
    qed
  qed
qed

lemma listed_good:
  assumes "langgraph_ok lg" "saver_ok lg p db" "list_checkpoints lg p db config wanted before limit = Some items" "it \<in> set items"
  shows "good_checkpoint (ct_checkpoint it) \<and>
    (\<exists>t ns c. ct_config it = result_config t ns c \<and> c \<noteq> [] \<and> c \<noteq> ''index'' \<and> c \<noteq> ''sequence'')"
proof -
  obtain ids where ids: "list_ids lg p db config before = Some ids" "list_loop lg p db wanted limit ids = Some items"
    using assms(3) by (auto simp: list_checkpoints_def bind_eq_Some_conv)
  obtain t ns c where m: "(t, ns, c) \<in> set ids" "get_tuple lg p db (result_config t ns c) = Some (Some it)"
    using list_loop_member [OF ids(2) assms(4)] by auto
  obtain n where n: "(c, n) \<in> set (scores_at db (index_key p t ns))" using listed_indexed [OF ids(1) m(1)] by blast
  show ?thesis
    using indexed_readable [OF assms(1,2) n] indexed_entry [OF assms(2) n] m(2) unfolding entry_ok_def by auto
qed

subsection \<open>All operations keep the invariant\<close>

lemma delete_loop_ok:
  assumes "langgraph_ok lg"
  shows "delete_loop lg p runs items db = Some db' \<Longrightarrow> saver_ok lg p db \<Longrightarrow>
    \<forall>it \<in> set items. \<exists>t ns c. ct_config it = result_config t ns c \<and> c \<noteq> [] \<and> c \<noteq> ''index'' \<and> c \<noteq> ''sequence'' \<Longrightarrow> saver_ok lg p db'"
proof (induction items arbitrary: db)
  case Nil
  then show ?case by simp
next
  case (Cons it items)
  obtain t ns c where it: "ct_config it = result_config t ns c" "c \<noteq> []" "c \<noteq> ''index''" "c \<noteq> ''sequence''" using Cons.prems(3) by auto
  obtain run db1 where db1: "(if run \<in> set runs then delete_checkpoint lg p db (ct_config it) else Some db) = Some db1"
    "delete_loop lg p runs items db1 = Some db'"
    using Cons.prems(1) by (auto simp: bind_eq_Some_conv split: json.splits)
  have "saver_ok lg p db1"
    using db1(1) Cons.prems(2) delete_checkpoint_ok [OF _ config_parts_result [OF assms] it(2-4)] it(1) by (auto split: if_splits)
  then show ?case using Cons.IH [OF db1(2)] Cons.prems(3) by auto
qed

lemma delete_for_runs_ok:
  assumes "langgraph_ok lg" "delete_for_runs lg p db runs = Some db'" "saver_ok lg p db"
  shows "saver_ok lg p db'"
proof -
  obtain items where items: "list_checkpoints lg p db [] [] [] None = Some items" "delete_loop lg p runs items db = Some db'"
    using assms(2) by (auto simp: delete_for_runs_def bind_eq_Some_conv)
  show ?thesis using delete_loop_ok [OF assms(1) items(2) assms(3)] listed_good [OF assms(1,3) items(1)] by blast
qed

lemma copy_item_ok:
  assumes "copy_item lg p target it db = Some db'" "saver_ok lg p db" "good_checkpoint (ct_checkpoint it)"
  shows "saver_ok lg p db'"
proof -
  obtain config vs saved db1 where run: "dget (ct_checkpoint it) ''channel_versions'' = Some (JObj vs)"
    "put_checkpoint lg p db config (ct_checkpoint it) (ct_metadata it) vs = Some (saved, db1)"
    "(if ct_pending_writes it = [] then Some db1 else put_writes lg p db1 saved (map snd (ct_pending_writes it)) ''copied'' []) = Some db'"
    using assms(1) by (auto simp: copy_item_def bind_eq_Some_conv split: option.splits json.splits)
  have "distinct (map fst vs)" using assms(3) run(1) by (auto simp: good_checkpoint_def versions_of_def)
  from put_ok [OF run(2) assms(2,3) this] run(3) show ?thesis by (auto split: if_splits dest: put_writes_ok)
qed

lemma copy_loop_ok:
  "copy_loop lg p target items db = Some db' \<Longrightarrow> saver_ok lg p db \<Longrightarrow> \<forall>it \<in> set items. good_checkpoint (ct_checkpoint it) \<Longrightarrow> saver_ok lg p db'"
  by (induction items arbitrary: db) (auto simp: bind_eq_Some_conv dest: copy_item_ok)

lemma copy_thread_ok:
  assumes "langgraph_ok lg" "copy_thread lg p db src target = Some db'" "saver_ok lg p db"
  shows "saver_ok lg p db'"
proof -
  obtain items where items: "list_checkpoints lg p db [(''configurable'', JObj [(''thread_id'', JStr src)])] [] [] None = Some items"
    "copy_loop lg p target (rev items) db = Some db'"
    using assms(2) by (auto simp: copy_thread_def bind_eq_Some_conv)
  show ?thesis using copy_loop_ok [OF items(2) assms(3)] listed_good [OF assms(1,3) items(1)] by simp
qed

lemma delete_threads_ok: "delete_threads p ts db = Some db' \<Longrightarrow> saver_ok lg p db \<Longrightarrow> saver_ok lg p db'"
  by (induction ts arbitrary: db) (auto simp: bind_eq_Some_conv dest: delete_thread_ok)

lemma prune_ok: "prune p db ts strategy = Some db' \<Longrightarrow> saver_ok lg p db \<Longrightarrow> saver_ok lg p db'"
  by (auto simp: prune_def delete_threads_ok split: if_splits)

text \<open>The life of the store: the public operations of the class, in any order.\<close>

inductive saver_step :: "langgraph \<Rightarrow> string \<Rightarrow> cstore \<Rightarrow> cstore \<Rightarrow> bool" for lg p where
  sv_put: "put_checkpoint lg p db config cp md nv = Some (saved, db') \<Longrightarrow> good_checkpoint cp \<Longrightarrow> distinct (map fst nv) \<Longrightarrow> saver_step lg p db db'"
| sv_writes: "put_writes lg p db config pw tid path = Some db' \<Longrightarrow> saver_step lg p db db'"
| sv_delete_thread: "delete_thread p db t = Some db' \<Longrightarrow> saver_step lg p db db'"
| sv_delete_runs: "delete_for_runs lg p db runs = Some db' \<Longrightarrow> saver_step lg p db db'"
| sv_copy: "copy_thread lg p db t t' = Some db' \<Longrightarrow> saver_step lg p db db'"
| sv_prune: "prune p db ts strategy = Some db' \<Longrightarrow> saver_step lg p db db'"

lemma empty_store_ok: "saver_ok lg p Map.empty"
  by (simp add: saver_ok_def space_ok_def at_defs blob_ok_def writes_ok_def)

lemma reachable_ok:
  assumes "langgraph_ok lg" "(saver_step lg p)\<^sup>*\<^sup>* Map.empty db"
  shows "saver_ok lg p db"
  using assms(2)
proof (induction rule: rtranclp_induct)
  case base
  then show ?case by (rule empty_store_ok)
next
  case (step db db')
  from step.hyps(2) step.IH show ?case
    by cases (blast dest: put_ok put_writes_ok delete_thread_ok delete_for_runs_ok [OF assms(1)] copy_thread_ok [OF assms(1)] prune_ok)+
qed

subsection \<open>The latest checkpoint\<close>

lemma by_rank_top:
  assumes "distinct (map fst z)" "(c, n) \<in> set z" "\<And>x m. (x, m) \<in> set z \<Longrightarrow> x \<noteq> c \<Longrightarrow> m < n"
  shows "\<exists>cs. by_rank z = c # cs"
proof -
  let ?f = "\<lambda>(x, n). (n, x)"
  obtain ys x m where s: "sort_key ?f z = ys @ [(x, m)]"
    using assms(2) by (cases "sort_key ?f z" rule: rev_cases) (auto simp flip: set_empty)
  have set: "set z = insert (x, m) (set ys)" using arg_cong [OF s, of set] by simp
  have "sorted (map ?f (sort_key ?f z))" by (rule sorted_sort_key)
  then have "\<forall>y \<in> set ys. ?f y \<le> (m, x)" unfolding s by (auto simp: sorted_append)
  then have "(n, c) \<le> (m, x)" using assms(2) set by auto
  then have "n \<le> m" by (auto simp: less_eq_prod_def)
  moreover have "m < n" if "x \<noteq> c" using assms(3) [of x m] that set by simp
  ultimately have "x = c" by force
  then show ?thesis by (simp add: by_rank_def s)
qed

text \<open>The value of a channel at a version, as the store has it.\<close>

definition blob_value :: "langgraph \<Rightarrow> string \<Rightarrow> cstore \<Rightarrow> string \<Rightarrow> string \<Rightarrow> string \<Rightarrow> string \<Rightarrow> json option" where
  "blob_value lg p db t ns ch v =
     (case text_at db (blob_key p t ns ch v) of None \<Rightarrow> None | Some s \<Rightarrow> if s = [] \<or> s = EMPTY_BLOB then None else decode lg s)"

lemma load_values_at:
  "load_values lg p db t ns vs = Some d \<Longrightarrow> distinct (map fst vs) \<Longrightarrow>
     dget d ch = (case map_of vs ch of None \<Rightarrow> None | Some ver \<Rightarrow> blob_value lg p db t ns ch (or_else (py_str ver) []))"
proof (induction vs arbitrary: d)
  case Nil
  then show ?case by (simp add: dget_def)
next
  case (Cons x vs)
  obtain ch' ver v payload where x: "x = (ch', ver)" "py_str ver = Some v" "c_get db (blob_key p t ns ch' v) = Some payload"
    using Cons.prems(1) by (cases x) (auto simp: bind_eq_Some_conv)
  have bv: "blob_value lg p db t ns ch' v = (if or_else payload [] = [] \<or> or_else payload [] = EMPTY_BLOB then None else decode lg (or_else payload []))"
    using x(3) by (auto simp: blob_value_def c_get_def split: if_splits option.splits)
  have notin: "map_of vs ch' = None" using Cons.prems(2) x(1) by (simp add: map_of_eq_None_iff)
  show ?case
  proof (cases "or_else payload [] = [] \<or> or_else payload [] = EMPTY_BLOB")
    case True
    then have "load_values lg p db t ns vs = Some d" using Cons.prems(1) x by (simp split: if_splits)
    from Cons.IH [OF this] show ?thesis using Cons.prems(2) x bv True notin by auto
  next
    case False
    then obtain y d' where "decode lg (or_else payload []) = Some y" "load_values lg p db t ns vs = Some d'" "d = (ch', y) # d'"
      using Cons.prems(1) x by (auto simp: bind_eq_Some_conv split: if_splits)
    then show ?thesis using Cons.IH [of d'] Cons.prems(2) x bv False by (auto simp: dget_def)
  qed
qed

lemma new_blob_value:
  assumes "langgraph_ok lg"
  shows "db (blob_key p t ns ch v) = Some (RStr (case dget vals ch of Some x \<Rightarrow> encode lg x | None \<Rightarrow> EMPTY_BLOB)) \<Longrightarrow>
    blob_value lg p db t ns ch v = dget vals ch"
  using encode_not_empty(1) [OF assms] encode_not_empty(2)
  by (cases "dget vals ch") (simp_all add: blob_value_def text_at_def decode_encode [OF assms])

lemma put_blob_value:
  assumes lg: "langgraph_ok lg"
    and blob: "db' (blob_key p t ns ch v) = (case new_blob lg vals nv ch v of Some s \<Rightarrow> Some (RStr s) | None \<Rightarrow> db (blob_key p t ns ch v))"
  shows "blob_value lg p db' t ns ch v =
    (if \<exists>ver. map_of nv ch = Some ver \<and> py_str ver = Some v then dget vals ch else blob_value lg p db t ns ch v)"
proof (cases "\<exists>ver. map_of nv ch = Some ver \<and> py_str ver = Some v")
  case True
  then have "blob_value lg p db' t ns ch v = dget vals ch" by (intro new_blob_value [OF lg]) (auto simp: blob new_blob_def)
  with True show ?thesis by simp
next
  case False
  then have "new_blob lg vals nv ch v = None" by (auto simp: new_blob_def split: option.splits)
  then have "blob_value lg p db' t ns ch v = blob_value lg p db t ns ch v" by (simp add: blob_value_def text_at_def blob)
  with False show ?thesis by auto
qed

lemma put_latest:
  assumes put: "put_checkpoint lg p db config cp md nv = Some (saved, db')" and parts: "config_parts lg config = Some (t, ns, parent)"
    and dist: "distinct (map fst nv)" and ok: "saver_ok lg p db"
  shows "\<exists>c. saved = result_config t ns c \<and> latest_id p db' t ns = Some (Some c)"
proof -
  let ?n = "seq_no db (sequence_key p t ns) + 1"
  let ?z = "scores_at db (index_key p t ns)"
  obtain c where f: "saved = result_config t ns c" "db' (index_key p t ns) = Some (RZset (AList.update c ?n ?z))"
    by (rule put_facts [OF put parts dist]) (rule that)
  have sp: "distinct (map fst ?z)" using ok by (simp add: saver_ok_def space_ok_def)
  have "m < ?n" if "(x, m) \<in> set ?z" for x m using indexed_entry [OF ok that] by (simp add: entry_ok_def)
  then obtain cs where "by_rank (AList.update c ?n ?z) = c # cs"
    using by_rank_top [of "AList.update c ?n ?z" c ?n] sp by (auto simp: in_scores_update distinct_update)
  then show ?thesis using f by (simp add: latest_id_def c_zrevrange_def at_defs)
qed

subsection \<open>Reading depends on one namespace\<close>

lemma load_values_cong: "same_space p t ns db db' \<Longrightarrow> load_values lg p db' t ns vs = load_values lg p db t ns vs"
proof (induction vs)
  case (Cons x vs)
  then have "c_get db' (blob_key p t ns ch v) = c_get db (blob_key p t ns ch v)" for ch v
    by (simp add: same_space_def c_get_def kind_at_def text_at_def)
  with Cons show ?case by (cases x) (simp cong: if_cong)
qed simp

lemma get_tuple_cong:
  assumes "same_space p t ns db db'" "config_parts lg config = Some (t, ns, given)"
  shows "get_tuple lg p db' config = get_tuple lg p db config"
proof -
  have "latest_id p db' t ns = latest_id p db t ns" using assms(1) by (simp add: same_space_def latest_id_def c_zrevrange_def at_defs)
  moreover have "pending_writes lg p db' t ns c = pending_writes lg p db t ns c" for c
    using assms(1) by (simp add: same_space_def pending_writes_def c_hgetall_def at_defs)
  then have "build_tuple lg p db' t ns c v = build_tuple lg p db t ns c v" for c v
    by (simp add: build_tuple_def load_values_cong [OF assms(1)])
  moreover have "c_hgetall db' (checkpoint_key p t ns c) = c_hgetall db (checkpoint_key p t ns c)" for c
    using assms(1) by (simp add: same_space_def c_hgetall_def at_defs)
  ultimately show ?thesis by (simp add: get_tuple_def assms(2) cong: if_cong)
qed

lemma get_tuple_config:
  assumes "langgraph_ok lg" "get_tuple lg p db (result_config t ns c) = Some (Some it)"
  shows "\<exists>c'. ct_config it = result_config t ns c'"
proof -
  obtain h c' where "build_tuple lg p db t ns c' h = Some it"
    using assms(2) by (auto simp: get_tuple_def config_parts_result [OF assms(1)] bind_eq_Some_conv split: if_splits)
  then show ?thesis by (auto simp: build_tuple_def bind_eq_Some_conv tuple_from_parts_def)
qed

lemma copy_item_space:
  assumes lg: "langgraph_ok lg" and copy: "copy_item lg p target it db = Some db'" and root: "ct_config it = result_config t [] c" "ns \<noteq> []"
  shows "same_space p target ns db db'"
proof -
  obtain conf vs saved db1 where run: "copy_config lg target it = Some conf"
    "put_checkpoint lg p db conf (ct_checkpoint it) (ct_metadata it) vs = Some (saved, db1)"
    "(if ct_pending_writes it = [] then Some db1 else put_writes lg p db1 saved (map snd (ct_pending_writes it)) ''copied'' []) = Some db'"
    using copy by (auto simp: copy_item_def bind_eq_Some_conv)
  obtain given where parts: "config_parts lg conf = Some (target, [], given)"
    using run(1) by (auto simp: copy_config_def root(1) result_config_def dget_def config_parts_def req_str_def opt_str_def Let_def)
  have first: "same_space p target ns db db1" using put_other_space [OF run(2) parts] root(2) by simp
  obtain c' where "saved = result_config target [] c'"
    using put_shape [OF run(2)] parts by (metis option.inject prod.inject)
  then have "same_space p target ns db1 db'" if "ct_pending_writes it \<noteq> []"
    using that run(3) put_writes_space(2) [OF _ config_parts_result [OF lg]] root(2) by auto
  then show ?thesis using first run(3) same_space_trans by (cases "ct_pending_writes it = []") auto
qed

lemma copy_loop_space:
  assumes "langgraph_ok lg"
  shows "copy_loop lg p target items db = Some db' \<Longrightarrow> \<forall>it \<in> set items. \<exists>t c. ct_config it = result_config t [] c \<Longrightarrow> ns \<noteq> [] \<Longrightarrow>
    same_space p target ns db db'"
proof (induction items arbitrary: db)
  case Nil
  then show ?case by (simp add: same_space_def)
next
  case (Cons it items)
  then obtain db1 where db1: "copy_item lg p target it db = Some db1" "copy_loop lg p target items db1 = Some db'"
    by (auto simp: bind_eq_Some_conv)
  obtain t c where it: "ct_config it = result_config t [] c" using Cons.prems(2) by auto
  have "same_space p target ns db1 db'" using Cons.IH [OF db1(2)] Cons.prems(2,3) by simp
  with copy_item_space [OF assms db1(1) it Cons.prems(3)] show ?case by (rule same_space_trans)
qed

text \<open>A field of pending writes, once there, stays.\<close>

abbreviation write_field :: "string \<Rightarrow> nat \<Rightarrow> string" where
  "write_field tid i \<equiv> quote tid @ CHR '':'' # show_int (int i)"

lemma write_loop_fields:
  assumes "list_all (\<lambda>(ch, v). WRITES_IDX_MAP lg ch = None) pw" "write_loop lg k tid path i pw db = Some db'"
  shows "(\<forall>f. map_of (fields_at db k) f \<noteq> None \<longrightarrow> map_of (fields_at db' k) f \<noteq> None) \<and>
    (\<forall>j. i \<le> j \<and> j < i + length pw \<longrightarrow> map_of (fields_at db' k) (write_field tid j) \<noteq> None) \<and> (pw \<noteq> [] \<longrightarrow> kind_at db' k KHash)"
  using assms
proof (induction pw arbitrary: i db)
  case Nil
  then show ?case by auto
next
  case (Cons w pw)
  obtain ch v where w: "w = (ch, v)" "WRITES_IDX_MAP lg ch = None" using Cons.prems(1) by (cases w) auto
  obtain db1 where db1: "c_hsetnx db k (write_field tid i) (write_payload lg tid ch v path (int i)) = Some db1"
    "write_loop lg k tid path (Suc i) pw db1 = Some db'"
    using Cons.prems(2) w by (auto simp: Let_def bind_eq_Some_conv)
  have one: "map_of (fields_at db k) f \<noteq> None \<longrightarrow> map_of (fields_at db1 k) f \<noteq> None"
    "map_of (fields_at db1 k) (write_field tid i) \<noteq> None" "kind_at db1 k KHash" for f
    using db1(1) by (auto simp: c_hsetnx_def fields_at_def kind_at_def AList.update_conv split: if_splits)
  note ih = Cons.IH [OF _ db1(2)]
  have "kind_at db' k KHash" using ih Cons.prems(1) db1(2) one(3) by (cases pw) auto
  moreover have "map_of (fields_at db' k) (write_field tid j) \<noteq> None" if "i \<le> j" "j < i + length (w # pw)" for j
    using ih Cons.prems(1) one(2) that by (cases "j = i") auto
  ultimately show ?case using ih Cons.prems(1) one(1) by auto
qed

lemma write_loop_noop:
  assumes "kind_at db k KHash"
  shows "list_all (\<lambda>(ch, v). WRITES_IDX_MAP lg ch = None) pw \<Longrightarrow>
    \<forall>j. i \<le> j \<and> j < i + length pw \<longrightarrow> map_of (fields_at db k) (write_field tid j) \<noteq> None \<Longrightarrow> write_loop lg k tid path i pw db = Some db"
proof (induction pw arbitrary: i)
  case Nil
  then show ?case by simp
next
  case (Cons w pw)
  obtain ch v where w: "w = (ch, v)" "WRITES_IDX_MAP lg ch = None" using Cons.prems(1) by (cases w) auto
  have "map_of (fields_at db k) (write_field tid i) \<noteq> None" using Cons.prems(2) by simp
  then have "c_hsetnx db k (write_field tid i) x = Some db" for x using assms by (simp add: c_hsetnx_def)
  moreover have "write_loop lg k tid path (Suc i) pw db = Some db" using Cons.IH [of "Suc i"] Cons.prems by simp
  ultimately show ?case using w by (simp add: Let_def)
qed

subsection \<open>Properties\<close>

text \<open>
  C34: a checkpoint the index of a namespace names can always be read. After any sequence of puts,
  writes, deletions, copies and prunings on an empty store, reading the index succeeds and every
  id in it leads to a complete tuple under that id.
\<close>

theorem checkpoints_readable:
  assumes "langgraph_ok lg" "(saver_step lg p)\<^sup>*\<^sup>* Map.empty db"
  shows "\<exists>ids. c_zrevrange db (index_key p t ns) = Some ids \<and>
    (\<forall>c \<in> set ids. \<exists>it. get_tuple lg p db (result_config t ns c) = Some (Some it) \<and> ct_config it = result_config t ns c)"
proof -
  have ok: "saver_ok lg p db" using reachable_ok [OF assms] .
  then have "kind_at db (index_key p t ns) KZset" by (simp add: saver_ok_def space_ok_def)
  moreover have "\<exists>it. get_tuple lg p db (result_config t ns c) = Some (Some it) \<and> ct_config it = result_config t ns c"
    if "c \<in> set (by_rank (scores_at db (index_key p t ns)))" for c
    using that indexed_readable [OF assms(1) ok] unfolding set_by_rank by fastforce
  ultimately show ?thesis by (simp add: c_zrevrange_def)
qed

text \<open>
  C33: a checkpoint is read back as it was put, and it is the latest. In a store that any history
  of operations left behind, the configuration \<open>put\<close> returns, and every configuration of the same
  thread and namespace without an id, give the same tuple: it has the metadata and the parent of
  the put and every entry of the checkpoint, each channel the put gave a new version has the value
  it was put with (none, if it had none), and every other channel the value its version had in the
  store.
\<close>

theorem put_then_get:
  assumes lg: "langgraph_ok lg" and reach: "(saver_step lg p)\<^sup>*\<^sup>* Map.empty db"
    and put: "put_checkpoint lg p db config cp md nv = Some (saved, db')" and good: "good_checkpoint cp" "distinct (map fst nv)"
    and parts: "config_parts lg config = Some (t, ns, parent)" "values_of cp = Some vals" "versions_of cp = Some vs"
    and fresh: "config_parts lg config0 = Some (t, ns, None)"
  shows "\<exists>it d. get_tuple lg p db' saved = Some (Some it) \<and> get_tuple lg p db' config0 = Some (Some it) \<and> ct_config it = saved \<and>
    ct_metadata it = get_checkpoint_metadata lg config md \<and>
    ct_parent_config it = (if or_else parent [] = [] then None else Some (result_config t ns (or_else parent []))) \<and>
    (\<forall>k. k \<noteq> ''channel_values'' \<longrightarrow> dget (ct_checkpoint it) k = dget cp k) \<and>
    dget (ct_checkpoint it) ''channel_values'' = Some (JObj d) \<and>
    (\<forall>ch ver v. map_of vs ch = Some ver \<longrightarrow> py_str ver = Some v \<longrightarrow>
       dget d ch = (if \<exists>ver'. map_of nv ch = Some ver' \<and> py_str ver' = Some v then dget vals ch else blob_value lg p db t ns ch v))"
proof -
  obtain c vals1 where f: "req_str cp ''id'' = Some c" "saved = result_config t ns c" and vals1: "values_of cp = Some vals1"
    and hash: "db' (checkpoint_key p t ns c) =
       Some (RHash (fold (\<lambda>(f, v). AList.update f v) (stored_fields lg config cp md parent) (fields_at db (checkpoint_key p t ns c))))"
    and blob1: "\<And>ch v. db' (blob_key p t ns ch v) = (case new_blob lg vals1 nv ch v of Some s \<Rightarrow> Some (RStr s) | None \<Rightarrow> db (blob_key p t ns ch v))"
    by (rule put_facts [OF put parts(1) good(2)]) (rule that)
  have "vals1 = vals" using vals1 parts(2) by simp
  note blob = blob1 [unfolded this]
  have c: "c \<noteq> []" using f(1) good(1) by (auto simp: good_checkpoint_def)
  have ok: "saver_ok lg p db" using reachable_ok [OF lg reach] .
  let ?cp = "AList.delete ''channel_values'' cp"
  obtain h where h: "db' (checkpoint_key p t ns c) = Some (RHash h)" "map_of h ''checkpoint'' = Some (encode lg (JObj ?cp))"
    "map_of h ''metadata'' = Some (encode lg (get_checkpoint_metadata lg config md))" "map_of h ''parent'' = Some (or_else parent [])"
    by (simp add: hash stored_hash)
  obtain vs1 d wr where d: "versions_of ?cp = Some vs1" "distinct (map fst vs1)" "load_values lg p db' t ns vs1 = Some d"
    "get_tuple lg p db' saved = Some (Some (tuple_from_parts t ns c ?cp d (get_checkpoint_metadata lg config md) (or_else parent []) wr))"
    using hash_readable [OF lg put_ok [OF put ok good] c h(1-3) good_stripped [OF good(1)]] h(4) f(2) by auto
  have vs1: "vs1 = vs" using d(1) parts(3) by (simp add: versions_of_def dget_def AList.delete_conv)
  have vals: "dget d ch = (if \<exists>ver'. map_of nv ch = Some ver' \<and> py_str ver' = Some v then dget vals ch else blob_value lg p db t ns ch v)"
    if "map_of vs ch = Some ver" "py_str ver = Some v" for ch ver v
    using load_values_at [OF d(3,2), of ch] put_blob_value [of lg db' p t ns ch v db vals nv, OF lg blob] that vs1 by auto
  have "latest_id p db' t ns = Some (Some c)" using put_latest [OF put parts(1) good(2) ok] f(2) by (simp add: result_config_def)
  then have again: "get_tuple lg p db' config0 = get_tuple lg p db' saved"
    using c by (simp add: get_tuple_def fresh f(2) config_parts_result [OF lg])
  let ?it = "tuple_from_parts t ns c ?cp d (get_checkpoint_metadata lg config md) (or_else parent []) wr"
  have "dget (ct_checkpoint ?it) k = dget cp k" if "k \<noteq> ''channel_values''" for k
    using that by (simp add: tuple_from_parts_def dget_def AList.update_conv AList.delete_conv)
  moreover have "ct_config ?it = saved" "ct_metadata ?it = get_checkpoint_metadata lg config md"
    "ct_parent_config ?it = (if or_else parent [] = [] then None else Some (result_config t ns (or_else parent [])))"
    "dget (ct_checkpoint ?it) ''channel_values'' = Some (JObj d)"
    by (simp_all add: tuple_from_parts_def f(2) dget_def AList.update_conv)
  ultimately show ?thesis using d(4) again vals by (intro exI [of _ ?it] exI [of _ d]) simp
qed

text \<open>A listing with the limit zero still gives one checkpoint: the limit is tested after the first one.\<close>

lemma list_limit_zero:
  "get_tuple lg p db (result_config t ns c) = Some (Some it) \<Longrightarrow> list_loop lg p db [] (Some 0) ((t, ns, c) # ids) = Some [it]"
  by (simp add: matches_def)

text \<open>
  C36: the first writes of a task count. When a task runs again for the same checkpoint, after a
  crash for example, and writes to ordinary channels no more often than before, then whatever it
  writes now the store stays as the first run left it.
\<close>

theorem put_writes_once:
  assumes "put_writes lg p db config pw tid path = Some db1" "length pw' \<le> length pw" "pw \<noteq> []"
    and "list_all (\<lambda>(ch, v). WRITES_IDX_MAP lg ch = None) pw" "list_all (\<lambda>(ch, v). WRITES_IDX_MAP lg ch = None) pw'"
  shows "put_writes lg p db1 config pw' tid path' = Some db1"
proof -
  obtain t ns given where parts: "config_parts lg config = Some (t, ns, given)" "or_else given [] \<noteq> []"
    "write_loop lg (writes_key p t ns (or_else given [])) tid path 0 pw db = Some db1"
    using assms(1) by (auto simp: put_writes_def bind_eq_Some_conv split: if_splits)
  note first = write_loop_fields [OF assms(4) parts(3)]
  have "write_loop lg (writes_key p t ns (or_else given [])) tid path' 0 pw' db1 = Some db1"
    using first assms(2,3) by (intro write_loop_noop [OF _ assms(5)]) auto
  with parts(1,2) show ?thesis by (simp add: put_writes_def)
qed

text \<open>
  C35: deleting a thread removes all of it and nothing else. Afterwards no configuration of the
  thread leads to a checkpoint, whatever its namespace, and every configuration of another thread
  gives what it gave before.
\<close>

theorem delete_thread_exact:
  assumes "delete_thread p db t = Some db'" "config_parts lg config = Some (t', ns, given)"
  shows "get_tuple lg p db' config = (if t' = t then Some None else get_tuple lg p db config)"
proof (cases "t' = t")
  case True
  then show ?thesis
    using assms(2) by (simp add: get_tuple_def latest_id_def c_zrevrange_def c_hgetall_def at_defs by_rank_def key_simps delete_thread_keys [OF assms(1)])
next
  case False
  then show ?thesis using get_tuple_cong [OF delete_thread_space(1) [OF assms(1) False] assms(2)] by simp
qed

text \<open>
  A copy of a thread has the root namespace only. Copying leaves every other namespace of the
  target as it was, so the checkpoints the copied thread has in other namespaces are missing there.
\<close>

theorem copy_root_only:
  assumes lg: "langgraph_ok lg" and copy: "copy_thread lg p db src target = Some db'"
    and "config_parts lg config = Some (target, ns, given)" "ns \<noteq> []"
  shows "get_tuple lg p db' config = get_tuple lg p db config"
proof -
  let ?c = "[(''configurable'', JObj [(''thread_id'', JStr src)])]"
  obtain items where items: "list_checkpoints lg p db ?c [] [] None = Some items" "copy_loop lg p target (rev items) db = Some db'"
    using copy by (auto simp: copy_thread_def bind_eq_Some_conv)
  have "config_parts lg ?c = Some (src, [], None)"
    using langgraph_okD(3) [OF lg, of ?c "[(''thread_id'', JStr src)]"] by (simp add: config_parts_def dget_def req_str_def opt_str_def)
  then have ns: "ns' = []" if "list_ids lg p db ?c [] = Some ids" "(t, ns', c) \<in> set ids" for t ns' c ids
    using that ids_in_indexed [of p db _ _ src "[]" ids t ns' c] by (auto simp: list_ids_def)
  have root: "\<exists>t c. ct_config it = result_config t [] c" if it: "it \<in> set items" for it
  proof -
    obtain ids where ids: "list_ids lg p db ?c [] = Some ids" "list_loop lg p db [] None ids = Some items"
      using items(1) by (auto simp: list_checkpoints_def bind_eq_Some_conv)
    obtain t ns' c where m: "(t, ns', c) \<in> set ids" "get_tuple lg p db (result_config t ns' c) = Some (Some it)"
      using list_loop_member [OF ids(2) it] by auto
    show ?thesis using get_tuple_config [OF lg m(2)] ns [OF ids(1) m(1)] by blast
  qed
  have "same_space p target ns db db'" using copy_loop_space [OF lg items(2) _ assms(4)] root by simp
  from get_tuple_cong [OF this assms(3)] show ?thesis .
qed

subsection \<open>An example\<close>

text \<open>A serializer that numbers the JSON values, and one put into an empty store.\<close>

instance json :: countable
  by countable_datatype

definition example_lg :: langgraph where
  "example_lg = \<lparr>dumps_typed = (\<lambda>v. (''number'', show_nat (to_nat v))), loads_typed = (\<lambda>(kd, s). map_option from_nat (parse_nat s)),
     get_checkpoint_id = (\<lambda>config. case dget config ''configurable'' of Some (JObj d) \<Rightarrow>
        (case dget d ''checkpoint_id'' of Some (JStr c) \<Rightarrow> Some c | _ \<Rightarrow> None) | _ \<Rightarrow> None),
     get_checkpoint_metadata = (\<lambda>config md. md), WRITES_IDX_MAP = (\<lambda>ch. if ch = ''__error__'' then Some (-1) else None)\<rparr>"

definition example_config :: dict where
  "example_config = [(''configurable'', JObj [(''thread_id'', JStr ''t''), (''checkpoint_ns'', JStr ''n'')])]"

definition example_cp :: dict where
  "example_cp = [(''id'', JStr ''c''), (''channel_values'', JObj [(''m'', JInt 7)]), (''channel_versions'', JObj [(''m'', JInt 1)])]"

lemma example_lg_ok: "langgraph_ok example_lg"
  by (simp add: langgraph_ok_def example_lg_def split: prod.splits)

lemma example_parts: "config_parts example_lg example_config = Some (''t'', ''n'', None)"
  by (simp add: config_parts_def example_config_def example_lg_def dget_def req_str_def opt_str_def)

lemma example_good: "good_checkpoint example_cp" "values_of example_cp = Some [(''m'', JInt 7)]" "versions_of example_cp = Some [(''m'', JInt 1)]"
  by (simp_all add: good_checkpoint_def example_cp_def req_str_def versions_of_def values_of_def dget_def)

lemma example_put: "\<exists>db. put_checkpoint example_lg ''p'' Map.empty example_config example_cp JNull [(''m'', JInt 1)] =
    Some (result_config ''t'' ''n'' ''c'', db)"
proof -
  have "req_str example_cp ''id'' = Some ''c''" by (simp add: example_cp_def req_str_def dget_def)
  then show ?thesis
    by (simp add: put_checkpoint_def put_commit_def example_parts example_good(2) c_defs at_defs key_simps)
qed

lemma example_reach:
  "put_checkpoint example_lg ''p'' Map.empty example_config example_cp JNull [(''m'', JInt 1)] = Some (saved, db) \<Longrightarrow>
     saver_step example_lg ''p'' Map.empty db"
  by (rule sv_put, assumption) (simp_all add: example_good)

lemma example_stored:
  obtains db where "put_checkpoint example_lg ''p'' Map.empty example_config example_cp JNull [(''m'', JInt 1)] = Some (result_config ''t'' ''n'' ''c'', db)"
    "(saver_step example_lg ''p'')\<^sup>*\<^sup>* Map.empty db" "scores_at db (index_key ''p'' ''t'' ''n'') = [(''c'', 1)]"
    "db (index_key ''p'' ''t'' []) = None" "kind_at db (threads_key ''p'') KSet"
proof -
  obtain db where put: "put_checkpoint example_lg ''p'' Map.empty example_config example_cp JNull [(''m'', JInt 1)] =
      Some (result_config ''t'' ''n'' ''c'', db)"
    using example_put by blast
  have "req_str example_cp ''id'' = Some ''c''" by (simp add: example_cp_def req_str_def dget_def)
  then have "scores_at db (index_key ''p'' ''t'' ''n'') = [(''c'', 1)]" "db (index_key ''p'' ''t'' []) = None" "kind_at db (threads_key ''p'') KSet"
    using put by (auto simp: put_checkpoint_def put_commit_def example_parts example_good(2) c_defs at_defs key_simps)
  moreover have "(saver_step example_lg ''p'')\<^sup>*\<^sup>* Map.empty db" by (rule r_into_rtranclp) (rule example_reach [OF put])
  ultimately show ?thesis using that put by blast
qed

theorem checkpoints_readable_witness:
  "\<exists>db ids. (saver_step example_lg ''p'')\<^sup>*\<^sup>* Map.empty db \<and> c_zrevrange db (index_key ''p'' ''t'' ''n'') = Some ids \<and> ids \<noteq> [] \<and>
     (\<forall>c \<in> set ids. \<exists>it. get_tuple example_lg ''p'' db (result_config ''t'' ''n'' c) = Some (Some it))"
proof (rule example_stored)
  fix db
  assume run: "(saver_step example_lg ''p'')\<^sup>*\<^sup>* Map.empty db" and ne: "scores_at db (index_key ''p'' ''t'' ''n'') = [(''c'', 1)]"
  obtain ids where ids: "c_zrevrange db (index_key ''p'' ''t'' ''n'') = Some ids"
    "\<forall>c \<in> set ids. \<exists>it. get_tuple example_lg ''p'' db (result_config ''t'' ''n'' c) = Some (Some it)"
    using checkpoints_readable [OF example_lg_ok run, of "''t''" "''n''"] by blast
  moreover have "ids \<noteq> []" using ids(1) ne by (auto simp: c_zrevrange_def by_rank_def split: if_splits)
  ultimately show ?thesis using run by auto
qed

theorem put_then_get_witness:
  "\<exists>db it d. put_checkpoint example_lg ''p'' Map.empty example_config example_cp JNull [(''m'', JInt 1)] = Some (result_config ''t'' ''n'' ''c'', db) \<and>
     get_tuple example_lg ''p'' db example_config = Some (Some it) \<and>
     dget (ct_checkpoint it) ''channel_values'' = Some (JObj d) \<and> dget d ''m'' = Some (JInt 7)"
proof -
  obtain db where put: "put_checkpoint example_lg ''p'' Map.empty example_config example_cp JNull [(''m'', JInt 1)] =
      Some (result_config ''t'' ''n'' ''c'', db)"
    using example_put by blast
  have "distinct (map fst [(''m'', JInt 1)])" by simp
  from put_then_get [OF example_lg_ok rtranclp.rtrancl_refl put example_good(1) this example_parts example_good(2,3) example_parts]
  show ?thesis using put by (force simp: dget_def)
qed

theorem put_writes_once_witness:
  "\<exists>db. put_writes example_lg ''p'' Map.empty (result_config ''t'' ''n'' ''c'') [(''m'', JInt 1)] ''task'' [] = Some db \<and>
     put_writes example_lg ''p'' db (result_config ''t'' ''n'' ''c'') [(''m'', JInt 2)] ''task'' [] = Some db"
proof -
  have nt: "WRITES_IDX_MAP example_lg ''m'' = None" by (simp add: example_lg_def)
  obtain db where first: "put_writes example_lg ''p'' Map.empty (result_config ''t'' ''n'' ''c'') [(''m'', JInt 1)] ''task'' [] = Some db"
    by (auto simp: put_writes_def config_parts_result [OF example_lg_ok] nt Let_def c_hsetnx_def at_defs)
  have "put_writes example_lg ''p'' db (result_config ''t'' ''n'' ''c'') [(''m'', JInt 2)] ''task'' [] = Some db"
    by (rule put_writes_once [OF first]) (simp_all add: nt)
  with first show ?thesis by blast
qed

theorem delete_thread_exact_witness:
  "\<exists>db db' it. (saver_step example_lg ''p'')\<^sup>*\<^sup>* Map.empty db \<and>
     get_tuple example_lg ''p'' db (result_config ''t'' ''n'' ''c'') = Some (Some it) \<and>
     delete_thread ''p'' db ''t'' = Some db' \<and> get_tuple example_lg ''p'' db' (result_config ''t'' ''n'' ''c'') = Some None"
proof (rule example_stored)
  fix db
  assume run: "(saver_step example_lg ''p'')\<^sup>*\<^sup>* Map.empty db" and scores: "scores_at db (index_key ''p'' ''t'' ''n'') = [(''c'', 1)]"
    and k: "kind_at db (threads_key ''p'') KSet"
  obtain it where it: "get_tuple example_lg ''p'' db (result_config ''t'' ''n'' ''c'') = Some (Some it)"
    using indexed_readable [OF example_lg_ok reachable_ok [OF example_lg_ok run], of "''c''" 1 "''t''" "''n''"] scores by auto
  obtain db' where del: "delete_thread ''p'' db ''t'' = Some db'"
    using delete_thread_defined [OF k] by blast
  from delete_thread_exact [OF del config_parts_result [OF example_lg_ok]] del it run show ?thesis by auto
qed

theorem copy_root_only_witness:
  "\<exists>db db'. (saver_step example_lg ''p'')\<^sup>*\<^sup>* Map.empty db \<and> scores_at db (index_key ''p'' ''t'' ''n'') = [(''c'', 1)] \<and>
     copy_thread example_lg ''p'' db ''t'' ''u'' = Some db' \<and>
     get_tuple example_lg ''p'' db' (result_config ''u'' ''n'' ''c'') = get_tuple example_lg ''p'' db (result_config ''u'' ''n'' ''c'')"
proof (rule example_stored)
  fix db
  assume run: "(saver_step example_lg ''p'')\<^sup>*\<^sup>* Map.empty db" "scores_at db (index_key ''p'' ''t'' ''n'') = [(''c'', 1)]"
    and none: "db (index_key ''p'' ''t'' []) = None"
  have "config_parts example_lg [(''configurable'', JObj [(''thread_id'', JStr ''t'')])] = Some (''t'', [], None)"
    by (simp add: config_parts_def example_lg_def dget_def req_str_def opt_str_def)
  then have copy: "copy_thread example_lg ''p'' db ''t'' ''u'' = Some db"
    by (simp add: copy_thread_def list_checkpoints_def list_ids_def ids_in_def c_zrevrange_def at_defs none by_rank_def)
  from copy_root_only [OF example_lg_ok copy config_parts_result [OF example_lg_ok], of "''n''" "''c''"] run copy show ?thesis by blast
qed

end
