(* ===== verification/Model_Failover.thy ===== *)
theory Model_Failover
  imports Models
begin

text \<open>
  Choosing among language models (\<open>ut_agent/model_failover.py\<close> and \<open>_completion_with_failover\<close> of
  \<open>ut_agent/llm.py\<close>). The health of a model is shared by all tasks through three keys in Redis, a
  circuit breaker: a record of the failure, a cooldown, and the lease of the one task that may
  probe the model after the cooldown. The call of the model, SHA-256 and the behaviour of the other
  tasks are arguments. Texts are UTF-8; letter case and white space are those of ASCII.
\<close>

subsection \<open>Keys with deadlines\<close>

text \<open>Values with the second at which Redis drops them, and the clock of Redis.\<close>

record health_db =
  hv :: "string \<Rightarrow> (string \<times> int) option"
  hclock :: int

definition h_get :: "health_db \<Rightarrow> string \<Rightarrow> string option" where
  "h_get db k = (case hv db k of Some (v, d) \<Rightarrow> if hclock db < d then Some v else None | None \<Rightarrow> None)"

definition h_set_ex :: "health_db \<Rightarrow> string \<Rightarrow> string \<Rightarrow> int \<Rightarrow> health_db" where
  "h_set_ex db k v secs = db\<lparr>hv := (hv db)(k \<mapsto> (v, hclock db + secs))\<rparr>"

definition h_delete :: "health_db \<Rightarrow> string \<Rightarrow> health_db" where
  "h_delete db k = db\<lparr>hv := (hv db)(k := None)\<rparr>"

definition COMPARE_AND_DELETE :: "health_db \<Rightarrow> string \<Rightarrow> string \<Rightarrow> health_db" where
  "COMPARE_AND_DELETE db k v = (if h_get db k = Some v then h_delete db k else db)"

text \<open>The client of the store: absent, present but failing on every command, or present.\<close>

datatype health_client = No_Redis | Unreachable health_db | Reachable health_db

subsection \<open>The health store\<close>

record model_failure =
  mf_code :: string
  mf_reason :: string
  mf_switchable :: bool
  mf_cooldown_eligible :: bool

record health_store =
  hs_base_url :: string
  hs_cooldown_seconds :: int
  hs_probe_lease_seconds :: int

definition ModelHealthStore :: "string \<Rightarrow> int \<Rightarrow> int \<Rightarrow> health_store" where
  "ModelHealthStore base_url cooldown probe_lease =
     \<lparr>hs_base_url = lower (rev (dropWhile (\<lambda>c. c = CHR ''/'') (rev base_url))), hs_cooldown_seconds = cooldown,
      hs_probe_lease_seconds = probe_lease\<rparr>"

definition model_digest :: "(string \<Rightarrow> string) \<Rightarrow> health_store \<Rightarrow> string \<Rightarrow> string" where
  "model_digest sha st model = take 24 (sha (hs_base_url st @ ''|'' @ lower (strip model)))"

definition failure_key :: "(string \<Rightarrow> string) \<Rightarrow> health_store \<Rightarrow> string \<Rightarrow> string" where
  "failure_key sha st model = ''pr-agent:model-health:'' @ model_digest sha st model @ '':failure''"

definition cooldown_key :: "(string \<Rightarrow> string) \<Rightarrow> health_store \<Rightarrow> string \<Rightarrow> string" where
  "cooldown_key sha st model = ''pr-agent:model-health:'' @ model_digest sha st model @ '':cooldown''"

definition probe_key :: "(string \<Rightarrow> string) \<Rightarrow> health_store \<Rightarrow> string \<Rightarrow> string" where
  "probe_key sha st model = ''pr-agent:model-health:'' @ model_digest sha st model @ '':probe''"

text \<open>A lease of no length is refused by Redis, which the method takes for an unreachable store.\<close>

definition candidate_allowed :: "(string \<Rightarrow> string) \<Rightarrow> health_store \<Rightarrow> health_client \<Rightarrow> string \<Rightarrow> string \<Rightarrow> bool \<times> health_client" where
  "candidate_allowed sha st cl model owner =
     (case cl of
        Reachable db \<Rightarrow>
          (if or_else (h_get db (failure_key sha st model)) [] = [] then (True, cl)
           else if or_else (h_get db (cooldown_key sha st model)) [] \<noteq> [] then (False, cl)
           else if hs_probe_lease_seconds st \<le> 0 then (True, cl)
           else if h_get db (probe_key sha st model) = None
           then (True, Reachable (h_set_ex db (probe_key sha st model) owner (hs_probe_lease_seconds st)))
           else (h_get db (probe_key sha st model) = Some owner, cl))
      | _ \<Rightarrow> (True, cl))"

definition mark_failed ::
  "(string \<Rightarrow> string) \<Rightarrow> health_store \<Rightarrow> int \<Rightarrow> health_client \<Rightarrow> string \<Rightarrow> string \<Rightarrow> model_failure \<Rightarrow> health_client" where
  "mark_failed sha st now cl model owner f =
     (if \<not> mf_switchable f \<or> \<not> mf_cooldown_eligible f then cl else
      case cl of
        Reachable db \<Rightarrow>
          (let payload = print_json py_escape (JObj [(''code'', JStr (mf_code f)), (''failed_at'', JInt now)]);
               db1 = h_set_ex db (failure_key sha st model) payload (max 86400 (hs_cooldown_seconds st * 12)) in
           if hs_cooldown_seconds st \<le> 0 then Reachable db1
           else Reachable (COMPARE_AND_DELETE (h_set_ex db1 (cooldown_key sha st model) (mf_code f) (hs_cooldown_seconds st))
                  (probe_key sha st model) owner))
      | _ \<Rightarrow> cl)"

definition mark_succeeded :: "(string \<Rightarrow> string) \<Rightarrow> health_store \<Rightarrow> health_client \<Rightarrow> string \<Rightarrow> string \<Rightarrow> health_client" where
  "mark_succeeded sha st cl model owner =
     (case cl of
        Reachable db \<Rightarrow>
          Reachable (COMPARE_AND_DELETE (h_delete (h_delete db (failure_key sha st model)) (cooldown_key sha st model))
            (probe_key sha st model) owner)
      | _ \<Rightarrow> cl)"

subsection \<open>Candidates\<close>

text \<open>\<open>tuple(dict.fromkeys(...))\<close>: the first occurrences.\<close>

fun unique :: "'a list \<Rightarrow> 'a list" where
  "unique [] = []"
| "unique (x # xs) = x # filter (\<lambda>y. y \<noteq> x) (unique xs)"

definition ordered_candidates :: "string list \<Rightarrow> string option \<Rightarrow> string list" where
  "ordered_candidates models active =
     (let candidates = unique (filter (\<lambda>m. m \<noteq> []) (map strip models)) in
      if or_else active [] \<noteq> [] \<and> or_else active [] \<in> set candidates
      then dropWhile (\<lambda>m. m \<noteq> or_else active []) candidates else candidates)"

subsection \<open>Classifying failures\<close>

text \<open>
  An error as a text, or as an exception: its type, its text, whether it is a \<open>TimeoutError\<close> or a
  \<open>ConnectionError\<close>, and the values of \<open>status_code\<close>, \<open>http_status\<close> and \<open>status\<close> of the error and of
  its response, in the order they are tried.
\<close>

datatype model_error = Text_Error string | Exc_Error string string bool "json option list"

text \<open>The search for \<open>(?<!\d)([45]\d{2})(?!\d)\<close>; the flag tells whether the character before is a digit.\<close>

fun find_status :: "bool \<Rightarrow> string \<Rightarrow> int option" where
  "find_status after_digit (a # b # c # r) =
     (if \<not> after_digit \<and> (a = CHR ''4'' \<or> a = CHR ''5'') \<and> is_digit b \<and> is_digit c \<and> (case r of [] \<Rightarrow> True | d # _ \<Rightarrow> \<not> is_digit d)
      then map_option int (parse_nat [a, b, c])
      else find_status (is_digit a) (b # c # r))"
| "find_status after_digit _ = None"

fun first_int :: "json option list \<Rightarrow> int option" where
  "first_int [] = None"
| "first_int (v # vs) = (case v of None \<Rightarrow> first_int vs | Some x \<Rightarrow> (case py_int x of Some n \<Rightarrow> Some n | None \<Rightarrow> first_int vs))"

fun status_code :: "model_error \<Rightarrow> int option" where
  "status_code (Text_Error s) = find_status False s"
| "status_code (Exc_Error ty s transient attrs) = (case first_int attrs of Some n \<Rightarrow> Some n | None \<Rightarrow> find_status False s)"

fun error_reason :: "model_error \<Rightarrow> string" where
  "error_reason (Text_Error s) = s"
| "error_reason (Exc_Error ty s transient attrs) = ty @ '': '' @ s"

fun error_transient :: "model_error \<Rightarrow> bool" where
  "error_transient (Text_Error s) = False"
| "error_transient (Exc_Error ty s transient attrs) = transient"

definition ModelFailure :: "string \<Rightarrow> string \<Rightarrow> bool \<Rightarrow> model_failure" where
  "ModelFailure code reason switchable = \<lparr>mf_code = code, mf_reason = reason, mf_switchable = switchable, mf_cooldown_eligible = True\<rparr>"

definition has_marker :: "string \<Rightarrow> string list \<Rightarrow> bool" where
  "has_marker s markers = list_ex (contains s) markers"

definition no_channel :: string where
  "no_channel =
     [CHR 0xE6, CHR 0x97, CHR 0xA0, CHR 0xE5, CHR 0x8F, CHR 0xAF, CHR 0xE7, CHR 0x94, CHR 0xA8, CHR 0xE6,
      CHR 0xB8, CHR 0xA0, CHR 0xE9, CHR 0x81, CHR 0x93]"

definition tool_call_error :: string where
  "tool_call_error = ''agent llm '' @
     [CHR 0xE5, CHR 0xB7, CHR 0xA5, CHR 0xE5, CHR 0x85, CHR 0xB7, CHR 0xE8, CHR 0xB0, CHR 0x83, CHR 0xE7,
      CHR 0x94, CHR 0xA8, CHR 0xE5, CHR 0x93, CHR 0x8D, CHR 0xE5, CHR 0xBA, CHR 0x94, CHR 0xE5, CHR 0xBC,
      CHR 0x82, CHR 0xE5, CHR 0xB8, CHR 0xB8]"

definition classify_model_failure :: "model_error \<Rightarrow> model_failure" where
  "classify_model_failure e =
     (let reason = error_reason e; normalized = lower reason; status = status_code e in
      if status = Some 401 \<or> status = Some 403 then ModelFailure (''http_'' @ show_int (or_else status 0)) reason False
      else if status = Some 400 then ModelFailure ''http_400'' reason False
      else if status = Some 402 \<or> contains normalized ''overage_request_limit_exceeded'' then ModelFailure ''quota_exceeded'' reason True
      else if status = Some 429 then ModelFailure ''rate_limited'' reason True
      else if has_marker normalized [''model_not_found'', no_channel, ''no available distributor'', ''service unavailable'',
              ''temporarily unavailable'']
      then ModelFailure ''model_unavailable'' reason True
      else if has_marker normalized [''invalid api response'', ''response.content invalid'', ''exceeded for invalid responses'']
      then (ModelFailure ''tool_protocol_error'' reason True)\<lparr>mf_cooldown_eligible := False\<rparr>
      else if (case status of Some n \<Rightarrow> 500 \<le> n \<and> n \<le> 599 | None \<Rightarrow> False)
      then ModelFailure (''http_'' @ show_int (or_else status 0)) reason True
      else if error_transient e \<or>
              has_marker normalized [''timeout'', ''timed out'', ''connectionerror'', ''connection error'', ''connection failed'']
      then ModelFailure ''connection_error'' reason True
      else if contains normalized tool_call_error then (ModelFailure ''tool_protocol_error'' reason True)\<lparr>mf_cooldown_eligible := False\<rparr>
      else ModelFailure ''request_failed'' reason False)"

subsection \<open>Calling the models in turn\<close>

definition SAME_MODEL_ATTEMPTS :: nat where
  "SAME_MODEL_ATTEMPTS = 3"

definition DIRECT_FAILOVER_CODES :: "string list" where
  "DIRECT_FAILOVER_CODES = [''quota_exceeded'', ''model_unavailable'', ''tool_schema_unsupported'']"

record model_attempt =
  ma_model :: string
  ma_failure_code :: string
  ma_reason :: string

record 'r call_outcome =
  oc_response :: "'r option"
  oc_model :: "string option"
  oc_attempts :: "model_attempt list"
  oc_terminal_error :: string

text \<open>
  What surrounds the loop: the answer of the \<open>n\<close>-th call of the model, what becomes of the shared
  store during that call and the pause after it, the time, the caller's check of a response (which
  may raise), the classifier and the API key.
\<close>

record 'r llm_context =
  acompletion :: "nat \<Rightarrow> string \<Rightarrow> model_error + 'r"
  meanwhile :: "nat \<Rightarrow> health_client \<Rightarrow> health_client"
  time_of :: "nat \<Rightarrow> int"
  response_validator :: "('r \<Rightarrow> model_error + model_failure option) option"
  failure_classifier :: "model_error \<Rightarrow> model_failure"
  api_key :: string

definition call_candidates :: "string list \<Rightarrow> string option \<Rightarrow> string option \<Rightarrow> string list" where
  "call_candidates MODEL_CANDIDATES requested active =
     (if or_else requested [] \<noteq> [] \<and> or_else requested [] \<notin> set MODEL_CANDIDATES then [or_else requested []]
      else ordered_candidates MODEL_CANDIDATES (if or_else active [] \<noteq> [] then active else requested))"

text \<open>\<open>s.replace(old, new)\<close> for a non-empty \<open>old\<close>, left to right.\<close>

function replace_all :: "string \<Rightarrow> string \<Rightarrow> string \<Rightarrow> string" where
  "replace_all old new s =
     (if old = [] \<or> s = [] then s
      else if startswith s old then new @ replace_all old new (drop (length old) s)
      else hd s # replace_all old new (tl s))"
  by pat_completeness auto

termination
  by (relation "measure (\<lambda>(old, new, s). length s)") (auto simp: neq_Nil_conv)

declare replace_all.simps [simp del]

text \<open>\<open>s.split()\<close>.\<close>

fun split_words :: "string \<Rightarrow> string \<Rightarrow> string list" where
  "split_words word [] = (if word = [] then [] else [word])"
| "split_words word (c # s) =
     (if is_space c then (if word = [] then split_words [] s else word # split_words [] s) else split_words (word @ [c]) s)"

definition compact_failure_reason :: "string \<Rightarrow> model_failure \<Rightarrow> string" where
  "compact_failure_reason key f =
     take_chars 240 (join '' '' (split_words [] (if key \<noteq> [] then replace_all key ''[REDACTED]'' (mf_reason f) else mf_reason f)))"

text \<open>\<open>model.split("/", 1)[-1]\<close>.\<close>

definition short_name :: "string \<Rightarrow> string" where
  "short_name m = (if CHR ''/'' \<in> set m then tl (dropWhile (\<lambda>c. c \<noteq> CHR ''/'') m) else m)"

definition list_comma :: string where
  "list_comma =
     [CHR 0xE3, CHR 0x80, CHR 0x81]"

definition terminal_model_error :: "model_attempt list \<Rightarrow> string" where
  "terminal_model_error attempts =
     (let names = join list_comma (unique (map (short_name \<circ> ma_model) attempts));
          codes = join list_comma (unique (filter (\<lambda>c. c \<noteq> []) (map ma_failure_code attempts))) in
      [CHR 0xE6, CHR 0xA8, CHR 0xA1, CHR 0xE5, CHR 0x9E, CHR 0x8B, CHR 0xE6, CHR 0x9C, CHR 0x8D, CHR 0xE5,
      CHR 0x8A, CHR 0xA1, CHR 0xE6, CHR 0x9A, CHR 0x82, CHR 0xE6, CHR 0x97, CHR 0xB6, CHR 0xE4, CHR 0xB8,
      CHR 0x8D, CHR 0xE5, CHR 0x8F, CHR 0xAF, CHR 0xE7, CHR 0x94, CHR 0xA8, CHR 0xEF, CHR 0xBC, CHR 0x9B,
      CHR 0xE5, CHR 0xB7, CHR 0xB2, CHR 0xE5, CHR 0xB0, CHR 0x9D, CHR 0xE8, CHR 0xAF, CHR 0x95, CHR 0xE6,
      CHR 0xA8, CHR 0xA1, CHR 0xE5, CHR 0x9E, CHR 0x8B, CHR 0xEF, CHR 0xBC, CHR 0x9A] @
      (if names \<noteq> [] then names else
        [CHR 0xE6, CHR 0x97, CHR 0xA0, CHR 0xE5, CHR 0x8F, CHR 0xAF, CHR 0xE7, CHR 0x94, CHR 0xA8, CHR 0xE5,
      CHR 0x80, CHR 0x99, CHR 0xE9, CHR 0x80, CHR 0x89, CHR 0xE6, CHR 0xA8, CHR 0xA1, CHR 0xE5, CHR 0x9E,
      CHR 0x8B]) @
      [CHR 0xEF, CHR 0xBC, CHR 0x9B, CHR 0xE5, CHR 0x8E, CHR 0x9F, CHR 0xE5, CHR 0x9B, CHR 0xA0, CHR 0xEF,
      CHR 0xBC, CHR 0x9A] @
      (if codes \<noteq> [] then codes else
        [CHR 0xE7, CHR 0xBA, CHR 0xBF, CHR 0xE8, CHR 0xB7, CHR 0xAF, CHR 0xE4, CHR 0xB8, CHR 0x8D, CHR 0xE5,
      CHR 0x8F, CHR 0xAF, CHR 0xE7, CHR 0x94, CHR 0xA8]) @
      [CHR 0xE3, CHR 0x80, CHR 0x82])"

definition request_failed_error :: "string \<Rightarrow> model_failure \<Rightarrow> string" where
  "request_failed_error model f =
      [CHR 0xE6, CHR 0xA8, CHR 0xA1, CHR 0xE5, CHR 0x9E, CHR 0x8B, CHR 0xE8, CHR 0xAF, CHR 0xB7, CHR 0xE6,
      CHR 0xB1, CHR 0x82, CHR 0xE5, CHR 0xA4, CHR 0xB1, CHR 0xE8, CHR 0xB4, CHR 0xA5, CHR 0xEF, CHR 0xBC,
      CHR 0x9A] @ short_name model @
      [CHR 0xEF, CHR 0xBC, CHR 0x88] @ mf_code f @
      [CHR 0xEF, CHR 0xBC, CHR 0x89, CHR 0xE3, CHR 0x80, CHR 0x82]"

definition call_failure :: "'r llm_context \<Rightarrow> nat \<Rightarrow> string \<Rightarrow> model_failure option" where
  "call_failure ctx n model =
     (case acompletion ctx n model of
        Inl e \<Rightarrow> Some (failure_classifier ctx e)
      | Inr r \<Rightarrow>
          (case response_validator ctx of
             None \<Rightarrow> None
           | Some check \<Rightarrow> (case check r of Inl e \<Rightarrow> Some (failure_classifier ctx e) | Inr f \<Rightarrow> f)))"

text \<open>The calls of one model: an outcome that ends the loop, or the state in which the next candidate is tried.\<close>

datatype 'r model_result = Done "'r call_outcome" nat health_client | Next "model_attempt list" nat health_client

fun try_model ::
  "(string \<Rightarrow> string) \<Rightarrow> health_store \<Rightarrow> 'r llm_context \<Rightarrow> string \<Rightarrow> string \<Rightarrow> nat \<Rightarrow> model_attempt list \<Rightarrow> nat \<Rightarrow> health_client \<Rightarrow>
   'r model_result"
where
  "try_model sha st ctx owner model 0 attempts n cl = Next attempts n cl"
| "try_model sha st ctx owner model (Suc left) attempts n cl =
     (let cl1 = meanwhile ctx n cl in
      case call_failure ctx n model of
        None \<Rightarrow>
          (case acompletion ctx n model of
             Inr r \<Rightarrow> Done \<lparr>oc_response = Some r, oc_model = Some model,
                 oc_attempts = attempts @ [\<lparr>ma_model = model, ma_failure_code = [], ma_reason = []\<rparr>], oc_terminal_error = []\<rparr>
               (Suc n) (mark_succeeded sha st cl1 model owner)
           | Inl _ \<Rightarrow> Next attempts (Suc n) cl1)
      | Some f \<Rightarrow>
          (let attempts1 = attempts @ [\<lparr>ma_model = model, ma_failure_code = mf_code f, ma_reason = compact_failure_reason (api_key ctx) f\<rparr>] in
           if \<not> mf_switchable f
           then Done \<lparr>oc_response = None, oc_model = None, oc_attempts = attempts1, oc_terminal_error = request_failed_error model f\<rparr> (Suc n) cl1
           else if mf_code f \<in> set DIRECT_FAILOVER_CODES \<or> left = 0
           then Next attempts1 (Suc n) (mark_failed sha st (time_of ctx n) cl1 model owner f)
           else try_model sha st ctx owner model left attempts1 (Suc n) cl1))"

fun failover_loop ::
  "(string \<Rightarrow> string) \<Rightarrow> health_store \<Rightarrow> 'r llm_context \<Rightarrow> string \<Rightarrow> string list \<Rightarrow> model_attempt list \<Rightarrow> nat \<Rightarrow> health_client \<Rightarrow>
   'r call_outcome \<times> nat \<times> health_client"
where
  "failover_loop sha st ctx owner [] attempts n cl =
     (\<lparr>oc_response = None, oc_model = None, oc_attempts = attempts, oc_terminal_error = terminal_model_error attempts\<rparr>, n, cl)"
| "failover_loop sha st ctx owner (model # models) attempts n cl =
     (case candidate_allowed sha st cl model owner of
        (False, cl1) \<Rightarrow>
          failover_loop sha st ctx owner models
            (attempts @ [\<lparr>ma_model = model, ma_failure_code = ''cooldown'', ma_reason = ''shared cooldown''\<rparr>]) n cl1
      | (True, cl1) \<Rightarrow>
          (case try_model sha st ctx owner model SAME_MODEL_ATTEMPTS attempts n cl1 of
             Done oc m cl2 \<Rightarrow> (oc, m, cl2)
           | Next attempts1 m cl2 \<Rightarrow> failover_loop sha st ctx owner models attempts1 m cl2))"

definition completion_with_failover ::
  "(string \<Rightarrow> string) \<Rightarrow> health_store \<Rightarrow> 'r llm_context \<Rightarrow> string \<Rightarrow> string list \<Rightarrow> string option \<Rightarrow> string option \<Rightarrow> health_client \<Rightarrow>
   'r call_outcome \<times> nat \<times> health_client"
where
  "completion_with_failover sha st ctx owner MODEL_CANDIDATES requested active cl =
     failover_loop sha st ctx owner (call_candidates MODEL_CANDIDATES requested active) [] 0 cl"

text \<open>The classifier of the calls with tools.\<close>

definition classify_tool_schema_failure :: "model_error \<Rightarrow> model_failure" where
  "classify_tool_schema_failure e =
     (let f = classify_model_failure e;
          normalized = lower (case e of Text_Error s \<Rightarrow> s | Exc_Error _ s _ _ \<Rightarrow> s) in
      if mf_code f = ''http_400'' \<and>
         has_marker normalized [''tool_choice'', ''tool schema'', ''tools is not supported'', ''function calling'', ''unsupported tool'']
      then ModelFailure ''tool_schema_unsupported'' (mf_reason f) True else f)"

subsection \<open>The keys of a model\<close>

lemma tails_differ:
  "xs @ '':failure'' \<noteq> ys @ '':cooldown''" "xs @ '':failure'' \<noteq> ys @ '':probe''" "xs @ '':cooldown'' \<noteq> ys @ '':probe''"
proof -
  have "hd (tl (rev (xs @ '':failure''))) \<noteq> hd (tl (rev (ys @ '':probe'')))" by simp
  then show "xs @ '':failure'' \<noteq> ys @ '':probe''" by metis
  have "last (xs @ '':failure'') \<noteq> last (ys @ '':cooldown'')" "last (xs @ '':cooldown'') \<noteq> last (ys @ '':probe'')" by simp_all
  then show "xs @ '':failure'' \<noteq> ys @ '':cooldown''" "xs @ '':cooldown'' \<noteq> ys @ '':probe''" by metis+
qed

lemma health_keys [simp]:
  "failure_key sha st m = failure_key sha st m' \<longleftrightarrow> model_digest sha st m = model_digest sha st m'"
  "cooldown_key sha st m = cooldown_key sha st m' \<longleftrightarrow> model_digest sha st m = model_digest sha st m'"
  "probe_key sha st m = probe_key sha st m' \<longleftrightarrow> model_digest sha st m = model_digest sha st m'"
  "failure_key sha st m \<noteq> cooldown_key sha st m'" "cooldown_key sha st m \<noteq> failure_key sha st m'"
  "failure_key sha st m \<noteq> probe_key sha st m'" "probe_key sha st m \<noteq> failure_key sha st m'"
  "cooldown_key sha st m \<noteq> probe_key sha st m'" "probe_key sha st m \<noteq> cooldown_key sha st m'"
  using tails_differ [of "model_digest sha st m" "model_digest sha st m'"] tails_differ [of "model_digest sha st m'" "model_digest sha st m"]
  by (simp_all add: failure_key_def cooldown_key_def probe_key_def)

lemmas h_defs = h_get_def h_set_ex_def h_delete_def COMPARE_AND_DELETE_def

text \<open>
  What the tasks do to the store while nobody reports a success of the model and the owners in
  \<open>silent\<close> report no failure; time passes.
\<close>

inductive health_step :: "(string \<Rightarrow> string) \<Rightarrow> health_store \<Rightarrow> string \<Rightarrow> string set \<Rightarrow> health_db \<Rightarrow> health_db \<Rightarrow> bool"
  for sha st model silent where
  hs_tick: "0 \<le> s \<Longrightarrow> health_step sha st model silent db (db\<lparr>hclock := hclock db + s\<rparr>)"
| hs_allowed: "candidate_allowed sha st (Reachable db) m w = (r, Reachable db') \<Longrightarrow> health_step sha st model silent db db'"
| hs_failed: "mark_failed sha st now (Reachable db) m w f = Reachable db' \<Longrightarrow> w \<notin> silent \<Longrightarrow> mf_code f \<noteq> [] \<Longrightarrow>
     health_step sha st model silent db db'"
| hs_succeeded: "mark_succeeded sha st (Reachable db) m w = Reachable db' \<Longrightarrow> model_digest sha st m \<noteq> model_digest sha st model \<Longrightarrow>
     health_step sha st model silent db db'"

lemma clock_step: "health_step sha st model silent db db' \<Longrightarrow> hclock db \<le> hclock db'"
  by (induction rule: health_step.induct)
    (auto simp: candidate_allowed_def mark_failed_def mark_succeeded_def Let_def h_defs split: if_splits)

lemma clock_run: "(health_step sha st model silent)\<^sup>*\<^sup>* db db' \<Longrightarrow> hclock db \<le> hclock db'"
  by (induction rule: rtranclp_induct) (auto dest: clock_step)

text \<open>A record of a failure that lasts until a time at least.\<close>

definition recorded :: "health_db \<Rightarrow> string \<Rightarrow> int \<Rightarrow> bool" where
  "recorded db k until \<longleftrightarrow> (\<exists>v d. hv db k = Some (v, d) \<and> v \<noteq> [] \<and> until \<le> d)"

lemma recorded_get: "recorded db k until \<Longrightarrow> hclock db < until \<Longrightarrow> or_else (h_get db k) [] \<noteq> []"
  by (auto simp: recorded_def h_get_def)

lemma payload_nonempty: "print_json py_escape (JObj kvs) \<noteq> []"
  by simp

lemma failure_kept:
  assumes "health_step sha st model silent db db'" "recorded db (failure_key sha st model) until" "until \<le> hclock db + 86400"
  shows "recorded db' (failure_key sha st model) until"
  using assms(1)
proof cases
  case (hs_failed now m w f)
  then show ?thesis
    using assms(2,3) payload_nonempty
    by (cases "model_digest sha st m = model_digest sha st model")
      (auto simp: mark_failed_def recorded_def Let_def h_defs split: if_splits)
qed (use assms(2) in \<open>auto simp: recorded_def candidate_allowed_def mark_succeeded_def h_defs split: if_splits\<close>)

lemma cooldown_kept:
  assumes "health_step sha st model silent db db'" "recorded db (cooldown_key sha st model) until" "until \<le> hclock db + hs_cooldown_seconds st"
  shows "recorded db' (cooldown_key sha st model) until"
  using assms(1)
proof cases
  case (hs_failed now m w f)
  then show ?thesis
    using assms(2,3)
    by (cases "model_digest sha st m = model_digest sha st model")
      (auto simp: mark_failed_def recorded_def Let_def h_defs split: if_splits)
qed (use assms(2) in \<open>auto simp: recorded_def candidate_allowed_def mark_succeeded_def h_defs split: if_splits\<close>)

lemma same_digest:
  "model_digest sha st m = model_digest sha st m' \<Longrightarrow> failure_key sha st m = failure_key sha st m' \<and>
     cooldown_key sha st m = cooldown_key sha st m' \<and> probe_key sha st m = probe_key sha st m'"
  by (simp add: failure_key_def cooldown_key_def probe_key_def)

lemma probe_kept:
  assumes "health_step sha st model {owner} db db'" "hv db (probe_key sha st model) = Some (owner, d)" "hclock db < d"
  shows "hv db' (probe_key sha st model) = Some (owner, d)"
  using assms(1)
proof cases
  case (hs_failed now m w f)
  then show ?thesis
  proof (cases "model_digest sha st m = model_digest sha st model")
    case True
    then show ?thesis
      using hs_failed assms(2,3) same_digest [OF True]
      by (auto simp: mark_failed_def Let_def h_defs simp del: health_keys(1-3) split: if_splits)
  next
    case False
    then show ?thesis using hs_failed assms(2,3) by (auto simp: mark_failed_def Let_def h_defs split: if_splits)
  qed
next
  case (hs_allowed m w r)
  then show ?thesis
  proof (cases "model_digest sha st m = model_digest sha st model")
    case True
    then show ?thesis
      using hs_allowed assms(2,3) same_digest [OF True]
      by (auto simp: candidate_allowed_def h_defs simp del: health_keys(1-3) split: if_splits)
  next
    case False
    then show ?thesis using hs_allowed assms(2,3) by (auto simp: candidate_allowed_def h_defs split: if_splits)
  qed
qed (use assms(2) in \<open>auto simp: mark_succeeded_def h_defs split: if_splits\<close>)

lemma probe_alone:
  assumes "candidate_allowed sha st (Reachable db) model owner = (True, Reachable db1)"
    and "recorded db (failure_key sha st model) (hclock db + hs_probe_lease_seconds st)" "h_get db (probe_key sha st model) = None"
    and "0 < hs_probe_lease_seconds st" "hs_probe_lease_seconds st \<le> 86400"
    and "(health_step sha st model {owner})\<^sup>*\<^sup>* db1 db2" "hclock db2 < hclock db + hs_probe_lease_seconds st" "other \<noteq> owner"
  shows "candidate_allowed sha st (Reachable db2) model other = (False, Reachable db2)"
proof -
  let ?until = "hclock db + hs_probe_lease_seconds st"
  have "or_else (h_get db (failure_key sha st model)) [] \<noteq> []" using recorded_get [OF assms(2)] assms(4) by simp
  then have db1: "db1 = h_set_ex db (probe_key sha st model) owner (hs_probe_lease_seconds st)"
    using assms(1,3,4) by (auto simp: candidate_allowed_def split: if_splits)
  have c1: "hclock db1 = hclock db" by (simp add: db1 h_set_ex_def)
  have "recorded db1 (failure_key sha st model) ?until \<and> hv db1 (probe_key sha st model) = Some (owner, ?until)"
    using assms(2) by (simp add: db1 recorded_def h_set_ex_def)
  with assms(6,7) have "recorded db2 (failure_key sha st model) ?until \<and> hv db2 (probe_key sha st model) = Some (owner, ?until)"
  proof (induction rule: rtranclp_induct)
    case (step db' db'')
    have "hclock db \<le> hclock db'" using clock_run [OF step.hyps(1)] c1 by simp
    moreover have "hclock db' < ?until" using clock_step [OF step.hyps(2)] step.prems(1) by simp
    ultimately show ?case
      using failure_kept [OF step.hyps(2)] probe_kept [OF step.hyps(2)] step.IH step.prems assms(5) by auto
  qed simp
  then have "or_else (h_get db2 (failure_key sha st model)) [] \<noteq> []" "h_get db2 (probe_key sha st model) = Some owner"
    using assms(7) recorded_get by (blast, simp add: h_get_def)
  then show ?thesis using assms(4,8) by (simp add: candidate_allowed_def)
qed

subsection \<open>One loop over the candidates\<close>

lemma unique_set [simp]: "set (unique xs) = set xs"
  by (induction xs) auto

lemma unique_distinct [simp]: "distinct (unique xs)"
  by (induction xs) auto

lemma distinct_candidates: "distinct (call_candidates ms requested active)"
  by (auto simp: call_candidates_def ordered_candidates_def Let_def)

text \<open>
  What the calls of a candidate amount to, when \<open>k\<close> calls are made and the first of them has the
  number \<open>n\<close>. A call is repeated on the same model when its failure allows another model but does
  not demand one. A candidate is given up when its last call failed in a way that demands another
  model, or it was the third; it answers when its last call is accepted; and it fails for good when
  the last call failed in a way that allows no other model.
\<close>

definition retried :: "'r llm_context \<Rightarrow> string \<Rightarrow> nat \<Rightarrow> bool" where
  "retried ctx m j \<longleftrightarrow> (\<exists>f. call_failure ctx j m = Some f \<and> mf_switchable f \<and>
     mf_code f \<notin> {''quota_exceeded'', ''model_unavailable'', ''tool_schema_unsupported''})"

definition gave_up :: "'r llm_context \<Rightarrow> string \<Rightarrow> nat \<Rightarrow> nat \<Rightarrow> model_failure \<Rightarrow> bool" where
  "gave_up ctx m n k f \<longleftrightarrow> 0 < k \<and> k \<le> 3 \<and> (\<forall>j < k - 1. retried ctx m (n + j)) \<and> call_failure ctx (n + k - 1) m = Some f \<and>
     mf_switchable f \<and> (mf_code f \<in> {''quota_exceeded'', ''model_unavailable'', ''tool_schema_unsupported''} \<or> k = 3)"

definition answered :: "'r llm_context \<Rightarrow> string \<Rightarrow> nat \<Rightarrow> nat \<Rightarrow> 'r \<Rightarrow> bool" where
  "answered ctx m n k r \<longleftrightarrow> 0 < k \<and> k \<le> 3 \<and> (\<forall>j < k - 1. retried ctx m (n + j)) \<and>
     acompletion ctx (n + k - 1) m = Inr r \<and> call_failure ctx (n + k - 1) m = None"

definition failed_for_good :: "'r llm_context \<Rightarrow> string \<Rightarrow> nat \<Rightarrow> nat \<Rightarrow> bool" where
  "failed_for_good ctx m n k \<longleftrightarrow> 0 < k \<and> k \<le> 3 \<and> (\<forall>j < k - 1. retried ctx m (n + j)) \<and>
     (\<exists>f. call_failure ctx (n + k - 1) m = Some f \<and> \<not> mf_switchable f)"

text \<open>
  The candidates that did not serve, in their order: each was refused by the health store as it was
  then, or called and given up, and reported as failed. \<open>n\<close> counts the calls.
\<close>

inductive passed_over ::
  "(string \<Rightarrow> string) \<Rightarrow> health_store \<Rightarrow> 'r llm_context \<Rightarrow> string \<Rightarrow> string list \<Rightarrow> nat \<Rightarrow> health_client \<Rightarrow> nat \<Rightarrow> health_client \<Rightarrow> bool"
  for sha st ctx owner where
  po_none: "passed_over sha st ctx owner [] n cl n cl"
| po_refused: "candidate_allowed sha st cl m owner = (False, cl1) \<Longrightarrow> passed_over sha st ctx owner ms n cl1 n' cl' \<Longrightarrow>
     passed_over sha st ctx owner (m # ms) n cl n' cl'"
| po_given_up: "candidate_allowed sha st cl m owner = (True, cl1) \<Longrightarrow> gave_up ctx m n k f \<Longrightarrow>
     passed_over sha st ctx owner ms (n + k)
       (mark_failed sha st (time_of ctx (n + k - 1)) (fold (meanwhile ctx) [n..<n + k] cl1) m owner f) n' cl' \<Longrightarrow>
     passed_over sha st ctx owner (m # ms) n cl n' cl'"

lemma direct_codes: "set DIRECT_FAILOVER_CODES = {''quota_exceeded'', ''model_unavailable'', ''tool_schema_unsupported''}"
  by (simp add: DIRECT_FAILOVER_CODES_def)

lemma call_failure_None: "call_failure ctx n m = None \<Longrightarrow> \<exists>r. acompletion ctx n m = Inr r"
  by (cases "acompletion ctx n m") (auto simp: call_failure_def)

lemma error_texts: "request_failed_error m f \<noteq> []" "terminal_model_error as \<noteq> []"
  by (simp_all add: request_failed_error_def terminal_model_error_def Let_def)

text \<open>The ways the calls of one model end, when \<open>left\<close> of them remain.\<close>

definition model_end ::
  "(string \<Rightarrow> string) \<Rightarrow> health_store \<Rightarrow> 'r llm_context \<Rightarrow> string \<Rightarrow> string \<Rightarrow> nat \<Rightarrow> nat \<Rightarrow> health_client \<Rightarrow> 'r model_result \<Rightarrow> bool"
where
  "model_end sha st ctx owner m left n cl res \<longleftrightarrow>
     (\<exists>k. 0 < k \<and> k \<le> left \<and> (\<forall>j < k - 1. retried ctx m (n + j)) \<and>
       (case res of
          Next as' n' cl' \<Rightarrow> n' = n + k \<and>
            (\<exists>f. call_failure ctx (n + k - 1) m = Some f \<and> mf_switchable f \<and> (mf_code f \<in> set DIRECT_FAILOVER_CODES \<or> k = left) \<and>
               cl' = mark_failed sha st (time_of ctx (n + k - 1)) (fold (meanwhile ctx) [n..<n + k] cl) m owner f)
        | Done oc n' cl' \<Rightarrow> n' = n + k \<and>
            ((\<exists>r. acompletion ctx (n + k - 1) m = Inr r \<and> call_failure ctx (n + k - 1) m = None \<and>
                oc_response oc = Some r \<and> oc_model oc = Some m \<and> oc_terminal_error oc = []) \<or>
             (\<exists>f. call_failure ctx (n + k - 1) m = Some f \<and> \<not> mf_switchable f) \<and>
                oc_response oc = None \<and> oc_model oc = None \<and> oc_terminal_error oc \<noteq> [])))"

lemma model_end_retry:
  assumes "model_end sha st ctx owner m left (Suc n) (meanwhile ctx n cl) res" "retried ctx m n"
  shows "model_end sha st ctx owner m (Suc left) n cl res"
proof -
  obtain k where k: "0 < k" "k \<le> left" "\<forall>j < k - 1. retried ctx m (Suc n + j)"
    and res: "case res of
          Next as' n' cl' \<Rightarrow> n' = Suc n + k \<and>
            (\<exists>f. call_failure ctx (Suc n + k - 1) m = Some f \<and> mf_switchable f \<and> (mf_code f \<in> set DIRECT_FAILOVER_CODES \<or> k = left) \<and>
               cl' = mark_failed sha st (time_of ctx (Suc n + k - 1)) (fold (meanwhile ctx) [Suc n..<Suc n + k] (meanwhile ctx n cl)) m owner f)
        | Done oc n' cl' \<Rightarrow> n' = Suc n + k \<and>
            ((\<exists>r. acompletion ctx (Suc n + k - 1) m = Inr r \<and> call_failure ctx (Suc n + k - 1) m = None \<and>
                oc_response oc = Some r \<and> oc_model oc = Some m \<and> oc_terminal_error oc = []) \<or>
             (\<exists>f. call_failure ctx (Suc n + k - 1) m = Some f \<and> \<not> mf_switchable f) \<and>
                oc_response oc = None \<and> oc_model oc = None \<and> oc_terminal_error oc \<noteq> [])"
    using assms(1) unfolding model_end_def by blast
  have "retried ctx m (n + j)" if "j < Suc k - 1" for j
    using that k(3) assms(2) by (cases j) auto
  moreover have "[n..<n + Suc k] = n # [Suc n..<Suc n + k]" by (simp add: upt_conv_Cons)
  ultimately show ?thesis unfolding model_end_def
    using k(1,2) res by (intro exI [of _ "Suc k"]) (auto split: model_result.splits)
qed

lemma try_model_end: "0 < left \<Longrightarrow> model_end sha st ctx owner m left n cl (try_model sha st ctx owner m left as n cl)"
proof (induction left arbitrary: as n cl)
  case (Suc left)
  show ?case
  proof (cases "call_failure ctx n m")
    case None
    then show ?thesis using call_failure_None [OF None] by (auto simp: model_end_def Let_def intro!: exI [of _ "1 :: nat"])
  next
    case (Some f)
    show ?thesis
    proof (cases "mf_switchable f \<and> mf_code f \<notin> set DIRECT_FAILOVER_CODES \<and> left \<noteq> 0")
      case True
      then have "retried ctx m n" using Some by (simp add: retried_def direct_codes)
      from model_end_retry [OF Suc.IH this] True Some show ?thesis by (simp add: Let_def)
    next
      case False
      then show ?thesis using Some error_texts by (auto simp: model_end_def Let_def intro!: exI [of _ "1 :: nat"])
    qed
  qed
qed simp

text \<open>How a call ends: all candidates were passed over, or one answered or failed for good.\<close>

definition failover_end ::
  "(string \<Rightarrow> string) \<Rightarrow> health_store \<Rightarrow> 'r llm_context \<Rightarrow> string \<Rightarrow> string list \<Rightarrow> nat \<Rightarrow> health_client \<Rightarrow> 'r call_outcome \<Rightarrow> nat \<Rightarrow> bool"
where
  "failover_end sha st ctx owner ms n cl oc n' \<longleftrightarrow>
     (\<exists>cl'. passed_over sha st ctx owner ms n cl n' cl' \<and> oc_response oc = None \<and> oc_model oc = None \<and> oc_terminal_error oc \<noteq> []) \<or>
     (\<exists>before m rest n1 cl1 k. ms = before @ m # rest \<and> passed_over sha st ctx owner before n cl n1 cl1 \<and>
        fst (candidate_allowed sha st cl1 m owner) \<and> n' = n1 + k \<and>
        ((\<exists>r. answered ctx m n1 k r \<and> oc_response oc = Some r \<and> oc_model oc = Some m \<and> oc_terminal_error oc = []) \<or>
         failed_for_good ctx m n1 k \<and> oc_response oc = None \<and> oc_model oc = None \<and> oc_terminal_error oc \<noteq> []))"

lemma failover_end_Cons:
  assumes "failover_end sha st ctx owner ms n1 cl1 oc n'"
    and "\<And>before n2 cl2. passed_over sha st ctx owner before n1 cl1 n2 cl2 \<Longrightarrow> passed_over sha st ctx owner (m # before) n cl n2 cl2"
  shows "failover_end sha st ctx owner (m # ms) n cl oc n'"
proof -
  consider (all) cl' where "passed_over sha st ctx owner ms n1 cl1 n' cl'" "oc_response oc = None" "oc_model oc = None" "oc_terminal_error oc \<noteq> []"
    | (some) before x rest n2 cl2 k where "ms = before @ x # rest" "passed_over sha st ctx owner before n1 cl1 n2 cl2"
      "fst (candidate_allowed sha st cl2 x owner)" "n' = n2 + k"
      "(\<exists>r. answered ctx x n2 k r \<and> oc_response oc = Some r \<and> oc_model oc = Some x \<and> oc_terminal_error oc = []) \<or>
         failed_for_good ctx x n2 k \<and> oc_response oc = None \<and> oc_model oc = None \<and> oc_terminal_error oc \<noteq> []"
    using assms(1) unfolding failover_end_def by blast
  then show ?thesis
  proof cases
    case all
    then show ?thesis using assms(2) unfolding failover_end_def by blast
  next
    case some
    then show ?thesis unfolding failover_end_def using assms(2) [OF some(2)]
      by (intro disjI2 exI [of _ "m # before"] exI [of _ x] exI [of _ rest] exI [of _ n2] exI [of _ cl2] exI [of _ k]) simp
  qed
qed

lemma failover_loop_end:
  "failover_loop sha st ctx owner ms as n cl = (oc, n', cl') \<Longrightarrow> failover_end sha st ctx owner ms n cl oc n'"
proof (induction sha st ctx owner ms as n cl rule: failover_loop.induct)
  case (1 sha st ctx owner as n cl)
  then show ?case using error_texts(2) by (auto simp: failover_end_def intro: po_none)
next
  case (2 sha st ctx owner m ms as n cl)
  obtain ok cl1 where allowed: "candidate_allowed sha st cl m owner = (ok, cl1)" by (cases "candidate_allowed sha st cl m owner")
  show ?case
  proof (cases ok)
    case False
    then have "failover_loop sha st ctx owner ms (as @ [\<lparr>ma_model = m, ma_failure_code = ''cooldown'', ma_reason = ''shared cooldown''\<rparr>]) n cl1 = (oc, n', cl')"
      using "2.prems" allowed by simp
    from "2.IH"(2) [OF allowed [symmetric] _ this] False have "failover_end sha st ctx owner ms n cl1 oc n'" by simp
    then show ?thesis by (rule failover_end_Cons) (rule po_refused [OF allowed [unfolded eq_False [THEN iffD2, OF False]]])
  next
    case True
    have e: "model_end sha st ctx owner m SAME_MODEL_ATTEMPTS n cl1 (try_model sha st ctx owner m SAME_MODEL_ATTEMPTS as n cl1)"
      by (rule try_model_end) (simp add: SAME_MODEL_ATTEMPTS_def)
    show ?thesis
    proof (cases "try_model sha st ctx owner m SAME_MODEL_ATTEMPTS as n cl1")
      case (Done oc1 k1 cl2)
      then have "oc = oc1" "n' = k1" using "2.prems" allowed True by simp_all
      then obtain k where "n' = n + k"
        "(\<exists>r. answered ctx m n k r \<and> oc_response oc = Some r \<and> oc_model oc = Some m \<and> oc_terminal_error oc = []) \<or>
         failed_for_good ctx m n k \<and> oc_response oc = None \<and> oc_model oc = None \<and> oc_terminal_error oc \<noteq> []"
        using e unfolding Done model_end_def by (auto simp: answered_def failed_for_good_def SAME_MODEL_ATTEMPTS_def)
      then show ?thesis unfolding failover_end_def using allowed True po_none
        by (intro disjI2 exI [of _ "[]"] exI [of _ m] exI [of _ ms] exI [of _ n] exI [of _ cl] exI [of _ k]) auto
    next
      case (Next as1 k1 cl2)
      have run: "failover_loop sha st ctx owner ms as1 k1 cl2 = (oc, n', cl')" using "2.prems" allowed True Next by simp
      obtain k f where k: "k1 = n + k" "gave_up ctx m n k f"
        "cl2 = mark_failed sha st (time_of ctx (n + k - 1)) (fold (meanwhile ctx) [n..<n + k] cl1) m owner f"
        using e unfolding Next model_end_def by (auto simp: gave_up_def SAME_MODEL_ATTEMPTS_def direct_codes)
      have "failover_end sha st ctx owner ms k1 cl2 oc n'" using "2.IH"(1) [OF allowed [symmetric] _ Next run] True by simp
      then show ?thesis by (rule failover_end_Cons) (use po_given_up [OF allowed [unfolded eq_True [THEN iffD2, OF True]] k(2)] k in simp)
    qed
  qed
qed

subsection \<open>Properties\<close>

text \<open>
  C37: a model that failed is left alone during its cooldown. After a task has reported a failure
  that counts, and until the cooldown is over or somebody reports a success of the model, no task
  is allowed to call it, whatever else the tasks do to the shared store.
\<close>

theorem breaker_open:
  assumes "mark_failed sha st now (Reachable db) model w f = Reachable db1"
    and "mf_switchable f" "mf_cooldown_eligible f" "mf_code f \<noteq> []" "0 < hs_cooldown_seconds st" "hs_cooldown_seconds st \<le> 86400"
    and "(health_step sha st model {})\<^sup>*\<^sup>* db1 db2" "hclock db2 < hclock db + hs_cooldown_seconds st"
  shows "candidate_allowed sha st (Reachable db2) model w' = (False, Reachable db2)"
proof -
  let ?until = "hclock db + hs_cooldown_seconds st"
  have c1: "hclock db1 = hclock db" using assms(1) by (auto simp: mark_failed_def Let_def h_defs split: if_splits)
  have "recorded db1 (failure_key sha st model) ?until \<and> recorded db1 (cooldown_key sha st model) ?until"
    using assms(1-6) payload_nonempty by (auto simp: mark_failed_def recorded_def Let_def h_defs split: if_splits)
  with assms(7) have "recorded db2 (failure_key sha st model) ?until \<and> recorded db2 (cooldown_key sha st model) ?until"
  proof (induction rule: rtranclp_induct)
    case (step db' db'')
    have "hclock db \<le> hclock db'" using clock_run [OF step.hyps(1)] c1 by simp
    then show ?case
      using failure_kept [OF step.hyps(2)] cooldown_kept [OF step.hyps(2)] step.IH step.prems assms(6) by auto
  qed simp
  then have "or_else (h_get db2 (failure_key sha st model)) [] \<noteq> []" "or_else (h_get db2 (cooldown_key sha st model)) [] \<noteq> []"
    using assms(8) recorded_get by blast+
  then show ?thesis by (simp add: candidate_allowed_def)
qed

text \<open>
  C38: after the cooldown one task probes the model. Let a failure that counts be reported, and later,
  with no success of the model reported in between, let a task be allowed to call the model while
  nobody holds the right to probe it. If the probe lease ends within a day of the report (so that the
  record of the failure outlives it; once the record has expired every task is allowed again), then
  until the lease is over no other task is allowed to call the model, as long as Redis answers, nobody
  reports a success of the model and the probing task reports no failure.
\<close>

theorem single_probe:
  assumes "mark_failed sha st now (Reachable db0) model w f = Reachable db1" "mf_switchable f" "mf_cooldown_eligible f"
    and "(health_step sha st model {})\<^sup>*\<^sup>* db1 db2"
    and "candidate_allowed sha st (Reachable db2) model owner = (True, Reachable db3)" "h_get db2 (probe_key sha st model) = None"
    and "0 < hs_probe_lease_seconds st" "hclock db2 + hs_probe_lease_seconds st \<le> hclock db0 + 86400"
    and "(health_step sha st model {owner})\<^sup>*\<^sup>* db3 db4" "hclock db4 < hclock db2 + hs_probe_lease_seconds st" "other \<noteq> owner"
  shows "candidate_allowed sha st (Reachable db4) model other = (False, Reachable db4)"
proof -
  define until where "until = hclock db2 + hs_probe_lease_seconds st"
  have c1: "hclock db1 = hclock db0" using assms(1-3) by (auto simp: mark_failed_def Let_def h_defs split: if_splits)
  have "recorded db1 (failure_key sha st model) until"
    using assms(1-3,8) payload_nonempty by (auto simp: until_def mark_failed_def recorded_def Let_def h_defs split: if_splits)
  with assms(4) have "recorded db2 (failure_key sha st model) until"
  proof (induction rule: rtranclp_induct)
    case (step db' db'')
    have "hclock db0 \<le> hclock db'" using clock_run [OF step.hyps(1)] c1 by simp
    then have "until \<le> hclock db' + 86400" using assms(8) by (simp add: until_def)
    then show ?case by (rule failure_kept [OF step.hyps(2) step.IH [OF step.prems]])
  qed simp
  moreover have "hs_probe_lease_seconds st \<le> 86400" using clock_run [OF assms(4)] c1 assms(8) by simp
  ultimately show ?thesis unfolding until_def by (intro probe_alone [OF assms(5) _ assms(6,7) _ assms(9-11)])
qed

text \<open>
  C39: a call with failover tries its candidates in their order, each at most once, and gives the first
  answer that is accepted. The candidates before the one that decides were passed over: refused by the
  health store in the state it had then, or called up to three times until a failure demanded another
  model or the third call failed, and then reported as failed. The candidate that decides is allowed
  by the store, and its last call is accepted and its answer is the outcome, or fails in a way that
  allows no other model, with an error text and no answer. If there is no such candidate, all of them
  were passed over, and there is an error text and no answer. The outcome counts all calls.
\<close>

theorem first_accepted_answer:
  assumes "completion_with_failover sha st ctx owner ms requested active cl = (oc, n, cl')"
  shows "distinct (call_candidates ms requested active) \<and>
    ((\<exists>cl'. passed_over sha st ctx owner (call_candidates ms requested active) 0 cl n cl' \<and>
        oc_response oc = None \<and> oc_model oc = None \<and> oc_terminal_error oc \<noteq> []) \<or>
     (\<exists>before m rest n1 cl1 k. call_candidates ms requested active = before @ m # rest \<and>
        passed_over sha st ctx owner before 0 cl n1 cl1 \<and> fst (candidate_allowed sha st cl1 m owner) \<and> n = n1 + k \<and>
        ((\<exists>r. answered ctx m n1 k r \<and> oc_response oc = Some r \<and> oc_model oc = Some m \<and> oc_terminal_error oc = []) \<or>
         failed_for_good ctx m n1 k \<and> oc_response oc = None \<and> oc_model oc = None \<and> oc_terminal_error oc \<noteq> [])))"
  using failover_loop_end [OF assms [unfolded completion_with_failover_def]] distinct_candidates
  unfolding failover_end_def by blast

subsection \<open>Examples\<close>

definition example_store :: health_store where
  "example_store = ModelHealthStore ''http://llm/'' 300 30"

definition empty_health :: health_db where
  "empty_health = \<lparr>hv = (\<lambda>_. None), hclock = 0\<rparr>"

lemma example_seconds [simp]: "hs_cooldown_seconds example_store = 300" "hs_probe_lease_seconds example_store = 30"
  by (simp_all add: example_store_def ModelHealthStore_def)

theorem breaker_open_witness:
  "\<exists>db. mark_failed id example_store 0 (Reachable empty_health) ''m'' ''w'' (ModelFailure ''rate_limited'' [] True) = Reachable db \<and>
     candidate_allowed id example_store (Reachable (db\<lparr>hclock := hclock db + 299\<rparr>)) ''m'' ''v'' = (False, Reachable (db\<lparr>hclock := hclock db + 299\<rparr>))"
proof -
  obtain db where fail: "mark_failed id example_store 0 (Reachable empty_health) ''m'' ''w'' (ModelFailure ''rate_limited'' [] True) = Reachable db"
    by (auto simp: mark_failed_def ModelFailure_def Let_def)
  have clock: "hclock db = 0" using fail by (auto simp: mark_failed_def ModelFailure_def Let_def h_defs empty_health_def split: if_splits)
  have "(health_step id example_store ''m'' {})\<^sup>*\<^sup>* db (db\<lparr>hclock := hclock db + 299\<rparr>)"
    by (rule r_into_rtranclp) (rule hs_tick, simp)
  from breaker_open [OF fail _ _ _ _ _ this] clock fail show ?thesis
    by (simp add: ModelFailure_def empty_health_def)
qed

text \<open>A failure at time 0, the probe of one task at time 300, the refusal of another at time 329.\<close>

theorem single_probe_witness:
  "\<exists>db1 db3. mark_failed id example_store 0 (Reachable empty_health) ''m'' ''w'' (ModelFailure ''rate_limited'' [] True) = Reachable db1 \<and>
     candidate_allowed id example_store (Reachable (db1\<lparr>hclock := 300\<rparr>)) ''m'' ''w'' = (True, Reachable db3) \<and>
     candidate_allowed id example_store (Reachable (db3\<lparr>hclock := 329\<rparr>)) ''m'' ''v'' = (False, Reachable (db3\<lparr>hclock := 329\<rparr>))"
proof -
  obtain db1 where fail: "mark_failed id example_store 0 (Reachable empty_health) ''m'' ''w'' (ModelFailure ''rate_limited'' [] True) = Reachable db1"
    by (auto simp: mark_failed_def ModelFailure_def Let_def)
  let ?db2 = "db1\<lparr>hclock := 300\<rparr>"
  have db1: "hclock db1 = 0" "hv db1 (probe_key id example_store ''m'') = None" "\<exists>v. v \<noteq> [] \<and> hv db1 (failure_key id example_store ''m'') = Some (v, 86400)"
    "\<exists>v. hv db1 (cooldown_key id example_store ''m'') = Some (v, 300)"
    using fail by (auto simp: mark_failed_def ModelFailure_def Let_def h_defs empty_health_def split: if_splits)
  then obtain db3 where probe: "candidate_allowed id example_store (Reachable ?db2) ''m'' ''w'' = (True, Reachable db3)" "hclock db3 = 300"
    by (auto simp: candidate_allowed_def h_defs)
  have s2: "(health_step id example_store ''m'' {})\<^sup>*\<^sup>* db1 ?db2" using hs_tick [of 300 id example_store "''m''" "{}" db1] db1(1) by (simp add: r_into_rtranclp)
  have s4: "(health_step id example_store ''m'' {''w''})\<^sup>*\<^sup>* db3 (db3\<lparr>hclock := 329\<rparr>)"
    using hs_tick [of 29 id example_store "''m''" "{''w''}" db3] probe(2) by (simp add: r_into_rtranclp)
  from single_probe [OF fail _ _ s2 probe(1) _ _ _ s4, of "''v''"] fail probe show ?thesis
    using db1 by (simp add: ModelFailure_def empty_health_def h_get_def)
qed

definition example_context :: "nat llm_context" where
  "example_context = \<lparr>acompletion = (\<lambda>n m. if m = ''a'' then Inl (Text_Error ''402'') else Inr 7), meanwhile = (\<lambda>n cl. cl), time_of = int,
     response_validator = None, failure_classifier = classify_model_failure, api_key = []\<rparr>"

lemma example_failover:
  "\<exists>oc. completion_with_failover id example_store example_context ''w'' [''a'', ''b''] None None No_Redis = (oc, 2, No_Redis) \<and> oc_response oc = Some 7 \<and> oc_model oc = Some ''b''"
proof -
  have s: "strip ''a'' = ''a''" "strip ''b'' = ''b''" by (simp_all add: strip_def lstrip_def is_space_def)
  have "status_code (Text_Error ''402'') = Some 402" by (simp add: is_digit_def parse_nat_def digit_value_def)
  then have c: "classify_model_failure (Text_Error ''402'') = ModelFailure ''quota_exceeded'' ''402'' True"
    by (simp add: classify_model_failure_def Let_def)
  show ?thesis
    by (simp add: completion_with_failover_def call_candidates_def ordered_candidates_def s candidate_allowed_def SAME_MODEL_ATTEMPTS_def
        numeral_3_eq_3 example_context_def call_failure_def c DIRECT_FAILOVER_CODES_def mark_failed_def mark_succeeded_def Let_def)
      (simp add: ModelFailure_def)
qed

theorem first_accepted_answer_witness:
  "\<exists>oc before rest n1 cl1 k. completion_with_failover id example_store example_context ''w'' [''a'', ''b''] None None No_Redis = (oc, 2, No_Redis) \<and>
     call_candidates [''a'', ''b''] None None = before @ ''b'' # rest \<and> passed_over id example_store example_context ''w'' before 0 No_Redis n1 cl1 \<and>
     answered example_context ''b'' n1 k 7"
proof -
  obtain oc where run: "completion_with_failover id example_store example_context ''w'' [''a'', ''b''] None None No_Redis = (oc, 2, No_Redis)"
    "oc_response oc = Some 7" "oc_model oc = Some ''b''" using example_failover by blast
  from first_accepted_answer [OF run(1)] run(2,3) obtain before rest n1 cl1 k where
    "call_candidates [''a'', ''b''] None None = before @ ''b'' # rest" "passed_over id example_store example_context ''w'' before 0 No_Redis n1 cl1"
    "answered example_context ''b'' n1 k 7" by auto
  with run(1) show ?thesis by blast
qed

end
