(* ===== verification/Spec2Isabelle.thy ===== *)
theory Spec2Isabelle
  imports Git_Effects Session Pipeline_Policy Script_Types Scheduler Repair_Rollback Checkpoint Model_Failover
begin

text \<open>
  A verification library for the distributed runtime of mr-agent: the Redis broker and what works
  on it (\<open>src/pr_agent/distributed\<close>), the policies of a pipeline repair (\<open>src/pr_agent/triage\<close>) and
  the bookkeeping of the repair agent (\<open>src/ut_agent\<close>).

  \<^bold>\<open>The program.\<close> Web hooks and chat commands become tasks. \<open>RedisBroker\<close> (\<open>broker.py\<close>) stores each
  task as a Redis hash and queues it on a stream; a scheduler (\<open>scheduler.py\<close>) hands it to a worker
  over the worker's inbox; the worker runs it in the session of its merge request (\<open>session.py\<close>)
  under a lease with a fencing token. Writes to GitLab go through guards that make them happen at
  most once (\<open>effects.py\<close>). A triage task excludes the other work on its merge request, pauses the
  automatic workflow there, and may wait for a pipeline. A repair records its commits in a
  manifest and can be taken back. All shared state is in Redis, and nearly every change of it is a
  Lua script, which Redis runs atomically.

  \<^bold>\<open>How the code is modelled.\<close>
  \<^item> Redis is a record: a map from keys to typed values, deadlines in milliseconds, and a clock
    (\<open>Redis_Store\<close>). A Lua script is a function from the keyspace and its arguments to an optional
    reply and keyspace; \<open>None\<close> is a script error, as for a command on a key of the wrong type. The
    writes a failing script made before its error are not modelled: what is shown of scripts is
    shown for keyspaces in which every key has its type (\<open>well_typed\<close>), where the modelled scripts
    do not fail on types (\<open>Script_Types\<close>).
  \<^item> Keys are constructors, one per method of \<open>RedisKeys\<close>; \<open>Redis_Keys\<close> renders them as the names
    the code writes and shows that the rendering can be read back. The checkpoint store and the
    model health store, which have key names of their own, are indexed by those names.
  \<^item> A broker method is a function that returns its value or the exception (\<open>Inr\<close>, \<open>Inl\<close>) and the
    keyspace. A pure Python function returns an option where it can raise.
  \<^item> Strings are byte strings in UTF-8; where the code cuts at a number of characters, characters are
    counted (\<open>char_len\<close> and \<open>take_chars\<close> of \<open>Prelude\<close>). JSON is read and written as text by \<open>Json_Text\<close>, with the
    escapes of Python and of lua-cjson; the round trip is proved once in a locale for any such
    writer. A float is its lexeme. The parser has fuel, the length of its input, which
    \<open>loads_print\<close> shows to be enough for every text the writers make.
  \<^item> Timestamps are whole seconds. SHA-256, \<open>uuid4\<close>, the reader of ISO times, GitLab, Git, LangGraph,
    the language models and the settings are arguments; where a theorem needs something of them it
    is a hypothesis, with an instance in the witness.
  \<^item> Loops are structural recursions. The one that is not, the walk over child pipelines
    (\<open>collect_from\<close> in \<open>Pipeline_Policy\<close>), has fuel 22: the code stops below a pipeline once more
    than twenty are visited, so at most 21 are; \<open>collect_failed_jobs_terminates\<close> shows that the fuel
    never runs out.

  \<^bold>\<open>The theories.\<close>
  \<^item> \<open>Prelude\<close>: collections of simplification rules, decimal numerals, Python string functions.
  \<^item> \<open>Json_Text\<close>, \<open>Models\<close> (\<open>models.py\<close>): JSON and the wire records with their readers and writers.
  \<^item> \<open>Redis_Keys\<close>, \<open>Redis_Store\<close>: key names, commands, typed views of the keyspace.
  \<^item> \<open>Lease\<close>: claim, renew, release, revoke and assert of the lease of a merge request. The locale
    \<open>fenced_resource\<close> says what fencing promises; it is interpreted on the scripts and gives that a
    token which was lost never comes back.
  \<^item> \<open>Effects\<close>, \<open>Git_Effects\<close> (\<open>effects.py\<close>): the effect scripts, the guards and the idempotent Git
    provider; at most one execution of an action, at most one comment with a marker over
    any history of attempts as long as no listing fails silently, the length of a marked comment.
  \<^item> \<open>Lifecycle\<close> (\<open>lifecycle.py\<close>): telemetry events and the durations read off them.
  \<^item> \<open>Tasks\<close>: the state machine of a stored task as a step relation over the scripts: ended tasks
    stay ended, recoveries are bounded by the retry limit; the worker registry and leadership.
  \<^item> \<open>Pipeline_Wait\<close>: waiting for pipelines; an event that comes before or after the wait is
    registered under an attempt id wakes the task, and one worker claims the resumption.
  \<^item> \<open>Admission\<close>, \<open>Auto_Triage\<close>: the admission of tasks with deduplication and the triage gate, the
    pause and resumption of automatic workflows, the repair of gates.
  \<^item> \<open>Session\<close>: the asyncio condition of a merge request, with its queue of sleeping runs and
    \<open>notify_all\<close>, as an interleaving of runs over their suspension points; exclusion, progress
    without lost wake-ups, and the histories in which they fail.
  \<^item> \<open>Streams\<close>: consumer groups; a message is pending until it is acknowledged and can be read again.
  \<^item> \<open>Script_Types\<close>: the scripts of leases, effects, task states, notifications and automatic
    workflows meet and leave a well typed keyspace.
  \<^item> \<open>Stored_Task\<close>, \<open>Scheduler\<close> (\<open>scheduler.py\<close>): reading a task back, choosing a worker, handing out
    tasks and reports; no queued task loses its message.
  \<^item> \<open>Repair_Ledger\<close> (\<open>execution_ledger.py\<close>, \<open>push_attempt.py\<close>, \<open>repair_coordinator.py\<close>): what an
    agent run did, the identity and recovery of push attempts, and the guard before a run may
    end, against an independent specification of the newest commit and of what verifies it.
  \<^item> \<open>Repair_Manifest\<close> (\<open>repair_rollback.py\<close>): the commits of a repair. An append and a freeze on
    records is the specification, and the scripts on JSON text refine it.
  \<^item> \<open>Repair_Rollback\<close>: the scripts that admit and complete the rollback of a repair.
  \<^item> \<open>Repair_Categories\<close>, \<open>Pipeline_Policy\<close> (\<open>failure_categories.py\<close>, \<open>repair_outcome.py\<close>,
    \<open>pipeline_freshness.py\<close>, \<open>pipeline_completion.py\<close> and others): the verdicts on failed jobs,
    repairs and pipelines.
  \<^item> \<open>Checkpoint\<close> (\<open>checkpoint.py\<close>): the checkpoint saver; what is put is read back and is the
    latest, everything the index names can be read, deletion is exact; the asynchronous methods
    do the same as the synchronous ones.
  \<^item> \<open>Model_Failover\<close> (\<open>model_failover.py\<close>, \<open>llm.py\<close>): the shared circuit breaker of the models and the
    loop over the candidates, against an inductive specification of the candidates it passes over.

  \<^bold>\<open>What is idealised.\<close> A method of the broker or of the scheduler that sends several commands runs
  without other clients between them, unless a step relation says otherwise (\<open>Session\<close>, the
  histories of \<open>Lease\<close>, \<open>Tasks\<close>, \<open>Streams\<close>, \<open>Checkpoint\<close> and \<open>Model_Failover\<close> interleave whole
  methods or scripts). \<open>XAUTOCLAIM\<close> scans ten times its count. The two nested documents that
  \<open>get_task\<close> decodes are accepted or refused by a parameter. Regular expressions that clean log
  texts are not modelled, and neither is Unicode beyond the counting of characters: case and white space are ASCII.

  \<^bold>\<open>Not modelled.\<close> The presentation state of cards, final reports and post-repair unit tests in
  \<open>broker.py\<close>, with the methods of the scheduler and of the rollback that mostly build cards and
  notifications; the worker process and its executors, which are I/O around the modelled calls;
  web servers, chat clients, dashboards and SQL stores; the review tools and their prompts; the Git
  providers; the agent's tools on a working tree. They hold little state of their own besides
  databases and files, and what they ask of the runtime goes through the operations above.
\<close>

section \<open>Properties\<close>

text \<open>
  C1: a fencing token that was issued for a merge request and is not held any more is
  never held again, whatever sequence of claims, renewals, releases, revocations, key
  expiries and unrelated operations follows.
\<close>

theorem stale_fence_never_revives:
  assumes "(lease_step m)\<^sup>*\<^sup>* db db'" "lease_ok m db" "n \<le> fence_of db m"
    and "\<And>w. holder_of db m \<noteq> Some (w, show_int n)"
  shows "holder_of db' m \<noteq> Some (w, show_int n)"
  using mr_fence.stale_token_stays_stale [OF assms] .

text \<open>The lease of a merge request whose first token was issued and released, claimed by a second worker.\<close>

definition released_once :: redis where
  "released_once = put empty_redis (K_mr_fence example_mr) (RStr (show_int 1))"

lemma released_once_ok: "lease_ok example_mr released_once" "fence_of released_once example_mr = 1"
  "\<not> exists_key released_once (K_mr_lease example_mr)"
proof -
  show "\<not> exists_key released_once (K_mr_lease example_mr)" by (simp add: released_once_def view_simps)
  then show "lease_ok example_mr released_once"
    by (simp add: lease_ok_def lease_inv_def released_once_def view_simps redis_simps well_typed_put)
  show "fence_of released_once example_mr = 1" by (simp add: fence_of_def released_once_def view_simps)
qed

theorem stale_fence_never_revives_witness:
  "\<exists>db. CLAIM_MR_LUA released_once (K_mr_lease example_mr) (K_mr_fence example_mr) ''w2'' 500 = Some ((Some ''w2'', Some (show_int 2)), db) \<and>
     (\<forall>w. holder_of db example_mr \<noteq> Some (w, show_int 1))"
proof -
  obtain db where claim: "CLAIM_MR_LUA released_once (K_mr_lease example_mr) (K_mr_fence example_mr) ''w2'' 500 =
      Some ((Some ''w2'', Some (show_int 2)), db)"
    using claim_fresh [OF released_once_ok(1,3), of "''w2''" 500] released_once_ok(2) by auto
  then have "(lease_step example_mr)\<^sup>*\<^sup>* released_once db" by (blast intro: ls_claim)
  then have "holder_of db example_mr \<noteq> Some (w, show_int 1)" for w
    by (rule stale_fence_never_revives) (simp_all add: released_once_ok holder_absent)
  with claim show ?thesis by blast
qed

end
